(* ===== verification/Prelude.thy ===== *)
theory Prelude
  imports Main "HOL-Library.Word"
begin

text \<open>
  Shared by every theory of the development: the machine integer types of
  \<^verbatim>\<open>src/book/types.h\<close>, the values that stand for thrown exceptions and
  undefined behaviour, the result type of the operations that can fail, the collections
  the component theories fill, and the lemmas on words and lists they all use.
\<close>

unbundle bit_operations_syntax

section \<open>Collections\<close>

named_theorems book_simps \<open>projections and frame facts of the order book\<close>
named_theorems depth_simps \<open>projections and frame facts of the depth\<close>

section \<open>Integer types and constants of types.h\<close>

type_synonym price = "32 word"
type_synonym quantity = "32 word"
type_synonym cost = "32 word"
type_synonym fill_id = "32 word"
type_synonym change_id = "32 word"
type_synonym order_conditions = "32 word"

text \<open>A signed 32-bit value is the word that holds it; \<^const>\<open>sint\<close> reads it.\<close>

type_synonym int32 = "32 word"

definition MARKET_ORDER_PRICE :: price where
  "MARKET_ORDER_PRICE = 0"

definition PRICE_UNCHANGED :: price where
  "PRICE_UNCHANGED = 0"

definition SIZE_UNCHANGED :: int32 where
  "SIZE_UNCHANGED = 0"

text \<open>The smallest value, the only one whose negation does not fit.\<close>

definition INT32_MIN :: int32 where
  "INT32_MIN = 2147483648"

definition UINT32_MAX :: "32 word" where
  "UINT32_MAX = 4294967295"

definition oc_no_conditions :: order_conditions where
  "oc_no_conditions = 0"

definition oc_all_or_none :: order_conditions where
  "oc_all_or_none = 1"

definition oc_immediate_or_cancel :: order_conditions where
  "oc_immediate_or_cancel = push_bit 1 oc_all_or_none"

definition oc_fill_or_kill :: order_conditions where
  "oc_fill_or_kill = oc_all_or_none OR oc_immediate_or_cancel"

definition oc_stop :: order_conditions where
  "oc_stop = push_bit 1 oc_immediate_or_cancel"

lemmas oc_defs = oc_no_conditions_def oc_all_or_none_def oc_immediate_or_cancel_def
  oc_fill_or_kill_def oc_stop_def

section \<open>Failing operations\<close>

text \<open>
  A C++ exception of the program is a \<^verbatim>\<open>std::runtime_error\<close> with its message. The use
  of an iterator whose node has been erased, and of a pointer past the end of an array, is
  undefined behaviour; it is the value \<open>Invalid_iterator\<close> or \<open>Out_of_bounds\<close>, so that its
  absence is something to prove. So is the conversion of a \<^verbatim>\<open>double\<close> to an integer type that does
  not have its value: \<open>Bad_conversion\<close>.
\<close>

datatype exn = Runtime_error string | Invalid_iterator | Out_of_bounds | Bad_conversion

type_synonym 'a result = "exn + 'a"

fun rbind :: "'a result \<Rightarrow> ('a \<Rightarrow> 'b result) \<Rightarrow> 'b result" where
  "rbind (Inl e) f = Inl e"
| "rbind (Inr x) f = f x"

lemma rbind_eq_Inr [simp]: "rbind m f = Inr y \<longleftrightarrow> (\<exists>x. m = Inr x \<and> f x = Inr y)"
  by (cases m) auto

lemma rbind_eq_Inl: "rbind m f = Inl e \<longleftrightarrow> m = Inl e \<or> (\<exists>x. m = Inr x \<and> f x = Inl e)"
  by (cases m) auto

lemma rbind_cong [fundef_cong]:
  "m = m' \<Longrightarrow> (\<And>x. m' = Inr x \<Longrightarrow> f x = f' x) \<Longrightarrow> rbind m f = rbind m' f'"
  by (cases m') auto

text \<open>
  An operation that keeps the state it has built when it throws returns the exception, if
  any, beside the state.
\<close>

type_synonym 's effect = "'s \<Rightarrow> exn option \<times> 's"

definition eff_then :: "'s effect \<Rightarrow> 's effect \<Rightarrow> 's effect" where
  "eff_then f g s = (case f s of (Some e, s') \<Rightarrow> (Some e, s') | (None, s') \<Rightarrow> g s')"

definition eff_skip :: "'s effect" where
  "eff_skip s = (None, s)"

lemma eff_then_None [simp]: "f s = (None, s') \<Longrightarrow> eff_then f g s = g s'"
  by (simp add: eff_then_def)

lemma eff_then_Some [simp]: "f s = (Some e, s') \<Longrightarrow> eff_then f g s = (Some e, s')"
  by (simp add: eff_then_def)

lemma eff_skip_apply [simp]: "eff_skip s = (None, s)"
  by (simp add: eff_skip_def)

section \<open>Words\<close>

lemma sint_neg:
  fixes d :: int32
  shows "sint (- d) = (if d = INT32_MIN then sint d else - sint d)"
proof -
  have r: "- (2 ^ 31) \<le> sint d" "sint d < 2 ^ 31"
    using sint_ge [of d] sint_lt [of d] by simp_all
  have w: "- d = word_of_int (- sint d)" by simp
  have e: "sint (- d) = signed_take_bit 31 (- sint d)"
    by (subst w) (simp only: sint_sbintrunc', simp)
  have m: "d = INT32_MIN \<longleftrightarrow> sint d = - (2 ^ 31)"
  proof
    assume "sint d = - (2 ^ 31)"
    then have "(word_of_int (sint d) :: int32) = word_of_int (- (2 ^ 31))" by simp
    then show "d = INT32_MIN" by (simp add: INT32_MIN_def)
  qed (simp add: INT32_MIN_def)
  show ?thesis
  proof (cases "d = INT32_MIN")
    case False
    then have "sint d \<noteq> - (2 ^ 31)" using m by simp
    then have "- (2 ^ 31) \<le> - sint d" "- sint d < 2 ^ 31" using r by linarith+
    then have "signed_take_bit 31 (- sint d) = - sint d" by (rule signed_take_bit_int_eq_self)
    then show ?thesis using e False by simp
  qed (simp add: INT32_MIN_def)
qed

lemma unat_sub_le: "(b :: 'a::len word) \<le> a \<Longrightarrow> unat (a - b) = unat a - unat b"
  by (rule unat_sub)

lemma unat_sub_add: "(b :: 'a::len word) \<le> a \<Longrightarrow> unat (a - b) + unat b = unat a"
  by (simp add: unat_sub word_le_nat_alt)

lemma unat_32_less: "unat (w :: 32 word) < 4294967296"
proof -
  have "unat w < 2 ^ LENGTH(32)" by (rule unsigned_less)
  then show ?thesis by simp
qed

lemma le_UINT32_MAX [simp]: "w \<le> UINT32_MAX"
proof -
  have "unat w \<le> 4294967295" using unat_32_less [of w] by simp
  then show ?thesis by (simp add: UINT32_MAX_def word_le_nat_alt)
qed

lemma min_UINT32_MAX [simp]: "min UINT32_MAX w = w"
  by (simp add: min_absorb2)

lemma unat_min: "unat (min a b) = min (unat a) (unat (b :: 'a::len word))"
  by (simp add: min_def word_le_nat_alt)

lemma word_gt_0_unat: "0 < (a :: 'a::len word) \<longleftrightarrow> 0 < unat a"
  by (simp add: word_less_nat_alt)

lemma unat_add_no_wrap:
  "unat a + unat b < 2 ^ LENGTH('a) \<Longrightarrow> unat (a + b) = unat a + unat (b :: 'a::len word)"
  by (simp add: unat_word_ariths)

end
