(* ===== verification/Containers.thy ===== *)
theory Containers
  imports Prelude "HOL-Library.Multiset"
begin

text \<open>
  The standard containers the book keeps its orders and levels in. A
  \<^verbatim>\<open>std::multimap\<close> is the list of its nodes in iteration order; every node has an
  identity, which is what an iterator holds: it survives the insertion and removal of other
  nodes. A \<^verbatim>\<open>std::map\<close> is the list of its pairs in key order. Both take the comparison
  as an argument; the locale \<open>container_order\<close> is the contract the standard puts on it, and
  the facts that rest on it are proved there once for every container of the program.
\<close>

section \<open>Multimaps\<close>

record ('k, 'v) node =
  nd_id :: nat
  nd_key :: 'k
  nd_val :: 'v

type_synonym ('k, 'v) multimap = "('k, 'v) node list"

text \<open>An insertion goes behind all nodes with an equivalent key (the upper bound).\<close>

fun mm_insert :: "('k \<Rightarrow> 'k \<Rightarrow> bool) \<Rightarrow> ('k, 'v) node \<Rightarrow> ('k, 'v) multimap \<Rightarrow> ('k, 'v) multimap" where
  "mm_insert lt x [] = [x]"
| "mm_insert lt x (n # ns) =
     (if lt (nd_key x) (nd_key n) then x # n # ns else n # mm_insert lt x ns)"

text \<open>
  The position \<^verbatim>\<open>find\<close> returns, as the nodes from it to the end: the first node with an
  equivalent key, or the end. (The standard lets \<^verbatim>\<open>find\<close> return any of the equivalent
  nodes; the library implementations return the first.)
\<close>

definition mm_find :: "('k \<Rightarrow> 'k \<Rightarrow> bool) \<Rightarrow> 'k \<Rightarrow> ('k, 'v) multimap \<Rightarrow> ('k, 'v) multimap" where
  "mm_find lt k m =
     (case dropWhile (\<lambda>n. lt (nd_key n) k) m of
        [] \<Rightarrow> []
      | n # ns \<Rightarrow> if lt k (nd_key n) then [] else n # ns)"

definition mm_get :: "nat \<Rightarrow> ('k, 'v) multimap \<Rightarrow> ('k, 'v) node result" where
  "mm_get i m = (case find (\<lambda>n. nd_id n = i) m of None \<Rightarrow> Inl Invalid_iterator | Some n \<Rightarrow> Inr n)"

definition mm_erase :: "nat \<Rightarrow> ('k, 'v) multimap \<Rightarrow> ('k, 'v) multimap" where
  "mm_erase i m = filter (\<lambda>n. nd_id n \<noteq> i) m"

definition mm_put :: "nat \<Rightarrow> 'v \<Rightarrow> ('k, 'v) multimap \<Rightarrow> ('k, 'v) multimap" where
  "mm_put i v m = map (\<lambda>n. if nd_id n = i then n\<lparr>nd_val := v\<rparr> else n) m"

definition mm_sorted :: "('k \<Rightarrow> 'k \<Rightarrow> bool) \<Rightarrow> ('k, 'v) multimap \<Rightarrow> bool" where
  "mm_sorted lt m = sorted_wrt (\<lambda>a b. \<not> lt (nd_key b) (nd_key a)) m"

definition mm_ids :: "('k, 'v) multimap \<Rightarrow> nat list" where
  "mm_ids m = map nd_id m"

subsection \<open>Facts that need no law of the comparison\<close>

lemma mm_ids_simps [simp]:
  "mm_ids [] = []" "mm_ids (n # ns) = nd_id n # mm_ids ns" "mm_ids (m @ m') = mm_ids m @ mm_ids m'"
  by (simp_all add: mm_ids_def)

lemma mm_ids_mem: "n \<in> set m \<Longrightarrow> nd_id n \<in> set (mm_ids m)"
  by (simp add: mm_ids_def)

lemma set_mm_insert [simp]: "set (mm_insert lt x m) = insert x (set m)"
  by (induction m) auto

lemma length_mm_insert [simp]: "length (mm_insert lt x m) = Suc (length m)"
  by (induction m) auto

lemma distinct_mm_insert:
  "distinct (mm_ids (mm_insert lt x m)) \<longleftrightarrow> nd_id x \<notin> set (mm_ids m) \<and> distinct (mm_ids m)"
proof -
  have "mset (mm_ids (mm_insert lt x m)) = add_mset (nd_id x) (mset (mm_ids m))"
    by (induction m) (auto simp: mm_ids_def)
  then show ?thesis
    by (metis distinct.simps(2) mset_eq_imp_distinct_iff mset.simps(2))
qed

lemma mm_insert_split:
  "\<exists>pre post. m = pre @ post \<and> mm_insert lt x m = pre @ x # post \<and>
     (\<forall>n \<in> set pre. \<not> lt (nd_key x) (nd_key n)) \<and>
     (post \<noteq> [] \<longrightarrow> lt (nd_key x) (nd_key (hd post)))"
proof (induction m)
  case Nil
  show ?case by simp
next
  case (Cons n m)
  show ?case
  proof (cases "lt (nd_key x) (nd_key n)")
    case True
    then show ?thesis by (intro exI [of _ "[]"] exI [of _ "n # m"]) simp
  next
    case False
    from Cons obtain pre post where "m = pre @ post" "mm_insert lt x m = pre @ x # post"
      "\<forall>n \<in> set pre. \<not> lt (nd_key x) (nd_key n)"
      "post \<noteq> [] \<longrightarrow> lt (nd_key x) (nd_key (hd post))" by blast
    with False show ?thesis by (intro exI [of _ "n # pre"] exI [of _ post]) simp
  qed
qed

lemma mm_get_Inr_iff:
  "mm_get i m = Inr n \<Longrightarrow> n \<in> set m \<and> nd_id n = i"
  by (auto simp: mm_get_def find_Some_iff in_set_conv_nth split: option.splits)

lemma mm_get_in: "i \<in> set (mm_ids m) \<Longrightarrow> \<exists>n. mm_get i m = Inr n"
  by (auto simp: mm_get_def mm_ids_def find_None_iff split: option.splits)

lemma mm_get_notin: "i \<notin> set (mm_ids m) \<Longrightarrow> mm_get i m = Inl Invalid_iterator"
  by (auto simp: mm_get_def mm_ids_def find_Some_iff split: option.splits)

lemma mm_get_Cons:
  "mm_get i (n # m) = (if nd_id n = i then Inr n else mm_get i m)"
  by (simp add: mm_get_def)

lemma mm_get_split:
  "mm_get i m = Inr n \<Longrightarrow>
     \<exists>pre post. m = pre @ n # post \<and> i \<notin> set (mm_ids pre) \<and> nd_id n = i"
proof (induction m)
  case Nil
  then show ?case by (simp add: mm_get_def)
next
  case (Cons x m)
  show ?case
  proof (cases "nd_id x = i")
    case True
    with Cons.prems show ?thesis by (intro exI [of _ "[]"] exI [of _ m]) (simp add: mm_get_Cons)
  next
    case False
    with Cons obtain pre post where "m = pre @ n # post" "i \<notin> set (mm_ids pre)" "nd_id n = i"
      by (auto simp: mm_get_Cons)
    with False show ?thesis by (intro exI [of _ "x # pre"] exI [of _ post]) auto
  qed
qed

lemma mm_erase_notin [simp]: "i \<notin> set (mm_ids m) \<Longrightarrow> mm_erase i m = m"
  by (auto simp: mm_erase_def mm_ids_def filter_id_conv)

lemma mm_erase_append [simp]: "mm_erase i (m @ m') = mm_erase i m @ mm_erase i m'"
  by (simp add: mm_erase_def)

lemma mm_erase_Cons: "mm_erase i (n # m) = (if nd_id n = i then mm_erase i m else n # mm_erase i m)"
  by (simp add: mm_erase_def)

lemma mm_put_notin [simp]: "i \<notin> set (mm_ids m) \<Longrightarrow> mm_put i v m = m"
  by (induction m) (auto simp: mm_put_def)

lemma mm_put_append [simp]: "mm_put i v (m @ m') = mm_put i v m @ mm_put i v m'"
  by (simp add: mm_put_def)

lemma mm_put_Cons:
  "mm_put i v (n # m) = (if nd_id n = i then n\<lparr>nd_val := v\<rparr> else n) # mm_put i v m"
  by (simp add: mm_put_def)

lemma mm_ids_put [simp]: "mm_ids (mm_put i v m) = mm_ids m"
  by (simp add: mm_ids_def mm_put_def)

lemma keys_put [simp]: "map nd_key (mm_put i v m) = map nd_key m"
  by (simp add: mm_put_def)

lemma set_ids_erase [simp]: "set (mm_ids (mm_erase i m)) = set (mm_ids m) - {i}"
  by (auto simp: mm_ids_def mm_erase_def)

lemma distinct_ids_erase: "distinct (mm_ids m) \<Longrightarrow> distinct (mm_ids (mm_erase i m))"
  by (simp add: mm_ids_def mm_erase_def distinct_map_filter)

lemma mm_sorted_simps [simp]:
  "mm_sorted lt []"
  "mm_sorted lt (n # m) \<longleftrightarrow> (\<forall>n' \<in> set m. \<not> lt (nd_key n') (nd_key n)) \<and> mm_sorted lt m"
  by (simp_all add: mm_sorted_def)

lemma mm_sorted_append:
  "mm_sorted lt (m @ m') \<longleftrightarrow> mm_sorted lt m \<and> mm_sorted lt m' \<and>
     (\<forall>a \<in> set m. \<forall>b \<in> set m'. \<not> lt (nd_key b) (nd_key a))"
  by (simp add: mm_sorted_def sorted_wrt_append)

lemma mm_sorted_keys:
  "map nd_key m = map nd_key m' \<Longrightarrow> mm_sorted lt m = mm_sorted lt m'"
proof -
  have "mm_sorted lt m = sorted_wrt (\<lambda>a b. \<not> lt b a) (map nd_key m)" for m :: "('a, 'b) multimap"
    by (simp add: mm_sorted_def sorted_wrt_map)
  moreover have "mm_sorted lt m' = sorted_wrt (\<lambda>a b. \<not> lt b a) (map nd_key m')"
    by (simp add: mm_sorted_def sorted_wrt_map)
  ultimately show "map nd_key m = map nd_key m' \<Longrightarrow> mm_sorted lt m = mm_sorted lt m'" by simp
qed

lemma mm_sorted_put [simp]: "mm_sorted lt (mm_put i v m) = mm_sorted lt m"
  by (rule mm_sorted_keys) simp

lemma mm_sorted_erase: "mm_sorted lt m \<Longrightarrow> mm_sorted lt (mm_erase i m)"
  by (simp add: mm_sorted_def mm_erase_def sorted_wrt_filter)

section \<open>Maps\<close>

type_synonym ('k, 'v) omap = "('k \<times> 'v) list"

text \<open>\<^verbatim>\<open>std::map::insert\<close> leaves an existing pair with an equivalent key alone.\<close>

fun om_insert :: "('k \<Rightarrow> 'k \<Rightarrow> bool) \<Rightarrow> 'k \<Rightarrow> 'v \<Rightarrow> ('k, 'v) omap \<Rightarrow> ('k, 'v) omap" where
  "om_insert lt k v [] = [(k, v)]"
| "om_insert lt k v ((k', v') # m) =
     (if lt k k' then (k, v) # (k', v') # m
      else if lt k' k then (k', v') # om_insert lt k v m
      else (k', v') # m)"

lemma om_set_insert: "set (om_insert lt k v m) \<subseteq> insert (k, v) (set m)"
  by (induction lt k v m rule: om_insert.induct) auto

definition om_erase :: "'k \<Rightarrow> ('k, 'v) omap \<Rightarrow> ('k, 'v) omap" where
  "om_erase k m = filter (\<lambda>p. fst p \<noteq> k) m"

definition om_put :: "'k \<Rightarrow> 'v \<Rightarrow> ('k, 'v) omap \<Rightarrow> ('k, 'v) omap" where
  "om_put k v m = map (\<lambda>p. if fst p = k then (k, v) else p) m"

definition om_sorted :: "('k \<Rightarrow> 'k \<Rightarrow> bool) \<Rightarrow> ('k, 'v) omap \<Rightarrow> bool" where
  "om_sorted lt m = sorted_wrt lt (map fst m)"

lemma om_sorted_simps [simp]:
  "om_sorted lt []"
  "om_sorted lt (p # m) \<longleftrightarrow> (\<forall>q \<in> set m. lt (fst p) (fst q)) \<and> om_sorted lt m"
  by (simp_all add: om_sorted_def)

lemma om_sorted_erase: "om_sorted lt m \<Longrightarrow> om_sorted lt (om_erase k m)"
  by (induction m) (auto simp: om_erase_def)

lemma om_keys_put [simp]: "map fst (om_put k v m) = map fst m"
  by (auto simp: om_put_def)

lemma om_sorted_put [simp]: "om_sorted lt (om_put k v m) = om_sorted lt m"
  by (simp add: om_sorted_def)

section \<open>The contract of the comparison\<close>

text \<open>
  The standard asks for a strict weak order on the keys a container holds; \<open>valid\<close> says
  which keys those are (the prices of one side of the market).
\<close>

locale container_order =
  fixes lt :: "'k \<Rightarrow> 'k \<Rightarrow> bool"
    and valid :: "'k \<Rightarrow> bool"
  assumes lt_irrefl: "valid a \<Longrightarrow> \<not> lt a a"
    and lt_trans: "valid a \<Longrightarrow> valid b \<Longrightarrow> valid c \<Longrightarrow> lt a b \<Longrightarrow> lt b c \<Longrightarrow> lt a c"
    and lt_negtrans:
      "valid a \<Longrightarrow> valid b \<Longrightarrow> valid c \<Longrightarrow> \<not> lt b a \<Longrightarrow> \<not> lt c b \<Longrightarrow> \<not> lt c a"
begin

lemma lt_asym: "valid a \<Longrightarrow> valid b \<Longrightarrow> lt a b \<Longrightarrow> \<not> lt b a"
  using lt_trans lt_irrefl by blast

lemma sorted_insert:
  assumes "valid (nd_key x)" "\<forall>n \<in> set m. valid (nd_key n)" "mm_sorted lt m"
  shows "mm_sorted lt (mm_insert lt x m)"
  using assms
proof (induction m)
  case Nil
  then show ?case by simp
next
  case (Cons n m)
  have vn: "valid (nd_key n)" and vm: "\<forall>n \<in> set m. valid (nd_key n)" using Cons.prems by auto
  show ?case
  proof (cases "lt (nd_key x) (nd_key n)")
    case True
    then have "\<not> lt (nd_key n') (nd_key x)" if "n' \<in> set (n # m)" for n'
      using that Cons.prems vn vm lt_asym lt_negtrans lt_trans
      by (metis list.set_intros(1) mm_sorted_simps(2) set_ConsD)
    with True Cons.prems show ?thesis by auto
  next
    case False
    with Cons vn vm show ?thesis by auto
  qed
qed

text \<open>
  First in, first out among equivalent keys: an insertion goes behind every node that does
  not have a strictly greater key and before every node that has one.
\<close>

lemma insert_position:
  assumes "valid (nd_key x)" "\<forall>n \<in> set m. valid (nd_key n)" "mm_sorted lt m"
  obtains pre post where "m = pre @ post" "mm_insert lt x m = pre @ x # post"
    "\<forall>n \<in> set pre. \<not> lt (nd_key x) (nd_key n)" "\<forall>n \<in> set post. lt (nd_key x) (nd_key n)"
proof -
  obtain pre post where p: "m = pre @ post" "mm_insert lt x m = pre @ x # post"
    "\<forall>n \<in> set pre. \<not> lt (nd_key x) (nd_key n)"
    "post \<noteq> [] \<longrightarrow> lt (nd_key x) (nd_key (hd post))"
    using mm_insert_split by blast
  have "\<forall>n \<in> set post. lt (nd_key x) (nd_key n)"
  proof (cases post)
    case Nil
    then show ?thesis by simp
  next
    case (Cons y ys)
    have "lt (nd_key x) (nd_key n)" if "n \<in> set ys" for n
    proof -
      have "\<not> lt (nd_key n) (nd_key y)" using that assms(3) p(1) Cons
        by (auto simp: mm_sorted_append)
      moreover have "lt (nd_key x) (nd_key y)" using p(4) Cons by simp
      moreover have "valid (nd_key n)" "valid (nd_key y)" using assms(2) that p(1) Cons by auto
      ultimately show ?thesis using assms(1) lt_negtrans by blast
    qed
    then show ?thesis using p(4) Cons by simp
  qed
  then show ?thesis using p that by blast
qed

lemma om_sorted_insert:
  assumes "valid k" "\<forall>p \<in> set m. valid (fst p)" "om_sorted lt m"
  shows "om_sorted lt (om_insert lt k v m)"
  using assms
proof (induction m)
  case Nil
  then show ?case by simp
next
  case (Cons p m)
  obtain k' v' where p: "p = (k', v')" by fastforce
  have v: "valid k'" "\<forall>p \<in> set m. valid (fst p)" using Cons.prems p by auto
  consider "lt k k'" | "\<not> lt k k'" "lt k' k" | "\<not> lt k k'" "\<not> lt k' k" by blast
  then show ?case
  proof cases
    case 1
    with Cons.prems p v show ?thesis by (auto dest: lt_trans)
  next
    case 2
    have "lt k' (fst q)" if "q \<in> set (om_insert lt k v m)" for q
      using that om_set_insert [of lt k v m] 2 Cons.prems p by auto
    with 2 Cons v p show ?thesis by auto
  next
    case 3
    with Cons.prems p show ?thesis by simp
  qed
qed

end

end
