(* ===== verification/Comparable_Price.thy ===== *)
theory Comparable_Price
  imports Containers
begin

text \<open>
  \<^verbatim>\<open>src/book/comparable_price.h\<close>: a price that knows its side of the market. Its
  \<open><\<close> is the order of the book's containers (most liquid first), its \<open>matches\<close> the
  test for a possible trade with a price of the other side. The laws of the order are the
  contract a \<^verbatim>\<open>std::multimap\<close> needs of its comparison, stated as the locale
  \<open>container_order\<close>.
\<close>

section \<open>The class\<close>

record comparable_price =
  cp_price :: price
  cp_buySide :: bool

definition ComparablePrice :: "bool \<Rightarrow> price \<Rightarrow> comparable_price" where
  "ComparablePrice buySide price = \<lparr>cp_price = price, cp_buySide = buySide\<rparr>"

definition matches :: "comparable_price \<Rightarrow> price \<Rightarrow> bool" where
  "matches k rhs =
     (if cp_price k = rhs then True
      else if cp_buySide k then rhs < cp_price k \<or> cp_price k = MARKET_ORDER_PRICE
      else cp_price k < rhs \<or> rhs = MARKET_ORDER_PRICE)"

definition cp_less_price :: "comparable_price \<Rightarrow> price \<Rightarrow> bool" where
  "cp_less_price k rhs =
     (if cp_price k = MARKET_ORDER_PRICE then rhs \<noteq> MARKET_ORDER_PRICE
      else if rhs = MARKET_ORDER_PRICE then False
      else if cp_buySide k then rhs < cp_price k
      else cp_price k < rhs)"

definition cp_eq_price :: "comparable_price \<Rightarrow> price \<Rightarrow> bool" where
  "cp_eq_price k rhs = (cp_price k = rhs)"

text \<open>
  The body is \<^verbatim>\<open>! price_ == rhs\<close>: the negation binds to \<^verbatim>\<open>price_\<close> alone, so its
  value is 1 for a market price and 0 otherwise, and that is what \<open>rhs\<close> is compared with.
\<close>

definition cp_neq_price :: "comparable_price \<Rightarrow> price \<Rightarrow> bool" where
  "cp_neq_price k rhs = ((if cp_price k = 0 then 1 else 0) = rhs)"

definition cp_greater_price :: "comparable_price \<Rightarrow> price \<Rightarrow> bool" where
  "cp_greater_price k rhs =
     (cp_price k \<noteq> MARKET_ORDER_PRICE \<and>
      (rhs = MARKET_ORDER_PRICE \<or>
       (if cp_buySide k then cp_price k < rhs else rhs < cp_price k)))"

definition cp_le_price :: "comparable_price \<Rightarrow> price \<Rightarrow> bool" where
  "cp_le_price k rhs = (cp_less_price k rhs \<or> cp_eq_price k rhs)"

definition cp_ge_price :: "comparable_price \<Rightarrow> price \<Rightarrow> bool" where
  "cp_ge_price k rhs = (cp_greater_price k rhs \<or> cp_eq_price k rhs)"

text \<open>The comparisons of two keys read only the price of the right one.\<close>

definition cp_less :: "comparable_price \<Rightarrow> comparable_price \<Rightarrow> bool" where
  "cp_less k rhs = cp_less_price k (cp_price rhs)"

definition cp_eq :: "comparable_price \<Rightarrow> comparable_price \<Rightarrow> bool" where
  "cp_eq k rhs = cp_eq_price k (cp_price rhs)"

definition cp_neq :: "comparable_price \<Rightarrow> comparable_price \<Rightarrow> bool" where
  "cp_neq k rhs = cp_neq_price k (cp_price rhs)"

definition cp_greater :: "comparable_price \<Rightarrow> comparable_price \<Rightarrow> bool" where
  "cp_greater k rhs = cp_greater_price k (cp_price rhs)"

definition isMarket :: "comparable_price \<Rightarrow> bool" where
  "isMarket k = (cp_price k = MARKET_ORDER_PRICE)"

text \<open>The free functions that take the price on the left.\<close>

definition price_less_cp :: "price \<Rightarrow> comparable_price \<Rightarrow> bool" where
  "price_less_cp p k = cp_greater_price k p"

definition price_greater_cp :: "price \<Rightarrow> comparable_price \<Rightarrow> bool" where
  "price_greater_cp p k = cp_less_price k p"

definition price_eq_cp :: "price \<Rightarrow> comparable_price \<Rightarrow> bool" where
  "price_eq_cp p k = cp_eq_price k p"

definition price_neq_cp :: "price \<Rightarrow> comparable_price \<Rightarrow> bool" where
  "price_neq_cp p k = cp_neq_price k p"

definition price_le_cp :: "price \<Rightarrow> comparable_price \<Rightarrow> bool" where
  "price_le_cp p k = cp_ge_price k p"

definition price_ge_cp :: "price \<Rightarrow> comparable_price \<Rightarrow> bool" where
  "price_ge_cp p k = cp_le_price k p"

lemma ComparablePrice_sel [simp]:
  "cp_price (ComparablePrice s p) = p" "cp_buySide (ComparablePrice s p) = s"
  by (simp_all add: ComparablePrice_def)

section \<open>Laws of the order\<close>

lemmas cp_defs = cp_less_def cp_less_price_def cp_greater_def cp_greater_price_def
  cp_eq_def cp_eq_price_def MARKET_ORDER_PRICE_def

lemma cp_less_irrefl [simp]: "\<not> cp_less k k"
  by (simp add: cp_defs)

lemma cp_less_trans:
  "cp_buySide a = cp_buySide b \<Longrightarrow> cp_less a b \<Longrightarrow> cp_less b c \<Longrightarrow> cp_less a c"
  by (auto simp: cp_defs split: if_splits)

lemma cp_less_asym: "cp_buySide a = cp_buySide b \<Longrightarrow> cp_less a b \<Longrightarrow> \<not> cp_less b a"
  by (auto simp: cp_defs split: if_splits)

lemma cp_less_linear:
  "cp_buySide a = cp_buySide b \<Longrightarrow> cp_less a b \<or> cp_eq a b \<or> cp_less b a"
  by (auto simp: cp_defs split: if_splits)

lemma cp_less_negtrans:
  "cp_buySide a = cp_buySide b \<Longrightarrow> cp_buySide b = cp_buySide c \<Longrightarrow>
     \<not> cp_less b a \<Longrightarrow> \<not> cp_less c b \<Longrightarrow> \<not> cp_less c a"
  by (auto simp: cp_defs split: if_splits)

text \<open>The contract of the book's multimaps: each holds the keys of one side.\<close>

interpretation book_side: container_order cp_less "\<lambda>k. cp_buySide k = s" for s
proof
  fix a b c :: comparable_price
  assume v: "cp_buySide a = s" "cp_buySide b = s" "cp_buySide c = s"
  show "\<not> cp_less a a" by simp
  show "cp_less a b \<Longrightarrow> cp_less b c \<Longrightarrow> cp_less a c"
    using v cp_less_trans by metis
  show "\<not> cp_less b a \<Longrightarrow> \<not> cp_less c b \<Longrightarrow> \<not> cp_less c a"
    using v cp_less_negtrans by metis
qed

subsection \<open>Each side as a linear order\<close>

text \<open>
  On one side of the market \<^verbatim>\<open>operator<\<close> is a linear order of the prices. The two types
  below carry it as instances of \<open>linorder\<close>: the market price is least, the bids fall
  from high to low and the asks rise from low to high.
\<close>

datatype bid_key = BidKey (bid_price: price)
datatype ask_key = AskKey (ask_price: price)

instantiation bid_key :: linorder
begin

definition less_bid_key :: "bid_key \<Rightarrow> bid_key \<Rightarrow> bool" where
  "less_bid_key a b = cp_less_price (ComparablePrice True (bid_price a)) (bid_price b)"

definition less_eq_bid_key :: "bid_key \<Rightarrow> bid_key \<Rightarrow> bool" where
  "less_eq_bid_key a b = cp_le_price (ComparablePrice True (bid_price a)) (bid_price b)"

lemmas bid_key_defs = less_bid_key_def less_eq_bid_key_def cp_le_price_def cp_defs

instance
proof
  fix x y z :: bid_key
  obtain a b c where k: "x = BidKey a" "y = BidKey b" "z = BidKey c"
    by (metis bid_key.exhaust)
  show "(x < y) = (x \<le> y \<and> \<not> y \<le> x)"
    unfolding k by (auto simp: bid_key_defs split: if_splits)
  show "x \<le> x"
    unfolding k by (simp add: bid_key_defs)
  show "x \<le> y \<Longrightarrow> y \<le> z \<Longrightarrow> x \<le> z"
    unfolding k by (auto simp: bid_key_defs split: if_splits)
  show "x \<le> y \<Longrightarrow> y \<le> x \<Longrightarrow> x = y"
    unfolding k by (auto simp: bid_key_defs split: if_splits)
  show "x \<le> y \<or> y \<le> x"
    unfolding k by (auto simp: bid_key_defs split: if_splits)
qed

end

instantiation ask_key :: linorder
begin

definition less_ask_key :: "ask_key \<Rightarrow> ask_key \<Rightarrow> bool" where
  "less_ask_key a b = cp_less_price (ComparablePrice False (ask_price a)) (ask_price b)"

definition less_eq_ask_key :: "ask_key \<Rightarrow> ask_key \<Rightarrow> bool" where
  "less_eq_ask_key a b = cp_le_price (ComparablePrice False (ask_price a)) (ask_price b)"

lemmas ask_key_defs = less_ask_key_def less_eq_ask_key_def cp_le_price_def cp_defs

instance
proof
  fix x y z :: ask_key
  obtain a b c where k: "x = AskKey a" "y = AskKey b" "z = AskKey c"
    by (metis ask_key.exhaust)
  show "(x < y) = (x \<le> y \<and> \<not> y \<le> x)"
    unfolding k by (auto simp: ask_key_defs split: if_splits)
  show "x \<le> x"
    unfolding k by (simp add: ask_key_defs)
  show "x \<le> y \<Longrightarrow> y \<le> z \<Longrightarrow> x \<le> z"
    unfolding k by (auto simp: ask_key_defs split: if_splits)
  show "x \<le> y \<Longrightarrow> y \<le> x \<Longrightarrow> x = y"
    unfolding k by (auto simp: ask_key_defs split: if_splits)
  show "x \<le> y \<or> y \<le> x"
    unfolding k by (auto simp: ask_key_defs split: if_splits)
qed

end

lemma cp_less_bid [simp]:
  "cp_less (ComparablePrice True p) (ComparablePrice True q) \<longleftrightarrow> BidKey p < BidKey q"
  by (simp add: cp_less_def less_bid_key_def)

lemma cp_less_ask [simp]:
  "cp_less (ComparablePrice False p) (ComparablePrice False q) \<longleftrightarrow> AskKey p < AskKey q"
  by (simp add: cp_less_def less_ask_key_def)

text \<open>
  The loops of the matching engine leave a side at the first order whose price does not
  match: an order that comes no later than a matching one matches too.
\<close>

lemma matches_antimono:
  assumes "cp_buySide a = cp_buySide b" "\<not> cp_less b a" "matches b p"
  shows "matches a p"
  using assms by (auto simp: matches_def cp_defs word_neq_0_conv split: if_splits)

lemma matching_prefix:
  assumes "mm_sorted cp_less m" "\<forall>n \<in> set m. cp_buySide (nd_key n) = s"
  shows "takeWhile (\<lambda>n. matches (nd_key n) q) m = filter (\<lambda>n. matches (nd_key n) q) m"
  using assms
proof (induction m)
  case (Cons n m)
  show ?case
  proof (cases "matches (nd_key n) q")
    case False
    have "\<not> matches (nd_key n') q" if "n' \<in> set m" for n'
      using Cons.prems that False matches_antimono [of "nd_key n" "nd_key n'" q] by auto
    then show ?thesis using False by (simp add: filter_empty_conv)
  qed (use Cons in simp)
qed simp

text \<open>On opposite sides matching is symmetric.\<close>

lemma matches_sym:
  assumes "cp_buySide a \<noteq> cp_buySide b"
  shows "matches a (cp_price b) \<longleftrightarrow> matches b (cp_price a)"
  using assms by (auto simp: matches_def MARKET_ORDER_PRICE_def word_neq_0_conv split: if_splits)

end
