(* ===== verification/Order_Tracker.thy ===== *)
theory Order_Tracker
  imports Prelude
begin

text \<open>
  \<^verbatim>\<open>src/book/order.h\<close>: the interface an order offers to the book, and
  \<^verbatim>\<open>src/book/order_tracker.h\<close>: the book's own record of an order's open quantity and
  conditions. An \<^verbatim>\<open>OrderPtr\<close> is a number; an \<open>order_env\<close> gives the values the virtual
  methods of the order behind each pointer return at the moment.
\<close>

section \<open>The order interface\<close>

record order_view =
  o_is_buy :: bool
  o_price :: price
  o_stop_price :: price
  o_order_qty :: quantity
  o_all_or_none :: bool
  o_immediate_or_cancel :: bool

type_synonym order_ptr = nat
type_synonym order_env = "order_ptr \<Rightarrow> order_view"

definition Order_is_limit :: "order_view \<Rightarrow> bool" where
  "Order_is_limit ord = (0 < o_price ord)"

text \<open>The three methods that are not pure virtual have these defaults.\<close>

definition Order_default_stop_price :: price where
  "Order_default_stop_price = 0"

definition Order_default_all_or_none :: bool where
  "Order_default_all_or_none = False"

definition Order_default_immediate_or_cancel :: bool where
  "Order_default_immediate_or_cancel = False"

section \<open>The tracker\<close>

record tracker =
  tk_order :: order_ptr
  tk_open_qty :: quantity
  tk_reserved :: int32
  tk_conditions :: order_conditions

text \<open>
  The constructor initialises the member \<^verbatim>\<open>conditions_\<close> from the parameter before its
  body runs; the body then changes the parameter.
\<close>

definition OrderTracker :: "order_env \<Rightarrow> order_ptr \<Rightarrow> order_conditions \<Rightarrow> tracker" where
  "OrderTracker env ord conditions =
     (let tracker = \<lparr>tk_order = ord, tk_open_qty = o_order_qty (env ord), tk_reserved = 0,
                     tk_conditions = conditions\<rparr>;
          conditions1 = (if o_all_or_none (env ord) then conditions OR oc_all_or_none
                         else conditions);
          conditions2 = (if o_immediate_or_cancel (env ord)
                         then conditions1 OR oc_immediate_or_cancel else conditions1)
      in tracker)"

definition open_qty :: "tracker \<Rightarrow> quantity" where
  "open_qty t = tk_open_qty t - tk_reserved t"

definition reserve :: "int32 \<Rightarrow> tracker \<Rightarrow> quantity \<times> tracker" where
  "reserve reserved t =
     (let t' = t\<lparr>tk_reserved := tk_reserved t + reserved\<rparr>
      in (tk_open_qty t' - tk_reserved t', t'))"

text \<open>
  \<^verbatim>\<open>std::abs\<close> and the negation of an \<^verbatim>\<open>int32_t\<close> stay in 32 bits: that of
  \<^const>\<open>INT32_MIN\<close> overflows, which gives \<^const>\<open>INT32_MIN\<close> again on the machine (in the
  language it is undefined).
\<close>

definition abs32 :: "int32 \<Rightarrow> int32" where
  "abs32 d = (if sint d < 0 then - d else d)"

definition change_qty :: "int32 \<Rightarrow> tracker \<Rightarrow> tracker result" where
  "change_qty delta t =
     (if sint delta < 0 \<and> sint (tk_open_qty t) < sint (abs32 delta)
      then Inl (Runtime_error ''Replace size reduction larger than open quantity'')
      else Inr (t\<lparr>tk_open_qty := tk_open_qty t + delta\<rparr>))"

definition fill :: "quantity \<Rightarrow> tracker \<Rightarrow> tracker result" where
  "fill qty t =
     (if tk_open_qty t < qty
      then Inl (Runtime_error ''Fill size larger than open quantity'')
      else Inr (t\<lparr>tk_open_qty := tk_open_qty t - qty\<rparr>))"

definition filled :: "tracker \<Rightarrow> bool" where
  "filled t = (tk_open_qty t = 0)"

definition filled_qty :: "order_env \<Rightarrow> tracker \<Rightarrow> quantity" where
  "filled_qty env t = o_order_qty (env (tk_order t)) - open_qty t"

definition all_or_none :: "tracker \<Rightarrow> bool" where
  "all_or_none t = (tk_conditions t AND oc_all_or_none \<noteq> 0)"

definition immediate_or_cancel :: "tracker \<Rightarrow> bool" where
  "immediate_or_cancel t = (tk_conditions t AND oc_immediate_or_cancel \<noteq> 0)"

section \<open>Facts\<close>

text \<open>
  Nothing in the book calls \<^verbatim>\<open>reserve\<close>: a tracker of the book has no reserved quantity,
  and then its two open quantities agree.
\<close>

definition unreserved :: "tracker \<Rightarrow> bool" where
  "unreserved t = (tk_reserved t = 0)"

lemma unreserved_new [simp]: "unreserved (OrderTracker env ord conditions)"
  by (simp add: unreserved_def OrderTracker_def Let_def)

lemma OrderTracker_sel [simp]:
  "tk_order (OrderTracker env ord c) = ord"
  "tk_open_qty (OrderTracker env ord c) = o_order_qty (env ord)"
  "tk_reserved (OrderTracker env ord c) = 0"
  "tk_conditions (OrderTracker env ord c) = c"
  by (simp_all add: OrderTracker_def Let_def)

lemma open_qty_unreserved [simp]: "unreserved t \<Longrightarrow> open_qty t = tk_open_qty t"
  by (simp add: unreserved_def open_qty_def)

lemma fill_Inr_iff:
  "fill q t = Inr t' \<longleftrightarrow> q \<le> tk_open_qty t \<and> t' = t\<lparr>tk_open_qty := tk_open_qty t - q\<rparr>"
  by (auto simp: fill_def)

lemma fill_frame:
  assumes "fill q t = Inr t'"
  shows "tk_order t' = tk_order t" "tk_conditions t' = tk_conditions t"
    "unreserved t' = unreserved t" "all_or_none t' = all_or_none t"
    "immediate_or_cancel t' = immediate_or_cancel t"
    "unat (tk_open_qty t') + unat q = unat (tk_open_qty t)"
  using assms
  by (auto simp: fill_Inr_iff unreserved_def all_or_none_def immediate_or_cancel_def unat_sub_add)

lemma change_qty_frame:
  assumes "change_qty d t = Inr t'"
  shows "tk_order t' = tk_order t" "tk_conditions t' = tk_conditions t"
    "unreserved t' = unreserved t" "all_or_none t' = all_or_none t"
    "immediate_or_cancel t' = immediate_or_cancel t" "tk_open_qty t' = tk_open_qty t + d"
  using assms
  by (auto simp: change_qty_def unreserved_def all_or_none_def immediate_or_cancel_def
      split: if_splits)

end
