(* ===== verification/Callback.thy ===== *)
theory Callback
  imports Order_Tracker
begin

text \<open>
  \<^verbatim>\<open>src/book/callback.h\<close>: the notifications the book queues while it works and performs
  when it is done. A null pointer is \<open>None\<close>.
\<close>

datatype cb_type =
    cb_unknown
  | cb_order_accept
  | cb_order_reject
  | cb_order_fill
  | cb_order_cancel
  | cb_order_cancel_reject
  | cb_order_replace
  | cb_order_replace_reject
  | cb_book_update

type_synonym fill_flags = "8 word"

definition ff_neither_filled :: fill_flags where "ff_neither_filled = 0"
definition ff_inbound_filled :: fill_flags where "ff_inbound_filled = 1"
definition ff_matched_filled :: fill_flags where "ff_matched_filled = 2"
definition ff_both_filled :: fill_flags where "ff_both_filled = 4"

lemmas ff_defs = ff_neither_filled_def ff_inbound_filled_def ff_matched_filled_def
  ff_both_filled_def

record callback =
  cb_kind :: cb_type
  cb_order :: "order_ptr option"
  cb_matched_order :: "order_ptr option"
  cb_quantity :: quantity
  cb_price :: price
  cb_flags :: fill_flags
  cb_delta :: int32
  cb_reject_reason :: "string option"

definition Callback :: callback where
  "Callback = \<lparr>cb_kind = cb_unknown, cb_order = None, cb_matched_order = None, cb_quantity = 0,
     cb_price = 0, cb_flags = 0, cb_delta = 0, cb_reject_reason = None\<rparr>"

definition Callback_accept :: "order_ptr \<Rightarrow> callback" where
  "Callback_accept ord = Callback\<lparr>cb_kind := cb_order_accept, cb_order := Some ord\<rparr>"

definition Callback_reject :: "order_ptr \<Rightarrow> string \<Rightarrow> callback" where
  "Callback_reject ord reason =
     Callback\<lparr>cb_kind := cb_order_reject, cb_order := Some ord, cb_reject_reason := Some reason\<rparr>"

definition Callback_fill ::
  "order_ptr \<Rightarrow> order_ptr \<Rightarrow> quantity \<Rightarrow> price \<Rightarrow> fill_flags \<Rightarrow> callback" where
  "Callback_fill inbound_order matched_order fill_qty fill_price flags =
     Callback\<lparr>cb_kind := cb_order_fill, cb_order := Some inbound_order,
       cb_matched_order := Some matched_order, cb_quantity := fill_qty, cb_price := fill_price,
       cb_flags := flags\<rparr>"

definition Callback_cancel :: "order_ptr \<Rightarrow> quantity \<Rightarrow> callback" where
  "Callback_cancel ord open_quantity =
     Callback\<lparr>cb_kind := cb_order_cancel, cb_order := Some ord, cb_quantity := open_quantity\<rparr>"

definition Callback_cancel_reject :: "order_ptr \<Rightarrow> string \<Rightarrow> callback" where
  "Callback_cancel_reject ord reason =
     Callback\<lparr>cb_kind := cb_order_cancel_reject, cb_order := Some ord,
       cb_reject_reason := Some reason\<rparr>"

definition Callback_replace :: "order_ptr \<Rightarrow> quantity \<Rightarrow> int32 \<Rightarrow> price \<Rightarrow> callback" where
  "Callback_replace ord curr_open_qty size_delta new_price =
     Callback\<lparr>cb_kind := cb_order_replace, cb_order := Some ord, cb_quantity := curr_open_qty,
       cb_delta := size_delta, cb_price := new_price\<rparr>"

definition Callback_replace_reject :: "order_ptr \<Rightarrow> string \<Rightarrow> callback" where
  "Callback_replace_reject ord reason =
     Callback\<lparr>cb_kind := cb_order_replace_reject, cb_order := Some ord,
       cb_reject_reason := Some reason\<rparr>"

definition Callback_book_update :: callback where
  "Callback_book_update = Callback\<lparr>cb_kind := cb_book_update\<rparr>"

lemmas callback_defs = Callback_def Callback_accept_def Callback_reject_def Callback_fill_def
  Callback_cancel_def Callback_cancel_reject_def Callback_replace_def
  Callback_replace_reject_def Callback_book_update_def

text \<open>The notifications of an execution, and the quantity a list of them reports traded.\<close>

definition is_fill :: "callback \<Rightarrow> bool" where
  "is_fill cb = (cb_kind cb = cb_order_fill)"

definition fills_of :: "callback list \<Rightarrow> callback list" where
  "fills_of cbs = filter is_fill cbs"

definition traded_qty :: "callback list \<Rightarrow> nat" where
  "traded_qty cbs = (\<Sum>cb \<leftarrow> fills_of cbs. unat (cb_quantity cb))"

lemma fills_of_simps [simp]:
  "fills_of [] = []" "fills_of (a @ b) = fills_of a @ fills_of b"
  "fills_of (cb # cbs) = (if is_fill cb then cb # fills_of cbs else fills_of cbs)"
  by (simp_all add: fills_of_def)

lemma traded_qty_simps [simp]:
  "traded_qty [] = 0" "traded_qty (a @ b) = traded_qty a + traded_qty b"
  "traded_qty (cb # cbs) = (if is_fill cb then unat (cb_quantity cb) else 0) + traded_qty cbs"
  by (simp_all add: traded_qty_def)

lemma is_fill_simps [simp]:
  "\<not> is_fill (Callback_accept p)" "\<not> is_fill (Callback_reject p r)"
  "is_fill (Callback_fill p m q x f)" "\<not> is_fill (Callback_cancel p q)"
  "\<not> is_fill (Callback_cancel_reject p r)" "\<not> is_fill (Callback_replace p q d x)"
  "\<not> is_fill (Callback_replace_reject p r)" "\<not> is_fill Callback_book_update"
  by (simp_all add: is_fill_def callback_defs)

lemma Callback_fill_sel [simp]:
  "cb_kind (Callback_fill p m q x f) = cb_order_fill"
  "cb_order (Callback_fill p m q x f) = Some p"
  "cb_matched_order (Callback_fill p m q x f) = Some m"
  "cb_quantity (Callback_fill p m q x f) = q" "cb_price (Callback_fill p m q x f) = x"
  "cb_flags (Callback_fill p m q x f) = f"
  by (simp_all add: callback_defs)

end
