(* ===== verification/Book_State.thy ===== *)
theory Book_State
  imports Comparable_Price Callback
begin

text \<open>
  The state of \<^verbatim>\<open>OrderBook\<close> (\<^verbatim>\<open>src/book/order_book.h\<close>), its accessors, and the part of
  it that reacts to a new market price: the stop orders, and \<^verbatim>\<open>create_trade\<close>, the only place
  where orders are filled.
\<close>

section \<open>The state\<close>

type_synonym tracker_map = "(comparable_price, tracker) multimap"
type_synonym tracker_node = "(comparable_price, tracker) node"
type_synonym listener = nat

text \<open>
  \<open>ob_next_node\<close> numbers the nodes of the multimaps: every insertion takes a fresh one.
\<close>

record order_book =
  ob_symbol :: string
  ob_bids :: tracker_map
  ob_asks :: tracker_map
  ob_stopBids :: tracker_map
  ob_stopAsks :: tracker_map
  ob_pendingOrders :: "tracker list"
  ob_callbacks :: "callback list"
  ob_workingCallbacks :: "callback list"
  ob_handling_callbacks :: bool
  ob_order_listener :: "listener option"
  ob_trade_listener :: "listener option"
  ob_order_book_listener :: "listener option"
  ob_logger :: "listener option"
  ob_marketPrice :: price
  ob_next_node :: nat

definition OrderBook :: "string \<Rightarrow> order_book" where
  "OrderBook symbol =
     \<lparr>ob_symbol = symbol, ob_bids = [], ob_asks = [], ob_stopBids = [], ob_stopAsks = [],
      ob_pendingOrders = [], ob_callbacks = [], ob_workingCallbacks = [],
      ob_handling_callbacks = False, ob_order_listener = None, ob_trade_listener = None,
      ob_order_book_listener = None, ob_logger = None,
      ob_marketPrice = MARKET_ORDER_PRICE, ob_next_node = 0\<rparr>"

definition set_logger :: "listener option \<Rightarrow> order_book \<Rightarrow> order_book" where
  "set_logger logger b = b\<lparr>ob_logger := logger\<rparr>"

definition set_symbol :: "string \<Rightarrow> order_book \<Rightarrow> order_book" where
  "set_symbol symbol b = b\<lparr>ob_symbol := symbol\<rparr>"

definition set_order_listener :: "listener option \<Rightarrow> order_book \<Rightarrow> order_book" where
  "set_order_listener l b = b\<lparr>ob_order_listener := l\<rparr>"

definition set_trade_listener :: "listener option \<Rightarrow> order_book \<Rightarrow> order_book" where
  "set_trade_listener l b = b\<lparr>ob_trade_listener := l\<rparr>"

definition set_order_book_listener :: "listener option \<Rightarrow> order_book \<Rightarrow> order_book" where
  "set_order_book_listener l b = b\<lparr>ob_order_book_listener := l\<rparr>"

definition market_price :: "order_book \<Rightarrow> price" where
  "market_price b = ob_marketPrice b"

definition push_callback :: "callback \<Rightarrow> order_book \<Rightarrow> order_book" where
  "push_callback cb b = b\<lparr>ob_callbacks := ob_callbacks b @ [cb]\<rparr>"

text \<open>A node is allocated for every insertion into one of the four containers.\<close>

definition new_node :: "order_book \<Rightarrow> comparable_price \<Rightarrow> tracker \<Rightarrow> tracker_node" where
  "new_node b key t = \<lparr>nd_id = ob_next_node b, nd_key = key, nd_val = t\<rparr>"

section \<open>Stop orders\<close>

definition add_stop_order :: "order_env \<Rightarrow> order_book \<Rightarrow> tracker \<Rightarrow> bool \<times> order_book" where
  "add_stop_order env b t =
     (let isBuy = o_is_buy (env (tk_order t));
          key = ComparablePrice isBuy (o_stop_price (env (tk_order t)));
          isStopped = cp_less_price key (ob_marketPrice b);
          n = new_node b key t
      in if isStopped then
           (True,
            if isBuy
            then b\<lparr>ob_stopBids := mm_insert cp_less n (ob_stopBids b),
                   ob_next_node := Suc (ob_next_node b)\<rparr>
            else b\<lparr>ob_stopAsks := mm_insert cp_less n (ob_stopAsks b),
                   ob_next_node := Suc (ob_next_node b)\<rparr>)
         else (False, b))"

fun check_stop_loop ::
  "comparable_price \<Rightarrow> tracker_map \<Rightarrow> tracker list \<Rightarrow> tracker_map \<times> tracker list" where
  "check_stop_loop until [] pending = ([], pending)"
| "check_stop_loop until (here # pos) pending =
     (if cp_less until (nd_key here) then (here # pos, pending)
      else check_stop_loop until pos (pending @ [nd_val here]))"

definition check_stop_orders ::
  "bool \<Rightarrow> price \<Rightarrow> tracker_map \<Rightarrow> tracker list \<Rightarrow> tracker_map \<times> tracker list" where
  "check_stop_orders side price stops pending =
     check_stop_loop (ComparablePrice side price) stops pending"

definition set_market_price :: "price \<Rightarrow> order_book \<Rightarrow> order_book" where
  "set_market_price price b =
     (let oldMarketPrice = ob_marketPrice b;
          b1 = b\<lparr>ob_marketPrice := price\<rparr>
      in if oldMarketPrice < price \<or> oldMarketPrice = MARKET_ORDER_PRICE then
           (let (stops, pending) =
                  check_stop_orders True price (ob_stopBids b1) (ob_pendingOrders b1)
            in b1\<lparr>ob_stopBids := stops, ob_pendingOrders := pending\<rparr>)
         else if price < oldMarketPrice \<or> oldMarketPrice = MARKET_ORDER_PRICE then
           (let (stops, pending) =
                  check_stop_orders False price (ob_stopAsks b1) (ob_pendingOrders b1)
            in b1\<lparr>ob_stopAsks := stops, ob_pendingOrders := pending\<rparr>)
         else b1)"

section \<open>create_trade\<close>

definition cross_price :: "order_env \<Rightarrow> order_book \<Rightarrow> tracker \<Rightarrow> tracker \<Rightarrow> price" where
  "cross_price env b inbound current =
     (let cross0 = o_price (env (tk_order current));
          cross1 = (if MARKET_ORDER_PRICE = cross0 then o_price (env (tk_order inbound)) else cross0)
      in if MARKET_ORDER_PRICE = cross1 then ob_marketPrice b else cross1)"

definition create_trade ::
  "order_env \<Rightarrow> order_book \<Rightarrow> tracker \<Rightarrow> tracker \<Rightarrow> quantity
     \<Rightarrow> (quantity \<times> tracker \<times> tracker \<times> order_book) result" where
  "create_trade env b inbound current maxQuantity =
     (let price = cross_price env b inbound current
      in if MARKET_ORDER_PRICE = price then Inr (0, inbound, current, b)
         else
           let fill_qty = min maxQuantity (min (open_qty inbound) (open_qty current))
           in if 0 < fill_qty then
                rbind (fill fill_qty inbound) (\<lambda>inbound'.
                rbind (fill fill_qty current) (\<lambda>current'.
                  let b1 = set_market_price price b;
                      flags0 = ff_neither_filled;
                      flags1 = (if open_qty inbound' = 0 then flags0 OR ff_inbound_filled else flags0);
                      flags2 = (if open_qty current' = 0 then flags1 OR ff_matched_filled else flags1)
                  in Inr (fill_qty, inbound', current',
                          push_callback (Callback_fill (tk_order inbound') (tk_order current')
                                           fill_qty price flags2) b1)))
              else Inr (fill_qty, inbound, current, b))"

section \<open>Facts about the stop orders\<close>

definition stop_total :: "order_book \<Rightarrow> nat" where
  "stop_total b = length (ob_stopBids b) + length (ob_stopAsks b) + length (ob_pendingOrders b)"

definition released :: "comparable_price \<Rightarrow> tracker_map \<Rightarrow> tracker_map" where
  "released until stops = takeWhile (\<lambda>n. \<not> cp_less until (nd_key n)) stops"

lemma check_stop_loop_eq:
  "check_stop_loop until stops pending =
     (dropWhile (\<lambda>n. \<not> cp_less until (nd_key n)) stops,
      pending @ map nd_val (released until stops))"
  by (induction until stops pending rule: check_stop_loop.induct) (auto simp: released_def)

lemma check_stop_loop_length:
  "check_stop_loop until stops pending = (stops', pending') \<Longrightarrow>
     length stops' + length pending' = length stops + length pending"
  by (induction until stops pending rule: check_stop_loop.induct) (auto split: if_splits)

text \<open>The fields a change of the market price leaves alone, and what it does to the rest.\<close>

lemma set_market_price_frame [book_simps, simp]:
  "ob_bids (set_market_price p b) = ob_bids b"
  "ob_asks (set_market_price p b) = ob_asks b"
  "ob_callbacks (set_market_price p b) = ob_callbacks b"
  "ob_workingCallbacks (set_market_price p b) = ob_workingCallbacks b"
  "ob_handling_callbacks (set_market_price p b) = ob_handling_callbacks b"
  "ob_next_node (set_market_price p b) = ob_next_node b"
  "ob_symbol (set_market_price p b) = ob_symbol b"
  "ob_order_listener (set_market_price p b) = ob_order_listener b"
  "ob_trade_listener (set_market_price p b) = ob_trade_listener b"
  "ob_order_book_listener (set_market_price p b) = ob_order_book_listener b"
  "ob_logger (set_market_price p b) = ob_logger b"
  "ob_marketPrice (set_market_price p b) = p"
  by (simp_all add: set_market_price_def Let_def split: prod.split)

lemma set_market_price_stop_total [simp]: "stop_total (set_market_price p b) = stop_total b"
  by (auto simp: set_market_price_def check_stop_orders_def stop_total_def Let_def
      split: prod.split dest!: check_stop_loop_length)

lemma push_callback_sel [book_simps, simp]:
  "ob_bids (push_callback cb b) = ob_bids b"
  "ob_asks (push_callback cb b) = ob_asks b"
  "ob_stopBids (push_callback cb b) = ob_stopBids b"
  "ob_stopAsks (push_callback cb b) = ob_stopAsks b"
  "ob_pendingOrders (push_callback cb b) = ob_pendingOrders b"
  "ob_callbacks (push_callback cb b) = ob_callbacks b @ [cb]"
  "ob_workingCallbacks (push_callback cb b) = ob_workingCallbacks b"
  "ob_handling_callbacks (push_callback cb b) = ob_handling_callbacks b"
  "ob_next_node (push_callback cb b) = ob_next_node b"
  "ob_symbol (push_callback cb b) = ob_symbol b"
  "ob_order_listener (push_callback cb b) = ob_order_listener b"
  "ob_trade_listener (push_callback cb b) = ob_trade_listener b"
  "ob_order_book_listener (push_callback cb b) = ob_order_book_listener b"
  "ob_logger (push_callback cb b) = ob_logger b"
  "ob_marketPrice (push_callback cb b) = ob_marketPrice b"
  "stop_total (push_callback cb b) = stop_total b"
  by (simp_all add: push_callback_def stop_total_def)

end
