(* ===== verification/Trading.thy ===== *)
theory Trading
  imports Book_State
begin

text \<open>
  What a trade does to the book: \<^verbatim>\<open>create_trade\<close> in closed form for the trackers the book
  holds, and the frame of everything the matching engine does to the book beside the side it
  works on. \<open>trading b cbs b'\<close> says that the book went from \<open>b\<close> to \<open>b'\<close> by trades that
  queued the notifications \<open>cbs\<close>.
\<close>

section \<open>The frame of trading\<close>

text \<open>The orders that wait: stopped, or released and not yet submitted.\<close>

definition stop_mset :: "order_book \<Rightarrow> tracker multiset" where
  "stop_mset b =
     mset (map nd_val (ob_stopBids b)) + mset (map nd_val (ob_stopAsks b)) +
     mset (ob_pendingOrders b)"

lemma stop_total_mset: "stop_total b = size (stop_mset b)"
  by (simp add: stop_total_def stop_mset_def)

definition same_rest :: "order_book \<Rightarrow> order_book \<Rightarrow> bool" where
  "same_rest b b' =
     (ob_symbol b' = ob_symbol b \<and> ob_workingCallbacks b' = ob_workingCallbacks b \<and>
      ob_handling_callbacks b' = ob_handling_callbacks b \<and>
      ob_order_listener b' = ob_order_listener b \<and> ob_trade_listener b' = ob_trade_listener b \<and>
      ob_order_book_listener b' = ob_order_book_listener b \<and> ob_logger b' = ob_logger b)"

definition trading :: "order_book \<Rightarrow> callback list \<Rightarrow> order_book \<Rightarrow> bool" where
  "trading b cbs b' =
     (same_rest b b' \<and> ob_bids b' = ob_bids b \<and> ob_asks b' = ob_asks b \<and>
      ob_next_node b' = ob_next_node b \<and>
      ob_callbacks b' = ob_callbacks b @ cbs \<and>
      stop_mset b' = stop_mset b \<and>
      (\<exists>pre. ob_stopBids b = pre @ ob_stopBids b') \<and>
      (\<exists>pre. ob_stopAsks b = pre @ ob_stopAsks b') \<and>
      (\<exists>suf. ob_pendingOrders b' = ob_pendingOrders b @ suf) \<and>
      (\<forall>cb \<in> set cbs. cb_price cb \<noteq> 0) \<and>
      ob_marketPrice b' = (if cbs = [] then ob_marketPrice b else cb_price (last cbs)))"

lemma same_rest_refl [simp]: "same_rest b b"
  by (simp add: same_rest_def)

lemma same_rest_trans: "same_rest a b \<Longrightarrow> same_rest b c \<Longrightarrow> same_rest a c"
  by (simp add: same_rest_def)

lemma trading_refl [simp, intro]: "trading b [] b"
  by (simp add: trading_def)

lemma trading_trans:
  assumes "trading a c1 b" "trading b c2 c"
  shows "trading a (c1 @ c2) c"
  using assms same_rest_trans [of a b c] unfolding trading_def by auto

lemma tradingD:
  assumes "trading b cbs b'"
  shows "same_rest b b'" "ob_bids b' = ob_bids b" "ob_asks b' = ob_asks b"
    "ob_next_node b' = ob_next_node b" "ob_callbacks b' = ob_callbacks b @ cbs"
    "stop_total b' = stop_total b" "stop_mset b' = stop_mset b"
    "ob_marketPrice b \<noteq> 0 \<Longrightarrow> ob_marketPrice b' \<noteq> 0"
    "cbs \<noteq> [] \<Longrightarrow> ob_marketPrice b' \<noteq> 0"
  using assms by (simp_all add: trading_def stop_total_mset)

lemma check_stop_orders_split:
  assumes "check_stop_orders side p stops pending = (stops', pending')"
  obtains pre where "stops = pre @ stops'" "pending' = pending @ map nd_val pre"
  using assms unfolding check_stop_orders_def check_stop_loop_eq released_def
  by (metis prod.inject takeWhile_dropWhile_id)

lemma set_market_price_cases:
  obtains r1 where "ob_stopBids b = r1 @ ob_stopBids (set_market_price p b)"
      "ob_stopAsks (set_market_price p b) = ob_stopAsks b"
      "ob_pendingOrders (set_market_price p b) = ob_pendingOrders b @ map nd_val r1"
  | r2 where "ob_stopAsks b = r2 @ ob_stopAsks (set_market_price p b)"
      "ob_stopBids (set_market_price p b) = ob_stopBids b"
      "ob_pendingOrders (set_market_price p b) = ob_pendingOrders b @ map nd_val r2"
proof -
  obtain s1 q1 where 1: "check_stop_orders True p (ob_stopBids b) (ob_pendingOrders b) = (s1, q1)"
    by fastforce
  obtain s2 q2 where 2: "check_stop_orders False p (ob_stopAsks b) (ob_pendingOrders b) = (s2, q2)"
    by fastforce
  obtain r1 where r1: "ob_stopBids b = r1 @ s1" "q1 = ob_pendingOrders b @ map nd_val r1"
    using 1 by (rule check_stop_orders_split)
  obtain r2 where r2: "ob_stopAsks b = r2 @ s2" "q2 = ob_pendingOrders b @ map nd_val r2"
    using 2 by (rule check_stop_orders_split)
  have smp: "set_market_price p b =
      (if ob_marketPrice b < p \<or> ob_marketPrice b = 0
       then b\<lparr>ob_marketPrice := p, ob_stopBids := s1, ob_pendingOrders := q1\<rparr>
       else if p < ob_marketPrice b
       then b\<lparr>ob_marketPrice := p, ob_stopAsks := s2, ob_pendingOrders := q2\<rparr>
       else b\<lparr>ob_marketPrice := p\<rparr>)"
    by (simp add: set_market_price_def 1 2 Let_def MARKET_ORDER_PRICE_def)
  show thesis
  proof (cases "ob_marketPrice b < p \<or> ob_marketPrice b = 0")
    case True
    then show thesis using r1 by (intro that(1) [of r1]) (simp_all add: smp)
  next
    case False
    then have smp': "set_market_price p b =
        (if p < ob_marketPrice b
         then b\<lparr>ob_marketPrice := p, ob_stopAsks := s2, ob_pendingOrders := q2\<rparr>
         else b\<lparr>ob_marketPrice := p\<rparr>)"
      by (simp add: smp)
    show thesis
    proof (cases "p < ob_marketPrice b")
      case True
      then show thesis using r2 by (intro that(2) [of r2]) (simp_all add: smp')
    next
      case False
      then show thesis by (intro that(1) [of "[]"]) (simp_all add: smp')
    qed
  qed
qed

lemma stop_mset_push [simp]: "stop_mset (push_callback cb b) = stop_mset b"
  by (simp add: stop_mset_def)

lemma stop_mset_set_market_price [simp]: "stop_mset (set_market_price p b) = stop_mset b"
  by (rule set_market_price_cases [of b p]) (simp_all add: stop_mset_def)

lemma trading_step:
  assumes "cb_price cb \<noteq> 0"
  shows "trading b [cb] (push_callback cb (set_market_price (cb_price cb) b))"
  by (rule set_market_price_cases [of b "cb_price cb"])
    (simp_all add: trading_def same_rest_def assms)

section \<open>create_trade in closed form\<close>

definition trade_qty :: "order_env \<Rightarrow> order_book \<Rightarrow> tracker \<Rightarrow> tracker \<Rightarrow> quantity \<Rightarrow> quantity" where
  "trade_qty env b inbound current mx =
     (if cross_price env b inbound current = 0 then 0
      else min mx (min (tk_open_qty inbound) (tk_open_qty current)))"

definition take_qty :: "quantity \<Rightarrow> tracker \<Rightarrow> tracker" where
  "take_qty q t = t\<lparr>tk_open_qty := tk_open_qty t - q\<rparr>"

definition fill_callback ::
  "order_env \<Rightarrow> order_book \<Rightarrow> tracker \<Rightarrow> tracker \<Rightarrow> quantity \<Rightarrow> callback" where
  "fill_callback env b inbound current q =
     Callback_fill (tk_order inbound) (tk_order current) q (cross_price env b inbound current)
       ((if tk_open_qty inbound = q then ff_inbound_filled else 0) OR
        (if tk_open_qty current = q then ff_matched_filled else 0))"

definition trade_callbacks ::
  "order_env \<Rightarrow> order_book \<Rightarrow> tracker \<Rightarrow> tracker \<Rightarrow> quantity \<Rightarrow> callback list" where
  "trade_callbacks env b inbound current q =
     (if q = 0 then [] else [fill_callback env b inbound current q])"

definition trade_book ::
  "order_env \<Rightarrow> order_book \<Rightarrow> tracker \<Rightarrow> tracker \<Rightarrow> quantity \<Rightarrow> order_book" where
  "trade_book env b inbound current q =
     (if q = 0 then b
      else push_callback (fill_callback env b inbound current q)
             (set_market_price (cross_price env b inbound current) b))"

lemma take_qty_sel [simp]:
  "tk_order (take_qty q t) = tk_order t" "tk_conditions (take_qty q t) = tk_conditions t"
  "tk_reserved (take_qty q t) = tk_reserved t" "tk_open_qty (take_qty q t) = tk_open_qty t - q"
  "unreserved (take_qty q t) = unreserved t" "all_or_none (take_qty q t) = all_or_none t"
  "immediate_or_cancel (take_qty q t) = immediate_or_cancel t" "take_qty 0 t = t"
  by (simp_all add: take_qty_def unreserved_def all_or_none_def immediate_or_cancel_def)

lemma fill_take_qty: "q \<le> tk_open_qty t \<Longrightarrow> fill q t = Inr (take_qty q t)"
  by (simp add: fill_def take_qty_def)

lemma trade_qty_le:
  "trade_qty env b i c mx \<le> tk_open_qty i" "trade_qty env b i c mx \<le> tk_open_qty c"
  "trade_qty env b i c mx \<le> mx"
  by (simp_all add: trade_qty_def min_le_iff_disj)

lemma create_trade_eq:
  assumes "unreserved i" "unreserved c" and q_def: "q = trade_qty env b i c mx"
  shows "create_trade env b i c mx = Inr (q, take_qty q i, take_qty q c, trade_book env b i c q)"
proof (cases "cross_price env b i c = 0")
  case True
  then show ?thesis
    by (simp add: create_trade_def q_def trade_qty_def MARKET_ORDER_PRICE_def trade_book_def)
next
  case False
  then have q: "q = min mx (min (tk_open_qty i) (tk_open_qty c))"
    by (simp add: q_def trade_qty_def)
  have le: "q \<le> tk_open_qty i" "q \<le> tk_open_qty c"
    unfolding q_def by (rule trade_qty_le)+
  show ?thesis
  proof (cases "0 < q")
    case True
    have "fill q i = Inr (take_qty q i)" "fill q c = Inr (take_qty q c)"
      using le by (simp_all add: fill_take_qty)
    with True False assms(1,2) show ?thesis
      by (simp add: create_trade_def MARKET_ORDER_PRICE_def Let_def trade_book_def
          fill_callback_def ff_neither_filled_def flip: q)
  next
    case q0: False
    then have "q = 0" by (simp add: word_gt_0)
    with False assms(1,2) show ?thesis
      by (simp add: create_trade_def MARKET_ORDER_PRICE_def Let_def trade_book_def flip: q)
  qed
qed

lemma cross_price_nonzero_iff:
  "cross_price env b i c \<noteq> 0 \<longleftrightarrow>
     o_price (env (tk_order c)) \<noteq> 0 \<or> o_price (env (tk_order i)) \<noteq> 0 \<or> ob_marketPrice b \<noteq> 0"
  by (simp add: cross_price_def MARKET_ORDER_PRICE_def Let_def)

lemma trading_trade_book:
  assumes "q \<le> trade_qty env b i c mx"
  shows "trading b (trade_callbacks env b i c q) (trade_book env b i c q)"
proof (cases "q = 0")
  case True
  then show ?thesis by (simp add: trade_callbacks_def trade_book_def)
next
  case False
  with assms have "cross_price env b i c \<noteq> 0"
    by (auto simp: trade_qty_def split: if_splits)
  then show ?thesis
    using False trading_step [of "fill_callback env b i c q" b]
    by (simp add: trade_callbacks_def trade_book_def fill_callback_def)
qed

lemma trade_callbacks_qty [simp]: "traded_qty (trade_callbacks env b i c q) = unat q"
  by (simp add: trade_callbacks_def fill_callback_def)

lemma unat_take_qty:
  "q \<le> tk_open_qty t \<Longrightarrow> unat (tk_open_qty (take_qty q t)) + unat q = unat (tk_open_qty t)"
  by (simp add: unat_sub_add)

end
