(* ===== verification/Matching.thy ===== *)
theory Matching
  imports Trading
begin

text \<open>
  The matching engine of \<^verbatim>\<open>src/book/order_book.h\<close>: the loops that trade an inbound order
  against the other side, for a regular and for an all-or-none order, the deferred trades of
  the latter, the second chance of resting all-or-none orders, and \<^verbatim>\<open>add_order\<close>.

  The side an operation works on (\<^verbatim>\<open>current_orders\<close>, a reference) goes in and comes out as
  an argument. Both loops walk the side with \<^verbatim>\<open>entry = pos++\<close>: they erase nothing at or
  behind \<^verbatim>\<open>pos\<close>, so the nodes from \<^verbatim>\<open>pos\<close> on are the list the recursion runs over and
  the nodes before it are \<open>ms_visited\<close>. A container of iterators is a list of node numbers.
\<close>

section \<open>The state of a matching loop\<close>

record match_state =
  ms_inbound :: tracker
  ms_inbound_qty :: quantity
  ms_deferred_qty :: quantity
  ms_matched :: bool
  ms_book :: order_book
  ms_visited :: tracker_map
  ms_deferred_matches :: "nat list"
  ms_deferred_aons :: "nat list"

definition keep_node :: "tracker_node \<Rightarrow> match_state \<Rightarrow> match_state" where
  "keep_node n s = s\<lparr>ms_visited := ms_visited s @ [n]\<rparr>"

fun match_loop ::
  "(tracker_node \<Rightarrow> match_state \<Rightarrow> match_state result) \<Rightarrow> price \<Rightarrow> tracker_map \<Rightarrow> match_state
     \<Rightarrow> (match_state \<times> tracker_map) result" where
  "match_loop step inbound_price [] s = Inr (s, [])"
| "match_loop step inbound_price (entry # pos) s =
     (if filled (ms_inbound s) then Inr (s, entry # pos)
      else if \<not> matches (nd_key entry) inbound_price then Inr (s, entry # pos)
      else rbind (step entry s) (match_loop step inbound_price pos))"

definition match_start :: "tracker \<Rightarrow> order_book \<Rightarrow> nat list \<Rightarrow> match_state" where
  "match_start inbound b deferred_aons =
     \<lparr>ms_inbound = inbound, ms_inbound_qty = open_qty inbound, ms_deferred_qty = 0,
      ms_matched = False, ms_book = b, ms_visited = [], ms_deferred_matches = [],
      ms_deferred_aons = deferred_aons\<rparr>"

type_synonym match_result = "(bool \<times> tracker \<times> tracker_map \<times> nat list \<times> order_book) result"

definition match_finish :: "match_state \<times> tracker_map \<Rightarrow> match_result" where
  "match_finish r = (case r of (s, pos) \<Rightarrow>
     Inr (ms_matched s, ms_inbound s, ms_visited s @ pos, ms_deferred_aons s, ms_book s))"

section \<open>A regular inbound order\<close>

definition regular_step :: "order_env \<Rightarrow> tracker_node \<Rightarrow> match_state \<Rightarrow> match_state result" where
  "regular_step env entry s =
     (let current_order = nd_val entry;
          current_quantity = open_qty current_order
      in if all_or_none current_order then
           (if current_quantity \<le> ms_inbound_qty s then
              rbind (create_trade env (ms_book s) (ms_inbound s) current_order UINT32_MAX)
                (\<lambda>(traded, inbound, current_order, b).
                   let s1 = s\<lparr>ms_inbound := inbound, ms_book := b\<rparr>
                   in if 0 < traded
                      then Inr (s1\<lparr>ms_matched := True,
                                   ms_inbound_qty := ms_inbound_qty s1 - traded\<rparr>)
                      else Inr (keep_node (entry\<lparr>nd_val := current_order\<rparr>) s1))
            else
              Inr (keep_node entry (s\<lparr>ms_deferred_aons := ms_deferred_aons s @ [nd_id entry]\<rparr>)))
         else
           rbind (create_trade env (ms_book s) (ms_inbound s) current_order UINT32_MAX)
             (\<lambda>(traded, inbound, current_order, b).
                let s1 = s\<lparr>ms_inbound := inbound, ms_book := b\<rparr>
                in if 0 < traded then
                     (let s2 = s1\<lparr>ms_matched := True, ms_inbound_qty := ms_inbound_qty s1 - traded\<rparr>
                      in if filled current_order then Inr s2
                         else Inr (keep_node (entry\<lparr>nd_val := current_order\<rparr>) s2))
                   else Inr (keep_node (entry\<lparr>nd_val := current_order\<rparr>) s1)))"

definition match_regular_order ::
  "order_env \<Rightarrow> tracker \<Rightarrow> price \<Rightarrow> tracker_map \<Rightarrow> nat list \<Rightarrow> order_book \<Rightarrow> match_result" where
  "match_regular_order env inbound inbound_price current_orders deferred_aons b =
     rbind (match_loop (regular_step env) inbound_price current_orders
              (match_start inbound b deferred_aons)) match_finish"

section \<open>Deferred trades\<close>

text \<open>
  The first pass proposes a quantity for each deferred order, the second trades them. The
  quantities beyond the point where the first pass stops stay zero.
\<close>

fun propose_fills ::
  "tracker_map \<Rightarrow> quantity \<Rightarrow> nat list \<Rightarrow> quantity \<Rightarrow> (quantity \<times> quantity list) result" where
  "propose_fills m maxQty [] foundQty = Inr (foundQty, [])"
| "propose_fills m maxQty (entry # pos) foundQty =
     (if foundQty < maxQty then
        rbind (mm_get entry m) (\<lambda>n.
          let tracker = nd_val n;
              qty0 = open_qty tracker;
              qty = (if maxQty < foundQty + qty0
                     then (if all_or_none tracker then 0 else maxQty - foundQty)
                     else qty0)
          in rbind (propose_fills m maxQty pos (foundQty + qty))
               (\<lambda>(found, fills). Inr (found, qty # fills)))
      else Inr (foundQty, replicate (length (entry # pos)) 0))"

fun execute_fills ::
  "order_env \<Rightarrow> quantity \<Rightarrow> nat list \<Rightarrow> quantity list \<Rightarrow> quantity \<Rightarrow> tracker \<Rightarrow> order_book \<Rightarrow> tracker_map
     \<Rightarrow> (quantity \<times> tracker \<times> order_book \<times> tracker_map) result" where
  "execute_fills env foundQty (entry # pos) (qty # fills) traded inbound b m =
     (if traded < foundQty then
        rbind (mm_get entry m) (\<lambda>n.
        rbind (create_trade env b inbound (nd_val n) qty) (\<lambda>(t, inbound, tracker, b).
          let m = (if filled tracker then mm_erase entry m else mm_put entry tracker m)
          in execute_fills env foundQty pos fills (traded + t) inbound b m))
      else Inr (traded, inbound, b, m))"
| "execute_fills env foundQty _ _ traded inbound b m = Inr (traded, inbound, b, m)"

definition try_create_deferred_trades ::
  "order_env \<Rightarrow> tracker \<Rightarrow> nat list \<Rightarrow> quantity \<Rightarrow> quantity \<Rightarrow> tracker_map \<Rightarrow> order_book
     \<Rightarrow> (quantity \<times> tracker \<times> order_book \<times> tracker_map) result" where
  "try_create_deferred_trades env inbound deferred_matches maxQty minQty current_orders b =
     rbind (propose_fills current_orders maxQty deferred_matches 0) (\<lambda>(foundQty, fills).
       if minQty \<le> foundQty \<and> foundQty \<le> maxQty
       then execute_fills env foundQty deferred_matches fills 0 inbound b current_orders
       else Inr (0, inbound, b, current_orders))"

section \<open>An all-or-none inbound order\<close>

definition aon_aon_step :: "order_env \<Rightarrow> tracker_node \<Rightarrow> match_state \<Rightarrow> match_state result" where
  "aon_aon_step env entry s =
     (let current_order = nd_val entry;
          current_quantity = open_qty current_order;
          inbound_qty = ms_inbound_qty s
      in if current_quantity \<le> inbound_qty then
           (if inbound_qty \<le> current_quantity + ms_deferred_qty s then
              (let maxQty = inbound_qty - current_quantity
               in rbind (try_create_deferred_trades env (ms_inbound s) (ms_deferred_matches s)
                           maxQty maxQty (ms_visited s) (ms_book s))
                    (\<lambda>(traded, inbound, b, visited).
                       let s1 = s\<lparr>ms_inbound := inbound, ms_book := b, ms_visited := visited\<rparr>
                       in if maxQty = traded then
                            rbind (create_trade env b inbound current_order UINT32_MAX)
                              (\<lambda>(traded, inbound, current_order, b).
                                 let s2 = s1\<lparr>ms_inbound_qty := inbound_qty - maxQty,
                                             ms_inbound := inbound, ms_book := b\<rparr>
                                 in if 0 < traded
                                    then Inr (s2\<lparr>ms_inbound_qty := ms_inbound_qty s2 - traded,
                                                 ms_matched := True\<rparr>)
                                    else Inr (keep_node (entry\<lparr>nd_val := current_order\<rparr>) s2))
                          else Inr (keep_node entry s1)))
            else
              Inr (keep_node entry
                     (s\<lparr>ms_deferred_qty := ms_deferred_qty s + current_quantity,
                        ms_deferred_matches := ms_deferred_matches s @ [nd_id entry]\<rparr>)))
         else
           Inr (keep_node entry (s\<lparr>ms_deferred_aons := ms_deferred_aons s @ [nd_id entry]\<rparr>)))"

definition aon_regular_step :: "order_env \<Rightarrow> tracker_node \<Rightarrow> match_state \<Rightarrow> match_state result" where
  "aon_regular_step env entry s =
     (let current_order = nd_val entry;
          current_quantity = open_qty current_order;
          inbound_qty = ms_inbound_qty s
      in if inbound_qty \<le> current_quantity + ms_deferred_qty s then
           rbind (try_create_deferred_trades env (ms_inbound s) (ms_deferred_matches s) inbound_qty
                    (if current_quantity < inbound_qty then inbound_qty - current_quantity else 0)
                    (ms_visited s) (ms_book s))
             (\<lambda>(traded, inbound, b, visited).
                let s1 = s\<lparr>ms_inbound := inbound, ms_book := b, ms_visited := visited\<rparr>
                in if inbound_qty \<le> current_quantity + traded then
                     rbind (create_trade env b inbound current_order UINT32_MAX)
                       (\<lambda>(t, inbound, current_order, b).
                          let traded = traded + t;
                              s2 = s1\<lparr>ms_inbound := inbound, ms_book := b\<rparr>;
                              s3 = (if 0 < traded
                                    then s2\<lparr>ms_inbound_qty := inbound_qty - traded, ms_matched := True\<rparr>
                                    else s2)
                          in if filled current_order then Inr s3
                             else Inr (keep_node (entry\<lparr>nd_val := current_order\<rparr>) s3))
                   else Inr (keep_node entry s1))
         else
           Inr (keep_node entry
                  (s\<lparr>ms_deferred_qty := ms_deferred_qty s + current_quantity,
                     ms_deferred_matches := ms_deferred_matches s @ [nd_id entry]\<rparr>)))"

definition aon_step :: "order_env \<Rightarrow> tracker_node \<Rightarrow> match_state \<Rightarrow> match_state result" where
  "aon_step env entry s =
     (if all_or_none (nd_val entry) then aon_aon_step env entry s
      else aon_regular_step env entry s)"

definition match_aon_order ::
  "order_env \<Rightarrow> tracker \<Rightarrow> price \<Rightarrow> tracker_map \<Rightarrow> nat list \<Rightarrow> order_book \<Rightarrow> match_result" where
  "match_aon_order env inbound inbound_price current_orders deferred_aons b =
     rbind (match_loop (aon_step env) inbound_price current_orders
              (match_start inbound b deferred_aons)) match_finish"

definition match_order ::
  "order_env \<Rightarrow> tracker \<Rightarrow> price \<Rightarrow> tracker_map \<Rightarrow> nat list \<Rightarrow> order_book \<Rightarrow> match_result" where
  "match_order env inbound inbound_price current_orders deferred_aons b =
     (if all_or_none inbound
      then match_aon_order env inbound inbound_price current_orders deferred_aons b
      else match_regular_order env inbound inbound_price current_orders deferred_aons b)"

section \<open>Deferred all-or-none orders of the book, and add_order\<close>

text \<open>The trackers deferred here are those of one side, the market the other side.\<close>

fun check_deferred_aons ::
  "order_env \<Rightarrow> nat list \<Rightarrow> tracker_map \<Rightarrow> tracker_map \<Rightarrow> order_book \<Rightarrow> bool
     \<Rightarrow> (bool \<times> tracker_map \<times> tracker_map \<times> order_book) result" where
  "check_deferred_aons env [] deferredTrackers marketTrackers b result =
     Inr (result, deferredTrackers, marketTrackers, b)"
| "check_deferred_aons env (entry # pos) deferredTrackers marketTrackers b result =
     rbind (mm_get entry deferredTrackers) (\<lambda>n.
     rbind (match_order env (nd_val n) (cp_price (nd_key n)) marketTrackers [] b)
       (\<lambda>(matched, tracker, marketTrackers, ignoredAons, b).
          let deferredTrackers = (if filled tracker then mm_erase entry deferredTrackers
                                  else mm_put entry tracker deferredTrackers)
          in check_deferred_aons env pos deferredTrackers marketTrackers b (result \<or> matched)))"

definition insert_bid :: "price \<Rightarrow> tracker \<Rightarrow> order_book \<Rightarrow> order_book" where
  "insert_bid order_price t b =
     b\<lparr>ob_bids := mm_insert cp_less (new_node b (ComparablePrice True order_price) t) (ob_bids b),
       ob_next_node := Suc (ob_next_node b)\<rparr>"

definition insert_ask :: "price \<Rightarrow> tracker \<Rightarrow> order_book \<Rightarrow> order_book" where
  "insert_ask order_price t b =
     b\<lparr>ob_asks := mm_insert cp_less (new_node b (ComparablePrice False order_price) t) (ob_asks b),
       ob_next_node := Suc (ob_next_node b)\<rparr>"

definition add_order ::
  "order_env \<Rightarrow> tracker \<Rightarrow> price \<Rightarrow> order_book \<Rightarrow> (bool \<times> tracker \<times> order_book) result" where
  "add_order env inbound order_price b =
     (let buy = o_is_buy (env (tk_order inbound))
      in rbind (match_order env inbound order_price (if buy then ob_asks b else ob_bids b) [] b)
           (\<lambda>(matched, inbound, others, deferred_aons, b).
              let b1 = (if buy then b\<lparr>ob_asks := others\<rparr> else b\<lparr>ob_bids := others\<rparr>)
              in if open_qty inbound \<noteq> 0 \<and> \<not> immediate_or_cancel inbound then
                   (if buy then
                      (let b2 = insert_bid order_price inbound b1
                       in rbind (check_deferred_aons env deferred_aons (ob_asks b2) (ob_bids b2) b2 False)
                            (\<lambda>(more, asks, bids, b).
                               Inr (matched \<or> more, inbound, b\<lparr>ob_asks := asks, ob_bids := bids\<rparr>)))
                    else
                      (let b2 = insert_ask order_price inbound b1
                       in rbind (check_deferred_aons env deferred_aons (ob_bids b2) (ob_asks b2) b2 False)
                            (\<lambda>(more, bids, asks, b).
                               Inr (matched \<or> more, inbound, b\<lparr>ob_bids := bids, ob_asks := asks\<rparr>))))
                 else Inr (matched, inbound, b1)))"

definition submit_order ::
  "order_env \<Rightarrow> tracker \<Rightarrow> order_book \<Rightarrow> (bool \<times> tracker \<times> order_book) result" where
  "submit_order env inbound b = add_order env inbound (o_price (env (tk_order inbound))) b"

end
