(* ===== verification/Match_Facts.thy ===== *)
theory Match_Facts
  imports Matching "HOL-Library.Sublist"
begin

text \<open>
  What the matching loops share: how a side of the market may shrink, the conservation of its
  quantity, and the rule that lifts a fact kept by one iteration to the whole loop, stated as
  the locale \<open>match_loop_rule\<close> and interpreted for both loops.
\<close>

section \<open>Shrinking a side\<close>

text \<open>
  A resting order is left alone or, when it is not all-or-none, partly filled; \<open>shrinks m m'\<close>
  says that \<open>m'\<close> holds the nodes of \<open>m\<close> that are left, in their order and with their keys.
\<close>

definition shrunk :: "tracker \<Rightarrow> tracker \<Rightarrow> bool" where
  "shrunk t t' \<longleftrightarrow> t' = t \<or>
     (\<not> all_or_none t \<and> (\<exists>q \<le> tk_open_qty t. t' = take_qty q t) \<and> tk_open_qty t' \<noteq> 0)"

definition node_tag :: "tracker_node \<Rightarrow> nat \<times> comparable_price" where
  "node_tag n = (nd_id n, nd_key n)"

definition shrinks :: "tracker_map \<Rightarrow> tracker_map \<Rightarrow> bool" where
  "shrinks m m' \<longleftrightarrow> subseq (map node_tag m') (map node_tag m) \<and>
     (\<forall>n' \<in> set m'. \<exists>n \<in> set m. node_tag n = node_tag n' \<and> shrunk (nd_val n) (nd_val n'))"

definition side_qty :: "tracker_map \<Rightarrow> nat" where
  "side_qty m = (\<Sum>n \<leftarrow> m. unat (tk_open_qty (nd_val n)))"

definition live :: "tracker \<Rightarrow> bool" where
  "live t = (unreserved t \<and> tk_open_qty t \<noteq> 0)"

definition live_side :: "tracker_map \<Rightarrow> bool" where
  "live_side m = (distinct (mm_ids m) \<and> (\<forall>n \<in> set m. live (nd_val n)))"

lemma side_qty_simps [simp]:
  "side_qty [] = 0" "side_qty (n # m) = unat (tk_open_qty (nd_val n)) + side_qty m"
  "side_qty (m @ m') = side_qty m + side_qty m'"
  by (simp_all add: side_qty_def)

lemma shrunk_refl [simp]: "shrunk t t"
  by (simp add: shrunk_def)

lemma shrunk_frame:
  assumes "shrunk t t'"
  shows "tk_order t' = tk_order t" "all_or_none t' = all_or_none t"
    "unreserved t' = unreserved t" "immediate_or_cancel t' = immediate_or_cancel t"
    "live t \<Longrightarrow> live t'" "all_or_none t \<Longrightarrow> t' = t" "tk_open_qty t' \<le> tk_open_qty t"
  using assms by (auto simp: shrunk_def live_def word_sub_le)

lemma shrunk_trans: "shrunk a b \<Longrightarrow> shrunk b c \<Longrightarrow> shrunk a c"
proof -
  assume ab: "shrunk a b" and bc: "shrunk b c"
  show "shrunk a c"
  proof (cases "b = a \<or> c = b")
    case True
    with ab bc show ?thesis by auto
  next
    case False
    from ab False obtain q where q: "\<not> all_or_none a" "q \<le> tk_open_qty a" "b = take_qty q a"
      by (auto simp: shrunk_def)
    from bc False obtain r where r: "r \<le> tk_open_qty b" "c = take_qty r b" "tk_open_qty c \<noteq> 0"
      by (auto simp: shrunk_def)
    have "c = take_qty (q + r) a" using q r by (simp add: take_qty_def algebra_simps)
    moreover have "q + r \<le> tk_open_qty a"
    proof -
      have "unat r \<le> unat (tk_open_qty a) - unat q"
        using q r by (simp add: word_le_nat_alt unat_sub)
      then have "unat q + unat r \<le> unat (tk_open_qty a)"
        using q(2) by (simp add: word_le_nat_alt)
      then have "(unat q + unat r) mod 2 ^ 32 \<le> unat (tk_open_qty a)"
        by (meson le_trans mod_less_eq_dividend)
      then show ?thesis by (simp add: word_le_nat_alt unat_word_ariths)
    qed
    ultimately show ?thesis using q r by (auto simp: shrunk_def)
  qed
qed

lemma shrinks_refl [simp]: "shrinks m m"
  by (auto simp: shrinks_def)

lemma shrinks_trans:
  assumes "shrinks a b" "shrinks b c"
  shows "shrinks a c"
  unfolding shrinks_def
proof (intro conjI ballI)
  show "subseq (map node_tag c) (map node_tag a)"
    using assms unfolding shrinks_def by (blast intro: subseq_order.trans)
  fix n'' assume "n'' \<in> set c"
  then obtain n' where n': "n' \<in> set b" "node_tag n' = node_tag n''" "shrunk (nd_val n') (nd_val n'')"
    using assms(2) unfolding shrinks_def by blast
  then obtain n where n: "n \<in> set a" "node_tag n = node_tag n'" "shrunk (nd_val n) (nd_val n')"
    using assms(1) unfolding shrinks_def by blast
  show "\<exists>n \<in> set a. node_tag n = node_tag n'' \<and> shrunk (nd_val n) (nd_val n'')"
    using n n' shrunk_trans by (intro bexI [OF _ n(1)]) auto
qed

lemma shrinks_append: "shrinks a a' \<Longrightarrow> shrinks b b' \<Longrightarrow> shrinks (a @ b) (a' @ b')"
proof -
  assume a: "shrinks a a'" and b: "shrinks b b'"
  have "subseq (map node_tag (a' @ b')) (map node_tag (a @ b))"
    using a b unfolding shrinks_def map_append by (blast intro: list_emb_append_mono)
  moreover have "\<exists>n \<in> set (a @ b). node_tag n = node_tag n' \<and> shrunk (nd_val n) (nd_val n')"
    if "n' \<in> set (a' @ b')" for n'
    using a b that unfolding shrinks_def by (metis UnE UnI1 UnI2 set_append)
  ultimately show ?thesis unfolding shrinks_def by blast
qed

lemma shrinks_drop [simp]: "shrinks [n] []"
  by (simp add: shrinks_def)

lemma shrinks_keep: "shrunk (nd_val n) t \<Longrightarrow> shrinks [n] [n\<lparr>nd_val := t\<rparr>]"
  by (simp add: shrinks_def node_tag_def)

lemma mm_ids_tags: "mm_ids m = map fst (map node_tag m)"
  by (simp add: mm_ids_def node_tag_def)

lemma shrinks_ids: "shrinks m m' \<Longrightarrow> subseq (mm_ids m') (mm_ids m)"
  unfolding shrinks_def mm_ids_tags by (blast intro: subseq_map)

lemma shrinks_keys: "shrinks m m' \<Longrightarrow> subseq (map nd_key m') (map nd_key m)"
proof -
  assume "shrinks m m'"
  then have "subseq (map snd (map node_tag m')) (map snd (map node_tag m))"
    unfolding shrinks_def by (blast intro: subseq_map)
  then show ?thesis by (simp add: node_tag_def comp_def)
qed

lemma sorted_wrt_subseq: "subseq xs ys \<Longrightarrow> sorted_wrt P ys \<Longrightarrow> sorted_wrt P xs"
  by (induction rule: list_emb.induct) (auto dest: list_emb_set)

lemma shrinks_sorted: "shrinks m m' \<Longrightarrow> mm_sorted lt m \<Longrightarrow> mm_sorted lt m'"
proof -
  assume "shrinks m m'" "mm_sorted lt m"
  moreover have "mm_sorted lt m = sorted_wrt (\<lambda>a b. \<not> lt b a) (map nd_key m)" for m :: tracker_map
    by (simp add: mm_sorted_def sorted_wrt_map)
  ultimately show ?thesis using shrinks_keys sorted_wrt_subseq by metis
qed

lemma shrinks_node:
  assumes "shrinks m m'" "n' \<in> set m'"
  obtains n where "n \<in> set m" "nd_id n = nd_id n'" "nd_key n = nd_key n'"
    "shrunk (nd_val n) (nd_val n')"
  using assms unfolding shrinks_def node_tag_def by blast

lemma subseq_subset: "subseq xs ys \<Longrightarrow> set xs \<subseteq> set ys"
  by (auto dest: list_emb_set)

lemma distinct_subseq: "subseq xs ys \<Longrightarrow> distinct ys \<Longrightarrow> distinct xs"
  by (induction rule: list_emb.induct) (auto dest: subseq_subset)

lemma shrinks_live: "shrinks m m' \<Longrightarrow> live_side m \<Longrightarrow> live_side m'"
  unfolding live_side_def
  by (metis shrinks_ids shrinks_node shrunk_frame(5) distinct_subseq)

lemma shrinks_ids_set: "shrinks m m' \<Longrightarrow> set (mm_ids m') \<subseteq> set (mm_ids m)"
  using shrinks_ids subseq_subset by blast

subsection \<open>Changing one node\<close>

lemma mm_get_mem:
  assumes "distinct (mm_ids m)" "n \<in> set m"
  shows "mm_get (nd_id n) m = Inr n"
  using assms
proof (induction m)
  case Nil
  then show ?case by simp
next
  case (Cons x m)
  then show ?case
    by (cases "x = n") (auto simp: mm_get_Cons mm_ids_def)
qed

lemma shrinks_erase: "shrinks m (mm_erase i m)"
  unfolding shrinks_def mm_erase_def
  by (auto intro!: subseq_map subseq_filter_left)

lemma shrinks_put:
  assumes "mm_get i m = Inr n" "distinct (mm_ids m)" "shrunk (nd_val n) t"
  shows "shrinks m (mm_put i t m)"
proof -
  obtain pre post where m: "m = pre @ n # post" "i \<notin> set (mm_ids pre)" "nd_id n = i"
    using mm_get_split [OF assms(1)] by blast
  have post: "i \<notin> set (mm_ids post)" using m assms(2) by auto
  have "mm_put i t m = pre @ [n\<lparr>nd_val := t\<rparr>] @ post"
    using m post by (simp add: mm_put_Cons)
  then show ?thesis
    using m shrinks_append [OF shrinks_refl [of pre] shrinks_append
        [OF shrinks_keep [OF assms(3)] shrinks_refl [of post]]] by simp
qed

lemma side_qty_erase:
  assumes "mm_get i m = Inr n" "distinct (mm_ids m)"
  shows "side_qty (mm_erase i m) + unat (tk_open_qty (nd_val n)) = side_qty m"
proof -
  obtain pre post where m: "m = pre @ n # post" "i \<notin> set (mm_ids pre)" "nd_id n = i"
    using mm_get_split [OF assms(1)] by blast
  moreover have "i \<notin> set (mm_ids post)" using m assms(2) by auto
  ultimately show ?thesis by (simp add: mm_erase_Cons)
qed

lemma side_qty_put:
  assumes "mm_get i m = Inr n" "distinct (mm_ids m)"
  shows "side_qty (mm_put i t m) + unat (tk_open_qty (nd_val n)) = side_qty m + unat (tk_open_qty t)"
proof -
  obtain pre post where m: "m = pre @ n # post" "i \<notin> set (mm_ids pre)" "nd_id n = i"
    using mm_get_split [OF assms(1)] by blast
  moreover have "i \<notin> set (mm_ids post)" using m assms(2) by auto
  ultimately show ?thesis by (simp add: mm_put_Cons)
qed

lemma mm_put_same:
  assumes "mm_get i m = Inr n" "distinct (mm_ids m)"
  shows "mm_put i (nd_val n) m = m"
proof -
  obtain pre post where m: "m = pre @ n # post" "i \<notin> set (mm_ids pre)" "nd_id n = i"
    using mm_get_split [OF assms(1)] by blast
  moreover have "i \<notin> set (mm_ids post)" using m assms(2) by auto
  ultimately show ?thesis by (simp add: mm_put_Cons)
qed

lemma mm_get_other:
  "j \<noteq> i \<Longrightarrow> mm_get j (mm_erase i m) = mm_get j m"
  "j \<noteq> i \<Longrightarrow> mm_get j (mm_put i t m) = mm_get j m"
  by (induction m) (auto simp: mm_get_def mm_erase_def mm_put_def)

section \<open>Prices\<close>

text \<open>
  A trade needs a price: that of the resting order, of the inbound one, or the market price.
  Without any of them \<^verbatim>\<open>create_trade\<close> trades nothing.
\<close>

definition priced :: "order_env \<Rightarrow> order_book \<Rightarrow> tracker \<Rightarrow> tracker_map \<Rightarrow> bool" where
  "priced env b inbound m \<longleftrightarrow>
     ob_marketPrice b \<noteq> 0 \<or> o_price (env (tk_order inbound)) \<noteq> 0 \<or>
     (\<forall>n \<in> set m. o_price (env (tk_order (nd_val n))) \<noteq> 0)"

lemma priced_trade_qty:
  assumes "priced env b i m" "n \<in> set m"
  shows "trade_qty env b i (nd_val n) mx =
    min mx (min (tk_open_qty i) (tk_open_qty (nd_val n)))"
  using assms cross_price_nonzero_iff [of env b i "nd_val n"]
  by (auto simp: trade_qty_def priced_def)

lemma priced_mono:
  assumes "priced env b i m" "trading b cbs b'" "tk_order i' = tk_order i" "shrinks m m'"
  shows "priced env b' i' m'"
proof -
  have "\<exists>n \<in> set m. tk_order (nd_val n) = tk_order (nd_val n')" if "n' \<in> set m'" for n'
    using shrinks_node [OF assms(4) that] shrunk_frame(1) by metis
  moreover have "ob_marketPrice b \<noteq> 0 \<Longrightarrow> ob_marketPrice b' \<noteq> 0"
    using tradingD(8) [OF assms(2)] .
  ultimately show ?thesis using assms(1,3) unfolding priced_def by metis
qed

section \<open>The trades of one inbound order\<close>

text \<open>
  A fill notification is valid when it is for a positive quantity, between the inbound order
  and a resting order whose price matches, at the price of the resting order where that order
  has one, or else at the price of the inbound order where that has one.
\<close>

definition traded_price :: "order_env \<Rightarrow> price \<Rightarrow> tracker \<Rightarrow> tracker \<Rightarrow> price" where
  "traded_price env mp inbound current =
     (if o_price (env (tk_order current)) \<noteq> 0 then o_price (env (tk_order current))
      else if o_price (env (tk_order inbound)) \<noteq> 0 then o_price (env (tk_order inbound))
      else mp)"

definition fill_ok :: "order_env \<Rightarrow> price \<Rightarrow> tracker \<Rightarrow> tracker_map \<Rightarrow> callback \<Rightarrow> bool" where
  "fill_ok env p inbound m cb \<longleftrightarrow>
     is_fill cb \<and> cb_quantity cb \<noteq> 0 \<and> cb_price cb \<noteq> 0 \<and>
     cb_order cb = Some (tk_order inbound) \<and>
     (\<exists>n \<in> set m. cb_matched_order cb = Some (tk_order (nd_val n)) \<and> matches (nd_key n) p \<and>
        cb_price cb = traded_price env (cb_price cb) inbound (nd_val n))"

text \<open>
  \<open>traded_so_far\<close>: from the order \<open>inbound\<close> and the book \<open>b0\<close>, trades with orders of \<open>m\<close>
  that queued \<open>cbs\<close> have led to the tracker \<open>i\<close> and the book \<open>b\<close>.
\<close>

definition traded_so_far ::
  "order_env \<Rightarrow> price \<Rightarrow> tracker \<Rightarrow> order_book \<Rightarrow> tracker_map \<Rightarrow> callback list \<Rightarrow> tracker
     \<Rightarrow> order_book \<Rightarrow> bool" where
  "traded_so_far env p inbound b0 m cbs i b \<longleftrightarrow>
     trading b0 cbs b \<and> (\<forall>cb \<in> set cbs. fill_ok env p inbound m cb) \<and>
     (\<exists>q \<le> tk_open_qty inbound. i = take_qty q inbound \<and> unat q = traded_qty cbs)"

lemma traded_so_far_start [simp]: "traded_so_far env p i b m [] i b"
  by (auto simp: traded_so_far_def intro: exI [of _ 0])

lemma traded_so_far_mono:
  "traded_so_far env p inb b0 m cbs i b \<Longrightarrow> set m \<subseteq> set m' \<Longrightarrow> traded_so_far env p inb b0 m' cbs i b"
  by (fastforce simp: traded_so_far_def fill_ok_def)

lemma traded_so_farD:
  assumes "traded_so_far env p inb b0 m cbs i b"
  shows "tk_order i = tk_order inb" "unreserved i = unreserved inb"
    "all_or_none i = all_or_none inb" "immediate_or_cancel i = immediate_or_cancel inb"
    "trading b0 cbs b" "unat (tk_open_qty i) + traded_qty cbs = unat (tk_open_qty inb)"
  using assms by (auto simp: traded_so_far_def unat_sub_add)
    (metis take_qty_sel(4) unat_take_qty)

lemma traded_qty_zero_iff:
  assumes "traded_so_far env p inb b0 m cbs i b"
  shows "traded_qty cbs = 0 \<longleftrightarrow> cbs = []"
proof (cases cbs)
  case Nil
  then show ?thesis by simp
next
  case (Cons c cs)
  then have "fill_ok env p inb m c" using assms by (simp add: traded_so_far_def)
  then have "0 < unat (cb_quantity c)" "is_fill c"
    by (auto simp: fill_ok_def word_gt_0_unat [symmetric] word_gt_0)
  with Cons show ?thesis by simp
qed

lemma cross_price_eq: "cross_price env b i c = traded_price env (ob_marketPrice b) i c"
  by (simp add: cross_price_def traded_price_def MARKET_ORDER_PRICE_def Let_def)

lemma traded_price_idem:
  "traded_price env (traded_price env mp i c) i c = traded_price env mp i c"
  by (simp add: traded_price_def)

lemma traded_price_cong:
  "tk_order i' = tk_order i \<Longrightarrow> tk_order c' = tk_order c \<Longrightarrow>
     traded_price env mp i' c' = traded_price env mp i c"
  by (simp add: traded_price_def)

lemma take_qty_take_qty: "take_qty r (take_qty q t) = take_qty (q + r) t"
  by (simp add: take_qty_def algebra_simps)

lemma traded_step:
  assumes T: "traded_so_far env p inb b0 m cbs i b"
    and n: "n \<in> set m" "matches (nd_key n) p" "tk_order c = tk_order (nd_val n)"
    and q: "q = trade_qty env b i c mx"
  shows "traded_so_far env p inb b0 m (cbs @ trade_callbacks env b i c q)
           (take_qty q i) (trade_book env b i c q)"
proof -
  obtain r where r: "r \<le> tk_open_qty inb" "i = take_qty r inb" "unat r = traded_qty cbs"
    using T by (auto simp: traded_so_far_def)
  have qi: "q \<le> tk_open_qty i" unfolding q by (rule trade_qty_le)
  have sum: "unat r + unat q \<le> unat (tk_open_qty inb)"
    using r(1,2) qi by (simp add: word_le_nat_alt unat_sub)
  then have "unat r + unat q < 2 ^ LENGTH(32)"
    using unat_32_less [of "tk_open_qty inb"] by simp
  then have rq: "unat (r + q) = unat r + unat q" by (rule unat_add_no_wrap)
  have "trading b0 (cbs @ trade_callbacks env b i c q) (trade_book env b i c q)"
    using T trading_trans [OF _ trading_trade_book [of q env b i c mx]] q
    by (simp add: traded_so_far_def)
  moreover have "fill_ok env p inb m cb" if "cb \<in> set (trade_callbacks env b i c q)" for cb
  proof -
    from that have "q \<noteq> 0" and cb: "cb = fill_callback env b i c q"
      by (auto simp: trade_callbacks_def split: if_splits)
    then have x: "cross_price env b i c \<noteq> 0" using q by (auto simp: trade_qty_def)
    have oi: "tk_order i = tk_order inb" using T by (rule traded_so_farD)
    have "cross_price env b i c = traded_price env (cross_price env b i c) inb (nd_val n)"
      unfolding cross_price_eq
      using traded_price_cong [OF oi n(3)] traded_price_idem by metis
    then show ?thesis
      using n x oi \<open>q \<noteq> 0\<close> unfolding cb fill_ok_def fill_callback_def
      by (intro conjI bexI [OF _ n(1)]) auto
  qed
  moreover have "\<exists>q' \<le> tk_open_qty inb. take_qty q i = take_qty q' inb \<and>
      unat q' = traded_qty (cbs @ trade_callbacks env b i c q)"
    using sum rq r by (intro exI [of _ "r + q"]) (simp add: word_le_nat_alt take_qty_take_qty)
  ultimately show ?thesis using T by (auto simp: traded_so_far_def)
qed

section \<open>The core of the loop invariants\<close>

text \<open>The deferred all-or-none orders of a loop are distinct nodes that are still there.\<close>

definition deferred_ok :: "nat list \<Rightarrow> match_state \<Rightarrow> bool" where
  "deferred_ok d0 s \<longleftrightarrow>
     (\<exists>ds. ms_deferred_aons s = d0 @ ds \<and> distinct ds \<and>
       (\<forall>i \<in> set ds. \<exists>n \<in> set (ms_visited s). nd_id n = i \<and> all_or_none (nd_val n)))"

definition match_core ::
  "order_env \<Rightarrow> price \<Rightarrow> tracker \<Rightarrow> order_book \<Rightarrow> nat list \<Rightarrow> tracker_map \<Rightarrow> match_state \<Rightarrow> bool" where
  "match_core env p inb b0 d0 pre s \<longleftrightarrow>
     shrinks pre (ms_visited s) \<and> deferred_ok d0 s \<and>
     (\<exists>cbs. traded_so_far env p inb b0 pre cbs (ms_inbound s) (ms_book s) \<and>
        side_qty (ms_visited s) + traded_qty cbs = side_qty pre \<and> ms_matched s = (cbs \<noteq> []))"

lemma match_core_start:
  "match_core env p inb b d [] (match_start inb b d)"
  by (auto simp: match_core_def match_start_def deferred_ok_def intro!: exI [of _ "[]"])

lemma match_core_cong:
  assumes "match_core env p inb b0 d0 pre s"
    "ms_inbound s' = ms_inbound s" "ms_book s' = ms_book s" "ms_visited s' = ms_visited s"
    "ms_matched s' = ms_matched s" "ms_deferred_aons s' = ms_deferred_aons s"
  shows "match_core env p inb b0 d0 pre s'"
  using assms by (simp add: match_core_def deferred_ok_def)

lemma match_core_keep:
  assumes C: "match_core env p inb b0 d0 pre s"
    and s': "ms_inbound s' = ms_inbound s" "ms_book s' = ms_book s"
      "ms_visited s' = ms_visited s @ [e]" "ms_matched s' = ms_matched s"
      "ms_deferred_aons s' = ms_deferred_aons s"
  shows "match_core env p inb b0 d0 (pre @ [e]) s'"
proof -
  from C obtain cbs where cbs: "traded_so_far env p inb b0 pre cbs (ms_inbound s) (ms_book s)"
    "side_qty (ms_visited s) + traded_qty cbs = side_qty pre" "ms_matched s = (cbs \<noteq> [])"
    and sh: "shrinks pre (ms_visited s)" and d: "deferred_ok d0 s"
    by (auto simp: match_core_def)
  have "deferred_ok d0 s'" using d s' unfolding deferred_ok_def by fastforce
  moreover have "shrinks (pre @ [e]) (ms_visited s')"
    using shrinks_append [OF sh shrinks_refl] s' by simp
  moreover have "traded_so_far env p inb b0 (pre @ [e]) cbs (ms_inbound s') (ms_book s')"
    using traded_so_far_mono [OF cbs(1), of "pre @ [e]"] s' by auto
  ultimately show ?thesis using cbs s' unfolding match_core_def by (auto intro!: exI [of _ cbs])
qed

lemma match_core_defer:
  assumes C: "match_core env p inb b0 d0 pre s" and e: "all_or_none (nd_val e)"
      "nd_id e \<notin> set (mm_ids (ms_visited s))"
    and s': "ms_inbound s' = ms_inbound s" "ms_book s' = ms_book s"
      "ms_visited s' = ms_visited s @ [e]" "ms_matched s' = ms_matched s"
      "ms_deferred_aons s' = ms_deferred_aons s @ [nd_id e]"
  shows "match_core env p inb b0 d0 (pre @ [e]) s'"
proof -
  let ?s = "s'\<lparr>ms_deferred_aons := ms_deferred_aons s\<rparr>"
  have "match_core env p inb b0 d0 (pre @ [e]) ?s"
    by (rule match_core_keep [OF C]) (simp_all add: s')
  moreover have "deferred_ok d0 s'"
  proof -
    from C obtain ds where ds: "ms_deferred_aons s = d0 @ ds" "distinct ds"
      "\<forall>i \<in> set ds. \<exists>n \<in> set (ms_visited s). nd_id n = i \<and> all_or_none (nd_val n)"
      by (auto simp: match_core_def deferred_ok_def)
    have "nd_id e \<notin> set ds"
      using ds(3) e(2) unfolding mm_ids_def by (metis imageI list.set_map)
    then show ?thesis
      using ds e s' unfolding deferred_ok_def by (intro exI [of _ "ds @ [nd_id e]"]) auto
  qed
  ultimately show ?thesis by (simp add: match_core_def)
qed

text \<open>
  A trade of the order at the position: it is closed and its node erased, or it is partly
  filled and its node kept.
\<close>

lemma match_core_trade:
  assumes C: "match_core env p inb b0 d0 pre s" and m: "matches (nd_key e) p"
    and q: "q = trade_qty env (ms_book s) (ms_inbound s) (nd_val e) mx" "q \<noteq> 0"
    and s': "ms_inbound s' = take_qty q (ms_inbound s)"
      "ms_book s' = trade_book env (ms_book s) (ms_inbound s) (nd_val e) q"
      "ms_matched s'" "ms_deferred_aons s' = ms_deferred_aons s"
    and v: "q = tk_open_qty (nd_val e) \<and> ms_visited s' = ms_visited s \<or>
      q \<noteq> tk_open_qty (nd_val e) \<and> \<not> all_or_none (nd_val e) \<and>
      ms_visited s' = ms_visited s @ [e\<lparr>nd_val := take_qty q (nd_val e)\<rparr>]"
  shows "match_core env p inb b0 d0 (pre @ [e]) s'"
proof -
  from C obtain cbs where cbs: "traded_so_far env p inb b0 pre cbs (ms_inbound s) (ms_book s)"
    "side_qty (ms_visited s) + traded_qty cbs = side_qty pre"
    and sh: "shrinks pre (ms_visited s)" and d: "deferred_ok d0 s"
    by (auto simp: match_core_def)
  let ?c = "trade_callbacks env (ms_book s) (ms_inbound s) (nd_val e) q"
  have le: "q \<le> tk_open_qty (nd_val e)" unfolding q by (rule trade_qty_le)
  have "traded_so_far env p inb b0 (pre @ [e]) cbs (ms_inbound s) (ms_book s)"
    using traded_so_far_mono [OF cbs(1), of "pre @ [e]"] by auto
  then have T: "traded_so_far env p inb b0 (pre @ [e]) (cbs @ ?c) (ms_inbound s') (ms_book s')"
    unfolding s' by (rule traded_step [where n = e, OF _ _ m refl q(1)]) simp
  have "deferred_ok d0 s'" using d s' v unfolding deferred_ok_def by fastforce
  moreover have "shrinks (pre @ [e]) (ms_visited s')"
  proof -
    have "shrunk (nd_val e) (take_qty q (nd_val e))"
      if "q \<noteq> tk_open_qty (nd_val e)" "\<not> all_or_none (nd_val e)"
      using that le by (auto simp: shrunk_def)
    then show ?thesis
      using v shrinks_append [OF sh shrinks_drop [of e]] shrinks_append [OF sh shrinks_keep [of e]]
      by auto
  qed
  moreover have "side_qty (ms_visited s') + traded_qty (cbs @ ?c) = side_qty (pre @ [e])"
    using v cbs(2) unat_take_qty [OF le] by auto
  moreover have "cbs @ ?c \<noteq> []" using q(2) by (simp add: trade_callbacks_def)
  ultimately show ?thesis using T s'(3) unfolding match_core_def by blast
qed

section \<open>What a match does\<close>

text \<open>
  The outcome of matching \<open>inb\<close> at \<open>p\<close> against the side \<open>m\<close>: the side shrinks, by exactly
  the quantity the notifications report, which is also what the inbound order has lost; every
  notification is a valid fill; a match is reported when something traded; and the deferred
  orders are all-or-none orders still on the side.
\<close>

definition match_outcome ::
  "order_env \<Rightarrow> price \<Rightarrow> tracker \<Rightarrow> order_book \<Rightarrow> tracker_map
     \<Rightarrow> bool \<times> tracker \<times> tracker_map \<times> nat list \<times> order_book \<Rightarrow> bool" where
  "match_outcome env p inb b m r \<longleftrightarrow> (case r of (matched, inb', m', aons, b') \<Rightarrow>
     shrinks m m' \<and>
     (\<exists>cbs. traded_so_far env p inb b m cbs inb' b' \<and> side_qty m' + traded_qty cbs = side_qty m \<and>
        matched = (cbs \<noteq> [])) \<and>
     distinct aons \<and> (\<forall>i \<in> set aons. \<exists>n \<in> set m'. nd_id n = i \<and> all_or_none (nd_val n)))"

section \<open>The rule for the loop\<close>

locale match_loop_rule =
  fixes step :: "tracker_node \<Rightarrow> match_state \<Rightarrow> match_state result"
    and p :: price
    and I :: "tracker_map \<Rightarrow> match_state \<Rightarrow> bool"
  assumes step_keeps: "I (e # pos) s \<Longrightarrow> \<not> filled (ms_inbound s) \<Longrightarrow> matches (nd_key e) p \<Longrightarrow>
      \<exists>s'. step e s = Inr s' \<and> I pos s'"
begin

lemma loop:
  "I m s \<Longrightarrow> \<exists>s' pos. match_loop step p m s = Inr (s', pos) \<and> I pos s' \<and>
     (pos = [] \<or> filled (ms_inbound s') \<or> \<not> matches (nd_key (hd pos)) p)"
proof (induction m arbitrary: s)
  case Nil
  then show ?case by simp
next
  case (Cons e m)
  show ?case
  proof (cases "filled (ms_inbound s) \<or> \<not> matches (nd_key e) p")
    case True
    with Cons.prems show ?thesis by auto
  next
    case False
    then obtain s1 where s1: "step e s = Inr s1" "I m s1" using step_keeps Cons.prems by blast
    from Cons.IH [OF s1(2)] False s1(1) show ?thesis by auto
  qed
qed

lemma finish:
  assumes "I m s"
  obtains s' pos where
    "rbind (match_loop step p m s) match_finish =
       Inr (ms_matched s', ms_inbound s', ms_visited s' @ pos, ms_deferred_aons s', ms_book s')"
    "I pos s'" "pos = [] \<or> filled (ms_inbound s') \<or> \<not> matches (nd_key (hd pos)) p"
  using loop [OF assms] by (auto simp: match_finish_def)

end

end
