(* ===== verification/Match_Regular.thy ===== *)
theory Match_Regular
  imports Match_Facts
begin

text \<open>
  \<^verbatim>\<open>match_regular_order\<close>: the loop never fails, trades at valid prices, conserves
  quantity, never splits a resting all-or-none order, and respects price-time priority.
\<close>

section \<open>Price-time priority\<close>

text \<open>
  \<open>pre\<close> are the orders the loop has been at and \<open>v\<close> what is left of them. As long as the
  inbound order is open, only all-or-none orders are left behind; at most the last order it
  has been at is partly filled, and then the inbound order is filled.
\<close>

definition front_served :: "bool \<Rightarrow> tracker_map \<Rightarrow> tracker_map \<Rightarrow> bool" where
  "front_served fin pre v \<longleftrightarrow>
     (set v \<subseteq> set pre \<and> (\<forall>n \<in> set v. all_or_none (nd_val n))) \<or>
     (fin \<and> (\<exists>pre1 n v1 n'. pre = pre1 @ [n] \<and> v = v1 @ [n'] \<and> nd_id n' = nd_id n \<and>
        set v1 \<subseteq> set pre1 \<and> (\<forall>n \<in> set v1. all_or_none (nd_val n))))"

section \<open>The invariant\<close>

definition regular_inv ::
  "order_env \<Rightarrow> price \<Rightarrow> tracker \<Rightarrow> order_book \<Rightarrow> nat list \<Rightarrow> tracker_map \<Rightarrow> tracker_map \<Rightarrow> match_state
     \<Rightarrow> bool" where
  "regular_inv env p inb b0 d0 m0 pos s \<longleftrightarrow>
     live_side m0 \<and> unreserved inb \<and> ms_inbound_qty s = tk_open_qty (ms_inbound s) \<and>
     (\<exists>pre. m0 = pre @ pos \<and> match_core env p inb b0 d0 pre s \<and>
        (priced env b0 inb m0 \<longrightarrow> front_served (filled (ms_inbound s)) pre (ms_visited s)))"

lemma live_side_append [simp]:
  "live_side (a @ b) \<longleftrightarrow> live_side a \<and> live_side b \<and> set (mm_ids a) \<inter> set (mm_ids b) = {}"
  by (auto simp: live_side_def)

lemma live_side_Cons [simp]:
  "live_side (e # b) \<longleftrightarrow> live (nd_val e) \<and> live_side b \<and> nd_id e \<notin> set (mm_ids b)"
  by (auto simp: live_side_def)

text \<open>One iteration, with the trade in closed form.\<close>

lemma regular_step_eq:
  fixes env :: order_env
  assumes u: "unreserved (ms_inbound s)" "unreserved (nd_val e)"
    and qty: "ms_inbound_qty s = tk_open_qty (ms_inbound s)" and ne: "tk_open_qty (nd_val e) \<noteq> 0"
  defines "c \<equiv> nd_val e" and "i \<equiv> ms_inbound s" and "b \<equiv> ms_book s"
  defines "q \<equiv> trade_qty env b i c UINT32_MAX"
  shows "regular_step env e s =
    (if all_or_none c \<and> \<not> tk_open_qty c \<le> tk_open_qty i
     then Inr (keep_node e (s\<lparr>ms_deferred_aons := ms_deferred_aons s @ [nd_id e]\<rparr>))
     else let s1 = s\<lparr>ms_inbound := take_qty q i, ms_book := trade_book env b i c q\<rparr>;
              s2 = s1\<lparr>ms_matched := True, ms_inbound_qty := ms_inbound_qty s1 - q\<rparr>
          in if q = 0 then Inr (keep_node e s1)
             else if all_or_none c \<or> tk_open_qty c = q then Inr s2
             else Inr (keep_node (e\<lparr>nd_val := take_qty q c\<rparr>) s2))"
proof -
  have tr: "create_trade env b i c UINT32_MAX = Inr (q, take_qty q i, take_qty q c, trade_book env b i c q)"
    by (rule create_trade_eq [OF _ _ meta_eq_to_obj_eq [OF q_def]]) (use u in \<open>simp_all add: i_def c_def\<close>)
  have e_eq: "e\<lparr>nd_val := c\<rparr> = e" by (simp add: c_def)
  show ?thesis
    using tr u qty ne
    by (simp add: e_eq regular_step_def c_def [symmetric] i_def [symmetric] b_def [symmetric] Let_def
        word_gt_0 filled_def)
qed

text \<open>Only without a price to trade at does an order on the way trade nothing.\<close>

lemma no_trade_unpriced:
  assumes T: "traded_so_far env p inb b0 pre cbs i b" and e: "e \<in> set m0"
    and z: "trade_qty env b i (nd_val e) UINT32_MAX = 0" "tk_open_qty i \<noteq> 0" "tk_open_qty (nd_val e) \<noteq> 0"
  shows "\<not> priced env b0 inb m0"
proof
  assume P: "priced env b0 inb m0"
  then have "priced env b i m0"
    using priced_mono [OF P traded_so_farD(5) [OF T] traded_so_farD(1) [OF T] shrinks_refl] by simp
  then have "trade_qty env b i (nd_val e) UINT32_MAX = min UINT32_MAX (min (tk_open_qty i) (tk_open_qty (nd_val e)))"
    by (rule priced_trade_qty [OF _ e])
  then have "trade_qty env b i (nd_val e) UINT32_MAX = min (tk_open_qty i) (tk_open_qty (nd_val e))" by simp
  then show False using z by (simp only: min_def split: if_splits)
qed

lemma front_served_append:
  "set v \<subseteq> set pre \<Longrightarrow> (\<forall>n \<in> set v. all_or_none (nd_val n)) \<Longrightarrow>
     front_served fin (pre @ [e]) v \<and> (all_or_none (nd_val e) \<longrightarrow> front_served fin (pre @ [e]) (v @ [e])) \<and>
     (fin \<longrightarrow> nd_id e' = nd_id e \<longrightarrow> front_served fin (pre @ [e]) (v @ [e']))"
  by (auto simp: front_served_def)

lemma regular_step_keeps:
  assumes I: "regular_inv env p inb b0 d0 m0 (e # pos) s"
    and nf: "\<not> filled (ms_inbound s)" and m: "matches (nd_key e) p"
  shows "\<exists>s'. regular_step env e s = Inr s' \<and> regular_inv env p inb b0 d0 m0 pos s'"
proof -
  from I obtain pre where pre: "m0 = pre @ e # pos" "match_core env p inb b0 d0 pre s"
    "priced env b0 inb m0 \<longrightarrow> front_served (filled (ms_inbound s)) pre (ms_visited s)"
    and live: "live_side m0" and ui: "unreserved inb"
    and qty: "ms_inbound_qty s = tk_open_qty (ms_inbound s)"
    by (auto simp: regular_inv_def)
  let ?c = "nd_val e" and ?i = "ms_inbound s" and ?b = "ms_book s"
  define q where "q = trade_qty env ?b ?i ?c UINT32_MAX"
  obtain cbs where T: "traded_so_far env p inb b0 pre cbs ?i ?b" using pre(2) by (auto simp: match_core_def)
  have uc: "unreserved ?c" "tk_open_qty ?c \<noteq> 0" using live pre(1) by (simp_all add: live_def)
  have "unreserved ?i" using traded_so_farD(2) [OF T] ui by simp
  note step = regular_step_eq [OF this uc(1) qty uc(2), of env, folded q_def]
  have nid: "nd_id e \<notin> set (mm_ids (ms_visited s))"
    using pre(1,2) live shrinks_ids_set [of pre "ms_visited s"] by (auto simp: match_core_def)
  have inv: "regular_inv env p inb b0 d0 m0 pos s'"
    if "match_core env p inb b0 d0 (pre @ [e]) s'" "ms_inbound_qty s' = tk_open_qty (ms_inbound s')"
      "priced env b0 inb m0 \<Longrightarrow> front_served (filled (ms_inbound s')) (pre @ [e]) (ms_visited s')"
    for s' using that live ui pre(1) by (auto simp: regular_inv_def)
  have front: "front_served fin (pre @ [e]) (ms_visited s) \<and>
      (all_or_none ?c \<longrightarrow> front_served fin (pre @ [e]) (ms_visited s @ [e])) \<and>
      (fin \<longrightarrow> nd_id e' = nd_id e \<longrightarrow> front_served fin (pre @ [e]) (ms_visited s @ [e']))"
    if "priced env b0 inb m0" for fin e'
    by (rule front_served_append) (use pre(3) nf that in \<open>auto simp: front_served_def\<close>)
  consider (passed) "all_or_none ?c \<and> \<not> tk_open_qty ?c \<le> tk_open_qty ?i"
    | (idle) "\<not> (all_or_none ?c \<and> \<not> tk_open_qty ?c \<le> tk_open_qty ?i)" "q = 0"
    | (whole) "\<not> (all_or_none ?c \<and> \<not> tk_open_qty ?c \<le> tk_open_qty ?i)" "q \<noteq> 0" "tk_open_qty ?c = q"
    | (part) "\<not> (all_or_none ?c \<and> \<not> tk_open_qty ?c \<le> tk_open_qty ?i)" "q \<noteq> 0" "tk_open_qty ?c \<noteq> q" by blast
  then show ?thesis
  proof cases
    case passed
    let ?d = "keep_node e (s\<lparr>ms_deferred_aons := ms_deferred_aons s @ [nd_id e]\<rparr>)"
    have "match_core env p inb b0 d0 (pre @ [e]) ?d"
      using passed by (intro match_core_defer [OF pre(2) _ nid]) (simp_all add: keep_node_def)
    then have "regular_inv env p inb b0 d0 m0 pos ?d"
      using passed front by (intro inv) (auto simp: keep_node_def qty)
    then show ?thesis using passed step by simp
  next
    case idle
    have unpriced: "\<not> priced env b0 inb m0"
      by (rule no_trade_unpriced [OF T, of e]) (use pre(1) idle(2) nf uc(2) in \<open>auto simp: q_def filled_def\<close>)
    let ?k = "keep_node e (s\<lparr>ms_inbound := ?i, ms_book := ?b\<rparr>)"
    have "match_core env p inb b0 d0 (pre @ [e]) ?k"
      by (rule match_core_keep [OF pre(2)]) (simp_all add: keep_node_def)
    then have "regular_inv env p inb b0 d0 m0 pos ?k"
      by (rule inv) (simp_all add: keep_node_def qty unpriced)
    then show ?thesis using step idle by (simp add: trade_book_def Let_def)
  next
    case whole
    define s2 where "s2 = s\<lparr>ms_inbound := take_qty q ?i, ms_book := trade_book env ?b ?i ?c q,
        ms_matched := True, ms_inbound_qty := ms_inbound_qty s - q\<rparr>"
    have "match_core env p inb b0 d0 (pre @ [e]) s2"
      using whole by (intro match_core_trade [OF pre(2) m, where q = q and mx = UINT32_MAX])
        (simp_all add: s2_def q_def)
    then have "regular_inv env p inb b0 d0 m0 pos s2"
      using front by (intro inv) (simp_all add: s2_def qty)
    then show ?thesis using step whole by (auto simp: s2_def Let_def)
  next
    case part
    have "q = min (tk_open_qty ?i) (tk_open_qty ?c)" using part(2) by (auto simp: q_def trade_qty_def split: if_splits)
    then have na: "\<not> all_or_none ?c" and fin: "q = tk_open_qty ?i"
      using part by (auto simp: min_def split: if_splits)
    let ?k = "keep_node (e\<lparr>nd_val := take_qty q ?c\<rparr>) (s\<lparr>ms_inbound := take_qty q ?i,
        ms_book := trade_book env ?b ?i ?c q, ms_matched := True, ms_inbound_qty := ms_inbound_qty s - q\<rparr>)"
    have "match_core env p inb b0 d0 (pre @ [e]) ?k"
      using part na by (intro match_core_trade [OF pre(2) m, where q = q and mx = UINT32_MAX])
        (simp_all add: q_def keep_node_def)
    then have "regular_inv env p inb b0 d0 m0 pos ?k"
      using front fin by (intro inv) (simp_all add: qty keep_node_def filled_def)
    then show ?thesis using step part na by (simp add: Let_def)
  qed
qed

interpretation regular_loop:
  match_loop_rule "regular_step env" p "regular_inv env p inb b0 d0 m0" for env p inb b0 d0 m0
  by unfold_locales (rule regular_step_keeps)

lemma regular_inv_start:
  assumes "live_side m" "unreserved inb"
  shows "regular_inv env p inb b d m m (match_start inb b d)"
  using assms match_core_start [of env p inb b d]
  by (auto simp: regular_inv_def front_served_def match_start_def)

lemma match_core_outcome:
  assumes C: "match_core env p inb b0 [] pre s"
  shows "match_outcome env p inb b0 (pre @ pos)
     (ms_matched s, ms_inbound s, ms_visited s @ pos, ms_deferred_aons s, ms_book s)"
proof -
  from C obtain cbs where cbs: "traded_so_far env p inb b0 pre cbs (ms_inbound s) (ms_book s)"
    "side_qty (ms_visited s) + traded_qty cbs = side_qty pre" "ms_matched s = (cbs \<noteq> [])"
    and sh: "shrinks pre (ms_visited s)" and d: "deferred_ok [] s"
    by (auto simp: match_core_def)
  have "traded_so_far env p inb b0 (pre @ pos) cbs (ms_inbound s) (ms_book s)"
    using traded_so_far_mono [OF cbs(1), of "pre @ pos"] by auto
  moreover have "shrinks (pre @ pos) (ms_visited s @ pos)"
    using shrinks_append [OF sh shrinks_refl] .
  ultimately show ?thesis
    using cbs d unfolding match_outcome_def deferred_ok_def by (auto intro!: exI [of _ cbs])
qed

lemma match_regular_order_ok:
  assumes "live_side m" "unreserved inb"
  obtains matched inb' m' aons b' where
    "match_regular_order env inb p m [] b = Inr (matched, inb', m', aons, b')"
    "match_outcome env p inb b m (matched, inb', m', aons, b')"
    "\<exists>pre v pos. m = pre @ pos \<and> m' = v @ pos \<and>
       (pos = [] \<or> filled inb' \<or> \<not> matches (nd_key (hd pos)) p) \<and>
       (priced env b inb m \<longrightarrow> front_served (filled inb') pre v)"
proof -
  from regular_loop.finish [OF regular_inv_start [OF assms, of env p b "[]"]]
  obtain s pos where r: "match_regular_order env inb p m [] b =
      Inr (ms_matched s, ms_inbound s, ms_visited s @ pos, ms_deferred_aons s, ms_book s)"
    and I: "regular_inv env p inb b [] m pos s"
    and stop: "pos = [] \<or> filled (ms_inbound s) \<or> \<not> matches (nd_key (hd pos)) p"
    unfolding match_regular_order_def by metis
  from I obtain pre where pre: "m = pre @ pos" "match_core env p inb b [] pre s"
    "priced env b inb m \<longrightarrow> front_served (filled (ms_inbound s)) pre (ms_visited s)"
    by (auto simp: regular_inv_def)
  show ?thesis
    by (rule that [OF r]) (use match_core_outcome [OF pre(2)] pre stop in auto)
qed

end
