(* ===== verification/Match_Aon.thy ===== *)
theory Match_Aon
  imports Match_Regular
begin

text \<open>
  \<^verbatim>\<open>match_aon_order\<close>: an inbound all-or-none order is filled completely or the book is
  left exactly as it was. The facts need a price for every trade (\<open>priced\<close>) and a side whose
  open quantity fits in 32 bits, as the sums of the code are kept in that width.
\<close>

section \<open>Proposed fills\<close>

definition fill_fits :: "tracker_node \<Rightarrow> quantity \<Rightarrow> bool" where
  "fill_fits n q \<longleftrightarrow> q \<le> tk_open_qty (nd_val n) \<and>
     (all_or_none (nd_val n) \<longrightarrow> q = 0 \<or> q = tk_open_qty (nd_val n))"

definition sum_fills :: "quantity list \<Rightarrow> nat" where
  "sum_fills fills = sum_list (map unat fills)"

lemma sum_fills_simps [simp]:
  "sum_fills [] = 0" "sum_fills (q # qs) = unat q + sum_fills qs" "sum_fills (replicate k 0) = 0"
  by (simp_all add: sum_fills_def sum_list_replicate)

lemma fill_fits_zeros: "list_all2 fill_fits D (replicate (length D) 0)"
  by (induction D) (auto simp: fill_fits_def)

definition nodes_in :: "tracker_map \<Rightarrow> tracker_map \<Rightarrow> bool" where
  "nodes_in D m \<longleftrightarrow> distinct (mm_ids D) \<and> (\<forall>n \<in> set D. mm_get (nd_id n) m = Inr n \<and> live (nd_val n))"

lemma nodes_in_Cons:
  "nodes_in (n # D) m \<longleftrightarrow> nodes_in D m \<and> nd_id n \<notin> set (mm_ids D) \<and> mm_get (nd_id n) m = Inr n \<and>
     live (nd_val n)"
  by (auto simp: nodes_in_def)

lemma propose_fills_ok:
  assumes "nodes_in D m" "found \<le> maxQ" "unat found + side_qty D < 2 ^ 32"
  shows "\<exists>f fills. propose_fills m maxQ (mm_ids D) found = Inr (f, fills) \<and>
     list_all2 fill_fits D fills \<and> f \<le> maxQ \<and> unat f = unat found + sum_fills fills"
  using assms
proof (induction D arbitrary: found)
  case Nil
  then show ?case by simp
next
  case (Cons n D)
  show ?case
  proof (cases "found < maxQ")
    case False
    then show ?thesis
      using Cons.prems fill_fits_zeros [of "n # D"] by (simp add: mm_ids_def)
  next
    case True
    define c where "c = tk_open_qty (nd_val n)"
    define q where "q = (if maxQ < found + c
        then (if all_or_none (nd_val n) then 0 else maxQ - found) else c)"
    have n: "mm_get (nd_id n) m = Inr n" "open_qty (nd_val n) = c" "nodes_in D m"
      using Cons.prems by (simp_all add: nodes_in_Cons live_def c_def)
    have fc: "unat (found + c) = unat found + unat c"
      using Cons.prems(3) by (intro unat_add_no_wrap) (simp add: c_def)
    have qc: "q \<le> c"
      using True fc by (auto simp: q_def word_le_nat_alt word_less_nat_alt unat_sub)
    have fq: "unat (found + q) = unat found + unat q"
      using Cons.prems(3) qc by (intro unat_add_no_wrap) (simp add: c_def word_le_nat_alt)
    have fit: "fill_fits n q" using qc by (auto simp: fill_fits_def q_def c_def)
    have le: "found + q \<le> maxQ"
      using True fq fc by (auto simp: q_def word_le_nat_alt word_less_nat_alt unat_sub split: if_splits)
    have "unat (found + q) + side_qty D < 2 ^ 32"
      using Cons.prems(3) fq qc by (simp add: c_def word_le_nat_alt)
    from Cons.IH [OF n(3) le this] obtain f fills where
      IH: "propose_fills m maxQ (mm_ids D) (found + q) = Inr (f, fills)"
      "list_all2 fill_fits D fills" "f \<le> maxQ" "unat f = unat (found + q) + sum_fills fills"
      by blast
    have "propose_fills m maxQ (mm_ids (n # D)) found = Inr (f, q # fills)"
      using True n IH(1) by (auto simp: q_def Let_def split: if_splits)
    then show ?thesis using IH fit fq by (intro exI [of _ f] exI [of _ "q # fills"]) simp
  qed
qed

section \<open>Executing them\<close>

lemma execute_fills_ok:
  assumes "list_all2 fill_fits D fills" "nodes_in D m" "live_side m" "priced env b i m"
    "traded_so_far env p inb b0 m0 cbs i b" "unreserved i"
    "\<forall>n \<in> set D. n \<in> set m0 \<and> matches (nd_key n) p"
    "unat traded + sum_fills fills = unat found" "sum_fills fills \<le> unat (tk_open_qty i)"
  shows "\<exists>cbs' i' b' m'.
     execute_fills env found (mm_ids D) fills traded i b m = Inr (found, i', b', m') \<and>
     traded_so_far env p inb b0 m0 (cbs @ cbs') i' b' \<and> shrinks m m' \<and>
     side_qty m' + traded_qty cbs' = side_qty m \<and> traded_qty cbs' = sum_fills fills \<and>
     (\<forall>j. j \<notin> set (mm_ids D) \<longrightarrow> mm_get j m' = mm_get j m)"
  using assms
proof (induction D fills arbitrary: traded i b m cbs rule: list_all2_induct)
  case Nil
  then have "traded = found" by (simp add: word_unat_eq_iff)
  with Nil show ?case by (intro exI [of _ "[]"] exI [of _ i] exI [of _ b] exI [of _ m]) simp
next
  case (Cons n D q fills)
  show ?case
  proof (cases "traded < found")
    case False
    then have "traded = found" "unat q + sum_fills fills = 0"
      using Cons.prems(7) by (auto simp: word_less_nat_alt word_unat_eq_iff)
    with Cons.prems show ?thesis
      by (intro exI [of _ "[]"] exI [of _ i] exI [of _ b] exI [of _ m]) simp
  next
    case True
    define c where "c = nd_val n"
    have n: "mm_get (nd_id n) m = Inr n" "live c" "nodes_in D m" "nd_id n \<notin> set (mm_ids D)"
      using Cons.prems(1) by (simp_all add: nodes_in_Cons c_def)
    have dm: "distinct (mm_ids m)" and nm: "n \<in> set m"
      using Cons.prems(2) mm_get_Inr_iff [OF n(1)] by (simp_all add: live_side_def)
    have q: "q \<le> tk_open_qty c" "q \<le> tk_open_qty i" "all_or_none c \<Longrightarrow> q = 0 \<or> q = tk_open_qty c"
      using Cons.hyps(1) Cons.prems(8) by (auto simp: fill_fits_def c_def word_le_nat_alt)
    have tq: "q = trade_qty env b i c q"
      using priced_trade_qty [OF Cons.prems(3) nm, of q] q by (simp add: c_def min_def)
    have uc: "unreserved c" "tk_open_qty c \<noteq> 0" using n(2) by (simp_all add: live_def)
    have ct: "create_trade env b i c q = Inr (q, take_qty q i, take_qty q c, trade_book env b i c q)"
      using create_trade_eq [OF Cons.prems(5) uc(1) tq] .
    define m1 where "m1 = (if filled (take_qty q c) then mm_erase (nd_id n) m
        else mm_put (nd_id n) (take_qty q c) m)"
    have fl: "filled (take_qty q c) \<longleftrightarrow> q = tk_open_qty c" by (auto simp: filled_def)
    have sh: "shrunk c (take_qty q c)" if "q \<noteq> tk_open_qty c"
      using that q by (auto simp: shrunk_def)
    have m1: "shrinks m m1"
      using shrinks_erase [of m] shrinks_put [OF n(1) dm, of "take_qty q c"] sh fl
      by (auto simp: m1_def c_def)
    have sq: "side_qty m1 + unat q = side_qty m"
      using side_qty_erase [OF n(1) dm] side_qty_put [OF n(1) dm, of "take_qty q c"]
        unat_take_qty [OF q(1)] fl by (auto simp: m1_def c_def)
    have other: "mm_get j m1 = mm_get j m" if "j \<noteq> nd_id n" for j
      using that by (simp add: m1_def mm_get_other)
    have T1: "traded_so_far env p inb b0 m0 (cbs @ trade_callbacks env b i c q)
        (take_qty q i) (trade_book env b i c q)"
      using Cons.prems(6) by (intro traded_step [OF Cons.prems(4) _ _ _ tq]) (auto simp: c_def)
    have nd1: "nodes_in D m1"
      using n(3,4) other mm_ids_mem unfolding nodes_in_def by metis
    have pr1: "priced env (trade_book env b i c q) (take_qty q i) m1"
      by (rule priced_mono [OF Cons.prems(3) trading_trade_book [of q env b i c q] _ m1])
        (use tq in simp_all)
    have tq1: "unat (traded + q) = unat traded + unat q"
      using Cons.prems(7) unat_32_less [of found] by (intro unat_add_no_wrap) simp
    have s1: "unat (traded + q) + sum_fills fills = unat found"
      using tq1 Cons.prems(7) by simp
    have s2: "sum_fills fills \<le> unat (tk_open_qty (take_qty q i))"
      using Cons.prems(8) unat_take_qty [OF q(2)] by simp
    from Cons.IH [OF nd1 shrinks_live [OF m1 Cons.prems(2)] pr1 T1 _ _ s1 s2] Cons.prems(5,6)
    obtain cbs' i' b' m' where IH:
      "execute_fills env found (mm_ids D) fills (traded + q) (take_qty q i)
         (trade_book env b i c q) m1 = Inr (found, i', b', m')"
      "traded_so_far env p inb b0 m0 ((cbs @ trade_callbacks env b i c q) @ cbs') i' b'"
      "shrinks m1 m'" "side_qty m' + traded_qty cbs' = side_qty m1"
      "traded_qty cbs' = sum_fills fills" "\<forall>j. j \<notin> set (mm_ids D) \<longrightarrow> mm_get j m' = mm_get j m1"
      by auto
    have "execute_fills env found (mm_ids (n # D)) (q # fills) traded i b m = Inr (found, i', b', m')"
      using True n(1) ct IH(1) by (simp add: c_def [symmetric] m1_def [symmetric] Let_def)
    moreover have "\<forall>j. j \<notin> set (mm_ids (n # D)) \<longrightarrow> mm_get j m' = mm_get j m"
      using IH(6) other by simp
    ultimately show ?thesis
      using IH shrinks_trans [OF m1 IH(3)] sq
      by (intro exI [of _ "trade_callbacks env b i c q @ cbs'"] exI [of _ i'] exI [of _ b']
          exI [of _ m']) simp
  qed
qed

lemma try_create_deferred_trades_ok:
  assumes "nodes_in D m" "live_side m" "priced env b i m"
    "traded_so_far env p inb b0 m0 cbs i b" "unreserved i"
    "\<forall>n \<in> set D. n \<in> set m0 \<and> matches (nd_key n) p"
    "side_qty D < 2 ^ 32" "maxQ \<le> tk_open_qty i"
  shows "\<exists>traded cbs' i' b' m'.
     try_create_deferred_trades env i (mm_ids D) maxQ minQ m b = Inr (traded, i', b', m') \<and>
     traded_so_far env p inb b0 m0 (cbs @ cbs') i' b' \<and> shrinks m m' \<and>
     side_qty m' + traded_qty cbs' = side_qty m \<and> traded_qty cbs' = unat traded \<and>
     traded \<le> maxQ \<and> (traded = 0 \<and> i' = i \<and> b' = b \<and> m' = m \<and> cbs' = [] \<or> minQ \<le> traded) \<and>
     (\<forall>j. j \<notin> set (mm_ids D) \<longrightarrow> mm_get j m' = mm_get j m)"
proof -
  from propose_fills_ok [OF assms(1), of 0 maxQ] assms(7)
  obtain f fills where P: "propose_fills m maxQ (mm_ids D) 0 = Inr (f, fills)"
    "list_all2 fill_fits D fills" "f \<le> maxQ" "unat f = sum_fills fills"
    by auto
  show ?thesis
  proof (cases "minQ \<le> f")
    case False
    then show ?thesis
      using P(1) assms(4)
      by (intro exI [of _ 0] exI [of _ "[]"] exI [of _ i] exI [of _ b] exI [of _ m])
        (simp add: try_create_deferred_trades_def)
  next
    case True
    have "sum_fills fills \<le> unat (tk_open_qty i)"
      using P(3,4) assms(8) by (simp add: word_le_nat_alt)
    from execute_fills_ok [OF P(2) assms(1-6), of 0 f] this P(4)
    obtain cbs' i' b' m' where E:
      "execute_fills env f (mm_ids D) fills 0 i b m = Inr (f, i', b', m')"
      "traded_so_far env p inb b0 m0 (cbs @ cbs') i' b'" "shrinks m m'"
      "side_qty m' + traded_qty cbs' = side_qty m" "traded_qty cbs' = sum_fills fills"
      "\<forall>j. j \<notin> set (mm_ids D) \<longrightarrow> mm_get j m' = mm_get j m"
      by auto
    then show ?thesis
      using True P by (intro exI [of _ f] exI [of _ cbs'] exI [of _ i'] exI [of _ b'] exI [of _ m'])
        (simp add: try_create_deferred_trades_def)
  qed
qed

section \<open>The loop\<close>

text \<open>
  Up to the iteration that fills the inbound order nothing has happened but bookkeeping:
  \<open>untouched\<close>.
\<close>

definition untouched ::
  "tracker \<Rightarrow> order_book \<Rightarrow> nat list \<Rightarrow> tracker_map \<Rightarrow> match_state \<Rightarrow> bool" where
  "untouched inb b0 d0 pre s \<longleftrightarrow>
     ms_inbound s = inb \<and> ms_book s = b0 \<and> ms_visited s = pre \<and> \<not> ms_matched s \<and>
     ms_inbound_qty s = tk_open_qty inb \<and>
     (\<exists>D A. ms_deferred_matches s = mm_ids D \<and> subseq D pre \<and>
        (\<forall>n \<in> set D. \<not> all_or_none (nd_val n) \<or> tk_open_qty (nd_val n) \<le> tk_open_qty inb) \<and>
        ms_deferred_aons s = d0 @ mm_ids A \<and> subseq A pre \<and>
        (\<forall>n \<in> set A. all_or_none (nd_val n) \<and> tk_open_qty inb < tk_open_qty (nd_val n)))"

definition aon_context ::
  "order_env \<Rightarrow> tracker \<Rightarrow> order_book \<Rightarrow> tracker_map \<Rightarrow> bool" where
  "aon_context env inb b0 m0 \<longleftrightarrow>
     live_side m0 \<and> live inb \<and> priced env b0 inb m0 \<and> side_qty m0 < 2 ^ 32"

definition aon_inv ::
  "order_env \<Rightarrow> price \<Rightarrow> tracker \<Rightarrow> order_book \<Rightarrow> nat list \<Rightarrow> tracker_map \<Rightarrow> tracker_map \<Rightarrow> match_state
     \<Rightarrow> bool" where
  "aon_inv env p inb b0 d0 m0 pos s \<longleftrightarrow> aon_context env inb b0 m0 \<and>
     (\<exists>pre. m0 = pre @ pos \<and> (\<forall>n \<in> set pre. matches (nd_key n) p) \<and>
        (untouched inb b0 d0 pre s \<or>
         filled (ms_inbound s) \<and> match_core env p inb b0 d0 pre s))"

lemma distinct_ids_subseq: "subseq D m \<Longrightarrow> distinct (mm_ids m) \<Longrightarrow> distinct (mm_ids D)"
  unfolding mm_ids_def by (meson distinct_subseq subseq_map)

lemma side_qty_subseq: "subseq D m \<Longrightarrow> side_qty D \<le> side_qty m"
  by (induction rule: list_emb.induct) auto

lemma untouched_keep:
  assumes "untouched inb b0 d0 pre s"
  shows "untouched inb b0 d0 (pre @ [e]) (keep_node e s)"
  using assms unfolding untouched_def keep_node_def
  by (fastforce intro: subseq_rev_drop_many)

lemma untouched_defer:
  assumes "untouched inb b0 d0 pre s"
    "\<not> all_or_none (nd_val e) \<or> tk_open_qty (nd_val e) \<le> tk_open_qty inb"
  shows "untouched inb b0 d0 (pre @ [e])
     (keep_node e (s\<lparr>ms_deferred_qty := q, ms_deferred_matches := ms_deferred_matches s @ [nd_id e]\<rparr>))"
proof -
  from assms obtain D A where D: "ms_deferred_matches s = mm_ids D" "subseq D pre"
    "\<forall>n \<in> set D. \<not> all_or_none (nd_val n) \<or> tk_open_qty (nd_val n) \<le> tk_open_qty inb"
    "ms_deferred_aons s = d0 @ mm_ids A" "subseq A pre"
    "\<forall>n \<in> set A. all_or_none (nd_val n) \<and> tk_open_qty inb < tk_open_qty (nd_val n)"
    unfolding untouched_def by blast
  have "subseq (D @ [e]) (pre @ [e])" "subseq A (pre @ [e])"
    using D by (auto intro: list_emb_append_mono subseq_rev_drop_many)
  then show ?thesis
    using assms D unfolding untouched_def keep_node_def
    by (intro conjI exI [of _ "D @ [e]"] exI [of _ A]) auto
qed

lemma untouched_defer_aon:
  assumes "untouched inb b0 d0 pre s"
    "all_or_none (nd_val e)" "tk_open_qty inb < tk_open_qty (nd_val e)"
  shows "untouched inb b0 d0 (pre @ [e])
     (keep_node e (s\<lparr>ms_deferred_aons := ms_deferred_aons s @ [nd_id e]\<rparr>))"
proof -
  from assms obtain D A where D: "ms_deferred_matches s = mm_ids D" "subseq D pre"
    "\<forall>n \<in> set D. \<not> all_or_none (nd_val n) \<or> tk_open_qty (nd_val n) \<le> tk_open_qty inb"
    "ms_deferred_aons s = d0 @ mm_ids A" "subseq A pre"
    "\<forall>n \<in> set A. all_or_none (nd_val n) \<and> tk_open_qty inb < tk_open_qty (nd_val n)"
    unfolding untouched_def by blast
  have "subseq (A @ [e]) (pre @ [e])" "subseq D (pre @ [e])"
    using D by (auto intro: list_emb_append_mono subseq_rev_drop_many)
  then show ?thesis
    using assms D unfolding untouched_def keep_node_def
    by (intro conjI exI [of _ D] exI [of _ "A @ [e]"]) auto
qed

text \<open>An untouched state is an outcome with no trade.\<close>

lemma untouched_core:
  assumes "untouched inb b0 d0 pre s" "distinct (mm_ids pre)"
  shows "match_core env p inb b0 d0 pre s"
proof -
  from assms obtain A where A: "ms_deferred_aons s = d0 @ mm_ids A" "subseq A pre"
    "\<forall>n \<in> set A. all_or_none (nd_val n) \<and> tk_open_qty inb < tk_open_qty (nd_val n)"
    unfolding untouched_def by blast
  have "deferred_ok d0 s"
    using A assms distinct_ids_subseq [OF A(2) assms(2)] subseq_subset [OF A(2)]
    unfolding deferred_ok_def untouched_def by (intro exI [of _ "mm_ids A"]) (auto simp: mm_ids_def)
  then show ?thesis
    using assms unfolding match_core_def untouched_def by (intro conjI exI [of _ "[]"]) auto
qed

text \<open>The deferred trades of a loop that was untouched so far.\<close>

lemma deferred_trades:
  assumes C: "aon_context env inb b0 m0" and m0: "m0 = pre @ pos"
    and M: "\<forall>n \<in> set pre. matches (nd_key n) p"
    and U: "untouched inb b0 d0 pre s" and le: "maxQ \<le> tk_open_qty inb"
  shows "\<exists>traded i' b' v'.
     try_create_deferred_trades env (ms_inbound s) (ms_deferred_matches s) maxQ minQ
       (ms_visited s) (ms_book s) = Inr (traded, i', b', v') \<and>
     traded \<le> maxQ \<and> unat traded \<le> side_qty pre \<and>
     unat (tk_open_qty i') + unat traded = unat (tk_open_qty inb) \<and> unreserved i' \<and>
     priced env b' i' m0 \<and>
     (traded = 0 \<and> i' = inb \<and> b' = b0 \<and> v' = pre \<or> minQ \<le> traded) \<and>
     (\<forall>s1. ms_inbound s1 = i' \<longrightarrow> ms_book s1 = b' \<longrightarrow> ms_visited s1 = v' \<longrightarrow>
        ms_deferred_aons s1 = ms_deferred_aons s \<longrightarrow> ms_matched s1 = (traded \<noteq> 0) \<longrightarrow>
        match_core env p inb b0 d0 pre s1)"
proof -
  from U obtain D A where D: "ms_deferred_matches s = mm_ids D" "subseq D pre"
    "\<forall>n \<in> set D. \<not> all_or_none (nd_val n) \<or> tk_open_qty (nd_val n) \<le> tk_open_qty inb"
    "ms_deferred_aons s = d0 @ mm_ids A" "subseq A pre"
    "\<forall>n \<in> set A. all_or_none (nd_val n) \<and> tk_open_qty inb < tk_open_qty (nd_val n)"
    and s: "ms_inbound s = inb" "ms_book s = b0" "ms_visited s = pre"
    unfolding untouched_def by blast
  have live: "live_side pre" "live inb" "priced env b0 inb m0" "side_qty pre < 2 ^ 32"
    using C m0 by (auto simp: aon_context_def)
  have sub: "set D \<subseteq> set pre" "set A \<subseteq> set pre" using D(2,5) by (simp_all add: subseq_subset)
  have dp: "distinct (mm_ids pre)" using live(1) by (simp add: live_side_def)
  have "nodes_in D pre"
    using live(1) sub mm_get_mem [OF dp] distinct_ids_subseq [OF D(2) dp]
    by (auto simp: nodes_in_def live_side_def)
  moreover have pr: "priced env b0 inb pre"
    using live(3) m0 by (auto simp: priced_def)
  moreover have "side_qty D < 2 ^ 32" using side_qty_subseq [OF D(2)] live(4) by simp
  moreover have "unreserved inb" using live(2) by (simp add: live_def)
  moreover have "\<forall>n \<in> set D. n \<in> set pre \<and> matches (nd_key n) p" using sub M by auto
  ultimately obtain traded cbs i' b' v' where R:
    "try_create_deferred_trades env inb (mm_ids D) maxQ minQ pre b0 = Inr (traded, i', b', v')"
    "traded_so_far env p inb b0 pre cbs i' b'" "shrinks pre v'"
    "side_qty v' + traded_qty cbs = side_qty pre" "traded_qty cbs = unat traded" "traded \<le> maxQ"
    "traded = 0 \<and> i' = inb \<and> b' = b0 \<and> v' = pre \<and> cbs = [] \<or> minQ \<le> traded"
    "\<forall>j. j \<notin> set (mm_ids D) \<longrightarrow> mm_get j v' = mm_get j pre"
    using try_create_deferred_trades_ok [where D = D and m = pre and i = inb and b = b0 and p = p
        and env = env and maxQ = maxQ and minQ = minQ, OF _ live(1) _ traded_so_far_start] le
    by (metis append_Nil)
  have mt: "cbs \<noteq> [] \<longleftrightarrow> traded \<noteq> 0"
    using traded_qty_zero_iff [OF R(2)] R(5) by (simp add: unat_eq_0)
  have kept: "\<exists>n' \<in> set v'. nd_id n' = nd_id n \<and> all_or_none (nd_val n')" if "n \<in> set A" for n
  proof -
    have "n \<in> set pre" using that sub by auto
    moreover have "nd_id n \<notin> set (mm_ids D)"
    proof
      assume "nd_id n \<in> set (mm_ids D)"
      then obtain n1 where "n1 \<in> set D" "nd_id n1 = nd_id n" by (auto simp: mm_ids_def)
      moreover from this have "n1 = n"
        using mm_get_mem [OF dp] sub \<open>n \<in> set pre\<close> by (metis Inr_inject subsetD)
      ultimately show False using D(3,6) that by force
    qed
    ultimately have "mm_get (nd_id n) v' = Inr n" using R(8) mm_get_mem [OF dp] by metis
    then show ?thesis using mm_get_Inr_iff D(6) that by metis
  qed
  have "match_core env p inb b0 d0 pre s1"
    if "ms_inbound s1 = i'" "ms_book s1 = b'" "ms_visited s1 = v'"
      "ms_deferred_aons s1 = ms_deferred_aons s" "ms_matched s1 = (traded \<noteq> 0)" for s1
  proof -
    have "deferred_ok d0 s1"
      using that D(4) kept distinct_ids_subseq [OF D(5) dp] unfolding deferred_ok_def
      by (intro exI [of _ "mm_ids A"]) (auto simp: mm_ids_def)
    then show ?thesis using that R mt unfolding match_core_def by (intro conjI exI [of _ cbs]) auto
  qed
  moreover have "priced env b' i' m0"
    using priced_mono [OF live(3) traded_so_farD(5) [OF R(2)] traded_so_farD(1) [OF R(2)] shrinks_refl] .
  moreover have "unreserved i'" using traded_so_farD(2) [OF R(2)] live(2) by (simp add: live_def)
  ultimately show ?thesis
    using R traded_so_farD(6) [OF R(2)] s D(1)
    by (intro exI [of _ traded] exI [of _ i'] exI [of _ b'] exI [of _ v']) auto
qed

text \<open>The last trade of the loop, with the order at the position.\<close>

lemma final_trade:
  assumes C: "match_core env p inb b0 d0 pre s1" and e: "live (nd_val e)" "matches (nd_key e) p"
    and i: "unreserved (ms_inbound s1)" "tk_open_qty (ms_inbound s1) \<noteq> 0"
      "tk_open_qty (ms_inbound s1) \<le> tk_open_qty (nd_val e)"
      "all_or_none (nd_val e) \<Longrightarrow> tk_open_qty (ms_inbound s1) = tk_open_qty (nd_val e)"
    and pr: "priced env (ms_book s1) (ms_inbound s1) (pre @ e # pos)"
  shows "\<exists>q b'. q = tk_open_qty (ms_inbound s1) \<and>
     create_trade env (ms_book s1) (ms_inbound s1) (nd_val e) UINT32_MAX =
       Inr (q, take_qty q (ms_inbound s1), take_qty q (nd_val e), b') \<and>
     (\<forall>s2. ms_inbound s2 = take_qty q (ms_inbound s1) \<longrightarrow> ms_book s2 = b' \<longrightarrow> ms_matched s2 \<longrightarrow>
        ms_deferred_aons s2 = ms_deferred_aons s1 \<longrightarrow>
        ms_visited s2 = (if q = tk_open_qty (nd_val e) then ms_visited s1
          else ms_visited s1 @ [e\<lparr>nd_val := take_qty q (nd_val e)\<rparr>]) \<longrightarrow>
        match_core env p inb b0 d0 (pre @ [e]) s2)"
proof -
  define q where "q = tk_open_qty (ms_inbound s1)"
  have q: "q = trade_qty env (ms_book s1) (ms_inbound s1) (nd_val e) UINT32_MAX"
    using priced_trade_qty [OF pr, of e UINT32_MAX] i(3) by (simp add: q_def min_absorb1)
  have "create_trade env (ms_book s1) (ms_inbound s1) (nd_val e) UINT32_MAX =
      Inr (q, take_qty q (ms_inbound s1), take_qty q (nd_val e),
           trade_book env (ms_book s1) (ms_inbound s1) (nd_val e) q)"
    using create_trade_eq [OF i(1) _ q] e(1) by (simp add: live_def)
  moreover have "match_core env p inb b0 d0 (pre @ [e]) s2"
    if "ms_inbound s2 = take_qty q (ms_inbound s1)"
      "ms_book s2 = trade_book env (ms_book s1) (ms_inbound s1) (nd_val e) q" "ms_matched s2"
      "ms_deferred_aons s2 = ms_deferred_aons s1"
      "ms_visited s2 = (if q = tk_open_qty (nd_val e) then ms_visited s1
          else ms_visited s1 @ [e\<lparr>nd_val := take_qty q (nd_val e)\<rparr>])" for s2
    using that i(2,4) by (intro match_core_trade [OF C e(2) q]) (auto simp: q_def)
  ultimately show ?thesis using q_def by blast
qed

lemma aon_aon_step_keeps:
  assumes I: "aon_inv env p inb b0 d0 m0 (e # pos) s"
    and nf: "\<not> filled (ms_inbound s)" and m: "matches (nd_key e) p" and a: "all_or_none (nd_val e)"
  shows "\<exists>s'. aon_aon_step env e s = Inr s' \<and> aon_inv env p inb b0 d0 m0 pos s'"
proof -
  from I nf obtain pre where pre: "m0 = pre @ e # pos" "\<forall>n \<in> set pre. matches (nd_key n) p"
    and U: "untouched inb b0 d0 pre s" and C: "aon_context env inb b0 m0"
    by (auto simp: aon_inv_def)
  define c where "c = tk_open_qty (nd_val e)"
  have le: "live (nd_val e)" "open_qty (nd_val e) = c" "c \<noteq> 0"
    using C pre(1) by (auto simp: aon_context_def live_def c_def)
  have qty: "ms_inbound_qty s = tk_open_qty inb" using U by (simp add: untouched_def)
  have inv_fresh: "aon_inv env p inb b0 d0 m0 pos s'" if "untouched inb b0 d0 (pre @ [e]) s'" for s'
    using that C pre m unfolding aon_inv_def by (intro conjI exI [of _ "pre @ [e]"]) auto
  have inv_done: "aon_inv env p inb b0 d0 m0 pos s'"
    if "filled (ms_inbound s')" "match_core env p inb b0 d0 (pre @ [e]) s'" for s'
    using that C pre m unfolding aon_inv_def by (intro conjI exI [of _ "pre @ [e]"]) auto
  consider (big) "\<not> c \<le> tk_open_qty inb"
    | (later) "c \<le> tk_open_qty inb" "\<not> tk_open_qty inb \<le> c + ms_deferred_qty s"
    | (now) "c \<le> tk_open_qty inb" "tk_open_qty inb \<le> c + ms_deferred_qty s" by blast
  then show ?thesis
  proof cases
    case big
    then show ?thesis
      using untouched_defer_aon [OF U a] inv_fresh
      by (simp add: aon_aon_step_def le qty c_def [symmetric])
  next
    case later
    then show ?thesis
      using untouched_defer [OF U] inv_fresh
      by (simp add: aon_aon_step_def le qty c_def [symmetric])
  next
    case now
    define maxQ where "maxQ = tk_open_qty inb - c"
    have mle: "maxQ \<le> tk_open_qty inb" using now(1) by (simp add: maxQ_def word_sub_le)
    from deferred_trades [OF C pre(1,2) U mle, of maxQ] obtain traded i' b' v' where R:
      "try_create_deferred_trades env (ms_inbound s) (ms_deferred_matches s) maxQ maxQ
         (ms_visited s) (ms_book s) = Inr (traded, i', b', v')" "traded \<le> maxQ"
      "unat (tk_open_qty i') + unat traded = unat (tk_open_qty inb)" "unreserved i'"
      "priced env b' i' m0"
      "traded = 0 \<and> i' = inb \<and> b' = b0 \<and> v' = pre \<or> maxQ \<le> traded"
      "\<forall>s1. ms_inbound s1 = i' \<longrightarrow> ms_book s1 = b' \<longrightarrow> ms_visited s1 = v' \<longrightarrow>
        ms_deferred_aons s1 = ms_deferred_aons s \<longrightarrow> ms_matched s1 = (traded \<noteq> 0) \<longrightarrow>
        match_core env p inb b0 d0 pre s1"
      by metis
    show ?thesis
    proof (cases "maxQ = traded")
      case False
      then have none: "i' = inb" "b' = b0" "v' = pre" using R(2,6) by auto
      then have "s\<lparr>ms_inbound := i', ms_book := b', ms_visited := v'\<rparr> = s"
        using U by (simp add: untouched_def)
      then show ?thesis
        using R(1) False now untouched_keep [OF U] inv_fresh
        by (simp add: aon_aon_step_def le qty c_def [symmetric] maxQ_def [symmetric] Let_def)
    next
      case True
      define s1 where "s1 = s\<lparr>ms_inbound := i', ms_book := b', ms_visited := v',
          ms_matched := (traded \<noteq> 0)\<rparr>"
      have core: "match_core env p inb b0 d0 pre s1" using R(7) by (simp add: s1_def)
      have ic: "tk_open_qty i' = c"
        using R(3) True now(1) by (simp add: maxQ_def word_unat_eq_iff unat_sub word_le_nat_alt)
      from final_trade [OF core le(1) m, of pos] R(4,5) ic le(3) pre(1) obtain b2 where F:
        "create_trade env b' i' (nd_val e) UINT32_MAX = Inr (c, take_qty c i', take_qty c (nd_val e), b2)"
        "\<forall>s2. ms_inbound s2 = take_qty c i' \<longrightarrow> ms_book s2 = b2 \<longrightarrow> ms_matched s2 \<longrightarrow>
          ms_deferred_aons s2 = ms_deferred_aons s \<longrightarrow> ms_visited s2 = v' \<longrightarrow>
          match_core env p inb b0 d0 (pre @ [e]) s2"
        by (auto simp: s1_def c_def)
      have "filled (take_qty c i')" using ic by (simp add: filled_def)
      then show ?thesis
        using R(1) True F now inv_done le(3)
        by (simp add: aon_aon_step_def le qty c_def [symmetric] maxQ_def [symmetric] Let_def word_gt_0)
    qed
  qed
qed

text \<open>
  The iteration with the outcome of the deferred trades, and the two ways it ends an inbound
  order: the deferred orders filled it, or the order the loop is at does.
\<close>

lemma aon_regular_filled_before:
  assumes core: "match_core env p inb b0 d0 pre s1"
    and s1: "s1 = s\<lparr>ms_inbound := i', ms_book := b', ms_visited := v', ms_matched := True\<rparr>"
    and u: "unreserved i'" "unreserved (nd_val e)" and full: "tk_open_qty i' = 0"
  defines "s3 \<equiv> s\<lparr>ms_visited := v', ms_inbound := i', ms_book := b', ms_inbound_qty := 0, ms_matched := True\<rparr>"
  shows "create_trade env b' i' (nd_val e) UINT32_MAX = Inr (0, i', nd_val e, b')"
    "match_core env p inb b0 d0 (pre @ [e]) (keep_node e s3)" "filled (ms_inbound (keep_node e s3))"
proof -
  have "trade_qty env b' i' (nd_val e) UINT32_MAX = 0" using full by (simp add: trade_qty_def)
  then show "create_trade env b' i' (nd_val e) UINT32_MAX = Inr (0, i', nd_val e, b')"
    using create_trade_eq [OF u refl, of env b' UINT32_MAX] by (simp add: trade_book_def)
  show "match_core env p inb b0 d0 (pre @ [e]) (keep_node e s3)"
    by (rule match_core_keep [OF core]) (simp_all add: s1 s3_def keep_node_def)
  show "filled (ms_inbound (keep_node e s3))" using full by (simp add: s3_def keep_node_def filled_def)
qed

lemma aon_regular_filled_here:
  assumes core: "match_core env p inb b0 d0 pre s1" and l: "live (nd_val e)" and m: "matches (nd_key e) p"
    and a: "\<not> all_or_none (nd_val e)"
    and s1: "s1 = s\<lparr>ms_inbound := i', ms_book := b', ms_visited := v', ms_matched := mt\<rparr>"
    and u: "unreserved i'" and P: "priced env b' i' (pre @ e # pos)"
    and q: "tk_open_qty i' \<noteq> 0" "tk_open_qty i' \<le> tk_open_qty (nd_val e)"
  defines "q \<equiv> tk_open_qty i'"
  obtains b2 where
    "create_trade env b' i' (nd_val e) UINT32_MAX = Inr (q, take_qty q i', take_qty q (nd_val e), b2)"
    "let s3 = s\<lparr>ms_visited := v', ms_inbound := take_qty q i', ms_book := b2, ms_inbound_qty := 0, ms_matched := True\<rparr>;
         s4 = (if q = tk_open_qty (nd_val e) then s3 else keep_node (e\<lparr>nd_val := take_qty q (nd_val e)\<rparr>) s3)
     in match_core env p inb b0 d0 (pre @ [e]) s4 \<and> filled (ms_inbound s4)"
proof -
  have "priced env (ms_book s1) (ms_inbound s1) (pre @ e # pos)" using P by (simp add: s1)
  from final_trade [OF core l m _ _ _ _ this] u q a obtain b2 where F:
    "create_trade env b' i' (nd_val e) UINT32_MAX = Inr (q, take_qty q i', take_qty q (nd_val e), b2)"
    "\<forall>s2. ms_inbound s2 = take_qty q i' \<longrightarrow> ms_book s2 = b2 \<longrightarrow> ms_matched s2 \<longrightarrow>
       ms_deferred_aons s2 = ms_deferred_aons s \<longrightarrow>
       ms_visited s2 = (if q = tk_open_qty (nd_val e) then v' else v' @ [e\<lparr>nd_val := take_qty q (nd_val e)\<rparr>]) \<longrightarrow>
       match_core env p inb b0 d0 (pre @ [e]) s2"
    by (auto simp: s1 q_def)
  show thesis
    by (rule that [OF F(1)]) (use F(2) in \<open>simp add: Let_def keep_node_def filled_def q_def\<close>)
qed

lemma aon_regular_step_keeps:
  assumes I: "aon_inv env p inb b0 d0 m0 (e # pos) s"
    and nf: "\<not> filled (ms_inbound s)" and m: "matches (nd_key e) p"
    and a: "\<not> all_or_none (nd_val e)"
  shows "\<exists>s'. aon_regular_step env e s = Inr s' \<and> aon_inv env p inb b0 d0 m0 pos s'"
proof -
  from I nf obtain pre where pre: "m0 = pre @ e # pos" "\<forall>n \<in> set pre. matches (nd_key n) p"
    and U: "untouched inb b0 d0 pre s" and C: "aon_context env inb b0 m0"
    by (auto simp: aon_inv_def)
  define c where "c = tk_open_qty (nd_val e)"
  define iq where "iq = tk_open_qty inb"
  have le: "live (nd_val e)" "open_qty (nd_val e) = c" "c \<noteq> 0" "iq \<noteq> 0"
    "side_qty pre + unat c < 2 ^ 32"
    using C pre(1) by (auto simp: aon_context_def live_def c_def iq_def)
  have qty: "ms_inbound_qty s = iq" using U by (simp add: untouched_def iq_def)
  have inv_fresh: "aon_inv env p inb b0 d0 m0 pos s'" if "untouched inb b0 d0 (pre @ [e]) s'" for s'
    using that C pre m unfolding aon_inv_def by (intro conjI exI [of _ "pre @ [e]"]) auto
  have inv_done: "aon_inv env p inb b0 d0 m0 pos s'"
    if "filled (ms_inbound s')" "match_core env p inb b0 d0 (pre @ [e]) s'" for s'
    using that C pre m unfolding aon_inv_def by (intro conjI exI [of _ "pre @ [e]"]) auto
  show ?thesis
  proof (cases "iq \<le> c + ms_deferred_qty s")
    case False
    then show ?thesis
      using untouched_defer [OF U] inv_fresh a
      by (simp add: aon_regular_step_def le qty c_def [symmetric])
  next
    case now: True
    define minQ where "minQ = (if c < iq then iq - c else 0)"
    from deferred_trades [OF C pre(1,2) U, of iq minQ] obtain traded i' b' v' where R:
      "try_create_deferred_trades env (ms_inbound s) (ms_deferred_matches s) iq minQ
         (ms_visited s) (ms_book s) = Inr (traded, i', b', v')" "traded \<le> iq"
      "unat traded \<le> side_qty pre"
      "unat (tk_open_qty i') + unat traded = unat iq" "unreserved i'" "priced env b' i' m0"
      "traded = 0 \<and> i' = inb \<and> b' = b0 \<and> v' = pre \<or> minQ \<le> traded"
      "\<forall>s1. ms_inbound s1 = i' \<longrightarrow> ms_book s1 = b' \<longrightarrow> ms_visited s1 = v' \<longrightarrow>
        ms_deferred_aons s1 = ms_deferred_aons s \<longrightarrow> ms_matched s1 = (traded \<noteq> 0) \<longrightarrow>
        match_core env p inb b0 d0 pre s1"
      unfolding iq_def by (metis order_refl)
    have ct: "unat (c + traded) = unat c + unat traded"
      using R(3) le(5) by (intro unat_add_no_wrap) simp
    let ?s1 = "s\<lparr>ms_inbound := i', ms_book := b', ms_visited := v', ms_matched := (traded \<noteq> 0)\<rparr>"
    have core: "match_core env p inb b0 d0 pre ?s1" using R(8) by simp
    have step: "aon_regular_step env e s =
        (if iq \<le> c + traded then
           rbind (create_trade env b' i' (nd_val e) UINT32_MAX) (\<lambda>(t, i2, c2, b2).
             let s2 = s\<lparr>ms_inbound := i', ms_book := b', ms_visited := v'\<rparr>
                        \<lparr>ms_inbound := i2, ms_book := b2\<rparr>;
                 s3 = (if 0 < traded + t
                       then s2\<lparr>ms_inbound_qty := iq - (traded + t), ms_matched := True\<rparr> else s2)
             in if filled c2 then Inr s3 else Inr (keep_node (e\<lparr>nd_val := c2\<rparr>) s3))
         else Inr (keep_node e (s\<lparr>ms_inbound := i', ms_book := b', ms_visited := v'\<rparr>)))"
      using R(1) now unfolding aon_regular_step_def Let_def le(2) qty minQ_def [symmetric] by simp
    consider (few) "\<not> iq \<le> c + traded" | (full) "iq \<le> c + traded" "tk_open_qty i' = 0"
      | (more) "iq \<le> c + traded" "tk_open_qty i' \<noteq> 0" by blast
    then show ?thesis
    proof cases
      case few
      have "\<not> minQ \<le> traded \<or> traded = 0"
        using few ct by (auto simp: minQ_def word_le_nat_alt word_less_nat_alt unat_sub split: if_splits)
      then have none: "i' = inb" "b' = b0" "v' = pre"
        using R(4,7) few ct by (auto simp: minQ_def word_le_nat_alt word_less_nat_alt unat_sub
            split: if_splits)
      then have "s\<lparr>ms_inbound := i', ms_book := b', ms_visited := v'\<rparr> = s"
        using U by (simp add: untouched_def)
      then show ?thesis using step few untouched_keep [OF U] inv_fresh by simp
    next
      case full
      then have tr: "traded = iq" using R(4) by (simp add: word_unat_eq_iff)
      have u: "unreserved (nd_val e)" using le(1) by (simp add: live_def)
      have s1: "?s1 = s\<lparr>ms_inbound := i', ms_book := b', ms_visited := v', ms_matched := True\<rparr>" using tr le(4) by simp
      note B = aon_regular_filled_before [OF core s1 R(5) u full(2)]
      show ?thesis
        using step full(1) B(1) tr le inv_done [OF B(3,2)] by (simp add: filled_def c_def word_gt_0 Let_def)
    next
      case more
      have qc: "tk_open_qty i' \<le> tk_open_qty (nd_val e)"
        using more(1) ct R(4) by (simp add: c_def [symmetric] word_le_nat_alt)
      have sum: "traded + tk_open_qty i' = iq"
        using R(4) unat_32_less [of iq] by (simp add: word_unat_eq_iff unat_add_no_wrap)
      obtain b2 where F: "create_trade env b' i' (nd_val e) UINT32_MAX =
          Inr (tk_open_qty i', take_qty (tk_open_qty i') i', take_qty (tk_open_qty i') (nd_val e), b2)"
        "let s3 = s\<lparr>ms_visited := v', ms_inbound := take_qty (tk_open_qty i') i', ms_book := b2, ms_inbound_qty := 0,
               ms_matched := True\<rparr>;
             s4 = (if tk_open_qty i' = tk_open_qty (nd_val e) then s3
               else keep_node (e\<lparr>nd_val := take_qty (tk_open_qty i') (nd_val e)\<rparr>) s3)
         in match_core env p inb b0 d0 (pre @ [e]) s4 \<and> filled (ms_inbound s4)"
        by (rule aon_regular_filled_here [OF core le(1) m a refl R(5) R(6) [unfolded pre(1)] more(2) qc])
      show ?thesis
        using step more F(1) sum le(4) F(2) inv_done
        by (auto simp: filled_def c_def [symmetric] word_gt_0 Let_def split: if_splits)
    qed
  qed
qed

lemma aon_step_keeps:
  assumes "aon_inv env p inb b0 d0 m0 (e # pos) s" "\<not> filled (ms_inbound s)" "matches (nd_key e) p"
  shows "\<exists>s'. aon_step env e s = Inr s' \<and> aon_inv env p inb b0 d0 m0 pos s'"
  using aon_aon_step_keeps [OF assms] aon_regular_step_keeps [OF assms] by (simp add: aon_step_def)

interpretation aon_loop:
  match_loop_rule "aon_step env" p "aon_inv env p inb b0 d0 m0" for env p inb b0 d0 m0
  by unfold_locales (rule aon_step_keeps)

lemma match_aon_order_ok:
  assumes C: "aon_context env inb b m"
  obtains matched inb' m' aons b' where
    "match_aon_order env inb p m [] b = Inr (matched, inb', m', aons, b')"
    "match_outcome env p inb b m (matched, inb', m', aons, b')"
    "filled inb' \<or> \<not> matched \<and> inb' = inb \<and> m' = m \<and> b' = b"
proof -
  have "aon_inv env p inb b [] m m (match_start inb b [])"
    using C by (auto simp: aon_inv_def untouched_def match_start_def aon_context_def live_def
        intro!: exI [of _ "[]"])
  from aon_loop.finish [OF this]
  obtain s pos where r: "match_aon_order env inb p m [] b =
      Inr (ms_matched s, ms_inbound s, ms_visited s @ pos, ms_deferred_aons s, ms_book s)"
    and I: "aon_inv env p inb b [] m pos s"
    unfolding match_aon_order_def by metis
  from I obtain pre where pre: "m = pre @ pos"
    "untouched inb b [] pre s \<or> filled (ms_inbound s) \<and> match_core env p inb b [] pre s"
    by (auto simp: aon_inv_def)
  have "distinct (mm_ids pre)" using C pre(1) by (simp add: aon_context_def live_side_def)
  then have "match_core env p inb b [] pre s" using pre(2) untouched_core by blast
  then show ?thesis
    by (intro that [OF r]) (use match_core_outcome pre in \<open>auto simp: untouched_def\<close>)
qed

end
