(* ===== verification/Order_Book.thy ===== *)
theory Order_Book
  imports Match_Aon
begin

text \<open>
  The operations of \<^verbatim>\<open>OrderBook\<close> (\<^verbatim>\<open>src/book/order_book.h\<close>): adding, cancelling and
  replacing an order, up to the point where the queued notifications are performed
  (\<^verbatim>\<open>callback_now\<close>, in the theory \<open>Callback_Run\<close>). The loop that submits stop orders
  released by a trade is total: every round leaves fewer orders waiting.
\<close>

section \<open>Stop orders that were released\<close>

fun submit_all :: "order_env \<Rightarrow> tracker list \<Rightarrow> order_book \<Rightarrow> order_book result" where
  "submit_all env [] b = Inr b"
| "submit_all env (tracker # pos) b =
     rbind (submit_order env tracker b) (\<lambda>(matched, tracker, b). submit_all env pos b)"

definition submit_pending_orders :: "order_env \<Rightarrow> order_book \<Rightarrow> order_book result" where
  "submit_pending_orders env b = submit_all env (ob_pendingOrders b) (b\<lparr>ob_pendingOrders := []\<rparr>)"

subsection \<open>The number of waiting orders\<close>

text \<open>No step of the engine changes how many stop orders are held or pending in all.\<close>

lemma create_trade_stop_total:
  "create_trade env b i c mx = Inr (q, i', c', b') \<Longrightarrow> stop_total b' = stop_total b"
  by (auto simp: create_trade_def Let_def split: if_splits)

lemma regular_step_stop_total:
  "regular_step env e s = Inr s' \<Longrightarrow> stop_total (ms_book s') = stop_total (ms_book s)"
  by (auto simp: regular_step_def keep_node_def Let_def dest!: create_trade_stop_total
      split: if_splits)

lemma execute_fills_stop_total:
  "execute_fills env f D fills tr i b m = Inr (r, i', b', m') \<Longrightarrow> stop_total b' = stop_total b"
proof (induction D arbitrary: fills tr i b m)
  case Nil
  then show ?case by simp
next
  case (Cons e D)
  show ?case
  proof (cases fills)
    case Nil
    then show ?thesis using Cons.prems by simp
  next
    case (Cons q qs)
    show ?thesis
    proof (cases "tr < f")
      case True
      with Cons.prems Cons obtain n :: tracker_node and t i1 c1 b1 m1 where
        "create_trade env b i (nd_val n) q = Inr (t, i1, c1, b1)"
        "execute_fills env f D qs (tr + t) i1 b1 m1 = Inr (r, i', b', m')"
        by (clarsimp simp: Let_def)
      with Cons.IH create_trade_stop_total show ?thesis by metis
    next
      case False
      with Cons.prems Cons show ?thesis by simp
    qed
  qed
qed

lemma try_create_stop_total:
  "try_create_deferred_trades env i D mx mn m b = Inr (r, i', b', m') \<Longrightarrow> stop_total b' = stop_total b"
  by (auto simp: try_create_deferred_trades_def dest!: execute_fills_stop_total split: if_splits)

lemma keep_node_book [simp]: "ms_book (keep_node n s) = ms_book s"
  by (simp add: keep_node_def)

lemma aon_aon_stop_total:
  assumes "aon_aon_step env e s = Inr s'"
  shows "stop_total (ms_book s') = stop_total (ms_book s)"
  using assms unfolding aon_aon_step_def Let_def
  by (auto split: if_splits dest!: create_trade_stop_total try_create_stop_total)

lemma aon_regular_stop_total:
  assumes "aon_regular_step env e s = Inr s'"
  shows "stop_total (ms_book s') = stop_total (ms_book s)"
  using assms unfolding aon_regular_step_def Let_def
  by (auto split: if_splits dest!: create_trade_stop_total try_create_stop_total)

lemma aon_step_stop_total:
  "aon_step env e s = Inr s' \<Longrightarrow> stop_total (ms_book s') = stop_total (ms_book s)"
  using aon_aon_stop_total aon_regular_stop_total by (auto simp: aon_step_def split: if_splits)

lemma match_loop_stop_total:
  assumes "\<And>e s s'. step e s = Inr s' \<Longrightarrow> stop_total (ms_book s') = stop_total (ms_book s)"
  shows "match_loop step p m s = Inr (s', pos) \<Longrightarrow> stop_total (ms_book s') = stop_total (ms_book s)"
  by (induction m arbitrary: s) (auto dest: assms split: if_splits)

lemma match_order_stop_total:
  "match_order env i p m d b = Inr (r, i', m', d', b') \<Longrightarrow> stop_total b' = stop_total b"
  unfolding match_order_def match_aon_order_def match_regular_order_def match_finish_def
  by (auto split: if_splits simp: match_start_def
      dest!: match_loop_stop_total [of "aon_step env", rotated]
        match_loop_stop_total [of "regular_step env", rotated]
      intro: aon_step_stop_total regular_step_stop_total)

lemma check_deferred_stop_total:
  "check_deferred_aons env ids D M b r = Inr (r', D', M', b') \<Longrightarrow> stop_total b' = stop_total b"
proof (induction ids arbitrary: D M b r)
  case Nil
  then show ?case by simp
next
  case (Cons e ids)
  then obtain n :: tracker_node and r1 t D1 M1 ig b1 where
    "match_order env (nd_val n) (cp_price (nd_key n)) M [] b = Inr (r1, t, M1, ig, b1)"
    "check_deferred_aons env ids D1 M1 b1 (r \<or> r1) = Inr (r', D', M', b')"
    by (clarsimp simp: Let_def)
  with Cons.IH match_order_stop_total show ?case by metis
qed

lemma stop_total_update [simp]:
  "stop_total (b\<lparr>ob_bids := x\<rparr>) = stop_total b" "stop_total (b\<lparr>ob_asks := x\<rparr>) = stop_total b"
  "stop_total (b\<lparr>ob_next_node := k\<rparr>) = stop_total b"
  by (simp_all add: stop_total_def)

lemma add_order_stop_total:
  "add_order env i p b = Inr (r, i', b') \<Longrightarrow> stop_total b' = stop_total b"
  by (auto simp: add_order_def Let_def insert_bid_def insert_ask_def split: if_splits
      dest!: match_order_stop_total check_deferred_stop_total)

lemma submit_all_stop_total: "submit_all env ts b = Inr b' \<Longrightarrow> stop_total b' = stop_total b"
  by (induction ts arbitrary: b) (auto simp: submit_order_def dest!: add_order_stop_total)

lemma submit_pending_stop_total:
  "submit_pending_orders env b = Inr b' \<Longrightarrow>
     stop_total b' + length (ob_pendingOrders b) = stop_total b"
  by (auto simp: submit_pending_orders_def stop_total_def
      dest!: submit_all_stop_total [unfolded stop_total_def])

subsection \<open>The loop\<close>

function submit_until_empty :: "order_env \<Rightarrow> order_book \<Rightarrow> order_book result" where
  "submit_until_empty env b =
     (if ob_pendingOrders b = [] then Inr b
      else rbind (submit_pending_orders env b) (submit_until_empty env))"
  by pat_completeness auto
termination
proof (relation "measure (\<lambda>(env, b). stop_total b)")
  fix env b b1
  assume "ob_pendingOrders b \<noteq> []" "submit_pending_orders env b = Inr b1"
  then show "((env, b1), env, b) \<in> measure (\<lambda>(env, b). stop_total b)"
    using submit_pending_stop_total [of env b b1] by (cases "ob_pendingOrders b") auto
qed simp

declare submit_until_empty.simps [simp del]

section \<open>The operations\<close>

definition set_cb_quantity :: "nat \<Rightarrow> quantity \<Rightarrow> callback list \<Rightarrow> callback list" where
  "set_cb_quantity i q cbs = cbs[i := (cbs ! i)\<lparr>cb_quantity := q\<rparr>]"

text \<open>The body of \<^verbatim>\<open>add\<close> before \<^verbatim>\<open>callback_now\<close>.\<close>

definition add_enqueue ::
  "order_env \<Rightarrow> order_ptr \<Rightarrow> order_conditions \<Rightarrow> order_book \<Rightarrow> (bool \<times> order_book) result" where
  "add_enqueue env ord conditions b =
     (if o_order_qty (env ord) = 0 then
        Inr (False, push_callback (Callback_reject ord ''size must be positive'') b)
      else
        let accept_cb_index = length (ob_callbacks b);
            b1 = push_callback (Callback_accept ord) b;
            inbound = OrderTracker env ord conditions;
            stopped = (if o_stop_price (env ord) \<noteq> 0 then add_stop_order env b1 inbound
                       else (False, b1))
        in rbind
             (if fst stopped then Inr (False, snd stopped)
              else
                rbind (submit_order env inbound (snd stopped)) (\<lambda>(matched, inbound, b2).
                  let b3 = b2\<lparr>ob_callbacks := set_cb_quantity accept_cb_index
                                  (filled_qty env inbound) (ob_callbacks b2)\<rparr>;
                      b4 = (if immediate_or_cancel inbound \<and> \<not> filled inbound
                            then push_callback (Callback_cancel ord 0) b3 else b3)
                  in Inr (matched, b4)))
             (\<lambda>(matched, b5).
                rbind (submit_until_empty env b5) (\<lambda>b6.
                  Inr (matched, push_callback Callback_book_update b6))))"

text \<open>
  The loop of \<^verbatim>\<open>find_on_market\<close>: the position of the order, as the node, or none.
\<close>

fun find_loop :: "order_ptr \<Rightarrow> comparable_price \<Rightarrow> tracker_map \<Rightarrow> tracker_node option" where
  "find_loop ord key [] = None"
| "find_loop ord key (n # ns) =
     (if tk_order (nd_val n) = ord then Some n
      else if cp_less key (nd_key n) then None
      else find_loop ord key ns)"

definition find_on_market :: "order_env \<Rightarrow> order_ptr \<Rightarrow> order_book \<Rightarrow> tracker_node option" where
  "find_on_market env ord b =
     (let key = ComparablePrice (o_is_buy (env ord)) (o_price (env ord));
          sideMap = (if o_is_buy (env ord) then ob_bids b else ob_asks b)
      in find_loop ord key (mm_find cp_less key sideMap))"

definition erase_from_market :: "bool \<Rightarrow> nat \<Rightarrow> order_book \<Rightarrow> order_book" where
  "erase_from_market buy i b =
     (if buy then b\<lparr>ob_bids := mm_erase i (ob_bids b)\<rparr> else b\<lparr>ob_asks := mm_erase i (ob_asks b)\<rparr>)"

definition cancel_enqueue :: "order_env \<Rightarrow> order_ptr \<Rightarrow> order_book \<Rightarrow> order_book" where
  "cancel_enqueue env ord b =
     (case find_on_market env ord b of
        Some n \<Rightarrow>
          (let open_quantity = open_qty (nd_val n);
               b1 = erase_from_market (o_is_buy (env ord)) (nd_id n) b
           in push_callback Callback_book_update
                (push_callback (Callback_cancel ord open_quantity) b1))
      | None \<Rightarrow> push_callback (Callback_cancel_reject ord ''not found'') b)"

text \<open>
  The body of \<^verbatim>\<open>replace\<close>. The last component of the result tells whether the code goes on
  to \<^verbatim>\<open>callback_now\<close>: the early return of an order without open quantity does not.
\<close>

definition replace_enqueue ::
  "order_env \<Rightarrow> order_ptr \<Rightarrow> int32 \<Rightarrow> price \<Rightarrow> order_book \<Rightarrow> (bool \<times> order_book \<times> bool) result" where
  "replace_enqueue env ord size_delta new_price b =
     (let price = (if new_price = PRICE_UNCHANGED then o_price (env ord) else new_price);
          buy = o_is_buy (env ord)
      in case find_on_market env ord b of
           None \<Rightarrow> Inr (False, push_callback (Callback_replace_reject ord ''not found'') b, True)
         | Some pos \<Rightarrow>
             (let tracker = nd_val pos;
                  short = (sint size_delta < 0 \<and> sint (open_qty tracker) < sint (- size_delta));
                  delta = (if short then - open_qty tracker else size_delta)
              in if short \<and> delta = 0 then
                   Inr (False, push_callback (Callback_replace_reject (tk_order tracker)
                                 ''order is already filled'') b, False)
                 else
                   let b1 = push_callback (Callback_replace ord (open_qty tracker) delta price) b;
                       new_open_qty = open_qty tracker + delta
                   in rbind (change_qty delta tracker) (\<lambda>tracker.
                      rbind
                        (if new_open_qty = 0 then
                           Inr (False, erase_from_market buy (nd_id pos)
                                         (push_callback (Callback_cancel ord 0) b1))
                         else
                           rbind (add_order env tracker price (erase_from_market buy (nd_id pos) b1))
                             (\<lambda>(matched, tracker, b). Inr (matched, b)))
                        (\<lambda>(matched, b2).
                           rbind (submit_until_empty env b2) (\<lambda>b3.
                             Inr (matched, push_callback Callback_book_update b3, True))))))"

end
