(* ===== verification/Book_Add.thy ===== *)
theory Book_Add
  imports Book_Invariant
begin

text \<open>
  \<^verbatim>\<open>add_order\<close> on a well-formed book: it returns, keeps the invariant, conserves quantity,
  queues only valid fills, and leaves no regular orders crossed.
\<close>

section \<open>match_order\<close>

lemma match_order_ok:
  assumes "live_side m" "live inb" "all_or_none inb \<longrightarrow> tk_priced env b inb" "side_qty m < 2 ^ 32"
  obtains matched inb' m' aons b' where
    "match_order env inb p m [] b = Inr (matched, inb', m', aons, b')"
    "match_outcome env p inb b m (matched, inb', m', aons, b')"
    "all_or_none inb \<Longrightarrow> filled inb' \<or> \<not> matched \<and> inb' = inb \<and> m' = m \<and> b' = b"
    "\<not> all_or_none inb \<Longrightarrow> tk_priced env b inb \<Longrightarrow> mm_sorted cp_less m \<Longrightarrow>
       \<forall>n \<in> set m. cp_buySide (nd_key n) = buy \<Longrightarrow> \<not> filled inb' \<Longrightarrow>
       \<forall>n \<in> set m'. all_or_none (nd_val n) \<or> \<not> matches (nd_key n) p"
proof (cases "all_or_none inb")
  case True
  have "aon_context env inb b m"
    using assms True by (auto simp: aon_context_def priced_def tk_priced_def)
  then obtain matched inb' m' aons b' where r:
    "match_aon_order env inb p m [] b = Inr (matched, inb', m', aons, b')"
    "match_outcome env p inb b m (matched, inb', m', aons, b')"
    "filled inb' \<or> \<not> matched \<and> inb' = inb \<and> m' = m \<and> b' = b" by (rule match_aon_order_ok)
  show ?thesis by (rule that [OF _ r(2)]) (use True r in \<open>simp_all add: match_order_def\<close>)
next
  case False
  have "unreserved inb" using assms(2) by (simp add: live_def)
  with assms(1) obtain matched inb' m' aons b' where r:
    "match_regular_order env inb p m [] b = Inr (matched, inb', m', aons, b')"
    "match_outcome env p inb b m (matched, inb', m', aons, b')"
    "\<exists>pre v pos. m = pre @ pos \<and> m' = v @ pos \<and>
       (pos = [] \<or> filled inb' \<or> \<not> matches (nd_key (hd pos)) p) \<and>
       (priced env b inb m \<longrightarrow> front_served (filled inb') pre v)"
    by (rule match_regular_order_ok)
  have "\<forall>n \<in> set m'. all_or_none (nd_val n) \<or> \<not> matches (nd_key n) p"
    if P: "tk_priced env b inb" and S: "mm_sorted cp_less m"
      and B: "\<forall>n \<in> set m. cp_buySide (nd_key n) = buy" and nf: "\<not> filled inb'"
  proof -
    from r(3) obtain pre v pos where v: "m = pre @ pos" "m' = v @ pos"
      "pos = [] \<or> \<not> matches (nd_key (hd pos)) p"
      "priced env b inb m \<longrightarrow> front_served (filled inb') pre v" using nf by blast
    have "priced env b inb m" using P by (auto simp: priced_def tk_priced_def)
    then have "\<forall>n \<in> set v. all_or_none (nd_val n)"
      using v(4) nf by (auto simp: front_served_def)
    moreover have "\<not> matches (nd_key n) p" if n: "n \<in> set pos" for n
    proof (cases pos)
      case (Cons h t)
      have "cp_buySide (nd_key h) = cp_buySide (nd_key n)" "\<not> cp_less (nd_key n) (nd_key h)"
        using B S v(1) n Cons by (auto simp: mm_sorted_append)
      then show ?thesis using matches_antimono v(3) Cons by auto
    qed (use n in simp)
    ultimately show ?thesis using v(2) by auto
  qed
  with False r(1,2) show ?thesis by (intro that [OF _ r(2)]) (simp_all add: match_order_def)
qed

section \<open>Runs of the engine\<close>

text \<open>
  The frame of trading when the sides of the book may change too: the notifications queued
  are \<open>cbs\<close>, waiting orders stay or are released in their order, and the market price is that
  of the last trade.
\<close>

definition bare :: "order_book \<Rightarrow> order_book" where
  "bare b = b\<lparr>ob_bids := [], ob_asks := [], ob_next_node := 0\<rparr>"

definition engine_run :: "order_book \<Rightarrow> callback list \<Rightarrow> order_book \<Rightarrow> bool" where
  "engine_run b cbs b' = trading (bare b) cbs (bare b')"

lemma bare_sel [simp]:
  "ob_stopBids (bare b) = ob_stopBids b" "ob_stopAsks (bare b) = ob_stopAsks b"
  "ob_pendingOrders (bare b) = ob_pendingOrders b" "ob_callbacks (bare b) = ob_callbacks b"
  "ob_marketPrice (bare b) = ob_marketPrice b" "stop_mset (bare b) = stop_mset b"
  "bare (b\<lparr>ob_bids := m\<rparr>) = bare b" "bare (b\<lparr>ob_asks := m\<rparr>) = bare b"
  "bare (b\<lparr>ob_next_node := k\<rparr>) = bare b"
  by (simp_all add: bare_def stop_mset_def)

lemma engine_run_trading: "trading b cbs b' \<Longrightarrow> engine_run b cbs b'"
  by (auto simp: engine_run_def trading_def bare_def same_rest_def stop_mset_def)

lemma engine_run_trans: "engine_run a c1 b \<Longrightarrow> engine_run b c2 c \<Longrightarrow> engine_run a (c1 @ c2) c"
  unfolding engine_run_def by (rule trading_trans)

lemma engine_run_cong: "engine_run b cbs b' \<Longrightarrow> bare c = bare b \<Longrightarrow> bare c' = bare b' \<Longrightarrow> engine_run c cbs c'"
  by (simp add: engine_run_def)

lemma engine_runD:
  assumes "engine_run b cbs b'"
  shows "ob_callbacks b' = ob_callbacks b @ cbs" "stop_mset b' = stop_mset b"
    "ob_marketPrice b \<noteq> 0 \<Longrightarrow> ob_marketPrice b' \<noteq> 0"
    "cbs \<noteq> [] \<Longrightarrow> ob_marketPrice b' \<noteq> 0"
    "ob_marketPrice b' = (if cbs = [] then ob_marketPrice b else cb_price (last cbs))"
  using tradingD(5,7,8,9) [OF assms [unfolded engine_run_def]] assms
  unfolding engine_run_def trading_def bare_sel by blast+

section \<open>check_deferred_aons\<close>

lemma fill_ok_shrinks:
  assumes "fill_ok env p inb m' cb" "shrinks m m'"
  shows "fill_ok env p inb m cb"
proof -
  from assms(1) obtain n' where n': "n' \<in> set m'" "cb_matched_order cb = Some (tk_order (nd_val n'))"
    "matches (nd_key n') p" "cb_price cb = traded_price env (cb_price cb) inb (nd_val n')"
    and r: "is_fill cb" "cb_quantity cb \<noteq> 0" "cb_price cb \<noteq> 0" "cb_order cb = Some (tk_order inb)"
    unfolding fill_ok_def by blast
  obtain n where n: "n \<in> set m" "nd_key n = nd_key n'" "shrunk (nd_val n) (nd_val n')"
    using shrinks_node [OF assms(2) n'(1)] by metis
  have "tk_order (nd_val n') = tk_order (nd_val n)" using n(3) by (rule shrunk_frame)
  then show ?thesis
    using n n' r traded_price_cong [of inb inb "nd_val n'" "nd_val n"] unfolding fill_ok_def
    by (intro conjI bexI [OF _ n(1)]) auto
qed

lemma shrunk_aon_node:
  assumes "shrinks D D'" "distinct (mm_ids D)" "n' \<in> set D'" "all_or_none (nd_val n')"
  shows "n' \<in> set D"
proof -
  obtain n where n: "n \<in> set D" "nd_id n = nd_id n'" "nd_key n = nd_key n'"
    "shrunk (nd_val n) (nd_val n')" using shrinks_node [OF assms(1,3)] by blast
  then have "nd_val n' = nd_val n" using assms(4) shrunk_frame by metis
  then have "n = n'" using n by (metis (full_types) node.equality old.unit.exhaust)
  with n show ?thesis by simp
qed

definition deferred_fill :: "order_env \<Rightarrow> tracker_map \<Rightarrow> tracker_map \<Rightarrow> callback \<Rightarrow> bool" where
  "deferred_fill env D M cb \<longleftrightarrow>
     (\<exists>n \<in> set D. all_or_none (nd_val n) \<and> fill_ok env (cp_price (nd_key n)) (nd_val n) M cb)"

lemma check_deferred_aons_ok:
  assumes "live_side D" "live_side M" "distinct ids"
    "\<forall>i \<in> set ids. \<exists>n \<in> set D. nd_id n = i \<and> all_or_none (nd_val n)"
    "\<forall>n \<in> set D. all_or_none (nd_val n) \<longrightarrow> tk_priced env b (nd_val n)" "side_qty M < 2 ^ 32"
  shows "\<exists>D' M' b' cbs. check_deferred_aons env ids D M b r = Inr (r \<or> cbs \<noteq> [], D', M', b') \<and>
     shrinks D D' \<and> shrinks M M' \<and> trading b cbs b' \<and>
     side_qty D' + side_qty M' + 2 * traded_qty cbs = side_qty D + side_qty M \<and>
     (\<forall>cb \<in> set cbs. deferred_fill env D M cb)"
  using assms
proof (induction ids arbitrary: D M b r)
  case Nil
  then show ?case by (auto intro!: exI [of _ "[]"])
next
  case (Cons i ids)
  from Cons.prems(4) obtain n where n: "n \<in> set D" "nd_id n = i" "all_or_none (nd_val n)" by auto
  have dD: "distinct (mm_ids D)" and ln: "live (nd_val n)"
    using Cons.prems(1) n(1) by (auto simp: live_side_def)
  have get: "mm_get i D = Inr n" using mm_get_mem [OF dD n(1)] n(2) by simp
  obtain matched t M1 ig b1 where m:
    "match_order env (nd_val n) (cp_price (nd_key n)) M [] b = Inr (matched, t, M1, ig, b1)"
    "match_outcome env (cp_price (nd_key n)) (nd_val n) b M (matched, t, M1, ig, b1)"
    "filled t \<or> \<not> matched \<and> t = nd_val n \<and> M1 = M \<and> b1 = b"
    using Cons.prems(2,5,6) n ln
    by (elim match_order_ok [of M "nd_val n" env b "cp_price (nd_key n)"]) auto
  from m(2) obtain c1 where c1: "shrinks M M1" "matched = (c1 \<noteq> [])"
    "traded_so_far env (cp_price (nd_key n)) (nd_val n) b M c1 t b1"
    "side_qty M1 + traded_qty c1 = side_qty M"
    by (auto simp: match_outcome_def)
  have t: "unat (tk_open_qty t) + traded_qty c1 = unat (tk_open_qty (nd_val n))"
    using traded_so_farD(6) [OF c1(3)] .
  have tr: "trading b c1 b1" using c1(3) by (rule traded_so_farD)
  define D1 where "D1 = (if filled t then mm_erase i D else mm_put i t D)"
  have D1: "shrinks D D1" "side_qty D1 + traded_qty c1 = side_qty D"
    "set (mm_ids D) - {i} \<subseteq> set (mm_ids D1)"
  proof -
    show "shrinks D D1"
      using m(3) shrinks_erase mm_put_same [OF get dD] by (auto simp: D1_def)
    show "side_qty D1 + traded_qty c1 = side_qty D"
    proof (cases "filled t")
      case True
      then show ?thesis using side_qty_erase [OF get dD] t by (simp add: D1_def filled_def)
    next
      case False
      then show ?thesis using m(3) t mm_put_same [OF get dD] by (auto simp: D1_def)
    qed
    show "set (mm_ids D) - {i} \<subseteq> set (mm_ids D1)" by (auto simp: D1_def)
  qed
  have ids: "\<forall>j \<in> set ids. \<exists>n \<in> set D1. nd_id n = j \<and> all_or_none (nd_val n)"
  proof
    fix j assume j: "j \<in> set ids"
    then obtain n' where n': "n' \<in> set D" "nd_id n' = j" "all_or_none (nd_val n')"
      using Cons.prems(4) by auto
    have "j \<noteq> i" using j Cons.prems(3) by auto
    then have "n' \<in> set D1" using n' by (auto simp: D1_def mm_erase_def mm_put_def)
    then show "\<exists>n \<in> set D1. nd_id n = j \<and> all_or_none (nd_val n)" using n' by blast
  qed
  have sub: "n' \<in> set D" if "n' \<in> set D1" "all_or_none (nd_val n')" for n'
    using shrunk_aon_node [OF D1(1) dD that] .
  have "\<exists>D' M' b' cbs. check_deferred_aons env ids D1 M1 b1 (r \<or> matched) =
       Inr ((r \<or> matched) \<or> cbs \<noteq> [], D', M', b') \<and>
     shrinks D1 D' \<and> shrinks M1 M' \<and> trading b1 cbs b' \<and>
     side_qty D' + side_qty M' + 2 * traded_qty cbs = side_qty D1 + side_qty M1 \<and>
     (\<forall>cb \<in> set cbs. deferred_fill env D1 M1 cb)"
  proof (rule Cons.IH)
    show "live_side D1" using shrinks_live [OF D1(1) Cons.prems(1)] .
    show "live_side M1" using shrinks_live [OF c1(1) Cons.prems(2)] .
    show "\<forall>n \<in> set D1. all_or_none (nd_val n) \<longrightarrow> tk_priced env b1 (nd_val n)"
      using sub Cons.prems(5) tk_priced_mono [OF _ tr refl] by blast
    show "side_qty M1 < 2 ^ 32" using c1(4) Cons.prems(6) by simp
  qed (use Cons.prems(3) ids in auto)
  then obtain D' M' b' c2 where c2:
    "check_deferred_aons env ids D1 M1 b1 (r \<or> matched) = Inr ((r \<or> matched) \<or> c2 \<noteq> [], D', M', b')"
    "shrinks D1 D'" "shrinks M1 M'" "trading b1 c2 b'"
    "side_qty D' + side_qty M' + 2 * traded_qty c2 = side_qty D1 + side_qty M1"
    "\<forall>cb \<in> set c2. deferred_fill env D1 M1 cb" by blast
  have f1: "\<forall>cb \<in> set c1. deferred_fill env D M cb"
    using c1(3) n unfolding deferred_fill_def traded_so_far_def by blast
  have f2: "\<forall>cb \<in> set c2. deferred_fill env D M cb"
    using c2(6) sub fill_ok_shrinks [OF _ c1(1)] unfolding deferred_fill_def by blast
  have "check_deferred_aons env (i # ids) D M b r = Inr (r \<or> c1 @ c2 \<noteq> [], D', M', b')"
    using get m(1) c2(1) c1(2) by (auto simp: D1_def Let_def)
  moreover have "trading b (c1 @ c2) b'" using tr c2(4) by (rule trading_trans)
  ultimately show ?case
    using shrinks_trans [OF D1(1) c2(2)] shrinks_trans [OF c1(1) c2(3)] c2(5) D1(2) c1(4) f1 f2
    by (intro exI [of _ D'] exI [of _ M'] exI [of _ b'] exI [of _ "c1 @ c2"]) auto
qed

section \<open>Valid fills\<close>

text \<open>
  What a fill notification promises whatever the order it was queued for: a positive quantity
  at a real price, between two orders of opposite directions. When the orders rest at their
  current price, the trade price also respects the limit of both.
\<close>

definition limit_ok :: "order_env \<Rightarrow> order_ptr \<Rightarrow> price \<Rightarrow> bool" where
  "limit_ok env ord p \<longleftrightarrow> o_price (env ord) = 0 \<or>
     (if o_is_buy (env ord) then p \<le> o_price (env ord) else o_price (env ord) \<le> p)"

definition valid_fill :: "order_env \<Rightarrow> callback \<Rightarrow> bool" where
  "valid_fill env cb \<longleftrightarrow> is_fill cb \<and> cb_quantity cb \<noteq> 0 \<and> cb_price cb \<noteq> 0 \<and>
     (\<exists>i c. cb_order cb = Some i \<and> cb_matched_order cb = Some c \<and>
        o_is_buy (env i) \<noteq> o_is_buy (env c))"

definition fill_in_limits :: "order_env \<Rightarrow> callback \<Rightarrow> bool" where
  "fill_in_limits env cb \<longleftrightarrow>
     (\<exists>i c. cb_order cb = Some i \<and> cb_matched_order cb = Some c \<and>
        limit_ok env i (cb_price cb) \<and> limit_ok env c (cb_price cb))"

definition keyed :: "order_env \<Rightarrow> tracker_map \<Rightarrow> bool" where
  "keyed env m \<longleftrightarrow> (\<forall>n \<in> set m. cp_price (nd_key n) = o_price (env (tk_order (nd_val n))))"

lemma keyed_shrinks:
  assumes "keyed env m" "shrinks m m'"
  shows "keyed env m'"
  unfolding keyed_def
proof
  fix n' assume "n' \<in> set m'"
  then obtain n where "n \<in> set m" "nd_key n = nd_key n'" "shrunk (nd_val n) (nd_val n')"
    using shrinks_node [OF assms(2)] by metis
  then show "cp_price (nd_key n') = o_price (env (tk_order (nd_val n')))"
    using assms(1) shrunk_frame(1) [of "nd_val n" "nd_val n'"] by (auto simp: keyed_def)
qed

lemma keyed_insert:
  "keyed env m \<Longrightarrow> k = ComparablePrice s (o_price (env (tk_order t))) \<Longrightarrow>
     keyed env (mm_insert lt (new_node b k t) m)"
  by (auto simp: keyed_def new_node_def)

lemma fill_ok_valid:
  assumes "fill_ok env p inb m cb" "side_ok env b (\<not> o_is_buy (env (tk_order inb))) m"
  shows "valid_fill env cb"
  using assms unfolding fill_ok_def valid_fill_def side_ok_def by fastforce

lemma matches_limits:
  assumes "matches k p" "cp_price k \<noteq> 0" "p \<noteq> 0"
  shows "if cp_buySide k then p \<le> cp_price k else cp_price k \<le> p"
  using assms by (auto simp: matches_def MARKET_ORDER_PRICE_def split: if_splits)

lemma fill_ok_limits:
  assumes "fill_ok env (o_price (env (tk_order inb))) inb m cb" "keyed env m"
    "side_ok env b (\<not> o_is_buy (env (tk_order inb))) m"
  shows "fill_in_limits env cb"
proof -
  let ?i = "env (tk_order inb)"
  from assms(1) obtain n where n: "n \<in> set m" "matches (nd_key n) (o_price ?i)"
    "cb_order cb = Some (tk_order inb)" "cb_matched_order cb = Some (tk_order (nd_val n))"
    "cb_price cb = traded_price env (cb_price cb) inb (nd_val n)"
    unfolding fill_ok_def by blast
  let ?c = "env (tk_order (nd_val n))"
  have k: "cp_price (nd_key n) = o_price ?c" "cp_buySide (nd_key n) = (\<not> o_is_buy ?i)"
    "o_is_buy ?c = (\<not> o_is_buy ?i)"
    using assms(2,3) n(1) by (auto simp: keyed_def side_ok_def)
  have pr: "cb_price cb = (if o_price ?c \<noteq> 0 then o_price ?c
      else if o_price ?i \<noteq> 0 then o_price ?i else cb_price cb)"
    using n(5) by (simp add: traded_price_def)
  have "limit_ok env (tk_order inb) (cb_price cb) \<and> limit_ok env (tk_order (nd_val n)) (cb_price cb)"
  proof (cases "o_price ?c = 0 \<or> o_price ?i = 0")
    case True
    then show ?thesis using pr unfolding limit_ok_def by (metis order_refl)
  next
    case False
    then have "if o_is_buy ?i then o_price ?c \<le> o_price ?i else o_price ?i \<le> o_price ?c"
      using matches_limits [OF n(2)] k by auto
    then show ?thesis using pr k(3) False unfolding limit_ok_def by simp
  qed
  with n show ?thesis unfolding fill_in_limits_def by blast
qed

lemma deferred_fill_valid:
  assumes "deferred_fill env D M cb" "side_ok env b buy D" "side_ok env b' (\<not> buy) M"
  shows "valid_fill env cb"
proof -
  from assms(1) obtain n where n: "n \<in> set D" "fill_ok env (cp_price (nd_key n)) (nd_val n) M cb"
    by (auto simp: deferred_fill_def)
  have "o_is_buy (env (tk_order (nd_val n))) = buy" using assms(2) n(1) by (auto simp: side_ok_def)
  then show ?thesis using fill_ok_valid [OF n(2)] assms(3) by blast
qed

lemma deferred_fill_limits:
  assumes "deferred_fill env D M cb" "side_ok env b buy D" "side_ok env b' (\<not> buy) M"
    "keyed env D" "keyed env M"
  shows "fill_in_limits env cb"
proof -
  from assms(1) obtain n where n: "n \<in> set D" "fill_ok env (cp_price (nd_key n)) (nd_val n) M cb"
    by (auto simp: deferred_fill_def)
  have "o_is_buy (env (tk_order (nd_val n))) = buy"
    "cp_price (nd_key n) = o_price (env (tk_order (nd_val n)))"
    using assms(2,4) n(1) by (auto simp: side_ok_def keyed_def)
  then show ?thesis using fill_ok_limits [of env "nd_val n" M cb b'] n(2) assms(3,5) by simp
qed

end
