(* ===== verification/Book_Ops.thy ===== *)
theory Book_Ops
  imports Book_Add
begin

text \<open>
  \<^verbatim>\<open>add_order\<close>, and the operations that rest on it, on a well-formed book: they return,
  keep the invariant, and conserve quantity.
\<close>

section \<open>Crossed orders\<close>

definition cross_free :: "tracker_map \<Rightarrow> tracker_map \<Rightarrow> bool" where
  "cross_free m m' \<longleftrightarrow> (\<forall>n \<in> set m. \<forall>k \<in> set m'.
     all_or_none (nd_val n) \<or> all_or_none (nd_val k) \<or> \<not> matches (nd_key n) (cp_price (nd_key k)))"

lemma cross_free_sym:
  assumes "side_ok env b buy m" "side_ok env b' (\<not> buy) m'"
  shows "cross_free m m' = cross_free m' m"
proof -
  have "matches (nd_key n) (cp_price (nd_key k)) = matches (nd_key k) (cp_price (nd_key n))"
    if "n \<in> set m" "k \<in> set m'" for n k
    using that assms by (intro matches_sym) (auto simp: side_ok_def)
  then show ?thesis unfolding cross_free_def by auto
qed

lemma cross_free_shrinks:
  assumes "cross_free m k" "shrinks m m'" "shrinks k k'"
  shows "cross_free m' k'"
  unfolding cross_free_def
proof (intro ballI)
  fix x y assume "x \<in> set m'" "y \<in> set k'"
  then obtain x0 y0 where "x0 \<in> set m" "nd_key x0 = nd_key x" "shrunk (nd_val x0) (nd_val x)"
    "y0 \<in> set k" "nd_key y0 = nd_key y" "shrunk (nd_val y0) (nd_val y)"
    using shrinks_node [OF assms(2)] shrinks_node [OF assms(3)] by metis
  then show "all_or_none (nd_val x) \<or> all_or_none (nd_val y) \<or>
      \<not> matches (nd_key x) (cp_price (nd_key y))"
    using assms(1) shrunk_frame(2) unfolding cross_free_def by metis
qed

section \<open>The two halves of add_order\<close>

lemma side_ok_cong:
  assumes "ob_next_node b' = ob_next_node b" "ob_marketPrice b' = ob_marketPrice b"
  shows "side_ok env b' buy m = side_ok env b buy m"
  using assms by (simp add: side_ok_def tk_priced_def)

lemma add_match:
  assumes O: "side_ok env b buy Ow" and X: "side_ok env b (\<not> buy) X" and inb: "live inb"
    and pr: "all_or_none inb \<longrightarrow> tk_priced env b inb" and q: "side_qty X < 2 ^ 32"
  obtains inb1 X1 aons b1 c1 where
    "match_order env inb p X [] b = Inr (c1 \<noteq> [], inb1, X1, aons, b1)" "trading b c1 b1"
    "side_ok env b1 buy Ow" "side_ok env b1 (\<not> buy) X1" "shrinks X X1"
    "side_qty X1 + traded_qty c1 = side_qty X"
    "unat (tk_open_qty inb1) + traded_qty c1 = unat (tk_open_qty inb)"
    "tk_order inb1 = tk_order inb" "all_or_none inb1 = all_or_none inb"
    "immediate_or_cancel inb1 = immediate_or_cancel inb" "unreserved inb1"
    "all_or_none inb1 \<longrightarrow> tk_priced env b1 inb1"
    "\<forall>cb \<in> set c1. fill_ok env p inb X cb" "distinct aons"
    "\<forall>i \<in> set aons. \<exists>n \<in> set X1. nd_id n = i \<and> all_or_none (nd_val n)"
    "\<not> all_or_none inb \<Longrightarrow> tk_priced env b inb \<Longrightarrow> \<not> filled inb1 \<Longrightarrow>
       \<forall>n \<in> set X1. all_or_none (nd_val n) \<or> \<not> matches (nd_key n) p"
    "all_or_none inb \<Longrightarrow> filled inb1 \<or> c1 = [] \<and> inb1 = inb \<and> X1 = X \<and> b1 = b"
proof -
  have "live_side X" using X by (simp add: side_ok_def)
  then obtain matched inb1 X1 aons b1 where
    r: "match_order env inb p X [] b = Inr (matched, inb1, X1, aons, b1)"
    and oc: "match_outcome env p inb b X (matched, inb1, X1, aons, b1)"
    and aon: "all_or_none inb \<Longrightarrow> filled inb1 \<or> \<not> matched \<and> inb1 = inb \<and> X1 = X \<and> b1 = b"
    and reg: "\<not> all_or_none inb \<Longrightarrow> tk_priced env b inb \<Longrightarrow> mm_sorted cp_less X \<Longrightarrow>
       \<forall>n \<in> set X. cp_buySide (nd_key n) = (\<not> buy) \<Longrightarrow> \<not> filled inb1 \<Longrightarrow>
       \<forall>n \<in> set X1. all_or_none (nd_val n) \<or> \<not> matches (nd_key n) p"
    using match_order_ok [of X inb env b p "\<not> buy"] inb pr q by metis
  from oc obtain c1 where c1: "shrinks X X1" "traded_so_far env p inb b X c1 inb1 b1"
    "side_qty X1 + traded_qty c1 = side_qty X" "matched = (c1 \<noteq> [])" "distinct aons"
    "\<forall>i \<in> set aons. \<exists>n \<in> set X1. nd_id n = i \<and> all_or_none (nd_val n)"
    by (auto simp: match_outcome_def)
  note T = traded_so_farD [OF c1(2)]
  have ui: "unreserved inb1" using T(2) inb by (simp add: live_def)
  have fs: "\<forall>cb \<in> set c1. fill_ok env p inb X cb" using c1(2) by (simp add: traded_so_far_def)
  have s1: "side_ok env b1 buy Ow" "side_ok env b1 (\<not> buy) X1"
    using side_ok_shrinks [OF O shrinks_refl T(5)] side_ok_shrinks [OF X c1(1) T(5)] by auto
  have p1: "all_or_none inb1 \<longrightarrow> tk_priced env b1 inb1"
    using pr T(3) tk_priced_mono [OF _ T(5) T(1)] by blast
  show thesis
    by (rule that [OF r [unfolded c1(4)] T(5) s1 c1(1,3) T(6,1,3,4) ui p1 fs c1(5,6)])
      (use reg aon X c1(4) in \<open>auto simp: side_ok_def\<close>)
qed

lemma add_rest:
  assumes O: "side_ok env b buy Ow" and X: "side_ok env b (\<not> buy) X" and t: "live t"
    "o_is_buy (env (tk_order t)) = buy" "all_or_none t \<longrightarrow> tk_priced env b t"
    and aons: "distinct aons" "\<forall>i \<in> set aons. \<exists>n \<in> set X. nd_id n = i \<and> all_or_none (nd_val n)"
    and q: "side_qty Ow + unat (tk_open_qty t) < 2 ^ 32"
    and b2: "ob_marketPrice b2 = ob_marketPrice b" "ob_next_node b2 = Suc (ob_next_node b)"
    and O2: "O2 = mm_insert cp_less (new_node b (ComparablePrice buy p) t) Ow"
  obtains X3 O3 b3 c2 where
    "check_deferred_aons env aons X O2 b2 False = Inr (c2 \<noteq> [], X3, O3, b3)" "trading b2 c2 b3"
    "shrinks X X3" "shrinks O2 O3"
    "side_qty X3 + side_qty O3 + 2 * traded_qty c2 =
       side_qty X + side_qty Ow + unat (tk_open_qty t)"
    "side_ok env b3 buy O3" "side_ok env b3 (\<not> buy) X3" "\<forall>cb \<in> set c2. valid_fill env cb"
    "keyed env X \<Longrightarrow> keyed env O2 \<Longrightarrow> \<forall>cb \<in> set c2. fill_in_limits env cb"
proof -
  have s2: "side_ok env b2 buy O2"
    using side_ok_insert [OF O t, of "ComparablePrice buy p"] unfolding O2
    by (subst side_ok_cong [of _ "b\<lparr>ob_next_node := Suc (ob_next_node b)\<rparr>"]) (simp_all add: b2)
  have x2: "side_ok env b2 (\<not> buy) X"
    using X b2 unfolding side_ok_def tk_priced_def by (auto simp: less_Suc_eq)
  have "side_qty O2 < 2 ^ 32" using q by (simp add: O2)
  then obtain X3 O3 b3 c2 where r:
    "check_deferred_aons env aons X O2 b2 False = Inr (c2 \<noteq> [], X3, O3, b3)"
    "shrinks X X3" "shrinks O2 O3" "trading b2 c2 b3"
    "side_qty X3 + side_qty O3 + 2 * traded_qty c2 = side_qty X + side_qty O2"
    "\<forall>cb \<in> set c2. deferred_fill env X O2 cb"
    using check_deferred_aons_ok [of X O2 aons env b2 False] s2 x2 aons
    by (auto simp: side_ok_def)
  show thesis
  proof (rule that [OF r(1,4,2,3)])
    show "side_ok env b3 buy O3" "side_ok env b3 (\<not> buy) X3"
      using side_ok_shrinks s2 x2 r(2,3,4) by blast+
    show "\<forall>cb \<in> set c2. valid_fill env cb"
      using r(6) deferred_fill_valid [OF _ x2, of O2 _ b2] s2 by auto
    show "\<forall>cb \<in> set c2. fill_in_limits env cb" if "keyed env X" "keyed env O2"
      using r(6) deferred_fill_limits [OF _ x2, of O2 _ b2] s2 that by auto
    show "side_qty X3 + side_qty O3 + 2 * traded_qty c2 =
       side_qty X + side_qty Ow + unat (tk_open_qty t)" using r(5) by (simp add: O2)
  qed
qed

section \<open>add_order\<close>

text \<open>
  \<open>add_result\<close>: what adding \<open>inb\<close> at \<open>p\<close> to \<open>b\<close> gives. The quantity that entered is on the
  book, was traded (once on either side), or is the rest of an immediate-or-cancel order.
\<close>

definition dropped_qty :: "tracker \<Rightarrow> nat" where
  "dropped_qty t = (if immediate_or_cancel t then unat (tk_open_qty t) else 0)"

definition keyed_book :: "order_env \<Rightarrow> order_book \<Rightarrow> bool" where
  "keyed_book env b \<longleftrightarrow> keyed env (ob_bids b) \<and> keyed env (ob_asks b)"

definition uncrossed :: "order_book \<Rightarrow> bool" where
  "uncrossed b \<longleftrightarrow> cross_free (ob_bids b) (ob_asks b)"

text \<open>
  Where the rest of \<open>t\<close> goes on its side \<open>Ow\<close>, \<open>X\<close> being the other side: nowhere when nothing
  is left of it or the rest is cancelled, else to the place of its price. Resting all-or-none
  orders of the other side are then given a second chance, which may take orders away.
\<close>

definition comes_to_rest ::
  "bool \<Rightarrow> tracker \<Rightarrow> price \<Rightarrow> order_book \<Rightarrow> tracker_map \<Rightarrow> tracker_map \<Rightarrow> tracker_map \<Rightarrow> bool" where
  "comes_to_rest buy t p b Ow X Ow' \<longleftrightarrow>
     (if open_qty t = 0 \<or> immediate_or_cancel t then Ow' = Ow
      else shrinks (mm_insert cp_less (new_node b (ComparablePrice buy p) t) Ow) Ow' \<and>
        ((\<forall>n \<in> set X. \<not> all_or_none (nd_val n)) \<longrightarrow>
           Ow' = mm_insert cp_less (new_node b (ComparablePrice buy p) t) Ow))"

definition side_of :: "bool \<Rightarrow> order_book \<Rightarrow> tracker_map" where
  "side_of buy b = (if buy then ob_bids b else ob_asks b)"

definition add_result ::
  "order_env \<Rightarrow> tracker \<Rightarrow> price \<Rightarrow> order_book \<Rightarrow> callback list \<Rightarrow> tracker \<Rightarrow> order_book \<Rightarrow> bool" where
  "add_result env inb p b cbs inb' b' \<longleftrightarrow>
     book_ok env b' \<and> engine_run b cbs b' \<and> (\<forall>cb \<in> set cbs. valid_fill env cb) \<and>
     book_qty b' + 2 * traded_qty cbs + dropped_qty inb' = book_qty b + unat (tk_open_qty inb) \<and>
     tk_order inb' = tk_order inb \<and> all_or_none inb' = all_or_none inb \<and>
     immediate_or_cancel inb' = immediate_or_cancel inb \<and> unreserved inb' \<and>
     tk_open_qty inb' \<le> tk_open_qty inb \<and>
     (keyed_book env b \<longrightarrow> p = o_price (env (tk_order inb)) \<longrightarrow>
        keyed_book env b' \<and> (\<forall>cb \<in> set cbs. fill_in_limits env cb)) \<and>
     (uncrossed b \<longrightarrow> tk_priced env b inb \<longrightarrow> uncrossed b') \<and>
     (let buy = o_is_buy (env (tk_order inb))
      in comes_to_rest buy inb' p b (side_of buy b) (side_of (\<not> buy) b) (side_of buy b'))"

lemma live_rest: "unreserved t \<Longrightarrow> open_qty t \<noteq> 0 \<Longrightarrow> live t"
  by (simp add: live_def)

lemma stops_ok_bare [simp]: "stops_ok (bare b) = stops_ok b"
  by (simp add: stops_ok_def)

lemma stops_ok_run: "stops_ok b \<Longrightarrow> engine_run b cbs b' \<Longrightarrow> stops_ok b'"
  using stops_ok_trading [of "bare b" cbs "bare b'"] by (simp add: engine_run_def)

lemma cross_free_insert:
  assumes "cross_free Ow X" "all_or_none t \<or> (\<forall>n \<in> set X. all_or_none (nd_val n) \<or> \<not> matches (nd_key n) p)"
    "\<forall>n \<in> set X. cp_buySide (nd_key n) = (\<not> buy)"
  shows "cross_free (mm_insert cp_less (new_node b (ComparablePrice buy p) t) Ow) X"
proof -
  have "matches (ComparablePrice buy p) (cp_price (nd_key n)) = matches (nd_key n) p" if "n \<in> set X" for n
    using matches_sym [of "ComparablePrice buy p" "nd_key n"] assms(3) that by simp
  then show ?thesis using assms unfolding cross_free_def new_node_def by auto
qed

text \<open>
  One side of the proof, for an order of either direction: \<open>Ow\<close> is the side of the order, \<open>X\<close>
  the other one.
\<close>

definition half_result ::
  "order_env \<Rightarrow> bool \<Rightarrow> tracker \<Rightarrow> price \<Rightarrow> order_book \<Rightarrow> tracker_map \<Rightarrow> tracker_map
     \<Rightarrow> callback list \<Rightarrow> tracker \<Rightarrow> order_book \<Rightarrow> tracker_map \<Rightarrow> tracker_map \<Rightarrow> bool" where
  "half_result env buy inb p b Ow X cbs inb' b' Ow' X' \<longleftrightarrow>
     side_ok env b' buy Ow' \<and> side_ok env b' (\<not> buy) X' \<and> engine_run b cbs b' \<and>
     (\<forall>cb \<in> set cbs. valid_fill env cb) \<and>
     side_qty Ow' + side_qty X' + 2 * traded_qty cbs + dropped_qty inb' =
       side_qty Ow + side_qty X + unat (tk_open_qty inb) \<and>
     tk_order inb' = tk_order inb \<and> all_or_none inb' = all_or_none inb \<and>
     immediate_or_cancel inb' = immediate_or_cancel inb \<and> unreserved inb' \<and>
     tk_open_qty inb' \<le> tk_open_qty inb \<and>
     (keyed env Ow \<longrightarrow> keyed env X \<longrightarrow> p = o_price (env (tk_order inb)) \<longrightarrow>
        keyed env Ow' \<and> keyed env X' \<and> (\<forall>cb \<in> set cbs. fill_in_limits env cb)) \<and>
     (cross_free Ow X \<longrightarrow> tk_priced env b inb \<longrightarrow> cross_free Ow' X') \<and>
     o_is_buy (env (tk_order inb)) = buy \<and> comes_to_rest buy inb' p b Ow X Ow'"

lemma add_half:
  assumes O: "side_ok env b buy Ow" and X: "side_ok env b (\<not> buy) X" and inb: "live inb"
    and dir: "o_is_buy (env (tk_order inb)) = buy"
    and pr: "all_or_none inb \<longrightarrow> tk_priced env b inb"
    and q: "side_qty Ow + side_qty X + unat (tk_open_qty inb) < 2 ^ 32"
  obtains inb1 X1 aons b1 c1 where
    "match_order env inb p X [] b = Inr (c1 \<noteq> [], inb1, X1, aons, b1)" "trading b c1 b1"
    "open_qty inb1 = 0 \<or> immediate_or_cancel inb1 \<Longrightarrow> half_result env buy inb p b Ow X c1 inb1 b1 Ow X1"
    "\<And>b2. open_qty inb1 \<noteq> 0 \<Longrightarrow> \<not> immediate_or_cancel inb1 \<Longrightarrow>
       bare b2 = bare b1 \<Longrightarrow> ob_next_node b2 = Suc (ob_next_node b1) \<Longrightarrow>
       \<exists>X3 O3 b3 c2. check_deferred_aons env aons X1
            (mm_insert cp_less (new_node b1 (ComparablePrice buy p) inb1) Ow) b2 False =
            Inr (c2 \<noteq> [], X3, O3, b3) \<and> trading b2 c2 b3 \<and>
          half_result env buy inb p b Ow X (c1 @ c2) inb1 b3 O3 X3"
proof -
  have x32: "side_qty X < 2 ^ 32" using q by simp
  obtain inb1 X1 aons b1 c1 where
    r: "match_order env inb p X [] b = Inr (c1 \<noteq> [], inb1, X1, aons, b1)" and tr: "trading b c1 b1"
    and s1: "side_ok env b1 buy Ow" "side_ok env b1 (\<not> buy) X1" and sh: "shrinks X X1"
    and q1: "side_qty X1 + traded_qty c1 = side_qty X"
      "unat (tk_open_qty inb1) + traded_qty c1 = unat (tk_open_qty inb)"
    and fr: "tk_order inb1 = tk_order inb" "all_or_none inb1 = all_or_none inb"
      "immediate_or_cancel inb1 = immediate_or_cancel inb" "unreserved inb1"
    and p1: "all_or_none inb1 \<longrightarrow> tk_priced env b1 inb1"
    and fs: "\<forall>cb \<in> set c1. fill_ok env p inb X cb"
    and ao: "distinct aons" "\<forall>i \<in> set aons. \<exists>n \<in> set X1. nd_id n = i \<and> all_or_none (nd_val n)"
    and reg: "\<not> all_or_none inb \<Longrightarrow> tk_priced env b inb \<Longrightarrow> \<not> filled inb1 \<Longrightarrow>
       \<forall>n \<in> set X1. all_or_none (nd_val n) \<or> \<not> matches (nd_key n) p"
    and "all_or_none inb \<Longrightarrow> filled inb1 \<or> c1 = [] \<and> inb1 = inb \<and> X1 = X \<and> b1 = b"
    by (rule add_match [OF O X inb pr x32, of p]) (rule that; assumption?; blast)
  have le: "tk_open_qty inb1 \<le> tk_open_qty inb" using q1(2) by (simp add: word_le_nat_alt)
  have v1: "\<forall>cb \<in> set c1. valid_fill env cb"
    using fs fill_ok_valid [of env p inb X _ b] X dir by auto
  have l1: "\<forall>cb \<in> set c1. fill_in_limits env cb" if "keyed env X" "p = o_price (env (tk_order inb))"
    using fs fill_ok_limits [of env inb X _ b] X dir that by auto
  show thesis
  proof (rule that [OF r tr])
    assume "open_qty inb1 = 0 \<or> immediate_or_cancel inb1"
    then have "dropped_qty inb1 = unat (tk_open_qty inb1)" "comes_to_rest buy inb1 p b Ow X Ow"
      using fr(4) by (auto simp: dropped_qty_def comes_to_rest_def)
    then show "half_result env buy inb p b Ow X c1 inb1 b1 Ow X1"
      unfolding half_result_def
      using dir s1 v1 l1 fr q1 le engine_run_trading [OF tr] keyed_shrinks [OF _ sh]
        cross_free_shrinks [OF _ shrinks_refl sh] by auto
  next
    fix b2 assume op: "open_qty inb1 \<noteq> 0" and ni: "\<not> immediate_or_cancel inb1"
      and b2: "bare b2 = bare b1" "ob_next_node b2 = Suc (ob_next_node b1)"
    let ?O2 = "mm_insert cp_less (new_node b1 (ComparablePrice buy p) inb1) Ow"
    have lv: "live inb1" using fr(4) op by (rule live_rest)
    have mp: "ob_marketPrice b2 = ob_marketPrice b1" using b2(1) by (metis bare_sel(5))
    have d1: "o_is_buy (env (tk_order inb1)) = buy" using dir fr(1) by simp
    have o32: "side_qty Ow + unat (tk_open_qty inb1) < 2 ^ 32" using q q1 by simp
    obtain X3 O3 b3 c2 where
      c2: "check_deferred_aons env aons X1 ?O2 b2 False = Inr (c2 \<noteq> [], X3, O3, b3)"
        "trading b2 c2 b3" "shrinks X1 X3" "shrinks ?O2 O3"
      and q2: "side_qty X3 + side_qty O3 + 2 * traded_qty c2 =
        side_qty X1 + side_qty Ow + unat (tk_open_qty inb1)"
      and s3: "side_ok env b3 buy O3" "side_ok env b3 (\<not> buy) X3"
      and v2: "\<forall>cb \<in> set c2. valid_fill env cb"
      and l2: "keyed env X1 \<Longrightarrow> keyed env ?O2 \<Longrightarrow> \<forall>cb \<in> set c2. fill_in_limits env cb"
      by (rule add_rest [OF s1 lv d1 p1 ao o32 mp b2(2) refl, of p]) (rule that; assumption?; blast)
    have run: "engine_run b (c1 @ c2) b3"
      using engine_run_trading [OF tr] engine_run_cong [OF engine_run_trading [OF c2(2)]] b2(1)
      by (intro engine_run_trans) auto
    have qq: "side_qty O3 + side_qty X3 + 2 * traded_qty (c1 @ c2) + dropped_qty inb1 =
       side_qty Ow + side_qty X + unat (tk_open_qty inb)"
      using q1 q2 ni by (simp add: dropped_qty_def)
    have kk: "keyed env O3 \<and> keyed env X3 \<and> (\<forall>cb \<in> set (c1 @ c2). fill_in_limits env cb)"
      if k: "keyed env Ow" "keyed env X" "p = o_price (env (tk_order inb))"
    proof -
      have "keyed env ?O2" using k fr(1) by (intro keyed_insert [OF k(1)]) simp
      moreover have "keyed env X1" using keyed_shrinks [OF k(2) sh] .
      ultimately show ?thesis
        using l1 [OF k(2,3)] l2 keyed_shrinks [OF _ c2(3)] keyed_shrinks [OF _ c2(4)] by auto
    qed
    have cf: "cross_free O3 X3" if c: "cross_free Ow X" "tk_priced env b inb"
    proof -
      have "\<not> filled inb1" using op fr(4) by (simp add: filled_def)
      then have "cross_free ?O2 X1"
        using cross_free_shrinks [OF c(1) shrinks_refl sh] reg c(2) fr(2) s1(2)
        by (intro cross_free_insert) (auto simp: side_ok_def)
      then show ?thesis using cross_free_shrinks c2(3,4) by blast
    qed
    have "aons = []" if "\<forall>n \<in> set X. \<not> all_or_none (nd_val n)"
    proof -
      have "\<not> all_or_none (nd_val n)" if "n \<in> set X1" for n
        using shrinks_node [OF sh that] \<open>\<forall>n \<in> set X. _ n\<close> shrunk_frame(2) by metis
      then show ?thesis using ao(2) by (metis hd_in_set)
    qed
    then have cr: "comes_to_rest buy inb1 p b Ow X O3"
      using op ni c2(1,4) tradingD(4) [OF tr]
      by (auto simp: comes_to_rest_def new_node_def)
    have "half_result env buy inb p b Ow X (c1 @ c2) inb1 b3 O3 X3"
      unfolding half_result_def using s3 run v1 v2 qq fr le kk cf cr dir by auto
    with c2(1,2) show "\<exists>X3 O3 b3 c2. check_deferred_aons env aons X1 ?O2 b2 False =
            Inr (c2 \<noteq> [], X3, O3, b3) \<and> trading b2 c2 b3 \<and>
          half_result env buy inb p b Ow X (c1 @ c2) inb1 b3 O3 X3" by blast
  qed
qed

lemma tk_priced_cong: "ob_marketPrice b' = ob_marketPrice b \<Longrightarrow> tk_priced env b' t = tk_priced env b t"
  by (simp add: tk_priced_def)

lemma engine_run_book:
  "engine_run b cbs b' \<Longrightarrow> bare c = bare b' \<Longrightarrow> engine_run b cbs c"
  by (simp add: engine_run_def)

lemma half_add_result:
  assumes "book_ok env b" "half_result env buy inb p b Ow X cbs inb' b1 Ow' X'"
    "if buy then Ow = ob_bids b \<and> X = ob_asks b \<and> b' = b1\<lparr>ob_asks := X', ob_bids := Ow'\<rparr>
     else Ow = ob_asks b \<and> X = ob_bids b \<and> b' = b1\<lparr>ob_bids := X', ob_asks := Ow'\<rparr>"
  shows "add_result env inb p b cbs inb' b'"
proof -
  have bare: "bare b' = bare b1" using assms(3) by (simp split: if_splits)
  have run: "engine_run b cbs b'"
    using assms(2) engine_run_book bare unfolding half_result_def by blast
  have sides: "ob_bids b' = (if buy then Ow' else X')" "ob_asks b' = (if buy then X' else Ow')"
    "ob_next_node b' = ob_next_node b1" "ob_marketPrice b' = ob_marketPrice b1"
    using assms(3) by (simp_all split: if_splits)
  have ok': "side_ok env b' True (ob_bids b')" "side_ok env b' False (ob_asks b')"
    using assms(2) sides(1,2) side_ok_cong [OF sides(3,4)] unfolding half_result_def
    by (cases buy; simp)+
  have ok: "side_ok env b True (ob_bids b)" "side_ok env b False (ob_asks b)" "stops_ok b"
    using assms(1) by (simp_all add: book_ok_def)
  have "stop_mset b' = stop_mset b" using engine_runD [OF run] by simp
  then have q: "book_qty b' + 2 * traded_qty cbs + dropped_qty inb' = book_qty b + unat (tk_open_qty inb)"
    using assms(2,3) sides(1,2) unfolding half_result_def book_qty_def by (cases buy) auto
  have sym: "cross_free (ob_bids b) (ob_asks b) = cross_free (ob_asks b) (ob_bids b)"
    "cross_free (ob_bids b') (ob_asks b') = cross_free (ob_asks b') (ob_bids b')"
    using cross_free_sym ok ok' by (metis (full_types))+
  have u: "uncrossed b \<longrightarrow> tk_priced env b inb \<longrightarrow> uncrossed b'"
    using assms(2,3) sides(1,2) sym unfolding half_result_def uncrossed_def by (cases buy) auto
  have k: "keyed_book env b \<longrightarrow> p = o_price (env (tk_order inb)) \<longrightarrow>
      keyed_book env b' \<and> (\<forall>cb \<in> set cbs. fill_in_limits env cb)"
    using assms(2,3) sides(1,2) unfolding half_result_def keyed_book_def by (cases buy) auto
  have r: "let buy = o_is_buy (env (tk_order inb))
      in comes_to_rest buy inb' p b (side_of buy b) (side_of (\<not> buy) b) (side_of buy b')"
    using assms(2,3) sides(1,2) unfolding half_result_def side_of_def by (cases buy) auto
  have "book_ok env b'" using ok' stops_ok_run [OF ok(3) run] by (simp add: book_ok_def)
  then show ?thesis
    using run q u k r assms(2) unfolding add_result_def half_result_def by blast
qed

lemma add_order_ok:
  assumes B: "book_ok env b" and inb: "live inb" and pr: "all_or_none inb \<longrightarrow> tk_priced env b inb"
    and q: "book_qty b + unat (tk_open_qty inb) < 2 ^ 32"
  obtains cbs inb' b' where "add_order env inb p b = Inr (cbs \<noteq> [], inb', b')"
    "add_result env inb p b cbs inb' b'"
proof (cases "o_is_buy (env (tk_order inb))")
  case True
  have sides: "side_ok env b True (ob_bids b)" "side_ok env b (\<not> True) (ob_asks b)"
    and q': "side_qty (ob_bids b) + side_qty (ob_asks b) + unat (tk_open_qty inb) < 2 ^ 32"
    using B q by (simp_all add: book_ok_def book_qty_def)
  show thesis
  proof (rule add_half [OF sides inb _ pr q', of p])
    fix inb1 X1 aons b1 c1
    assume r: "match_order env inb p (ob_asks b) [] b = Inr (c1 \<noteq> [], inb1, X1, aons, b1)"
      and tr: "trading b c1 b1"
      and out: "open_qty inb1 = 0 \<or> immediate_or_cancel inb1 \<Longrightarrow>
        half_result env True inb p b (ob_bids b) (ob_asks b) c1 inb1 b1 (ob_bids b) X1"
      and rest: "\<And>b2. open_qty inb1 \<noteq> 0 \<Longrightarrow> \<not> immediate_or_cancel inb1 \<Longrightarrow>
        bare b2 = bare b1 \<Longrightarrow> ob_next_node b2 = Suc (ob_next_node b1) \<Longrightarrow>
        \<exists>X3 O3 b3 c2. check_deferred_aons env aons X1
            (mm_insert cp_less (new_node b1 (ComparablePrice True p) inb1) (ob_bids b)) b2 False =
            Inr (c2 \<noteq> [], X3, O3, b3) \<and> trading b2 c2 b3 \<and>
          half_result env True inb p b (ob_bids b) (ob_asks b) (c1 @ c2) inb1 b3 O3 X3"
    note same = tradingD(2,3,4) [OF tr]
    show thesis
    proof (cases "open_qty inb1 \<noteq> 0 \<and> \<not> immediate_or_cancel inb1")
      case False
      have "add_result env inb p b c1 inb1 (b1\<lparr>ob_asks := X1\<rparr>)"
        using half_add_result [OF B out, of "b1\<lparr>ob_asks := X1\<rparr>"] False same by auto
      moreover have "add_order env inb p b = Inr (c1 \<noteq> [], inb1, b1\<lparr>ob_asks := X1\<rparr>)"
        using r False True by (auto simp: add_order_def)
      ultimately show thesis using that by blast
    next
      case op: True
      define b2 where "b2 = insert_bid p inb1 (b1\<lparr>ob_asks := X1\<rparr>)"
      have b2: "bare b2 = bare b1" "ob_next_node b2 = Suc (ob_next_node b1)" "ob_asks b2 = X1"
        "ob_bids b2 = mm_insert cp_less (new_node b1 (ComparablePrice True p) inb1) (ob_bids b)"
        using same by (simp_all add: b2_def insert_bid_def new_node_def)
      obtain X3 O3 b3 c2 where c2: "check_deferred_aons env aons (ob_asks b2) (ob_bids b2) b2 False =
          Inr (c2 \<noteq> [], X3, O3, b3)"
        "half_result env True inb p b (ob_bids b) (ob_asks b) (c1 @ c2) inb1 b3 O3 X3"
        using rest [OF conjunct1 [OF op] conjunct2 [OF op] b2(1,2)] b2(3,4) by auto
      have "add_order env inb p b = Inr (c1 @ c2 \<noteq> [], inb1, b3\<lparr>ob_asks := X3, ob_bids := O3\<rparr>)"
        using r c2(1) op True by (auto simp: add_order_def b2_def [symmetric] Let_def)
      moreover have "add_result env inb p b (c1 @ c2) inb1 (b3\<lparr>ob_asks := X3, ob_bids := O3\<rparr>)"
        using half_add_result [OF B c2(2)] by simp
      ultimately show thesis using that by blast
    qed
  qed (simp add: True)
next
  case False
  have sides: "side_ok env b False (ob_asks b)" "side_ok env b (\<not> False) (ob_bids b)"
    and q': "side_qty (ob_asks b) + side_qty (ob_bids b) + unat (tk_open_qty inb) < 2 ^ 32"
    using B q by (simp_all add: book_ok_def book_qty_def)
  show thesis
  proof (rule add_half [OF sides inb _ pr q', of p])
    fix inb1 X1 aons b1 c1
    assume r: "match_order env inb p (ob_bids b) [] b = Inr (c1 \<noteq> [], inb1, X1, aons, b1)"
      and tr: "trading b c1 b1"
      and out: "open_qty inb1 = 0 \<or> immediate_or_cancel inb1 \<Longrightarrow>
        half_result env False inb p b (ob_asks b) (ob_bids b) c1 inb1 b1 (ob_asks b) X1"
      and rest: "\<And>b2. open_qty inb1 \<noteq> 0 \<Longrightarrow> \<not> immediate_or_cancel inb1 \<Longrightarrow>
        bare b2 = bare b1 \<Longrightarrow> ob_next_node b2 = Suc (ob_next_node b1) \<Longrightarrow>
        \<exists>X3 O3 b3 c2. check_deferred_aons env aons X1
            (mm_insert cp_less (new_node b1 (ComparablePrice False p) inb1) (ob_asks b)) b2 False =
            Inr (c2 \<noteq> [], X3, O3, b3) \<and> trading b2 c2 b3 \<and>
          half_result env False inb p b (ob_asks b) (ob_bids b) (c1 @ c2) inb1 b3 O3 X3"
    note same = tradingD(2,3,4) [OF tr]
    show thesis
    proof (cases "open_qty inb1 \<noteq> 0 \<and> \<not> immediate_or_cancel inb1")
      case F: False
      have "add_result env inb p b c1 inb1 (b1\<lparr>ob_bids := X1\<rparr>)"
        using half_add_result [OF B out, of "b1\<lparr>ob_bids := X1\<rparr>"] F same by auto
      moreover have "add_order env inb p b = Inr (c1 \<noteq> [], inb1, b1\<lparr>ob_bids := X1\<rparr>)"
        using r F False by (auto simp: add_order_def)
      ultimately show thesis using that by blast
    next
      case op: True
      define b2 where "b2 = insert_ask p inb1 (b1\<lparr>ob_bids := X1\<rparr>)"
      have b2: "bare b2 = bare b1" "ob_next_node b2 = Suc (ob_next_node b1)" "ob_bids b2 = X1"
        "ob_asks b2 = mm_insert cp_less (new_node b1 (ComparablePrice False p) inb1) (ob_asks b)"
        using same by (simp_all add: b2_def insert_ask_def new_node_def)
      obtain X3 O3 b3 c2 where c2: "check_deferred_aons env aons (ob_bids b2) (ob_asks b2) b2 False =
          Inr (c2 \<noteq> [], X3, O3, b3)"
        "half_result env False inb p b (ob_asks b) (ob_bids b) (c1 @ c2) inb1 b3 O3 X3"
        using rest [OF conjunct1 [OF op] conjunct2 [OF op] b2(1,2)] b2(3,4) by auto
      have "add_order env inb p b = Inr (c1 @ c2 \<noteq> [], inb1, b3\<lparr>ob_bids := X3, ob_asks := O3\<rparr>)"
        using r c2(1) op False by (auto simp: add_order_def b2_def [symmetric] Let_def)
      moreover have "add_result env inb p b (c1 @ c2) inb1 (b3\<lparr>ob_bids := X3, ob_asks := O3\<rparr>)"
        using half_add_result [OF B c2(2)] by simp
      ultimately show thesis using that by blast
    qed
  qed (simp add: False)
qed

end
