(* ===== verification/Book_Rounds.thy ===== *)
theory Book_Rounds
  imports Book_Ops
begin

text \<open>
  The rounds that submit released stop orders, on a well-formed book: the loop ends with no
  order pending, keeps the invariant and conserves quantity.
\<close>

section \<open>What a round may do\<close>

text \<open>
  \<open>run_ok\<close>: from \<open>b\<close>, trading that queued \<open>cbs\<close> has led to the well-formed book \<open>b'\<close>; of the
  quantity \<open>q\<close> that was there, \<open>d\<close> has left the book without a trade.
\<close>

definition run_ok ::
  "order_env \<Rightarrow> order_book \<Rightarrow> nat \<Rightarrow> callback list \<Rightarrow> nat \<Rightarrow> order_book \<Rightarrow> bool" where
  "run_ok env b q cbs d b' \<longleftrightarrow>
     book_ok env b' \<and> (\<forall>cb \<in> set cbs. valid_fill env cb) \<and>
     book_qty b' + 2 * traded_qty cbs + d = q \<and>
     (keyed_book env b \<longrightarrow> keyed_book env b' \<and> (\<forall>cb \<in> set cbs. fill_in_limits env cb)) \<and>
     (uncrossed b \<longrightarrow> uncrossed b')"

lemma run_ok_trans:
  assumes "run_ok env a q c1 d1 b" "run_ok env b r c2 d2 c" "r = book_qty b + e"
  shows "run_ok env a (q + e) (c1 @ c2) (d1 + d2) c"
  using assms unfolding run_ok_def by auto

definition no_ioc :: "tracker multiset \<Rightarrow> bool" where
  "no_ioc T = (\<forall>t \<in># T. \<not> immediate_or_cancel t)"

text \<open>
  The quantity that can leave without a trade: that of the immediate-or-cancel orders among
  those that are submitted.
\<close>

definition ioc_qty :: "tracker multiset \<Rightarrow> nat" where
  "ioc_qty T = (\<Sum>t \<in># T. dropped_qty t)"

lemma ioc_qty_simps [simp]:
  "ioc_qty {#} = 0" "ioc_qty (add_mset t T) = dropped_qty t + ioc_qty T"
  "ioc_qty (T + U) = ioc_qty T + ioc_qty U"
  by (simp_all add: ioc_qty_def)

lemma no_ioc_qty: "no_ioc T \<Longrightarrow> ioc_qty T = 0"
  by (simp add: ioc_qty_def no_ioc_def dropped_qty_def)

lemma ioc_qty_diff:
  assumes "C \<subseteq># B" "B \<subseteq># A"
  shows "ioc_qty (A - B) + ioc_qty (B - C) = ioc_qty (A - C)"
proof -
  obtain X Y where "A = B + X" "B = C + Y"
    using assms by (metis subset_mset.le_iff_add)
  then show ?thesis by (simp add: ac_simps)
qed

lemma no_ioc_subset: "T \<subseteq># U \<Longrightarrow> no_ioc U \<Longrightarrow> no_ioc T"
  by (auto simp: no_ioc_def dest: mset_subset_eqD)

lemma no_ioc_bound: "d \<le> ioc_qty (A - B) \<Longrightarrow> no_ioc A \<Longrightarrow> d = 0"
  using no_ioc_qty [of "A - B"] no_ioc_subset [of "A - B" A] by simp

lemma submit_order_ok:
  assumes "book_ok env b" "live t" "tk_priced env b t"
    "book_qty b + unat (tk_open_qty t) < 2 ^ 32"
  obtains cbs t' b' where "submit_order env t b = Inr (cbs \<noteq> [], t', b')"
    "engine_run b cbs b'"
    "run_ok env b (book_qty b + unat (tk_open_qty t)) cbs (dropped_qty t') b'"
    "tk_order t' = tk_order t" "immediate_or_cancel t' = immediate_or_cancel t"
    "unreserved t'" "dropped_qty t' \<le> dropped_qty t"
proof -
  have pr: "all_or_none t \<longrightarrow> tk_priced env b t" using assms(3) by simp
  obtain cbs t' b' where
    "add_order env t (o_price (env (tk_order t))) b = Inr (cbs \<noteq> [], t', b')"
    "add_result env t (o_price (env (tk_order t))) b cbs t' b'"
    by (rule add_order_ok [OF assms(1,2) pr assms(4), where p = "o_price (env (tk_order t))"])
  then show thesis
    using assms(3) by - (rule that [of cbs t' b'], auto simp: submit_order_def add_result_def run_ok_def
        dropped_qty_def word_le_nat_alt)
qed

lemma submit_all_ok:
  assumes "book_ok env b" "\<forall>t \<in> set ts. live t" "ob_marketPrice b \<noteq> 0 \<or> ts = []"
    "book_qty b + trackers_qty (mset ts) < 2 ^ 32"
  shows "\<exists>cbs d b'. submit_all env ts b = Inr b' \<and> engine_run b cbs b' \<and>
     run_ok env b (book_qty b + trackers_qty (mset ts)) cbs d b' \<and> d \<le> ioc_qty (mset ts)"
  using assms
proof (induction ts arbitrary: b)
  case Nil
  then show ?case
    using engine_run_trading [OF trading_refl]
    by (intro exI [of _ "[]"] exI [of _ 0]) (simp add: run_ok_def)
next
  case (Cons t ts)
  have pr: "tk_priced env b t" using Cons.prems(3) by (simp add: tk_priced_def)
  have lv: "live t" and qt: "book_qty b + unat (tk_open_qty t) < 2 ^ 32"
    using Cons.prems by simp_all
  obtain c1 t' b1 where 1: "submit_order env t b = Inr (c1 \<noteq> [], t', b1)"
    "engine_run b c1 b1"
    "run_ok env b (book_qty b + unat (tk_open_qty t)) c1 (dropped_qty t') b1"
    "dropped_qty t' \<le> dropped_qty t"
    by (rule submit_order_ok [OF Cons.prems(1) lv pr qt])
  have q: "book_qty b1 + trackers_qty (mset ts) < 2 ^ 32"
    using 1(3) Cons.prems(4) by (simp add: run_ok_def)
  have "\<exists>cbs d b'. submit_all env ts b1 = Inr b' \<and> engine_run b1 cbs b' \<and>
     run_ok env b1 (book_qty b1 + trackers_qty (mset ts)) cbs d b' \<and> d \<le> ioc_qty (mset ts)"
    using Cons.prems 1(3) q engine_runD(3) [OF 1(2)]
    by (intro Cons.IH) (auto simp: run_ok_def)
  then obtain c2 d b' where 2: "submit_all env ts b1 = Inr b'" "engine_run b1 c2 b'"
    "run_ok env b1 (book_qty b1 + trackers_qty (mset ts)) c2 d b'" "d \<le> ioc_qty (mset ts)"
    by blast
  show ?case
  proof (intro exI conjI)
    show "submit_all env (t # ts) b = Inr b'" using 1(1) 2(1) by simp
    show "engine_run b (c1 @ c2) b'" using 1(2) 2(2) by (rule engine_run_trans)
    show "run_ok env b (book_qty b + trackers_qty (mset (t # ts))) (c1 @ c2) (dropped_qty t' + d) b'"
      using run_ok_trans [OF 1(3) 2(3) refl] by (simp add: algebra_simps)
    show "dropped_qty t' + d \<le> ioc_qty (mset (t # ts))" using 1(4) 2(4) by simp
  qed
qed

section \<open>The loop\<close>

text \<open>What the rounds leave alone; they only ever release waiting orders.\<close>

definition rounds :: "order_book \<Rightarrow> callback list \<Rightarrow> order_book \<Rightarrow> bool" where
  "rounds b cbs b' \<longleftrightarrow>
     same_rest b b' \<and> ob_callbacks b' = ob_callbacks b @ cbs \<and> stop_mset b' \<subseteq># stop_mset b \<and>
     ob_marketPrice b' = (if cbs = [] then ob_marketPrice b else cb_price (last cbs))"

lemma rounds_refl [simp]: "rounds b [] b"
  by (simp add: rounds_def)

lemma rounds_trans: "rounds a c1 b \<Longrightarrow> rounds b c2 c \<Longrightarrow> rounds a (c1 @ c2) c"
  using same_rest_trans subset_mset.order_trans unfolding rounds_def by (auto 4 3)

lemma same_rest_bare: "same_rest (bare b) (bare b') = same_rest b b'"
  by (simp add: same_rest_def bare_def)

lemma rounds_engine_run: "engine_run b cbs b' \<Longrightarrow> rounds b cbs b'"
  using engine_runD [of b cbs b'] tradingD(1) [of "bare b" cbs "bare b'"]
  unfolding rounds_def engine_run_def same_rest_bare by auto

lemma stop_mset_clear: "stop_mset (b\<lparr>ob_pendingOrders := []\<rparr>) + mset (ob_pendingOrders b) = stop_mset b"
  by (simp add: stop_mset_def)

lemma book_ok_clear:
  assumes "book_ok env b"
  shows "book_ok env (b\<lparr>ob_pendingOrders := []\<rparr>)"
proof -
  let ?b = "b\<lparr>ob_pendingOrders := []\<rparr>"
  have "stop_mset ?b \<subseteq># stop_mset b" using stop_mset_clear [of b] by (metis mset_subset_eq_add_left)
  then have "\<forall>t \<in># stop_mset ?b. t \<in># stop_mset b" "stop_mset ?b \<noteq> {#} \<Longrightarrow> stop_mset b \<noteq> {#}"
    using mset_subset_eqD by (fastforce, auto)
  then have "stops_ok ?b" using assms unfolding book_ok_def stops_ok_def by auto
  moreover have "side_ok env ?b buy m = side_ok env b buy m" for buy m
    by (rule side_ok_cong) simp_all
  ultimately show ?thesis using assms by (simp add: book_ok_def)
qed

lemma submit_pending_ok:
  assumes "book_ok env b" "book_qty b < 2 ^ 32"
  obtains cbs d b' where "submit_pending_orders env b = Inr b'" "rounds b cbs b'"
    "run_ok env b (book_qty b) cbs d b'" "d \<le> ioc_qty (stop_mset b - stop_mset b')"
proof -
  let ?b = "b\<lparr>ob_pendingOrders := []\<rparr>" and ?ts = "ob_pendingOrders b"
  have ts: "mset ?ts \<subseteq># stop_mset b" by (simp add: stop_mset_def)
  have in_ts: "t \<in># stop_mset b" if "t \<in> set ?ts" for t using ts that by (simp add: stop_mset_def)
  have lv: "\<forall>t \<in> set ?ts. live t"
    using assms(1) in_ts by (auto simp: book_ok_def stops_ok_def)
  have mp: "ob_marketPrice ?b \<noteq> 0 \<or> ?ts = []"
    using assms(1) by (auto simp: book_ok_def stops_ok_def stop_mset_def)
  have q: "book_qty ?b + trackers_qty (mset ?ts) = book_qty b"
    using arg_cong [OF stop_mset_clear [of b], of trackers_qty] by (simp add: book_qty_def)
  obtain cbs d b' where r: "submit_all env ?ts ?b = Inr b'" "engine_run ?b cbs b'"
    "run_ok env ?b (book_qty b) cbs d b'" "d \<le> ioc_qty (mset ?ts)"
    using submit_all_ok [OF book_ok_clear [OF assms(1)] lv mp] q assms(2) by auto
  show thesis
  proof (rule that [of b' cbs d])
    show "submit_pending_orders env b = Inr b'" using r(1) by (simp add: submit_pending_orders_def)
    have "stop_mset ?b \<subseteq># stop_mset b" using stop_mset_clear [of b] by (metis mset_subset_eq_add_left)
    then show "rounds b cbs b'"
      using rounds_engine_run [OF r(2)] subset_mset.order_trans
      by (auto simp: rounds_def same_rest_def)
    show "run_ok env b (book_qty b) cbs d b'"
      using r(3) by (simp add: run_ok_def keyed_book_def uncrossed_def)
    have "stop_mset b - stop_mset b' = mset ?ts"
      using engine_runD(2) [OF r(2)] stop_mset_clear [of b] by (metis add_diff_cancel_left')
    then show "d \<le> ioc_qty (stop_mset b - stop_mset b')" using r(4) by simp
  qed
qed

lemma submit_until_empty_ok:
  "book_ok env b \<Longrightarrow> book_qty b < 2 ^ 32 \<Longrightarrow>
     \<exists>cbs d b'. submit_until_empty env b = Inr b' \<and> ob_pendingOrders b' = [] \<and> rounds b cbs b' \<and>
       run_ok env b (book_qty b) cbs d b' \<and> d \<le> ioc_qty (stop_mset b - stop_mset b')"
proof (induction env b rule: submit_until_empty.induct)
  case (1 env b)
  show ?case
  proof (cases "ob_pendingOrders b = []")
    case True
    then show ?thesis
      using 1 by (intro exI [of _ "[]"] exI [of _ 0] exI [of _ b])
        (simp add: submit_until_empty.simps [of env b] run_ok_def)
  next
    case False
    obtain c1 d1 b1 where r1: "submit_pending_orders env b = Inr b1" "rounds b c1 b1"
      "run_ok env b (book_qty b) c1 d1 b1" "d1 \<le> ioc_qty (stop_mset b - stop_mset b1)"
      using submit_pending_ok [OF 1(2,3)] by blast
    have b1: "book_ok env b1" "book_qty b1 < 2 ^ 32" using r1(3) 1(3) by (auto simp: run_ok_def)
    obtain c2 d2 b' where r2: "submit_until_empty env b1 = Inr b'" "ob_pendingOrders b' = []"
      "rounds b1 c2 b'" "run_ok env b1 (book_qty b1) c2 d2 b'"
      "d2 \<le> ioc_qty (stop_mset b1 - stop_mset b')"
      using 1(1) [OF False r1(1) b1] by blast
    have "submit_until_empty env b = Inr b'"
      using False r1(1) r2(1) by (simp add: submit_until_empty.simps [of env b])
    moreover have "run_ok env b (book_qty b) (c1 @ c2) (d1 + d2) b'"
      using run_ok_trans [OF r1(3) r2(4), of 0] by simp
    moreover have "d1 + d2 \<le> ioc_qty (stop_mset b - stop_mset b')"
      using ioc_qty_diff [of "stop_mset b'" "stop_mset b1" "stop_mset b"] r1(2,4) r2(3,5)
      by (simp add: rounds_def)
    ultimately show ?thesis using r2(2) rounds_trans [OF r1(2) r2(3)] by blast
  qed
qed

text \<open>The same without the bound on what is dropped, for the calls.\<close>

lemma submit_until_empty_run:
  assumes "book_ok env b" "book_qty b < 2 ^ 32"
  shows "\<exists>cbs d b'. submit_until_empty env b = Inr b' \<and> ob_pendingOrders b' = [] \<and> rounds b cbs b' \<and>
       run_ok env b (book_qty b) cbs d b' \<and> (no_ioc (stop_mset b) \<longrightarrow> d = 0)"
  using submit_until_empty_ok [OF assms] no_ioc_bound by meson

end
