(* ===== verification/Book_Calls.thy ===== *)
theory Book_Calls
  imports Book_Rounds
begin

text \<open>
  What \<^verbatim>\<open>add\<close>, \<^verbatim>\<open>cancel\<close> and \<^verbatim>\<open>replace\<close> do to a well-formed book, up to the performing of the
  notifications.
\<close>

section \<open>find_on_market\<close>

lemma find_dropWhile:
  "\<forall>n \<in> set (takeWhile Q m). \<not> P n \<Longrightarrow> find P (dropWhile Q m) = find P m"
  by (induction m) (auto split: if_splits)

lemma mm_find_sorted:
  assumes "mm_sorted cp_less m" "\<forall>n \<in> set m. cp_buySide (nd_key n) = cp_buySide k"
  shows "mm_sorted cp_less (mm_find cp_less k m)" "set (mm_find cp_less k m) \<subseteq> set m"
    "\<forall>n \<in> set (mm_find cp_less k m). \<not> cp_less (nd_key n) k"
proof -
  let ?d = "dropWhile (\<lambda>n. cp_less (nd_key n) k) m"
  obtain pre where pre: "m = pre @ ?d" by (metis takeWhile_dropWhile_id)
  have s: "mm_sorted cp_less ?d" using assms(1) pre by (metis mm_sorted_append)
  have sub: "set ?d \<subseteq> set m" by (metis pre set_append sup_ge2)
  have lo: "\<not> cp_less (nd_key n) k" if n: "n \<in> set ?d" for n
  proof (cases ?d)
    case (Cons h t)
    have h: "\<not> cp_less (nd_key h) k" using Cons hd_dropWhile by (metis list.distinct(1) list.sel(1))
    show ?thesis
    proof (cases "n = h")
      case False
      then have "\<not> cp_less (nd_key n) (nd_key h)" using s n Cons by auto
      moreover have "cp_buySide (nd_key n) = cp_buySide k" "cp_buySide (nd_key h) = cp_buySide k"
        using assms(2) sub n Cons by auto
      ultimately show ?thesis using h cp_less_negtrans by metis
    qed (use h in simp)
  next
    case Nil
    then show ?thesis using n by (simp del: dropWhile_eq_Nil_conv)
  qed
  have "mm_find cp_less k m = [] \<or> mm_find cp_less k m = ?d"
    by (auto simp: mm_find_def split: list.split)
  then have "mm_sorted cp_less (mm_find cp_less k m) \<and> set (mm_find cp_less k m) \<subseteq> set m \<and>
    (\<forall>n \<in> set (mm_find cp_less k m). \<not> cp_less (nd_key n) k)"
  proof
    assume e: "mm_find cp_less k m = ?d"
    show ?thesis unfolding e using s sub lo by blast
  qed simp
  then show "mm_sorted cp_less (mm_find cp_less k m)" "set (mm_find cp_less k m) \<subseteq> set m"
    "\<forall>n \<in> set (mm_find cp_less k m). \<not> cp_less (nd_key n) k" by blast+
qed

text \<open>
  The loop with its early exit finds what a search of the whole side would find, when the
  nodes of the order stand at its price.
\<close>

lemma find_loop_find:
  assumes "mm_sorted cp_less m" "\<forall>n \<in> set m. cp_buySide (nd_key n) = cp_buySide k"
    "\<forall>n \<in> set m. tk_order (nd_val n) = ord \<longrightarrow> nd_key n = k"
  shows "find_loop ord k m = find (\<lambda>n. tk_order (nd_val n) = ord) m"
  using assms
proof (induction m)
  case Nil
  then show ?case by simp
next
  case (Cons n m)
  show ?case
  proof (cases "tk_order (nd_val n) \<noteq> ord \<and> cp_less k (nd_key n)")
    case True
    have "tk_order (nd_val n') \<noteq> ord" if n': "n' \<in> set m" for n'
    proof
      assume "tk_order (nd_val n') = ord"
      then have "nd_key n' = k" using Cons.prems(3) n' by auto
      then show False using Cons.prems(1) n' True by auto
    qed
    then show ?thesis using True by (auto simp: find_None_iff2)
  next
    case False
    then show ?thesis using Cons by auto
  qed
qed

lemma find_from_mm_find:
  assumes "mm_sorted cp_less m" "\<forall>n \<in> set m. cp_buySide (nd_key n) = cp_buySide k"
    "\<forall>n \<in> set m. P n \<longrightarrow> nd_key n = k"
  shows "find P (mm_find cp_less k m) = find P m"
proof -
  let ?Q = "\<lambda>n. cp_less (nd_key n) k"
  let ?d = "dropWhile ?Q m"
  have tw: "\<forall>n \<in> set (takeWhile ?Q m). \<not> P n"
    using assms(3) set_takeWhileD by (fastforce)
  have d: "find P ?d = find P m" by (rule find_dropWhile [OF tw])
  show ?thesis
  proof (cases "?d \<noteq> [] \<and> cp_less k (nd_key (hd ?d))")
    case True
    then obtain h t where ht: "?d = h # t" "cp_less k (nd_key h)" by (cases ?d) auto
    obtain pre where "m = pre @ ?d" by (metis takeWhile_dropWhile_id)
    then have sub: "set ?d \<subseteq> set m" and s: "mm_sorted cp_less ?d"
      using assms(1) by (metis set_append sup_ge2, metis mm_sorted_append)
    have "\<not> P n" if n: "n \<in> set ?d" for n
    proof
      assume "P n"
      then have "nd_key n = k" using assms(3) sub n by auto
      then show False using s n ht by auto
    qed
    then have "find P ?d = None" by (simp add: find_None_iff)
    then show ?thesis using d ht by (simp add: mm_find_def)
  next
    case False
    then have "mm_find cp_less k m = ?d"
      by (cases ?d) (simp_all add: mm_find_def del: dropWhile_eq_Nil_conv)
    then show ?thesis using d by simp
  qed
qed

text \<open>Where an order at a price belongs on a side of a well-formed book.\<close>

lemma insert_in_side:
  assumes "book_ok env b"
  obtains pre post where "side_of buy b = pre @ post"
    "mm_insert cp_less (new_node b (ComparablePrice buy p) t) (side_of buy b) =
       pre @ new_node b (ComparablePrice buy p) t # post"
    "\<forall>n \<in> set pre. cp_price (nd_key n) = 0 \<or>
       p \<noteq> 0 \<and> (if buy then p \<le> cp_price (nd_key n) else cp_price (nd_key n) \<le> p)"
    "\<forall>n \<in> set post. cp_price (nd_key n) \<noteq> 0 \<and>
       (p = 0 \<or> (if buy then cp_price (nd_key n) < p else p < cp_price (nd_key n)))"
proof -
  let ?n = "new_node b (ComparablePrice buy p) t" and ?m = "side_of buy b"
  have s: "\<forall>n \<in> set ?m. cp_buySide (nd_key n) = buy" "mm_sorted cp_less ?m"
    using assms by (auto simp: book_ok_def side_ok_def side_of_def)
  have n: "cp_buySide (nd_key ?n) = buy" by (simp add: new_node_def)
  obtain pre post where p: "?m = pre @ post" "mm_insert cp_less ?n ?m = pre @ ?n # post"
    "\<forall>n \<in> set pre. \<not> cp_less (nd_key ?n) (nd_key n)" "\<forall>n \<in> set post. cp_less (nd_key ?n) (nd_key n)"
    by (rule book_side.insert_position [OF n s])
  show thesis
    by (rule that [OF p(1,2)])
      (use p(3,4) in \<open>auto simp: new_node_def cp_defs not_less split: if_splits\<close>)
qed

definition own_side :: "order_env \<Rightarrow> order_ptr \<Rightarrow> order_book \<Rightarrow> tracker_map" where
  "own_side env ord b = (if o_is_buy (env ord) then ob_bids b else ob_asks b)"

lemma own_side_ok: "book_ok env b \<Longrightarrow> side_ok env b (o_is_buy (env ord)) (own_side env ord b)"
  by (simp add: book_ok_def own_side_def)

lemma find_on_market_find:
  assumes "book_ok env b" "keyed_book env b"
  shows "find_on_market env ord b = find (\<lambda>n. tk_order (nd_val n) = ord) (own_side env ord b)"
proof -
  let ?m = "own_side env ord b" and ?k = "ComparablePrice (o_is_buy (env ord)) (o_price (env ord))"
  have s: "mm_sorted cp_less ?m" "\<forall>n \<in> set ?m. cp_buySide (nd_key n) = cp_buySide ?k"
    using own_side_ok [OF assms(1), of ord] by (auto simp: side_ok_def)
  have at: "\<forall>n \<in> set ?m. tk_order (nd_val n) = ord \<longrightarrow> nd_key n = ?k"
  proof (intro ballI impI)
    fix n assume n: "n \<in> set ?m" "tk_order (nd_val n) = ord"
    then have "cp_price (nd_key n) = o_price (env ord)"
      using assms(2) by (auto simp: keyed_book_def keyed_def own_side_def split: if_splits)
    then show "nd_key n = ?k" using s(2) n(1) by (simp add: ComparablePrice_def)
  qed
  note f = mm_find_sorted [OF s]
  have "find_loop ord ?k (mm_find cp_less ?k ?m) = find (\<lambda>n. tk_order (nd_val n) = ord) (mm_find cp_less ?k ?m)"
    using f s at by (intro find_loop_find) auto
  also have "\<dots> = find (\<lambda>n. tk_order (nd_val n) = ord) ?m"
    by (rule find_from_mm_find [OF s at])
  finally show ?thesis by (simp add: find_on_market_def own_side_def Let_def)
qed

text \<open>Without \<open>keyed_book\<close>, what is found is still a node of the order.\<close>

lemma find_loop_Some: "find_loop ord k m = Some n \<Longrightarrow> n \<in> set m \<and> tk_order (nd_val n) = ord"
  by (induction m) (auto split: if_splits)

lemma mm_find_subset: "set (mm_find lt k m) \<subseteq> set m"
  by (auto simp: mm_find_def split: list.splits if_splits dest: set_dropWhileD)
    (metis list.set_intros set_dropWhileD)+

lemma find_on_market_Some:
  "find_on_market env ord b = Some n \<Longrightarrow> n \<in> set (own_side env ord b) \<and> tk_order (nd_val n) = ord"
  using find_loop_Some mm_find_subset by (fastforce simp: find_on_market_def own_side_def Let_def)

lemma own_side_push [simp]: "own_side env ord (push_callback cb b) = own_side env ord b"
  by (simp add: own_side_def)

section \<open>cancel\<close>

lemma push_callback_book [simp]:
  "book_ok env (push_callback cb b) = book_ok env b" "book_qty (push_callback cb b) = book_qty b"
  "keyed_book env (push_callback cb b) = keyed_book env b"
  "uncrossed (push_callback cb b) = uncrossed b" "same_rest b' (push_callback cb b) = same_rest b' b"
  "tk_priced env (push_callback cb b) t = tk_priced env b t"
proof -
  have "side_ok env (push_callback cb b) buy m = side_ok env b buy m" for buy m
    by (rule side_ok_cong) simp_all
  then show "book_ok env (push_callback cb b) = book_ok env b"
    by (simp add: book_ok_def stops_ok_def)
qed (simp_all add: book_qty_def keyed_book_def uncrossed_def same_rest_def tk_priced_def)

text \<open>\<open>erased env ord i b b'\<close>: the node \<open>i\<close> has been taken from the side of \<open>ord\<close>.\<close>

lemma erase_from_market_sel [simp]:
  "ob_bids (erase_from_market buy i b) = (if buy then mm_erase i (ob_bids b) else ob_bids b)"
  "ob_asks (erase_from_market buy i b) = (if buy then ob_asks b else mm_erase i (ob_asks b))"
  "bare (erase_from_market buy i b) = bare b"
  "ob_callbacks (erase_from_market buy i b) = ob_callbacks b"
  "ob_next_node (erase_from_market buy i b) = ob_next_node b"
  "ob_marketPrice (erase_from_market buy i b) = ob_marketPrice b"
  "stop_mset (erase_from_market buy i b) = stop_mset b"
  "same_rest b' (erase_from_market buy i b) = same_rest b' b"
  by (simp_all add: erase_from_market_def stop_mset_def same_rest_def)

lemma erase_from_market_ok:
  assumes "book_ok env b"
  shows "book_ok env (erase_from_market buy i b)"
proof -
  let ?b = "erase_from_market buy i b"
  have "side_ok env ?b s (mm_erase i m) \<and> side_ok env ?b s m" if "side_ok env b s m" for s m
    using side_ok_shrinks [OF that shrinks_erase trading_refl] that
      side_ok_cong [of ?b b env s] by auto
  moreover have "stops_ok ?b" using assms stops_ok_bare [of ?b] stops_ok_bare [of b]
    by (simp add: book_ok_def)
  ultimately show ?thesis using assms by (auto simp: book_ok_def)
qed

lemma erase_from_market_keeps:
  "keyed_book env b \<Longrightarrow> keyed_book env (erase_from_market buy i b)"
  "uncrossed b \<Longrightarrow> uncrossed (erase_from_market buy i b)"
  using keyed_shrinks [OF _ shrinks_erase] cross_free_shrinks [OF _ shrinks_erase shrinks_refl]
    cross_free_shrinks [OF _ shrinks_refl shrinks_erase]
  by (auto simp: keyed_book_def uncrossed_def)

lemma erase_found_qty:
  assumes "book_ok env b" "n \<in> set (own_side env ord b)"
  shows "book_qty (erase_from_market (o_is_buy (env ord)) (nd_id n) b) + unat (tk_open_qty (nd_val n)) =
    book_qty b"
proof -
  let ?m = "own_side env ord b"
  have d: "distinct (mm_ids ?m)"
    using own_side_ok [OF assms(1), of ord] by (simp add: side_ok_def live_side_def)
  have "side_qty (mm_erase (nd_id n) ?m) + unat (tk_open_qty (nd_val n)) = side_qty ?m"
    by (rule side_qty_erase [OF mm_get_mem [OF d assms(2)] d])
  then show ?thesis by (auto simp: book_qty_def own_side_def split: if_splits)
qed

lemma found_live:
  assumes "book_ok env b" "n \<in> set (own_side env ord b)"
  shows "live (nd_val n)" "all_or_none (nd_val n) \<longrightarrow> tk_priced env b (nd_val n)"
  using own_side_ok [OF assms(1), of ord] assms(2) by (auto simp: side_ok_def live_side_def)

lemma cancel_found_ok:
  assumes "book_ok env b" "find_on_market env ord b = Some n"
  shows "book_ok env (cancel_enqueue env ord b)"
    "book_qty (cancel_enqueue env ord b) + unat (open_qty (nd_val n)) = book_qty b"
    "own_side env ord (cancel_enqueue env ord b) = mm_erase (nd_id n) (own_side env ord b)"
    "ob_callbacks (cancel_enqueue env ord b) =
       ob_callbacks b @ [Callback_cancel ord (open_qty (nd_val n)), Callback_book_update]"
    "same_rest b (cancel_enqueue env ord b)"
proof -
  have n: "n \<in> set (own_side env ord b)" using find_on_market_Some [OF assms(2)] by simp
  have q: "open_qty (nd_val n) = tk_open_qty (nd_val n)"
    using found_live(1) [OF assms(1) n] by (simp add: live_def)
  have e: "cancel_enqueue env ord b = push_callback Callback_book_update
      (push_callback (Callback_cancel ord (open_qty (nd_val n)))
        (erase_from_market (o_is_buy (env ord)) (nd_id n) b))"
    by (simp add: cancel_enqueue_def assms(2) Let_def)
  show "book_ok env (cancel_enqueue env ord b)"
    using erase_from_market_ok [OF assms(1)] by (simp add: e)
  show "book_qty (cancel_enqueue env ord b) + unat (open_qty (nd_val n)) = book_qty b"
    using erase_found_qty [OF assms(1) n] by (simp add: e q)
  show "own_side env ord (cancel_enqueue env ord b) = mm_erase (nd_id n) (own_side env ord b)"
    by (simp add: e own_side_def)
  show "ob_callbacks (cancel_enqueue env ord b) =
       ob_callbacks b @ [Callback_cancel ord (open_qty (nd_val n)), Callback_book_update]"
    by (simp add: e)
  show "same_rest b (cancel_enqueue env ord b)" by (simp add: e)
qed

section \<open>add\<close>

lemma add_stop_order_cases:
  assumes "book_ok env b" "live t" "o_stop_price (env (tk_order t)) \<noteq> 0"
  obtains "add_stop_order env b t = (False, b)"
  | b' where "add_stop_order env b t = (True, b')" "book_ok env b'" "same_rest b b'"
      "ob_callbacks b' = ob_callbacks b" "stop_mset b' = add_mset t (stop_mset b)"
      "ob_bids b' = ob_bids b" "ob_asks b' = ob_asks b"
proof (cases "cp_less_price (ComparablePrice (o_is_buy (env (tk_order t)))
    (o_stop_price (env (tk_order t)))) (ob_marketPrice b)")
  case False
  then show thesis by (intro that(1)) (simp add: add_stop_order_def Let_def)
next
  case True
  let ?buy = "o_is_buy (env (tk_order t))"
  let ?n = "new_node b (ComparablePrice ?buy (o_stop_price (env (tk_order t)))) t"
  let ?b' = "if ?buy
    then b\<lparr>ob_stopBids := mm_insert cp_less ?n (ob_stopBids b), ob_next_node := Suc (ob_next_node b)\<rparr>
    else b\<lparr>ob_stopAsks := mm_insert cp_less ?n (ob_stopAsks b), ob_next_node := Suc (ob_next_node b)\<rparr>"
  have eq: "add_stop_order env b t = (True, ?b')"
    using True by (simp add: add_stop_order_def Let_def)
  have mp: "ob_marketPrice b \<noteq> 0"
    using True assms(3) by (auto simp: cp_less_price_def MARKET_ORDER_PRICE_def split: if_splits)
  have mset: "image_mset nd_val (mset (mm_insert cp_less (new_node b k t) m)) =
      add_mset t (image_mset nd_val (mset m))" for k m
    by (induction m) (simp_all add: new_node_def)
  have ms: "stop_mset ?b' = add_mset t (stop_mset b)" by (simp add: stop_mset_def mset)
  have sel: "nd_key ?n = ComparablePrice ?buy (o_stop_price (env (tk_order t)))" by (simp add: new_node_def)
  have ins: "stop_side_ok ?buy (mm_insert cp_less ?n m)" if "stop_side_ok ?buy m" for m
    using that sel book_side.sorted_insert [of ?n ?buy m] by (simp add: stop_side_ok_def)
  have "stops_ok ?b'"
    using assms(1,2) mp ms ins by (cases ?buy) (auto simp: book_ok_def stops_ok_def)
  moreover have "side_ok env ?b' s m" if "side_ok env b s m" for s m
    using that unfolding side_ok_def tk_priced_def by (auto simp: less_Suc_eq)
  ultimately have "book_ok env ?b'" using assms(1) by (simp add: book_ok_def)
  then show thesis using eq ms by (intro that(2) [of ?b']) (simp_all add: same_rest_def)
qed

lemma set_cb_quantity_append:
  "set_cb_quantity (length xs) q (xs @ cb # ys) = xs @ cb\<lparr>cb_quantity := q\<rparr> # ys"
  by (simp add: set_cb_quantity_def)

lemma set_callbacks_ok [simp]:
  "book_ok env (b\<lparr>ob_callbacks := c\<rparr>) = book_ok env b" "book_qty (b\<lparr>ob_callbacks := c\<rparr>) = book_qty b"
  "keyed_book env (b\<lparr>ob_callbacks := c\<rparr>) = keyed_book env b"
  "uncrossed (b\<lparr>ob_callbacks := c\<rparr>) = uncrossed b" "same_rest b' (b\<lparr>ob_callbacks := c\<rparr>) = same_rest b' b"
  "stop_mset (b\<lparr>ob_callbacks := c\<rparr>) = stop_mset b"
proof -
  have "side_ok env (b\<lparr>ob_callbacks := c\<rparr>) buy m = side_ok env b buy m" for buy m
    by (rule side_ok_cong) simp_all
  moreover show "stop_mset (b\<lparr>ob_callbacks := c\<rparr>) = stop_mset b" by (simp add: stop_mset_def)
  ultimately show "book_ok env (b\<lparr>ob_callbacks := c\<rparr>) = book_ok env b"
    "book_qty (b\<lparr>ob_callbacks := c\<rparr>) = book_qty b"
    by (simp_all add: book_ok_def stops_ok_def book_qty_def)
qed (simp_all add: keyed_book_def uncrossed_def same_rest_def)

text \<open>
  The first part of \<^verbatim>\<open>add\<close>: the order is stopped, or submitted and what an
  immediate-or-cancel order leaves is cancelled.
\<close>

definition entered ::
  "order_env \<Rightarrow> order_ptr \<Rightarrow> order_conditions \<Rightarrow> order_book \<Rightarrow> callback list \<Rightarrow> nat \<Rightarrow> order_book \<Rightarrow> bool" where
  "entered env ord conditions b cbs d b' \<longleftrightarrow>
     book_ok env b' \<and> same_rest b b' \<and>
     (\<exists>acc. ob_callbacks b' = ob_callbacks b @ (Callback_accept ord)\<lparr>cb_quantity := acc\<rparr> # cbs) \<and>
     (\<forall>cb \<in> set cbs. valid_fill env cb \<or> cb = Callback_cancel ord 0) \<and>
     book_qty b' + 2 * traded_qty cbs + d = book_qty b + unat (o_order_qty (env ord)) \<and>
     (conditions AND oc_immediate_or_cancel = 0 \<longrightarrow> d = 0) \<and>
     stop_mset b' \<subseteq># add_mset (OrderTracker env ord conditions) (stop_mset b) \<and>
     (keyed_book env b \<longrightarrow> keyed_book env b' \<and> (\<forall>cb \<in> set cbs. is_fill cb \<longrightarrow> fill_in_limits env cb)) \<and>
     (uncrossed b \<longrightarrow> ob_marketPrice b \<noteq> 0 \<or> o_price (env ord) \<noteq> 0 \<longrightarrow> uncrossed b')"

definition add_enter ::
  "order_env \<Rightarrow> order_ptr \<Rightarrow> order_conditions \<Rightarrow> order_book \<Rightarrow> (bool \<times> order_book) result" where
  "add_enter env ord conditions b =
     (let b1 = push_callback (Callback_accept ord) b;
          inbound = OrderTracker env ord conditions;
          stopped = (if o_stop_price (env ord) \<noteq> 0 then add_stop_order env b1 inbound else (False, b1))
      in if fst stopped then Inr (False, snd stopped)
         else rbind (submit_order env inbound (snd stopped)) (\<lambda>(matched, inbound, b2).
                let b3 = b2\<lparr>ob_callbacks := set_cb_quantity (length (ob_callbacks b))
                                (filled_qty env inbound) (ob_callbacks b2)\<rparr>;
                    b4 = (if immediate_or_cancel inbound \<and> \<not> filled inbound
                          then push_callback (Callback_cancel ord 0) b3 else b3)
                in Inr (matched, b4)))"

lemma add_enqueue_enter:
  assumes "o_order_qty (env ord) \<noteq> 0"
  shows "add_enqueue env ord conditions b =
    rbind (add_enter env ord conditions b) (\<lambda>(matched, b5).
      rbind (submit_until_empty env b5) (\<lambda>b6. Inr (matched, push_callback Callback_book_update b6)))"
  using assms by (simp add: add_enqueue_def add_enter_def Let_def)

lemma entered_submitted:
  fixes env :: order_env
  assumes run: "engine_run (push_callback (Callback_accept ord) b) cbs b2"
    and ok: "run_ok env (push_callback (Callback_accept ord) b)
        (book_qty b + unat (o_order_qty (env ord))) cbs (dropped_qty inb) b2"
    and ioc: "immediate_or_cancel inb = (conditions AND oc_immediate_or_cancel \<noteq> 0)"
    and b3: "b3 = b2\<lparr>ob_callbacks := set_cb_quantity (length (ob_callbacks b)) q (ob_callbacks b2)\<rparr>"
    and b4: "b4 = b3 \<and> rest = [] \<or>
      b4 = push_callback (Callback_cancel ord 0) b3 \<and> rest = [Callback_cancel ord 0]"
  shows "entered env ord conditions b (cbs @ rest) (dropped_qty inb) b4"
proof -
  have cb2: "ob_callbacks b2 = ob_callbacks b @ Callback_accept ord # cbs"
    using engine_runD(1) [OF run] by simp
  have cb3: "ob_callbacks b3 = ob_callbacks b @ (Callback_accept ord)\<lparr>cb_quantity := q\<rparr> # cbs"
    unfolding b3 cb2 by (simp add: set_cb_quantity_append)
  have sr: "same_rest b b2" using rounds_engine_run [OF run] by (simp add: rounds_def same_rest_def)
  have ms: "stop_mset b2 = stop_mset b" using engine_runD(2) [OF run] by simp
  have rest: "traded_qty rest = 0" "\<forall>cb \<in> set rest. cb = Callback_cancel ord 0 \<and> \<not> is_fill cb"
    using b4 by auto
  have cb4: "ob_callbacks b4 = ob_callbacks b @ (Callback_accept ord)\<lparr>cb_quantity := q\<rparr> # cbs @ rest"
    using b4 cb3 by auto
  have same: "book_ok env b4 = book_ok env b2" "book_qty b4 = book_qty b2"
    "keyed_book env b4 = keyed_book env b2" "uncrossed b4 = uncrossed b2"
    "same_rest b b4 = same_rest b b2" "stop_mset b4 = stop_mset b2"
    using b4 b3 by auto
  have "\<exists>acc. ob_callbacks b4 = ob_callbacks b @ (Callback_accept ord)\<lparr>cb_quantity := acc\<rparr> # cbs @ rest"
    using cb4 by blast
  moreover have "conditions AND oc_immediate_or_cancel = 0 \<longrightarrow> dropped_qty inb = 0"
    using ioc by (simp add: dropped_qty_def)
  ultimately show ?thesis
    using ok sr ms rest unfolding entered_def run_ok_def same by auto
qed

lemma add_enter_ok:
  assumes B: "book_ok env b" and qty: "o_order_qty (env ord) \<noteq> 0"
    and pr: "ob_marketPrice b \<noteq> 0 \<or> o_price (env ord) \<noteq> 0"
    and q: "book_qty b + unat (o_order_qty (env ord)) < 2 ^ 32"
  obtains matched cbs d b' where "add_enter env ord conditions b = Inr (matched, b')"
    "entered env ord conditions b cbs d b'"
proof -
  note result = that
  let ?b1 = "push_callback (Callback_accept ord) b" and ?t = "OrderTracker env ord conditions"
  have B1: "book_ok env ?b1" using B by simp
  have lv: "live ?t" using qty by (simp add: live_def)
  have pt: "tk_priced env ?b1 ?t" using pr by (simp add: tk_priced_def)
  have q1: "book_qty ?b1 + unat (tk_open_qty ?t) < 2 ^ 32" using q by simp
  obtain cbs t' b2 where sub: "submit_order env ?t ?b1 = Inr (cbs \<noteq> [], t', b2)"
    "engine_run ?b1 cbs b2"
    "run_ok env ?b1 (book_qty ?b1 + unat (tk_open_qty ?t)) cbs (dropped_qty t') b2"
    "immediate_or_cancel t' = immediate_or_cancel ?t"
    by (rule submit_order_ok [OF B1 lv pt q1])
  let ?b3 = "b2\<lparr>ob_callbacks := set_cb_quantity (length (ob_callbacks b)) (filled_qty env t')
    (ob_callbacks b2)\<rparr>"
  let ?c = "immediate_or_cancel t' \<and> \<not> filled t'"
  let ?b4 = "if ?c then push_callback (Callback_cancel ord 0) ?b3 else ?b3"
  have E: "entered env ord conditions b (cbs @ (if ?c then [Callback_cancel ord 0] else []))
      (dropped_qty t') ?b4"
    by (rule entered_submitted [OF sub(2) _ _ refl, where q = "filled_qty env t'"])
      (use sub(3,4) in \<open>simp_all add: immediate_or_cancel_def\<close>)
  have submitted: thesis
    if e: "add_enter env ord conditions b = rbind (submit_order env ?t ?b1) (\<lambda>(matched, inbound, b2).
                let b3 = b2\<lparr>ob_callbacks := set_cb_quantity (length (ob_callbacks b))
                                (filled_qty env inbound) (ob_callbacks b2)\<rparr>;
                    b4 = (if immediate_or_cancel inbound \<and> \<not> filled inbound
                          then push_callback (Callback_cancel ord 0) b3 else b3)
                in Inr (matched, b4))"
    using e sub(1) E by (intro result [of "cbs \<noteq> []" ?b4]) (simp_all add: Let_def)
  show thesis
  proof (cases "o_stop_price (env ord) = 0")
    case True
    then show thesis by (intro submitted) (simp add: add_enter_def Let_def)
  next
    case False
    then have "o_stop_price (env (tk_order ?t)) \<noteq> 0" by simp
    with B1 lv show thesis
    proof (cases rule: add_stop_order_cases)
      case 1
      then show thesis using False by (intro submitted) (simp add: add_enter_def Let_def)
    next
      case (2 b')
      have "entered env ord conditions b [] 0 b'"
        unfolding entered_def using 2 B
        by (auto simp: same_rest_def book_qty_def keyed_book_def uncrossed_def callback_defs)
      then show thesis
        using 2(1) False by (intro result [of False b']) (simp_all add: add_enter_def Let_def)
    qed
  qed
qed

text \<open>
  \<open>added\<close>: the whole of \<^verbatim>\<open>add\<close> for an order with a quantity. The accept notification comes
  first and a book update last; between them are valid fills, and the cancel of what an
  immediate-or-cancel order leaves.
\<close>

definition added ::
  "order_env \<Rightarrow> order_ptr \<Rightarrow> order_conditions \<Rightarrow> order_book \<Rightarrow> callback list \<Rightarrow> nat \<Rightarrow> order_book \<Rightarrow> bool" where
  "added env ord conditions b cbs d b' \<longleftrightarrow>
     book_ok env b' \<and> same_rest b b' \<and> ob_pendingOrders b' = [] \<and>
     (\<exists>acc. ob_callbacks b' = ob_callbacks b @
        (Callback_accept ord)\<lparr>cb_quantity := acc\<rparr> # cbs @ [Callback_book_update]) \<and>
     (\<forall>cb \<in> set cbs. valid_fill env cb \<or> cb = Callback_cancel ord 0) \<and>
     book_qty b' + 2 * traded_qty cbs + d = book_qty b + unat (o_order_qty (env ord)) \<and>
     (conditions AND oc_immediate_or_cancel = 0 \<longrightarrow> no_ioc (stop_mset b) \<longrightarrow> d = 0) \<and>
     (keyed_book env b \<longrightarrow> keyed_book env b' \<and> (\<forall>cb \<in> set cbs. is_fill cb \<longrightarrow> fill_in_limits env cb)) \<and>
     (uncrossed b \<longrightarrow> ob_marketPrice b \<noteq> 0 \<or> o_price (env ord) \<noteq> 0 \<longrightarrow> uncrossed b')"

lemma entered_added:
  assumes E: "entered env ord conditions b c1 d1 b1"
    and R: "rounds b1 c2 b2" "run_ok env b1 (book_qty b1) c2 d2 b2" "ob_pendingOrders b2 = []"
      "no_ioc (stop_mset b1) \<longrightarrow> d2 = 0"
  shows "added env ord conditions b (c1 @ c2) (d1 + d2) (push_callback Callback_book_update b2)"
proof -
  obtain acc where acc: "ob_callbacks b1 = ob_callbacks b @ (Callback_accept ord)\<lparr>cb_quantity := acc\<rparr> # c1"
    using E by (auto simp: entered_def)
  have cbs: "ob_callbacks b2 = ob_callbacks b @ (Callback_accept ord)\<lparr>cb_quantity := acc\<rparr> # c1 @ c2"
    using R(1) acc by (simp add: rounds_def)
  have "d1 + d2 = 0" if c: "conditions AND oc_immediate_or_cancel = 0" "no_ioc (stop_mset b)"
  proof -
    have "no_ioc (add_mset (OrderTracker env ord conditions) (stop_mset b))"
      using c by (simp add: no_ioc_def immediate_or_cancel_def)
    then have "no_ioc (stop_mset b1)"
      using E unfolding entered_def no_ioc_def by (meson mset_subset_eqD)
    then show ?thesis using R(4) E c(1) by (simp add: entered_def)
  qed
  moreover have "same_rest b b2"
    using E R(1) same_rest_trans unfolding entered_def rounds_def by blast
  ultimately show ?thesis
    using E R(2,3) cbs unfolding added_def entered_def run_ok_def by (auto simp: valid_fill_def)
qed

lemma add_enqueue_ok:
  assumes B: "book_ok env b" and qty: "o_order_qty (env ord) \<noteq> 0"
    and pr: "ob_marketPrice b \<noteq> 0 \<or> o_price (env ord) \<noteq> 0"
    and q: "book_qty b + unat (o_order_qty (env ord)) < 2 ^ 32"
  shows "\<exists>matched cbs d b'. add_enqueue env ord conditions b = Inr (matched, b') \<and>
     added env ord conditions b cbs d b'"
proof -
  obtain matched c1 d1 b1 where 1: "add_enter env ord conditions b = Inr (matched, b1)"
    "entered env ord conditions b c1 d1 b1" by (rule add_enter_ok [OF assms])
  have "book_ok env b1" "book_qty b1 < 2 ^ 32" using 1(2) q by (auto simp: entered_def)
  then obtain c2 d2 b2 where 2: "submit_until_empty env b1 = Inr b2" "ob_pendingOrders b2 = []"
    "rounds b1 c2 b2" "run_ok env b1 (book_qty b1) c2 d2 b2" "no_ioc (stop_mset b1) \<longrightarrow> d2 = 0"
    using submit_until_empty_run by blast
  have "add_enqueue env ord conditions b = Inr (matched, push_callback Callback_book_update b2)"
    using 1(1) 2(1) by (simp add: add_enqueue_enter [of env ord conditions b, OF qty])
  then show ?thesis using entered_added [OF 1(2) 2(3,4,2,5)] by blast
qed

section \<open>replace\<close>

lemma unat_add_signed:
  assumes "0 \<le> int (unat a) + sint d" "int (unat a) + sint d < 2 ^ 32"
  shows "int (unat (a + d)) = int (unat a) + sint (d :: int32)"
proof -
  have e: "a + d = word_of_int (uint a + sint d)" by (simp add: of_int_add)
  have "uint (a + d) = uint (word_of_int (uint a + sint d) :: int32)"
    by (subst e) (rule refl)
  also have "\<dots> = (uint a + sint d) mod 2 ^ 32" by (simp only: uint_word_of_int len_bit0 len_num1) simp
  also have "\<dots> = uint a + sint d"
    using assms by (intro mod_pos_pos_trivial) simp_all
  finally show ?thesis by simp
qed

lemma sint_small:
  assumes "unat (w :: 32 word) < 2 ^ 31"
  shows "sint w = int (unat w)"
proof -
  from assms have "int (unat w) < int (2 ^ 31)" by (simp only: of_nat_less_iff)
  then have "uint w < 2 ^ 31" by simp
  moreover have "- (2 ^ 31) \<le> uint w" by (rule order_trans [of _ 0]) simp_all
  ultimately show ?thesis by (simp add: sint_uint signed_take_bit_int_eq_self)
qed

text \<open>
  The change of size the book applies: a reduction takes at most what is open, except that
  the smallest 32-bit integer passes the test for a reduction that is too large. The case
  of an order without open quantity never arises, for no such order is on the market.
\<close>

definition bounded_delta :: "tracker \<Rightarrow> int32 \<Rightarrow> int32" where
  "bounded_delta t d =
     (if sint d < 0 \<and> sint (open_qty t) < sint (- d) then - open_qty t else d)"

lemma sint_INT32_MIN [simp]: "sint INT32_MIN = - 2147483648" "- INT32_MIN = INT32_MIN"
  by (simp_all add: INT32_MIN_def)

lemma not_INT32_MIN: "unat w < 2 ^ 31 \<Longrightarrow> w \<noteq> INT32_MIN"
  by (auto simp: INT32_MIN_def)

lemma bounded_delta_sint:
  assumes "unat (open_qty t) < 2 ^ 31" "d \<noteq> INT32_MIN"
  shows "sint (bounded_delta t d) = max (sint d) (- int (unat (open_qty t)))"
proof -
  have o: "sint (open_qty t) = int (unat (open_qty t))" using assms(1) by (rule sint_small)
  have n: "sint (- open_qty t) = - int (unat (open_qty t))"
    using sint_neg [of "open_qty t"] not_INT32_MIN [OF assms(1)] o by simp
  have "sint d < 0 \<or> 0 \<le> sint d" "- int (unat (open_qty t)) \<le> 0" by auto
  then show ?thesis
    using sint_neg [of d] assms(2) n o unfolding bounded_delta_def max_def
    by (auto simp del: of_nat_unat)
qed

lemma bounded_delta_MIN:
  assumes "unat (open_qty t) < 2 ^ 31"
  shows "bounded_delta t INT32_MIN = INT32_MIN"
proof -
  have "\<not> sint (open_qty t) < sint INT32_MIN"
    unfolding sint_small [OF assms] sint_INT32_MIN by linarith
  then show ?thesis by (simp add: bounded_delta_def)
qed

text \<open>What the order gains in open quantity: the bounded change, or \<open>2 ^ 31\<close>.\<close>

definition qty_gain :: "tracker \<Rightarrow> int32 \<Rightarrow> int" where
  "qty_gain t d = (if d = INT32_MIN then 2 ^ 31 else max (sint d) (- int (unat (open_qty t))))"

lemma bounded_delta_gain:
  assumes "unat (open_qty t) < 2 ^ 31" "int (unat (open_qty t)) + qty_gain t d < 2 ^ 32"
  shows "int (unat (open_qty t + bounded_delta t d)) = int (unat (open_qty t)) + qty_gain t d"
proof (cases "d = INT32_MIN")
  case True
  have "unat INT32_MIN = 2 ^ 31" by (simp add: INT32_MIN_def)
  then have "unat (open_qty t + INT32_MIN) = unat (open_qty t) + 2 ^ 31"
    using assms(1) by (subst unat_add_no_wrap) simp_all
  then show ?thesis using True bounded_delta_MIN [OF assms(1)] by (simp add: qty_gain_def)
next
  case False
  then have "sint (bounded_delta t d) = qty_gain t d" "0 \<le> int (unat (open_qty t)) + qty_gain t d"
    using bounded_delta_sint [OF assms(1)] by (simp_all add: qty_gain_def)
  then show ?thesis using unat_add_signed [of "open_qty t" "bounded_delta t d"] assms(2) by simp
qed

text \<open>The part of \<^verbatim>\<open>replace\<close> that closes the order or enters it again.\<close>

definition replace_enter ::
  "order_env \<Rightarrow> order_ptr \<Rightarrow> tracker_node \<Rightarrow> int32 \<Rightarrow> price \<Rightarrow> order_book \<Rightarrow> (bool \<times> order_book) result" where
  "replace_enter env ord pos delta price b =
     (let tracker = nd_val pos;
          buy = o_is_buy (env ord);
          b1 = push_callback (Callback_replace ord (open_qty tracker) delta price) b
      in rbind (change_qty delta tracker) (\<lambda>tracker'.
           if open_qty tracker + delta = 0 then
             Inr (False, erase_from_market buy (nd_id pos) (push_callback (Callback_cancel ord 0) b1))
           else
             rbind (add_order env tracker' price (erase_from_market buy (nd_id pos) b1))
               (\<lambda>(matched, tracker, b). Inr (matched, b))))"

lemma replace_enqueue_enter:
  assumes "find_on_market env ord b = Some pos" "live (nd_val pos)"
    "price = (if new_price = PRICE_UNCHANGED then o_price (env ord) else new_price)"
  shows "replace_enqueue env ord sd new_price b =
    rbind (replace_enter env ord pos (bounded_delta (nd_val pos) sd) price b) (\<lambda>(matched, b2).
      rbind (submit_until_empty env b2) (\<lambda>b3.
        Inr (matched, push_callback Callback_book_update b3, True)))"
proof -
  have "\<not> (sint sd < 0 \<and> sint (open_qty (nd_val pos)) < sint (- sd) \<and>
      bounded_delta (nd_val pos) sd = 0)"
    using assms(2) by (auto simp: bounded_delta_def live_def)
  then show ?thesis
    unfolding replace_enqueue_def assms(1,3) replace_enter_def bounded_delta_def Let_def
    by (cases "change_qty (if sint sd < 0 \<and> sint (open_qty (nd_val pos)) < sint (- sd)
          then - open_qty (nd_val pos) else sd) (nd_val pos)") auto
qed

lemma bounded_change_qty:
  assumes "live t" "unat (open_qty t) < 2 ^ 31"
  shows "change_qty (bounded_delta t d) t = Inr (t\<lparr>tk_open_qty := tk_open_qty t + bounded_delta t d\<rparr>)"
proof -
  have o: "open_qty t = tk_open_qty t" using assms(1) by (simp add: live_def)
  have s: "sint (tk_open_qty t) = int (unat (tk_open_qty t))" using sint_small assms(2) o by simp
  have "\<not> (sint (bounded_delta t d) < 0 \<and> sint (tk_open_qty t) < sint (abs32 (bounded_delta t d)))"
  proof (cases "bounded_delta t d = INT32_MIN")
    case True
    have "\<not> int (unat (tk_open_qty t)) < - 2147483648" by linarith
    then show ?thesis using True unfolding s by (simp add: abs32_def del: of_nat_unat)
  next
    case False
    then have "d \<noteq> INT32_MIN" using bounded_delta_MIN [OF assms(2)] by auto
    then have "- int (unat (tk_open_qty t)) \<le> sint (bounded_delta t d)"
      using bounded_delta_sint [OF assms(2)] o by simp
    then show ?thesis using sint_neg [of "bounded_delta t d"] False s by (simp add: abs32_def)
  qed
  then show ?thesis by (simp add: change_qty_def)
qed

definition replaced_entry ::
  "order_env \<Rightarrow> order_ptr \<Rightarrow> tracker \<Rightarrow> int32 \<Rightarrow> int \<Rightarrow> price \<Rightarrow> order_book \<Rightarrow> callback list \<Rightarrow> nat
     \<Rightarrow> order_book \<Rightarrow> bool" where
  "replaced_entry env ord t delta gain price b cbs d b' \<longleftrightarrow>
     book_ok env b' \<and> same_rest b b' \<and>
     ob_callbacks b' = ob_callbacks b @ Callback_replace ord (open_qty t) delta price # cbs \<and>
     (\<forall>cb \<in> set cbs. valid_fill env cb \<or> cb = Callback_cancel ord 0) \<and>
     int (book_qty b') + 2 * int (traded_qty cbs) + int d = int (book_qty b) + gain \<and>
     stop_mset b' \<subseteq># stop_mset b \<and> (\<not> immediate_or_cancel t \<longrightarrow> d = 0) \<and>
     (uncrossed b \<longrightarrow> tk_priced env b t \<longrightarrow> uncrossed b')"

lemma replace_enter_ok:
  assumes B: "book_ok env b" and f: "find_on_market env ord b = Some n"
    and small: "unat (open_qty (nd_val n)) < 2 ^ 31"
    and q: "int (book_qty b) + max 0 (qty_gain (nd_val n) sd) < 2 ^ 32"
  defines "delta \<equiv> bounded_delta (nd_val n) sd" and "gain \<equiv> qty_gain (nd_val n) sd"
  shows "\<exists>matched cbs d b'. replace_enter env ord n delta price b = Inr (matched, b') \<and>
     replaced_entry env ord (nd_val n) delta gain price b cbs d b'"
proof -
  let ?t = "nd_val n" and ?b1 = "push_callback (Callback_replace ord (open_qty (nd_val n)) delta price) b"
  let ?t' = "?t\<lparr>tk_open_qty := tk_open_qty ?t + delta\<rparr>"
  let ?buy = "o_is_buy (env ord)"
  let ?e = "erase_from_market ?buy (nd_id n) ?b1"
  have n: "n \<in> set (own_side env ord b)" using find_on_market_Some [OF f] by simp
  have lt: "live ?t" and pt: "all_or_none ?t \<longrightarrow> tk_priced env b ?t" using found_live [OF B n] by auto
  have o: "open_qty ?t = tk_open_qty ?t" using lt by (simp add: live_def)
  have cq: "change_qty delta ?t = Inr ?t'" using bounded_change_qty [OF lt small] by (simp add: delta_def)
  have B1: "book_ok env ?b1" using B by simp
  have n1: "n \<in> set (own_side env ord ?b1)" using n by simp
  have Be: "book_ok env ?e" by (rule erase_from_market_ok [OF B1])
  have qe: "book_qty ?e + unat (tk_open_qty ?t) = book_qty b"
    using erase_found_qty [OF B1 n1] by simp
  have ob: "int (unat (tk_open_qty ?t)) \<le> int (book_qty b)" using qe by (simp del: of_nat_unat)
  have "int (unat (open_qty ?t)) + qty_gain ?t sd < 2 ^ 32"
    unfolding o using ob q max.cobounded2 [of "qty_gain ?t sd" 0] by linarith
  then have sum: "int (unat (tk_open_qty ?t')) = int (unat (tk_open_qty ?t)) + gain"
    using bounded_delta_gain [OF small] o by (simp add: delta_def gain_def del: of_nat_unat)
  show ?thesis
  proof (cases "open_qty ?t + delta = 0")
    case True
    let ?b' = "erase_from_market ?buy (nd_id n) (push_callback (Callback_cancel ord 0) ?b1)"
    have B2: "book_ok env (push_callback (Callback_cancel ord 0) ?b1)" using B by simp
    have n2: "n \<in> set (own_side env ord (push_callback (Callback_cancel ord 0) ?b1))"
      using n by simp
    have "book_qty ?b' + unat (tk_open_qty ?t) = book_qty b"
      using erase_found_qty [OF B2 n2] by simp
    moreover have "gain = - int (unat (tk_open_qty ?t))"
      using sum True o by simp
    ultimately have "replaced_entry env ord ?t delta gain price b [Callback_cancel ord 0] 0 ?b'"
      using erase_from_market_ok [OF B2] erase_from_market_keeps(2) [of "push_callback _ ?b1"]
      by (auto simp: replaced_entry_def simp del: of_nat_unat)
    then show ?thesis using True cq by (auto simp: replace_enter_def Let_def)
  next
    case False
    have frame: "unreserved ?t' = unreserved ?t" "all_or_none ?t' = all_or_none ?t"
      "immediate_or_cancel ?t' = immediate_or_cancel ?t" "tk_priced env ?e ?t' = tk_priced env b ?t"
      by (simp_all add: unreserved_def all_or_none_def immediate_or_cancel_def tk_priced_def)
    have lt': "live ?t'" using lt False o frame(1) by (simp add: live_def)
    have pt': "all_or_none ?t' \<longrightarrow> tk_priced env ?e ?t'" using pt frame by simp
    have q': "book_qty ?e + unat (tk_open_qty ?t') < 2 ^ 32"
    proof -
      have "int (book_qty ?e + unat (tk_open_qty ?t')) < 2 ^ 32"
        using sum qe q by (simp add: gain_def del: of_nat_unat)
      then show ?thesis by (simp del: of_nat_unat of_nat_add)
    qed
    obtain cbs t2 b2 where r: "add_order env ?t' price ?e = Inr (cbs \<noteq> [], t2, b2)"
      "add_result env ?t' price ?e cbs t2 b2"
      by (rule add_order_ok [OF Be lt' pt' q', where p = price])
    have run: "rounds ?e cbs b2" using r(2) rounds_engine_run by (auto simp: add_result_def)
    have "replaced_entry env ord ?t delta gain price b cbs (dropped_qty t2) b2"
      unfolding replaced_entry_def
    proof (intro conjI)
      show "int (book_qty b2) + 2 * int (traded_qty cbs) + int (dropped_qty t2) =
          int (book_qty b) + gain"
        using r(2) sum qe unfolding add_result_def by (simp del: of_nat_unat)
      show "same_rest b b2" using run same_rest_trans [of b ?e b2] by (simp add: rounds_def)
      show "ob_callbacks b2 = ob_callbacks b @ Callback_replace ord (open_qty ?t) delta price # cbs"
        using run by (simp add: rounds_def)
      show "stop_mset b2 \<subseteq># stop_mset b" using run by (simp add: rounds_def)
      show "uncrossed b \<longrightarrow> tk_priced env b ?t \<longrightarrow> uncrossed b2"
        using r(2) erase_from_market_keeps(2) [of ?b1] frame(4) unfolding add_result_def by auto
    qed (use r(2) frame(3) in \<open>auto simp: add_result_def dropped_qty_def\<close>)
    then show ?thesis using False cq r(1) by (auto simp: replace_enter_def Let_def)
  qed
qed

text \<open>\<open>replaced\<close>: the whole of \<^verbatim>\<open>replace\<close> for an order that is on the market.\<close>

definition replaced ::
  "order_env \<Rightarrow> order_ptr \<Rightarrow> tracker \<Rightarrow> int32 \<Rightarrow> int \<Rightarrow> price \<Rightarrow> order_book \<Rightarrow> callback list \<Rightarrow> nat
     \<Rightarrow> order_book \<Rightarrow> bool" where
  "replaced env ord t delta gain price b cbs d b' \<longleftrightarrow>
     book_ok env b' \<and> same_rest b b' \<and> ob_pendingOrders b' = [] \<and>
     ob_callbacks b' = ob_callbacks b @
       Callback_replace ord (open_qty t) delta price # cbs @ [Callback_book_update] \<and>
     (\<forall>cb \<in> set cbs. valid_fill env cb \<or> cb = Callback_cancel ord 0) \<and>
     int (book_qty b') + 2 * int (traded_qty cbs) + int d = int (book_qty b) + gain \<and>
     (\<not> immediate_or_cancel t \<longrightarrow> no_ioc (stop_mset b) \<longrightarrow> d = 0) \<and>
     (uncrossed b \<longrightarrow> tk_priced env b t \<longrightarrow> uncrossed b')"

lemma replace_enqueue_ok:
  assumes B: "book_ok env b" and f: "find_on_market env ord b = Some n"
    and small: "unat (open_qty (nd_val n)) < 2 ^ 31"
    and q: "int (book_qty b) + max 0 (qty_gain (nd_val n) sd) < 2 ^ 32"
    and price: "price = (if new_price = PRICE_UNCHANGED then o_price (env ord) else new_price)"
  shows "\<exists>matched cbs d b'. replace_enqueue env ord sd new_price b = Inr (matched, b', True) \<and>
     replaced env ord (nd_val n) (bounded_delta (nd_val n) sd) (qty_gain (nd_val n) sd) price b cbs d b'"
proof -
  let ?delta = "bounded_delta (nd_val n) sd" and ?gain = "qty_gain (nd_val n) sd"
  have n: "n \<in> set (own_side env ord b)" using find_on_market_Some [OF f] by simp
  have lt: "live (nd_val n)" using found_live [OF B n] by simp
  obtain matched c1 d1 b1 where 1: "replace_enter env ord n ?delta price b = Inr (matched, b1)"
    "replaced_entry env ord (nd_val n) ?delta ?gain price b c1 d1 b1"
    using replace_enter_ok [OF B f small q, of price] by blast
  have b1: "book_ok env b1" "book_qty b1 < 2 ^ 32"
  proof -
    show "book_ok env b1" using 1(2) by (simp add: replaced_entry_def)
    have "int (book_qty b1) + 2 * int (traded_qty c1) + int d1 = int (book_qty b) + ?gain"
      using 1(2) by (simp add: replaced_entry_def)
    then have "int (book_qty b1) < 2 ^ 32" using q by linarith
    then show "book_qty b1 < 2 ^ 32" by simp
  qed
  obtain c2 d2 b2 where 2: "submit_until_empty env b1 = Inr b2" "ob_pendingOrders b2 = []"
    "rounds b1 c2 b2" "run_ok env b1 (book_qty b1) c2 d2 b2" "no_ioc (stop_mset b1) \<longrightarrow> d2 = 0"
    using submit_until_empty_run [OF b1] by blast
  have r: "replace_enqueue env ord sd new_price b =
      Inr (matched, push_callback Callback_book_update b2, True)"
    using 1(1) 2(1) by (simp add: replace_enqueue_enter [OF f lt price])
  have "replaced env ord (nd_val n) ?delta ?gain price b (c1 @ c2) (d1 + d2)
      (push_callback Callback_book_update b2)"
    unfolding replaced_def
  proof (intro conjI)
    show "same_rest b (push_callback Callback_book_update b2)"
      using 1(2) 2(3) same_rest_trans [of b b1 b2] by (simp add: replaced_entry_def rounds_def)
    have "stop_mset b1 \<subseteq># stop_mset b" using 1(2) by (simp add: replaced_entry_def)
    then show "\<not> immediate_or_cancel (nd_val n) \<longrightarrow> no_ioc (stop_mset b) \<longrightarrow> d1 + d2 = 0"
      using 1(2) 2(5) mset_subset_eqD unfolding replaced_entry_def no_ioc_def by fastforce
  qed (use 1(2) 2 in \<open>auto simp: replaced_entry_def rounds_def run_ok_def\<close>)
  with r show ?thesis by blast
qed

end
