(* ===== verification/Callback_Run.thy ===== *)
theory Callback_Run
  imports Book_Calls
begin

text \<open>
  Performing the queued notifications: \<^verbatim>\<open>callback_now\<close> and \<^verbatim>\<open>perform_callback\<close> of
  \<^verbatim>\<open>src/book/order_book.h\<close>, with the listener interfaces of \<^verbatim>\<open>order_listener.h\<close>,
  \<^verbatim>\<open>trade_listener.h\<close>, \<^verbatim>\<open>order_book_listener.h\<close>, \<^verbatim>\<open>bbo_listener.h\<close>,
  \<^verbatim>\<open>depth_listener.h\<close> and \<^verbatim>\<open>logger.h\<close>, and the public \<^verbatim>\<open>add\<close>, \<^verbatim>\<open>cancel\<close> and
  \<^verbatim>\<open>replace\<close>. What a listener does is not the library's code: it is a parameter, and may
  call the book again.
\<close>

section \<open>The calls\<close>

text \<open>
  A virtual method of the book itself (\<open>V_\<close>) or a method of a listener (\<open>L_\<close>, with the
  listener called).
\<close>

datatype call =
    V_on_accept "order_ptr option" quantity
  | V_on_reject "order_ptr option" "string option"
  | V_on_fill "order_ptr option" "order_ptr option" quantity cost bool bool
  | V_on_cancel "order_ptr option" quantity
  | V_on_cancel_reject "order_ptr option" "string option"
  | V_on_replace "order_ptr option" quantity quantity price
  | V_on_replace_reject "order_ptr option" "string option"
  | V_on_trade quantity cost
  | V_on_order_book_change
  | L_on_accept listener "order_ptr option"
  | L_on_reject listener "order_ptr option" "string option"
  | L_on_fill listener "order_ptr option" "order_ptr option" quantity cost
  | L_on_cancel listener "order_ptr option"
  | L_on_cancel_reject listener "order_ptr option" "string option"
  | L_on_replace listener "order_ptr option" int32 price
  | L_on_replace_reject listener "order_ptr option" "string option"
  | L_on_trade listener quantity cost
  | L_on_order_book_change listener
  | L_on_depth_change listener
  | L_on_bbo_change listener

text \<open>
  A \<open>system\<close> is the book and the world around it: the orders, and whatever state a derived
  class and the listeners keep. The log is what went to the logger, or to the standard error
  stream where there is none.
\<close>

record 'w system =
  sys_book :: order_book
  sys_world :: 'w
  sys_log :: "(listener option \<times> string \<times> exn) list"

type_synonym 'w handler = "call \<Rightarrow> 'w system effect"

text \<open>The virtual methods of \<^verbatim>\<open>OrderBook\<close> itself do nothing.\<close>

definition base_handler :: "'w handler \<Rightarrow> 'w handler" where
  "base_handler client c =
     (case c of
        V_on_accept p q \<Rightarrow> eff_skip | V_on_reject p r \<Rightarrow> eff_skip
      | V_on_fill p m q x i f \<Rightarrow> eff_skip | V_on_cancel p q \<Rightarrow> eff_skip
      | V_on_cancel_reject p r \<Rightarrow> eff_skip | V_on_replace p q r x \<Rightarrow> eff_skip
      | V_on_replace_reject p r \<Rightarrow> eff_skip | V_on_trade q x \<Rightarrow> eff_skip
      | V_on_order_book_change \<Rightarrow> eff_skip
      | _ \<Rightarrow> client c)"

section \<open>perform_callback\<close>

definition if_listener ::
  "(order_book \<Rightarrow> listener option) \<Rightarrow> (listener \<Rightarrow> 'w system effect) \<Rightarrow> 'w system effect" where
  "if_listener field f s = (case field (sys_book s) of None \<Rightarrow> (None, s) | Some l \<Rightarrow> f l s)"

definition perform_callback ::
  "('w \<Rightarrow> order_env) \<Rightarrow> 'w handler \<Rightarrow> callback \<Rightarrow> 'w system effect" where
  "perform_callback view h cb =
     (case cb_kind cb of
        cb_order_fill \<Rightarrow>
          (let fill_cost = cb_price cb * cb_quantity cb;
               inbound_filled = (cb_flags cb AND (ff_inbound_filled OR ff_both_filled) \<noteq> 0);
               matched_filled = (cb_flags cb AND (ff_matched_filled OR ff_both_filled) \<noteq> 0)
           in eff_then (h (V_on_fill (cb_order cb) (cb_matched_order cb) (cb_quantity cb) fill_cost
                             inbound_filled matched_filled))
             (eff_then (if_listener ob_order_listener
                          (\<lambda>l. h (L_on_fill l (cb_order cb) (cb_matched_order cb) (cb_quantity cb) fill_cost)))
             (eff_then (h (V_on_trade (cb_quantity cb) fill_cost))
                (if_listener ob_trade_listener (\<lambda>l. h (L_on_trade l (cb_quantity cb) fill_cost))))))
      | cb_order_accept \<Rightarrow>
          eff_then (h (V_on_accept (cb_order cb) (cb_quantity cb)))
            (if_listener ob_order_listener (\<lambda>l. h (L_on_accept l (cb_order cb))))
      | cb_order_reject \<Rightarrow>
          eff_then (h (V_on_reject (cb_order cb) (cb_reject_reason cb)))
            (if_listener ob_order_listener (\<lambda>l. h (L_on_reject l (cb_order cb) (cb_reject_reason cb))))
      | cb_order_cancel \<Rightarrow>
          eff_then (h (V_on_cancel (cb_order cb) (cb_quantity cb)))
            (if_listener ob_order_listener (\<lambda>l. h (L_on_cancel l (cb_order cb))))
      | cb_order_cancel_reject \<Rightarrow>
          eff_then (h (V_on_cancel_reject (cb_order cb) (cb_reject_reason cb)))
            (if_listener ob_order_listener
               (\<lambda>l. h (L_on_cancel_reject l (cb_order cb) (cb_reject_reason cb))))
      | cb_order_replace \<Rightarrow>
          (\<lambda>s. case cb_order cb of
             None \<Rightarrow> (Some Invalid_iterator, s)
           | Some p \<Rightarrow>
               let order_qty = o_order_qty (view (sys_world s) p)
               in eff_then (h (V_on_replace (cb_order cb) order_qty (order_qty + cb_delta cb) (cb_price cb)))
                    (if_listener ob_order_listener
                       (\<lambda>l. h (L_on_replace l (cb_order cb) (cb_delta cb) (cb_price cb)))) s)
      | cb_order_replace_reject \<Rightarrow>
          eff_then (h (V_on_replace_reject (cb_order cb) (cb_reject_reason cb)))
            (if_listener ob_order_listener
               (\<lambda>l. h (L_on_replace_reject l (cb_order cb) (cb_reject_reason cb))))
      | cb_book_update \<Rightarrow>
          eff_then (h V_on_order_book_change)
            (if_listener ob_order_book_listener (\<lambda>l. h (L_on_order_book_change l)))
      | cb_unknown \<Rightarrow> eff_skip)"

section \<open>callback_now\<close>

text \<open>
  \<^verbatim>\<open>perform_callback\<close> is virtual: the loop takes the version of the class at hand as an
  argument. An exception is logged and the loop goes on. A value of undefined behaviour is
  logged too, so that its absence from the log is a statement about the run.
\<close>

definition perform_logged :: "(callback \<Rightarrow> 'w system effect) \<Rightarrow> callback \<Rightarrow> 'w system \<Rightarrow> 'w system" where
  "perform_logged perform cb s =
     (case perform cb s of
        (None, s') \<Rightarrow> s'
      | (Some ex, s') \<Rightarrow>
          s'\<lparr>sys_log := sys_log s' @
               [(ob_logger (sys_book s'), ''Caught exception during callback: '', ex)]\<rparr>)"

fun run_callbacks ::
  "(callback \<Rightarrow> 'w system effect) \<Rightarrow> callback list \<Rightarrow> 'w system \<Rightarrow> 'w system" where
  "run_callbacks perform [] s = s"
| "run_callbacks perform (cb # cbs) s = run_callbacks perform cbs (perform_logged perform cb s)"

definition callback_round :: "(callback \<Rightarrow> 'w system effect) \<Rightarrow> 'w system \<Rightarrow> 'w system" where
  "callback_round perform s =
     (let b = sys_book s;
          working = ob_callbacks b;
          s1 = s\<lparr>sys_book := b\<lparr>ob_workingCallbacks := working, ob_callbacks := ob_workingCallbacks b\<rparr>\<rparr>;
          s2 = run_callbacks perform working s1
      in s2\<lparr>sys_book := (sys_book s2)\<lparr>ob_workingCallbacks := []\<rparr>\<rparr>)"

partial_function (option) callback_loop ::
  "(callback \<Rightarrow> 'w system effect) \<Rightarrow> 'w system \<Rightarrow> 'w system option" where
  "callback_loop perform s =
     (if ob_callbacks (sys_book s) = [] then Some s
      else callback_loop perform (callback_round perform s))"

definition set_handling :: "bool \<Rightarrow> 'w system \<Rightarrow> 'w system" where
  "set_handling v s = s\<lparr>sys_book := (sys_book s)\<lparr>ob_handling_callbacks := v\<rparr>\<rparr>"

definition callback_now ::
  "(callback \<Rightarrow> 'w system effect) \<Rightarrow> 'w system \<Rightarrow> 'w system option" where
  "callback_now perform s =
     (if \<not> ob_handling_callbacks (sys_book s)
      then map_option (set_handling False) (callback_loop perform (set_handling True s))
      else Some s)"

section \<open>The public operations\<close>

text \<open>
  \<open>None\<close> is a call that does not return because its callbacks keep queueing more; \<open>Inl\<close> is a
  call left by an exception.
\<close>

definition finish_call ::
  "(callback \<Rightarrow> 'w system effect) \<Rightarrow> 'a \<Rightarrow> bool \<Rightarrow> order_book \<Rightarrow> 'w system \<Rightarrow> ('a \<times> 'w system) result option" where
  "finish_call perform r now b s =
     map_option (\<lambda>s'. Inr (r, s'))
       (if now then callback_now perform (s\<lparr>sys_book := b\<rparr>) else Some (s\<lparr>sys_book := b\<rparr>))"

definition book_add ::
  "('w \<Rightarrow> order_env) \<Rightarrow> (callback \<Rightarrow> 'w system effect) \<Rightarrow> order_ptr \<Rightarrow> order_conditions \<Rightarrow> 'w system
     \<Rightarrow> (bool \<times> 'w system) result option" where
  "book_add view perform ord conditions s =
     (case add_enqueue (view (sys_world s)) ord conditions (sys_book s) of
        Inl e \<Rightarrow> Some (Inl e)
      | Inr (matched, b) \<Rightarrow> finish_call perform matched True b s)"

definition book_cancel ::
  "('w \<Rightarrow> order_env) \<Rightarrow> (callback \<Rightarrow> 'w system effect) \<Rightarrow> order_ptr \<Rightarrow> 'w system
     \<Rightarrow> (unit \<times> 'w system) result option" where
  "book_cancel view perform ord s =
     finish_call perform () True (cancel_enqueue (view (sys_world s)) ord (sys_book s)) s"

definition book_replace ::
  "('w \<Rightarrow> order_env) \<Rightarrow> (callback \<Rightarrow> 'w system effect) \<Rightarrow> order_ptr \<Rightarrow> int32 \<Rightarrow> price \<Rightarrow> 'w system
     \<Rightarrow> (bool \<times> 'w system) result option" where
  "book_replace view perform ord size_delta new_price s =
     (case replace_enqueue (view (sys_world s)) ord size_delta new_price (sys_book s) of
        Inl e \<Rightarrow> Some (Inl e)
      | Inr (matched, b, now) \<Rightarrow> finish_call perform matched now b s)"

section \<open>Callbacks that do not call back\<close>

text \<open>
  The contract under which the loop is simple: performing a notification leaves the queues of
  the book alone.
\<close>

definition quiet_step :: "'w system \<Rightarrow> 'w system \<Rightarrow> bool" where
  "quiet_step s s' \<longleftrightarrow> sys_book s' = sys_book s"

locale quiet_callbacks =
  fixes perform :: "callback \<Rightarrow> 'w system effect"
  assumes perform_quiet: "sys_book (snd (perform cb s)) = sys_book s"
begin

lemma perform_logged_book: "sys_book (perform_logged perform cb s) = sys_book s"
  using perform_quiet [of cb s] by (auto simp: perform_logged_def split: prod.split option.split)

lemma run_book: "sys_book (run_callbacks perform cbs s) = sys_book s"
  by (induction cbs arbitrary: s) (simp_all add: perform_logged_book)

text \<open>Every queued notification is performed once, in order, and the queue is empty then.\<close>

lemma now_runs:
  assumes "\<not> ob_handling_callbacks (sys_book s)" "ob_workingCallbacks (sys_book s) = []"
  defines "cbs \<equiv> ob_callbacks (sys_book s)"
  defines "start \<equiv> s\<lparr>sys_book := (sys_book s)\<lparr>ob_handling_callbacks := True, ob_workingCallbacks := cbs,
      ob_callbacks := []\<rparr>\<rparr>"
  shows "callback_now perform s =
    Some (if cbs = [] then s
          else (run_callbacks perform cbs start)\<lparr>sys_book := (sys_book s)\<lparr>ob_callbacks := []\<rparr>\<rparr>)"
proof (cases "cbs = []")
  case True
  then have "callback_loop perform (set_handling True s) = Some (set_handling True s)"
    by (subst callback_loop.simps) (simp add: set_handling_def cbs_def)
  then show ?thesis using True assms(1) by (simp add: callback_now_def set_handling_def)
next
  case False
  define s2 where "s2 = run_callbacks perform cbs start"
  have b2: "sys_book s2 = sys_book start" unfolding s2_def by (rule run_book)
  have round: "callback_round perform (set_handling True s) =
      s2\<lparr>sys_book := (sys_book s2)\<lparr>ob_workingCallbacks := []\<rparr>\<rparr>"
    using assms(2) by (simp add: callback_round_def set_handling_def s2_def start_def cbs_def Let_def)
  have "callback_loop perform (set_handling True s) =
      Some (s2\<lparr>sys_book := (sys_book s2)\<lparr>ob_workingCallbacks := []\<rparr>\<rparr>)"
    using False round b2
    by (subst callback_loop.simps, subst callback_loop.simps)
      (simp add: set_handling_def start_def cbs_def)
  moreover have "(sys_book s)\<lparr>ob_callbacks := [], ob_workingCallbacks := [], ob_handling_callbacks := False\<rparr> =
      (sys_book s)\<lparr>ob_callbacks := []\<rparr>"
    using assms(1,2) by (cases "sys_book s") simp
  moreover have "sys_book s2 = (sys_book s)\<lparr>ob_handling_callbacks := True,
      ob_workingCallbacks := cbs, ob_callbacks := []\<rparr>"
    using b2 by (simp add: start_def)
  ultimately show ?thesis
    using False assms(1) by (simp add: callback_now_def set_handling_def flip: s2_def)
qed

end

text \<open>A book without listeners performs its notifications silently.\<close>

definition no_client :: "'w handler" where
  "no_client c = eff_skip"

lemma perform_callback_cases:
  assumes "\<And>c s. sys_book (snd (h c s)) = sys_book s"
  shows "sys_book (snd (perform_callback view h cb s)) = sys_book s"
proof -
  have t: "sys_book (snd (eff_then f g s)) = sys_book s"
    if "\<And>s. sys_book (snd (f s)) = sys_book s" "\<And>s. sys_book (snd (g s)) = sys_book s"
    for f g :: "'a system effect" and s
    using that by (auto simp: eff_then_def split: prod.split option.split) (metis snd_conv)+
  have l: "sys_book (snd (if_listener field f s)) = sys_book s"
    if "\<And>l s. sys_book (snd (f l s)) = sys_book s"
    for field and f :: "listener \<Rightarrow> 'a system effect" and s
    using that by (simp add: if_listener_def split: option.split)
  show ?thesis
    unfolding perform_callback_def Let_def
    by (cases "cb_kind cb") (auto intro!: t l assms simp: eff_skip_def split: option.split)
qed

interpretation plain_book:
  quiet_callbacks "perform_callback view (base_handler no_client)" for view :: "'w \<Rightarrow> order_env"
proof unfold_locales
  show "sys_book (snd (perform_callback view (base_handler no_client) cb s)) = sys_book s"
    for cb and s :: "'w system"
  proof (rule perform_callback_cases)
    show "sys_book (snd (base_handler no_client c s)) = sys_book s" for c and s :: "'w system"
      by (cases c) (simp_all add: base_handler_def no_client_def)
  qed
qed

end
