(* ===== verification/Samples.thy ===== *)
theory Samples
  imports Callback_Run
begin

text \<open>
  A concrete market on which the properties are applied: a sell order and an all-or-none sell
  order rest, a buy stop waits, the last trade was at 10.
\<close>

definition sample_env :: order_env where
  "sample_env i =
     (if i = 0 then \<lparr>o_is_buy = False, o_price = 10, o_stop_price = 0, o_order_qty = 100,
        o_all_or_none = False, o_immediate_or_cancel = False\<rparr>
      else if i = 1 then \<lparr>o_is_buy = True, o_price = 12, o_stop_price = 0, o_order_qty = 120,
        o_all_or_none = False, o_immediate_or_cancel = False\<rparr>
      else if i = 2 then \<lparr>o_is_buy = False, o_price = 11, o_stop_price = 0, o_order_qty = 50,
        o_all_or_none = True, o_immediate_or_cancel = False\<rparr>
      else if i = 3 then \<lparr>o_is_buy = True, o_price = 14, o_stop_price = 13, o_order_qty = 30,
        o_all_or_none = False, o_immediate_or_cancel = False\<rparr>
      else \<lparr>o_is_buy = True, o_price = 9, o_stop_price = 0, o_order_qty = 5,
        o_all_or_none = False, o_immediate_or_cancel = False\<rparr>)"

definition sample_asks :: tracker_map where
  "sample_asks =
     [\<lparr>nd_id = 0, nd_key = ComparablePrice False 10,
       nd_val = OrderTracker sample_env 0 oc_no_conditions\<rparr>,
      \<lparr>nd_id = 1, nd_key = ComparablePrice False 11,
       nd_val = OrderTracker sample_env 2 oc_all_or_none\<rparr>]"

definition sample_book :: order_book where
  "sample_book = (OrderBook ''ABC'')
     \<lparr>ob_asks := sample_asks,
      ob_stopBids := [\<lparr>nd_id = 2, nd_key = ComparablePrice True 13,
                        nd_val = OrderTracker sample_env 3 oc_no_conditions\<rparr>],
      ob_marketPrice := 10, ob_next_node := 3\<rparr>"

lemmas sample_defs = sample_env_def sample_asks_def sample_book_def OrderBook_def

lemma sample_conditions [simp]:
  "\<not> all_or_none (OrderTracker env i oc_no_conditions)" "all_or_none (OrderTracker env i oc_all_or_none)"
  "\<not> immediate_or_cancel (OrderTracker env i oc_no_conditions)"
  "\<not> immediate_or_cancel (OrderTracker env i oc_all_or_none)"
  by (simp_all add: all_or_none_def immediate_or_cancel_def oc_defs)

lemma sample_side [simp]: "live_side sample_asks" "mm_sorted cp_less sample_asks"
  by (simp_all add: sample_defs live_side_def mm_ids_def live_def mm_sorted_def cp_defs)

lemma sample_book_ok: "book_ok sample_env sample_book"
  unfolding book_ok_def side_ok_def stops_ok_def stop_side_ok_def
  using sample_side
  by (auto simp: sample_book_def OrderBook_def sample_asks_def sample_env_def live_def tk_priced_def
      mm_sorted_def live_side_def stop_mset_def)

lemma sample_book_keyed: "keyed_book sample_env sample_book" "uncrossed sample_book"
  by (auto simp: keyed_book_def keyed_def uncrossed_def cross_free_def sample_defs)

lemma sample_book_qty: "book_qty sample_book = 180"
  by (simp add: book_qty_def sample_defs stop_mset_def)

lemma sample_env_sel [simp]:
  "o_order_qty (sample_env (Suc 0)) = 120" "o_price (sample_env (Suc 0)) = 12" "o_is_buy (sample_env (Suc 0))"
  "o_price (sample_env 0) = 10" "o_order_qty (sample_env 0) = 100" "\<not> o_is_buy (sample_env 0)"
  by (simp_all add: sample_env_def)

lemma sample_market_price [simp]: "ob_marketPrice sample_book = 10" "ob_asks sample_book = sample_asks"
  by (simp_all add: sample_book_def)

end
