(* ===== verification/Book_Properties.thy ===== *)
theory Book_Properties
  imports Samples
begin

text \<open>
  What the operations of the book guarantee, each applied at a concrete market.
\<close>

section \<open>The operations on a well-formed book\<close>

text \<open>
  C1. \<^verbatim>\<open>add\<close> on a well-formed book returns normally for every order of positive quantity
  that has a price to trade at, as long as the quantities fit 32 bits. It leaves a well-formed
  book with no order pending; queues one accept notification, valid executions and cancels, and
  one book update, in this order; and conserves quantity: what was on the book and what
  entered is on the book, was traded (once on either side), or is the rest of an
  immediate-or-cancel order. Trades respect the limits of both orders and a book that is not
  crossed stays so.
\<close>

theorem add_correct:
  assumes "book_ok env b" "o_order_qty (env ord) \<noteq> 0"
    "ob_marketPrice b \<noteq> 0 \<or> o_price (env ord) \<noteq> 0"
    "book_qty b + unat (o_order_qty (env ord)) < 2 ^ 32"
  shows "\<exists>matched cbs d b'. add_enqueue env ord conditions b = Inr (matched, b') \<and>
     added env ord conditions b cbs d b'"
  by (rule add_enqueue_ok [OF assms])

theorem add_correct_witness:
  "\<exists>matched cbs d b'. add_enqueue sample_env 1 oc_no_conditions sample_book = Inr (matched, b') \<and>
     added sample_env 1 oc_no_conditions sample_book cbs d b'"
  by (rule add_correct [OF sample_book_ok]) (simp_all add: sample_book_qty)

text \<open>
  C5. \<^verbatim>\<open>replace\<close> of an order on a well-formed book returns and goes on to perform the
  notifications. A reduction is cut to the open quantity; the result is a well-formed book
  with nothing pending, whose quantity changes by the change made, up to trades. But the
  smallest 32-bit integer overflows the test and lets the order grow by \<open>2 ^ 31\<close>: the
  negation and the absolute value of it are itself on the machine (in C++, undefined). What is
  notified is the change as it was applied, before any execution.
\<close>

theorem replace_correct:
  assumes "book_ok env b" "find_on_market env ord b = Some n"
    "unat (open_qty (nd_val n)) < 2 ^ 31"
    "gain = (if size_delta = INT32_MIN then 2 ^ 31
             else max (sint size_delta) (- int (unat (open_qty (nd_val n)))))"
    "int (book_qty b) + max 0 gain < 2 ^ 32"
    "price = (if new_price = PRICE_UNCHANGED then o_price (env ord) else new_price)"
  shows "\<exists>matched cbs d b' delta. replace_enqueue env ord size_delta new_price b = Inr (matched, b', True) \<and>
     sint delta = (if size_delta = INT32_MIN then - (2 ^ 31) else gain) \<and>
     replaced env ord (nd_val n) delta gain price b cbs d b'"
proof -
  have g: "gain = qty_gain (nd_val n) size_delta" by (simp add: qty_gain_def assms(4))
  have "sint (bounded_delta (nd_val n) size_delta) =
      (if size_delta = INT32_MIN then - (2 ^ 31) else gain)"
    using bounded_delta_sint [OF assms(3)] bounded_delta_MIN [OF assms(3)] assms(4) by simp
  then show ?thesis
    using replace_enqueue_ok [OF assms(1-3) _ assms(6), of size_delta] assms(5) unfolding g by blast
qed

text \<open>A replace of the resting sell order from 100 to 60 at 13, and one by the smallest integer.\<close>

theorem replace_correct_witness:
  "(\<exists>matched cbs d b' delta. replace_enqueue sample_env 0 (- 40) 13 sample_book = Inr (matched, b', True) \<and>
     sint delta = - 40 \<and>
     replaced sample_env 0 (nd_val (hd sample_asks)) delta (- 40) 13 sample_book cbs d b') \<and>
   (\<exists>matched cbs d b' delta. replace_enqueue sample_env 0 INT32_MIN 13 sample_book = Inr (matched, b', True) \<and>
     sint delta = - (2 ^ 31) \<and>
     replaced sample_env 0 (nd_val (hd sample_asks)) delta (2 ^ 31) 13 sample_book cbs d b')"
proof -
  have f: "find_on_market sample_env 0 sample_book = Some (hd sample_asks)"
    by (simp add: find_on_market_find [OF sample_book_ok sample_book_keyed(1)] own_side_def)
      (simp add: sample_asks_def)
  have q: "open_qty (nd_val (hd sample_asks)) = 100" by (simp add: sample_asks_def)
  have d: "(- 40 :: int32) \<noteq> INT32_MIN" by (simp add: INT32_MIN_def)
  have "\<exists>matched cbs d b' delta. replace_enqueue sample_env 0 (- 40) 13 sample_book = Inr (matched, b', True) \<and>
     sint delta = (if - 40 = INT32_MIN then - (2 ^ 31) else - 40) \<and>
     replaced sample_env 0 (nd_val (hd sample_asks)) delta (- 40) 13 sample_book cbs d b'"
    by (rule replace_correct [OF sample_book_ok f])
      (simp_all add: sample_book_qty PRICE_UNCHANGED_def q d)
  moreover have "\<exists>matched cbs d b' delta. replace_enqueue sample_env 0 INT32_MIN 13 sample_book = Inr (matched, b', True) \<and>
     sint delta = (if INT32_MIN = INT32_MIN then - (2 ^ 31) else 2 ^ 31) \<and>
     replaced sample_env 0 (nd_val (hd sample_asks)) delta (2 ^ 31) 13 sample_book cbs d b'"
    by (rule replace_correct [OF sample_book_ok f])
      (simp_all add: sample_book_qty PRICE_UNCHANGED_def q)
  ultimately show ?thesis using d by simp
qed

text \<open>
  C6. \<^verbatim>\<open>cancel\<close> of an order that is on a well-formed book removes exactly its node, keeps the
  book well-formed, takes exactly the order's open quantity off the book, and reports that
  quantity in the cancel notification, followed by a book update.
\<close>

theorem cancel_correct:
  assumes "book_ok env b" "find_on_market env ord b = Some n"
  defines "b' \<equiv> cancel_enqueue env ord b"
  shows "book_ok env b' \<and> book_qty b' + unat (open_qty (nd_val n)) = book_qty b \<and>
    own_side env ord b' = mm_erase (nd_id n) (own_side env ord b) \<and>
    ob_callbacks b' = ob_callbacks b @ [Callback_cancel ord (open_qty (nd_val n)), Callback_book_update]"
  unfolding b'_def using cancel_found_ok [OF assms(1,2)] by simp

theorem cancel_correct_witness:
  "book_ok sample_env (cancel_enqueue sample_env 0 sample_book) \<and>
   book_qty (cancel_enqueue sample_env 0 sample_book) + 100 = 180 \<and>
   ob_callbacks (cancel_enqueue sample_env 0 sample_book) =
     [Callback_cancel 0 100, Callback_book_update]"
proof -
  let ?n = "hd sample_asks"
  have f: "find_on_market sample_env 0 sample_book = Some ?n"
    by (simp add: find_on_market_find [OF sample_book_ok sample_book_keyed(1)] own_side_def)
      (simp add: sample_asks_def)
  have q: "open_qty (nd_val ?n) = 100" by (simp add: sample_asks_def)
  have "ob_callbacks sample_book = []" by (simp add: sample_defs)
  then show ?thesis
    using cancel_correct [OF sample_book_ok f] q sample_book_qty by simp
qed

section \<open>The matching engine\<close>

text \<open>
  C7. \<^verbatim>\<open>add_order\<close> ends with a market price that is the price of its last execution, and
  does not touch it when nothing trades; it reports a match exactly when an execution was
  queued, and what it queues are executions only.
\<close>

theorem market_price_is_last_trade:
  assumes "book_ok env b" "live inb" "all_or_none inb \<longrightarrow> tk_priced env b inb"
    "book_qty b + unat (tk_open_qty inb) < 2 ^ 32"
  shows "\<exists>cbs inb' b'. add_order env inb p b = Inr (cbs \<noteq> [], inb', b') \<and>
    ob_callbacks b' = ob_callbacks b @ cbs \<and> list_all is_fill cbs \<and>
    ob_marketPrice b' = (if cbs = [] then ob_marketPrice b else cb_price (last cbs))"
proof -
  obtain cbs inb' b' where r: "add_order env inb p b = Inr (cbs \<noteq> [], inb', b')"
    "add_result env inb p b cbs inb' b'" by (rule add_order_ok [OF assms, of p])
  then have "rounds b cbs b'" using rounds_engine_run by (auto simp: add_result_def)
  then show ?thesis
    using r unfolding rounds_def add_result_def valid_fill_def by (auto simp: list_all_iff)
qed

definition sample_buy :: tracker where
  "sample_buy = OrderTracker sample_env 1 oc_no_conditions"

lemma sample_buy_ok:
  "live sample_buy" "all_or_none sample_buy \<longrightarrow> tk_priced sample_env sample_book sample_buy"
  "book_qty sample_book + unat (tk_open_qty sample_buy) < 2 ^ 32" "unreserved sample_buy"
  by (simp_all add: sample_buy_def live_def sample_book_qty)

theorem market_price_is_last_trade_witness:
  "\<exists>cbs inb' b'. add_order sample_env sample_buy 12 sample_book = Inr (cbs \<noteq> [], inb', b') \<and>
    ob_callbacks b' = ob_callbacks sample_book @ cbs \<and> list_all is_fill cbs \<and>
    ob_marketPrice b' = (if cbs = [] then ob_marketPrice sample_book else cb_price (last cbs))"
  using market_price_is_last_trade [OF sample_book_ok sample_buy_ok(1-3), of 12] .

text \<open>
  C13. Matching an order that is not all-or-none never fails and respects price-time priority:
  the side splits into the prefix \<open>pre\<close> the loop has been at and the rest \<open>pos\<close>, which is left
  alone. The loop only stops when the order is filled or the next price does not match. Of
  \<open>pre\<close> only all-or-none orders are left, and at most the last order, partly filled, when the
  inbound order is filled. Quantity is conserved and every execution is valid
  (\<open>match_outcome\<close>).
\<close>

theorem regular_match_priority:
  assumes "live_side m" "unreserved inb" "priced env b inb m"
  shows "\<exists>matched inb' pre v pos aons b'.
    m = pre @ pos \<and>
    match_regular_order env inb p m [] b = Inr (matched, inb', v @ pos, aons, b') \<and>
    match_outcome env p inb b m (matched, inb', v @ pos, aons, b') \<and>
    (pos = [] \<or> filled inb' \<or> \<not> matches (nd_key (hd pos)) p) \<and> front_served (filled inb') pre v"
proof -
  obtain matched inb' m' aons b' where
    "match_regular_order env inb p m [] b = Inr (matched, inb', m', aons, b')"
    "match_outcome env p inb b m (matched, inb', m', aons, b')"
    "\<exists>pre v pos. m = pre @ pos \<and> m' = v @ pos \<and>
       (pos = [] \<or> filled inb' \<or> \<not> matches (nd_key (hd pos)) p) \<and>
       (priced env b inb m \<longrightarrow> front_served (filled inb') pre v)"
    by (rule match_regular_order_ok [OF assms(1,2), of env p b])
  then show ?thesis using assms(3) by blast
qed

theorem regular_match_priority_witness:
  "\<exists>matched inb' pre v pos aons b'.
    sample_asks = pre @ pos \<and>
    match_regular_order sample_env sample_buy 12 sample_asks [] sample_book =
      Inr (matched, inb', v @ pos, aons, b') \<and>
    match_outcome sample_env 12 sample_buy sample_book sample_asks (matched, inb', v @ pos, aons, b') \<and>
    (pos = [] \<or> filled inb' \<or> \<not> matches (nd_key (hd pos)) 12) \<and> front_served (filled inb') pre v"
  by (rule regular_match_priority) (simp_all add: sample_buy_ok priced_def sample_buy_def)

text \<open>
  C14. All or nothing: matching an all-or-none order that has a price to trade at never fails,
  and either fills the order or changes nothing: no trade, no notification, and the same side
  of the market. Fills are valid and conserve quantity.
\<close>

theorem all_or_nothing:
  assumes "aon_context env inb b m"
  shows "\<exists>matched inb' m' aons b'.
    match_aon_order env inb p m [] b = Inr (matched, inb', m', aons, b') \<and>
    match_outcome env p inb b m (matched, inb', m', aons, b') \<and>
    (filled inb' \<or> \<not> matched \<and> inb' = inb \<and> m' = m \<and> b' = b)"
  using match_aon_order_ok [OF assms, where p = p] by metis

definition sample_aon_buy :: tracker where
  "sample_aon_buy = OrderTracker sample_env 1 oc_all_or_none"

theorem all_or_nothing_witness:
  "\<exists>matched inb' m' aons b'.
    match_aon_order sample_env sample_aon_buy 12 sample_asks [] sample_book = Inr (matched, inb', m', aons, b') \<and>
    match_outcome sample_env 12 sample_aon_buy sample_book sample_asks (matched, inb', m', aons, b') \<and>
    (filled inb' \<or> \<not> matched \<and> inb' = sample_aon_buy \<and> m' = sample_asks \<and> b' = sample_book)"
  by (rule all_or_nothing)
    (simp add: aon_context_def priced_def sample_aon_buy_def live_def, simp add: sample_defs)

section \<open>Finding orders, and the order of the containers\<close>

text \<open>
  C15. \<^verbatim>\<open>find_on_market\<close>, which starts at the first node with the price of the order and
  stops behind the last, finds exactly what a search of the whole side finds, on a well-formed
  book whose nodes carry the prices of their orders.
\<close>

theorem find_on_market_is_search:
  assumes "book_ok env b" "keyed_book env b"
  shows "find_on_market env ord b = find (\<lambda>n. tk_order (nd_val n) = ord) (own_side env ord b)"
  by (rule find_on_market_find [OF assms])

theorem find_on_market_is_search_witness:
  "find_on_market sample_env 2 sample_book = Some (sample_asks ! 1)"
  using find_on_market_is_search [OF sample_book_ok sample_book_keyed(1), of 2]
  by (simp add: own_side_def sample_env_def, simp add: sample_asks_def)

text \<open>
  C16. What is left of an order that \<^verbatim>\<open>add_order\<close> has matched goes on its own side, bids or
  asks, behind every order whose price is as good or better (market orders first) and before
  every order whose price is worse; the orders that were there keep their order. Nothing is
  inserted when it is filled or immediate-or-cancel. Only the second chance of all-or-none
  orders of the other side may then take quantity away; without such orders the side is
  exactly the one with the insertion.
\<close>

theorem rests_in_price_time_order:
  assumes "book_ok env b" "live inb" "all_or_none inb \<longrightarrow> tk_priced env b inb"
    "book_qty b + unat (tk_open_qty inb) < 2 ^ 32" "o_is_buy (env (tk_order inb)) = buy"
  shows "\<exists>matched inb' b' pre post. add_order env inb p b = Inr (matched, inb', b') \<and>
    side_of buy b = pre @ post \<and>
    (\<forall>n \<in> set pre. cp_price (nd_key n) = 0 \<or>
       p \<noteq> 0 \<and> (if buy then p \<le> cp_price (nd_key n) else cp_price (nd_key n) \<le> p)) \<and>
    (\<forall>n \<in> set post. cp_price (nd_key n) \<noteq> 0 \<and>
       (p = 0 \<or> (if buy then cp_price (nd_key n) < p else p < cp_price (nd_key n)))) \<and>
    (if tk_open_qty inb' = 0 \<or> immediate_or_cancel inb then side_of buy b' = side_of buy b
     else shrinks (pre @ new_node b (ComparablePrice buy p) inb' # post) (side_of buy b') \<and>
       ((\<forall>n \<in> set (side_of (\<not> buy) b). \<not> all_or_none (nd_val n)) \<longrightarrow>
          side_of buy b' = pre @ new_node b (ComparablePrice buy p) inb' # post))"
proof -
  obtain cbs inb' b' where r: "add_order env inb p b = Inr (cbs \<noteq> [], inb', b')"
    "add_result env inb p b cbs inb' b'" by (rule add_order_ok [OF assms(1-4), of p])
  have i: "open_qty inb' = tk_open_qty inb'" "immediate_or_cancel inb' = immediate_or_cancel inb"
    and c: "comes_to_rest buy inb' p b (side_of buy b) (side_of (\<not> buy) b) (side_of buy b')"
    using r(2) assms(5) by (simp_all add: add_result_def)
  obtain pre post where pp: "side_of buy b = pre @ post"
    "mm_insert cp_less (new_node b (ComparablePrice buy p) inb') (side_of buy b) =
       pre @ new_node b (ComparablePrice buy p) inb' # post"
    "\<forall>n \<in> set pre. cp_price (nd_key n) = 0 \<or>
       p \<noteq> 0 \<and> (if buy then p \<le> cp_price (nd_key n) else cp_price (nd_key n) \<le> p)"
    "\<forall>n \<in> set post. cp_price (nd_key n) \<noteq> 0 \<and>
       (p = 0 \<or> (if buy then cp_price (nd_key n) < p else p < cp_price (nd_key n)))"
    by (rule insert_in_side [OF assms(1), of buy p inb'])
  show ?thesis
    by (intro exI conjI, rule r(1), rule pp(1), rule pp(3), rule pp(4))
      (use c i pp(2) in \<open>auto simp: comes_to_rest_def\<close>)
qed

text \<open>A sell order at 10 goes behind the one that rests there and before the one at 11.\<close>

theorem rests_in_price_time_order_witness:
  "\<exists>matched b'. add_order sample_env (OrderTracker sample_env 2 oc_no_conditions) 10 sample_book =
      Inr (matched, OrderTracker sample_env 2 oc_no_conditions, b') \<and>
    map (\<lambda>n. (tk_order (nd_val n), cp_price (nd_key n))) (ob_asks b') = [(0, 10), (2, 10), (2, 11)]"
proof -
  let ?t = "OrderTracker sample_env 2 oc_no_conditions"
  have t: "live ?t" "tk_open_qty ?t = 50" "o_is_buy (sample_env (tk_order ?t)) = False"
    "all_or_none ?t \<longrightarrow> tk_priced sample_env sample_book ?t"
    "book_qty sample_book + unat (tk_open_qty ?t) < 2 ^ 32"
    by (simp_all add: live_def sample_env_def sample_book_qty)
  have bids: "ob_bids sample_book = []" by (simp add: sample_book_def OrderBook_def)
  have no_aon: "\<forall>n \<in> set (side_of (\<not> False) sample_book). \<not> all_or_none (nd_val n)"
    by (simp add: side_of_def bids)
  obtain matched inb' b' pre post where r:
    "add_order sample_env ?t 10 sample_book = Inr (matched, inb', b')"
    "side_of False sample_book = pre @ post"
    "\<forall>n \<in> set pre. cp_price (nd_key n) = 0 \<or> cp_price (nd_key n) \<le> 10"
    "\<forall>n \<in> set post. cp_price (nd_key n) \<noteq> 0 \<and> 10 < cp_price (nd_key n)"
    "if tk_open_qty inb' = 0 \<or> immediate_or_cancel ?t then side_of False b' = side_of False sample_book
     else shrinks (pre @ new_node sample_book (ComparablePrice False 10) inb' # post) (side_of False b') \<and>
       ((\<forall>n \<in> set (side_of (\<not> False) sample_book). \<not> all_or_none (nd_val n)) \<longrightarrow>
          side_of False b' = pre @ new_node sample_book (ComparablePrice False 10) inb' # post)"
    using rests_in_price_time_order [OF sample_book_ok t(1,4,5,3), of 10]
    unfolding if_False by (elim exE conjE) (rule that; auto)
  have i: "inb' = ?t"
    using r(1) bids t(2,3) by (auto simp: add_order_def match_order_def match_regular_order_def
        match_start_def match_finish_def Let_def)
  have "pre @ post = sample_asks" using r(2) by (simp add: side_of_def)
  then have "pre = [hd sample_asks] \<and> post = [sample_asks ! 1]"
    using r(3,4) by (auto simp: sample_asks_def append_eq_Cons_conv)
  then have "map (\<lambda>n. (tk_order (nd_val n), cp_price (nd_key n))) (ob_asks b') = [(0, 10), (2, 10), (2, 11)]"
    using r(5) no_aon t(2) i by (simp add: side_of_def new_node_def) (simp add: sample_asks_def)
  then show ?thesis using r(1) unfolding i by (intro exI conjI)
qed

text \<open>
  C17. \<^verbatim>\<open>operator<\<close> on the prices of one side is a strict weak order: irreflexive, transitive,
  with transitive incomparability; market orders first, then the better price. \<^verbatim>\<open>matches\<close> is
  symmetric between the sides and fits this order: the orders of a sorted side that match a
  price are exactly a prefix of it, so that a loop that stops at the first order that does not
  match has passed over none. A price matches when one of them is a market price where its
  side may be one, or the bid is at least the ask.
\<close>

theorem price_order_and_match:
  assumes "cp_buySide a = s" "cp_buySide b = s" "cp_buySide c = s" "cp_buySide d \<noteq> s"
    "mm_sorted cp_less m" "\<forall>n \<in> set m. cp_buySide (nd_key n) = s"
  shows "\<not> cp_less a a \<and>
    (cp_less a b \<and> cp_less b c \<longrightarrow> cp_less a c) \<and>
    (\<not> cp_less a b \<and> \<not> cp_less b a \<and> \<not> cp_less b c \<and> \<not> cp_less c b \<longrightarrow>
       \<not> cp_less a c \<and> \<not> cp_less c a) \<and>
    (cp_less a b \<longleftrightarrow> cp_price b \<noteq> 0 \<and>
       (cp_price a = 0 \<or> (if s then cp_price b < cp_price a else cp_price a < cp_price b))) \<and>
    (matches a q \<longleftrightarrow> (if s then cp_price a = 0 \<or> q \<le> cp_price a else q = 0 \<or> cp_price a \<le> q)) \<and>
    (matches a (cp_price d) \<longleftrightarrow> matches d (cp_price a)) \<and>
    takeWhile (\<lambda>n. matches (nd_key n) q) m = filter (\<lambda>n. matches (nd_key n) q) m"
proof (intro conjI)
  show "\<not> cp_less a a" by simp
  show "cp_less a b \<and> cp_less b c \<longrightarrow> cp_less a c"
    using cp_less_trans assms(1,2) by metis
  show "\<not> cp_less a b \<and> \<not> cp_less b a \<and> \<not> cp_less b c \<and> \<not> cp_less c b \<longrightarrow>
      \<not> cp_less a c \<and> \<not> cp_less c a"
    using cp_less_negtrans assms(1-3) by metis
  show "cp_less a b \<longleftrightarrow> cp_price b \<noteq> 0 \<and>
      (cp_price a = 0 \<or> (if s then cp_price b < cp_price a else cp_price a < cp_price b))"
    using assms(1) by (auto simp: cp_defs)
  show "matches a q \<longleftrightarrow> (if s then cp_price a = 0 \<or> q \<le> cp_price a else q = 0 \<or> cp_price a \<le> q)"
    using assms(1) by (auto simp: matches_def MARKET_ORDER_PRICE_def)
  show "matches a (cp_price d) \<longleftrightarrow> matches d (cp_price a)"
    using matches_sym [of a d] assms(1,4) by simp
  show "takeWhile (\<lambda>n. matches (nd_key n) q) m = filter (\<lambda>n. matches (nd_key n) q) m"
    by (rule matching_prefix [OF assms(5,6)])
qed

text \<open>Of the two resting sell orders at 10 and 11, a bid of 10 matches the first.\<close>

theorem price_order_and_match_witness:
  "takeWhile (\<lambda>n. matches (nd_key n) 10) sample_asks = [hd sample_asks] \<and>
   cp_less (ComparablePrice False 10) (ComparablePrice False 11) \<and>
   cp_less (ComparablePrice True 11) (ComparablePrice True 10)"
proof -
  have f: "cp_buySide (ComparablePrice False p) = False" "cp_buySide (ComparablePrice True p) \<noteq> False" for p
    by simp_all
  have t: "cp_buySide (ComparablePrice True p) = True" "cp_buySide (ComparablePrice False p) \<noteq> True" for p
    by simp_all
  have s: "\<forall>n \<in> set sample_asks. cp_buySide (nd_key n) = False" by (simp add: sample_asks_def)
  have "takeWhile (\<lambda>n. matches (nd_key n) 10) sample_asks = filter (\<lambda>n. matches (nd_key n) 10) sample_asks"
    "cp_less (ComparablePrice False 10) (ComparablePrice False 11)"
    using price_order_and_match [where q = 10, OF f(1) f(1) f(1) f(2) sample_side(2) s, of 10 11] by simp_all
  moreover have "cp_less (ComparablePrice True 11) (ComparablePrice True 10)"
    using price_order_and_match [OF t(1) t(1) t(1) t(2), of "[]" 11 10 0 0 0] by simp
  moreover have "filter (\<lambda>n. matches (nd_key n) 10) sample_asks = [hd sample_asks]"
    by (simp add: sample_asks_def matches_def MARKET_ORDER_PRICE_def)
  ultimately show ?thesis by simp
qed

text \<open>
  The inequality of a price and a plain price is not the negation of their equality: it
  compares the right-hand side with one for a market price and with zero for any other.
\<close>

lemma price_inequality:
  "cp_neq_price k rhs \<longleftrightarrow> rhs = (if isMarket k then 1 else 0)"
  by (auto simp: cp_neq_price_def isMarket_def MARKET_ORDER_PRICE_def)

section \<open>Trades and stop orders\<close>

text \<open>
  C18. A trade of two orders of the book never fails and is for the smallest of the open
  quantities and the limit, at the price of the resting order where it has one, else the price
  of the inbound order, else the last market price; without any of them nothing is traded. Both
  orders lose exactly the quantity, the price becomes the market price, and one fill is queued.
\<close>

theorem trade_is_exact:
  fixes env b inbound current mx
  assumes "unreserved inbound" "unreserved current"
  defines "price \<equiv>
    (if o_price (env (tk_order current)) \<noteq> 0 then o_price (env (tk_order current))
     else if o_price (env (tk_order inbound)) \<noteq> 0 then o_price (env (tk_order inbound))
     else ob_marketPrice b)"
  defines "q \<equiv> (if price = 0 then 0 else min mx (min (tk_open_qty inbound) (tk_open_qty current)))"
  shows "\<exists>b'. create_trade env b inbound current mx =
      Inr (q, inbound\<lparr>tk_open_qty := tk_open_qty inbound - q\<rparr>,
              current\<lparr>tk_open_qty := tk_open_qty current - q\<rparr>, b') \<and>
    (if q = 0 then b' = b
     else ob_marketPrice b' = price \<and>
       ob_callbacks b' = ob_callbacks b @ [Callback_fill (tk_order inbound) (tk_order current) q price
         ((if tk_open_qty inbound = q then ff_inbound_filled else 0) OR
          (if tk_open_qty current = q then ff_matched_filled else 0))])"
proof -
  have p: "cross_price env b inbound current = price"
    by (simp add: cross_price_def price_def MARKET_ORDER_PRICE_def)
  have q: "q = trade_qty env b inbound current mx"
    by (simp add: q_def trade_qty_def p)
  show ?thesis
    using create_trade_eq [OF assms(1,2) q]
    by (auto simp: take_qty_def trade_book_def fill_callback_def p)
qed

theorem trade_is_exact_witness:
  "\<exists>b'. create_trade sample_env sample_book sample_buy (nd_val (hd sample_asks)) UINT32_MAX =
      Inr (100, sample_buy\<lparr>tk_open_qty := 20\<rparr>,
           (nd_val (hd sample_asks))\<lparr>tk_open_qty := 0\<rparr>, b') \<and> ob_marketPrice b' = 10"
proof -
  let ?s = "nd_val (hd sample_asks)"
  have u: "unreserved sample_buy" "unreserved ?s" by (simp_all add: sample_buy_def sample_asks_def)
  have s: "tk_open_qty sample_buy = 120" "tk_open_qty ?s = 100" "tk_order ?s = 0"
    by (simp_all add: sample_buy_def sample_asks_def)
  have m: "min UINT32_MAX (min (120 :: 32 word) 100) = 100" by (simp add: min_def UINT32_MAX_def)
  show ?thesis
    using trade_is_exact [OF u, of sample_env sample_book UINT32_MAX] by (auto simp: s m)
qed

text \<open>
  C19. When the market price rises (or is set for the first time), the stop bids that are
  released, in the order they wait in, are the longest prefix whose stop price is not below the
  new market price; the others wait on. A buy stop whose price the market has not reached is
  released, one it has passed is not.
\<close>

theorem stop_bids_released:
  assumes "stop_side_ok True (ob_stopBids b)" "\<forall>n \<in> set (ob_stopBids b). cp_price (nd_key n) \<noteq> 0"
    "ob_marketPrice b < p"
  shows "ob_pendingOrders (set_market_price p b) =
      ob_pendingOrders b @ map nd_val (filter (\<lambda>n. p \<le> cp_price (nd_key n)) (ob_stopBids b)) \<and>
    ob_stopBids (set_market_price p b) = filter (\<lambda>n. cp_price (nd_key n) < p) (ob_stopBids b) \<and>
    ob_stopAsks (set_market_price p b) = ob_stopAsks b"
proof -
  have p0: "p \<noteq> 0" using assms(3) by auto
  have lt: "cp_less (ComparablePrice True p) (nd_key n) \<longleftrightarrow> cp_price (nd_key n) < p"
    if "n \<in> set (ob_stopBids b)" for n
    using that assms(1,2) p0 by (auto simp: stop_side_ok_def cp_defs)
  have s: "sorted_wrt (\<lambda>m n. cp_price (nd_key n) \<le> cp_price (nd_key m)) (ob_stopBids b)"
    using assms(1,2) unfolding stop_side_ok_def mm_sorted_def
    by (auto elim!: sorted_wrt_mono_rel [rotated] simp: cp_defs not_less split: if_splits)
  have split: "takeWhile (\<lambda>n. p \<le> cp_price (nd_key n)) m = filter (\<lambda>n. p \<le> cp_price (nd_key n)) m \<and>
      dropWhile (\<lambda>n. p \<le> cp_price (nd_key n)) m = filter (\<lambda>n. cp_price (nd_key n) < p) m"
    if "sorted_wrt (\<lambda>m n. cp_price (nd_key n) \<le> cp_price (nd_key m)) m" for m :: tracker_map
    using that
  proof (induction m)
    case (Cons a m)
    show ?case
    proof (cases "p \<le> cp_price (nd_key a)")
      case False
      then have "\<forall>n \<in> set m. cp_price (nd_key n) < p" using Cons.prems by auto
      then have "filter (\<lambda>n. p \<le> cp_price (nd_key n)) m = []" "filter (\<lambda>n. cp_price (nd_key n) < p) m = m"
        by (auto simp: filter_empty_conv filter_id_conv not_le)
      then show ?thesis using False by simp
    qed (use Cons in auto)
  qed simp
  have "released (ComparablePrice True p) (ob_stopBids b) =
      takeWhile (\<lambda>n. p \<le> cp_price (nd_key n)) (ob_stopBids b)"
    "dropWhile (\<lambda>n. \<not> cp_less (ComparablePrice True p) (nd_key n)) (ob_stopBids b) =
      dropWhile (\<lambda>n. p \<le> cp_price (nd_key n)) (ob_stopBids b)"
    unfolding released_def using lt by (auto intro!: takeWhile_cong dropWhile_cong simp: not_less)
  then show ?thesis
    using assms(3) split [OF s] unfolding set_market_price_def check_stop_orders_def check_stop_loop_eq
    by (simp add: Let_def)
qed

theorem stop_bids_released_witness:
  "map tk_order (ob_pendingOrders (set_market_price 11 sample_book)) = [3]"
proof -
  have "stop_side_ok True (ob_stopBids sample_book)"
    using sample_book_ok by (simp add: book_ok_def stops_ok_def)
  then show ?thesis
    using stop_bids_released [of sample_book 11] by (simp add: sample_defs)
qed

text \<open>
  C20. Submitting the released stop orders ends: on a well-formed book the rounds come to a
  book with no order pending, however many orders each round releases, and every released
  order has been submitted: the quantity that waited is on the book or was traded (once on
  either side), and at most the quantity of immediate-or-cancel orders among the released
  ones is gone; none without such orders. The rounds queue valid executions only, and release
  only orders that waited.
\<close>

theorem pending_orders_run_out:
  assumes "book_ok env b" "book_qty b < 2 ^ 32"
  shows "\<exists>cbs d b'. submit_until_empty env b = Inr b' \<and> ob_pendingOrders b' = [] \<and>
    stop_mset b' \<subseteq># stop_mset b \<and> book_ok env b' \<and>
    book_qty b' + 2 * traded_qty cbs + d = book_qty b \<and>
    d \<le> (\<Sum>t \<in># stop_mset b - stop_mset b'.
           if immediate_or_cancel t then unat (tk_open_qty t) else 0) \<and>
    ((\<forall>t \<in># stop_mset b. \<not> immediate_or_cancel t) \<longrightarrow> d = 0) \<and>
    ob_callbacks b' = ob_callbacks b @ cbs \<and> (\<forall>cb \<in> set cbs. valid_fill env cb)"
proof -
  obtain cbs d b' where r: "submit_until_empty env b = Inr b'" "ob_pendingOrders b' = []"
    "rounds b cbs b'" "run_ok env b (book_qty b) cbs d b'"
    "d \<le> ioc_qty (stop_mset b - stop_mset b')"
    using submit_until_empty_ok [OF assms] by blast
  have "(\<forall>t \<in># stop_mset b. \<not> immediate_or_cancel t) \<longrightarrow> d = 0"
    using no_ioc_bound [OF r(5)] by (simp add: no_ioc_def)
  then show ?thesis
    using r unfolding rounds_def run_ok_def ioc_qty_def dropped_qty_def by blast
qed

text \<open>The released buy order of 30 finds the sell order at 10: nothing is lost.\<close>

theorem pending_orders_run_out_witness:
  "\<exists>cbs b'. submit_until_empty sample_env (set_market_price 11 sample_book) = Inr b' \<and>
    ob_pendingOrders b' = [] \<and> book_ok sample_env b' \<and> book_qty b' + 2 * traded_qty cbs = 180"
proof -
  let ?b = "set_market_price 11 sample_book"
  have ms: "stop_mset ?b = {#OrderTracker sample_env 3 oc_no_conditions#}"
    unfolding stop_mset_set_market_price by (simp add: stop_mset_def sample_book_def OrderBook_def)
  have q: "book_qty ?b = 180" using sample_book_qty by (simp add: book_qty_def)
  have s: "side_ok env ?b buy m = side_ok env sample_book buy m" for env buy m
    by (simp add: side_ok_def tk_priced_def)
  have "ob_stopBids ?b = [] \<and> ob_stopAsks ?b = []"
    by (simp add: set_market_price_def check_stop_orders_def sample_book_def OrderBook_def cp_defs)
  then have "stops_ok ?b"
    using sample_book_ok by (simp add: book_ok_def stops_ok_def stop_side_ok_def)
  then have "book_ok sample_env ?b" using sample_book_ok s by (simp add: book_ok_def)
  then show ?thesis
    using pending_orders_run_out [of sample_env ?b] q ms by auto
qed

end
