(* ===== verification/Depth_Level.thy ===== *)
theory Depth_Level
  imports Prelude
begin

text \<open>
  \<^verbatim>\<open>src/book/depth_level.h\<close> and \<^verbatim>\<open>src/book/depth_constants.h\<close>: one level of the depth, that is
  the number and the open quantity of the orders at one price.
\<close>

definition INVALID_LEVEL_PRICE :: price where
  "INVALID_LEVEL_PRICE = 0"

definition MARKET_ORDER_BID_SORT_PRICE :: price where
  "MARKET_ORDER_BID_SORT_PRICE = UINT32_MAX"

definition MARKET_ORDER_ASK_SORT_PRICE :: price where
  "MARKET_ORDER_ASK_SORT_PRICE = 0"

record depth_level =
  dl_price :: price
  dl_order_count :: "32 word"
  dl_aggregate_qty :: quantity
  dl_is_excess :: bool
  dl_last_change :: change_id

text \<open>
  The constructor leaves \<^verbatim>\<open>is_excess_\<close> and \<^verbatim>\<open>last_change_\<close> uninitialised. Every level the
  depth constructs is initialised by \<^verbatim>\<open>init\<close> before its \<^verbatim>\<open>is_excess_\<close> is read, and stamped
  before its \<^verbatim>\<open>last_change_\<close> is; the two fields start as false and zero here.
\<close>

definition DepthLevel :: depth_level where
  "DepthLevel = \<lparr>dl_price = INVALID_LEVEL_PRICE, dl_order_count = 0, dl_aggregate_qty = 0,
     dl_is_excess = False, dl_last_change = 0\<rparr>"

text \<open>The assignment operator: the target keeps its \<^verbatim>\<open>is_excess_\<close>.\<close>

definition level_assign :: "depth_level \<Rightarrow> depth_level \<Rightarrow> depth_level" where
  "level_assign lhs rhs =
     (let l = lhs\<lparr>dl_price := dl_price rhs, dl_order_count := dl_order_count rhs,
                  dl_aggregate_qty := dl_aggregate_qty rhs\<rparr>
      in if dl_price rhs \<noteq> INVALID_LEVEL_PRICE
         then l\<lparr>dl_last_change := dl_last_change rhs\<rparr> else l)"

definition level_init :: "price \<Rightarrow> bool \<Rightarrow> depth_level \<Rightarrow> depth_level" where
  "level_init price is_excess l =
     l\<lparr>dl_price := price, dl_order_count := 0, dl_aggregate_qty := 0, dl_is_excess := is_excess\<rparr>"

definition level_add_order :: "quantity \<Rightarrow> depth_level \<Rightarrow> depth_level" where
  "level_add_order qty l =
     l\<lparr>dl_order_count := dl_order_count l + 1, dl_aggregate_qty := dl_aggregate_qty l + qty\<rparr>"

text \<open>
  The third branch decrements the count before it finds the quantity too low; the level
  keeps the new count when it throws.
\<close>

definition level_close_order :: "quantity \<Rightarrow> depth_level \<Rightarrow> bool result \<times> depth_level" where
  "level_close_order qty l =
     (if dl_order_count l = 0 then
        (Inl (Runtime_error ''DepthLevel::close_order order count too low''), l)
      else if dl_order_count l = 1 then
        (Inr True, l\<lparr>dl_order_count := 0, dl_aggregate_qty := 0\<rparr>)
      else
        let l1 = l\<lparr>dl_order_count := dl_order_count l - 1\<rparr>
        in if qty \<le> dl_aggregate_qty l1
           then (Inr False, l1\<lparr>dl_aggregate_qty := dl_aggregate_qty l1 - qty\<rparr>)
           else (Inl (Runtime_error ''DepthLevel::close_order level quantity too low''), l1))"

definition level_set ::
  "price \<Rightarrow> quantity \<Rightarrow> 32 word \<Rightarrow> change_id \<Rightarrow> depth_level \<Rightarrow> depth_level" where
  "level_set price qty order_count last_change l =
     l\<lparr>dl_price := price, dl_aggregate_qty := qty, dl_order_count := order_count,
       dl_last_change := last_change\<rparr>"

definition level_increase_qty :: "quantity \<Rightarrow> depth_level \<Rightarrow> depth_level" where
  "level_increase_qty qty l = l\<lparr>dl_aggregate_qty := dl_aggregate_qty l + qty\<rparr>"

definition level_decrease_qty :: "quantity \<Rightarrow> depth_level \<Rightarrow> depth_level" where
  "level_decrease_qty qty l = l\<lparr>dl_aggregate_qty := dl_aggregate_qty l - qty\<rparr>"

definition level_last_change :: "change_id \<Rightarrow> depth_level \<Rightarrow> depth_level" where
  "level_last_change c l = l\<lparr>dl_last_change := c\<rparr>"

definition level_changed_since :: "change_id \<Rightarrow> depth_level \<Rightarrow> bool" where
  "level_changed_since last_published_change l = (last_published_change < dl_last_change l)"

lemmas level_defs = level_assign_def level_init_def level_add_order_def level_set_def
  level_increase_qty_def level_decrease_qty_def level_last_change_def

section \<open>The aggregate of a level\<close>

text \<open>What a level says about the market: its price, the number of its orders, their quantity.\<close>

type_synonym aggregate = "price \<times> 32 word \<times> quantity"

definition level_core :: "depth_level \<Rightarrow> aggregate" where
  "level_core l = (dl_price l, dl_order_count l, dl_aggregate_qty l)"

definition blank :: aggregate where
  "blank = (INVALID_LEVEL_PRICE, 0, 0)"

lemma level_core_simps [depth_simps, simp]:
  "level_core (level_assign l r) = level_core r"
  "level_core (level_init p e l) = (p, 0, 0)"
  "level_core (level_last_change c l) = level_core l"
  "level_core (l\<lparr>dl_last_change := c\<rparr>) = level_core l"
  "level_core (l\<lparr>dl_is_excess := e\<rparr>) = level_core l"
  "dl_price (level_last_change c l) = dl_price l"
  "dl_price (level_assign l r) = dl_price r"
  "dl_price (level_init p e l) = p"
  "dl_is_excess (level_last_change c l) = dl_is_excess l"
  "dl_is_excess (level_assign l r) = dl_is_excess l"
  "dl_is_excess (level_init p e l) = e"
  "dl_price (level_add_order q l) = dl_price l"
  "dl_is_excess (level_add_order q l) = dl_is_excess l"
  by (simp_all add: level_core_def level_defs Let_def)

lemma level_core_price: "dl_price l = fst (level_core l)"
  by (simp add: level_core_def)

text \<open>A level a closing order leaves, and when the closing fails.\<close>

lemma level_close_order_frame:
  assumes "level_close_order q l = (r, l')"
  shows "dl_price l' = dl_price l" "dl_is_excess l' = dl_is_excess l"
    "dl_last_change l' = dl_last_change l"
  using assms by (auto simp: level_close_order_def Let_def split: if_splits)

lemma level_close_order_ok:
  assumes "dl_order_count l \<noteq> 0" "dl_order_count l \<noteq> 1 \<Longrightarrow> q \<le> dl_aggregate_qty l"
  shows "level_close_order q l =
    (Inr (dl_order_count l = 1),
     if dl_order_count l = 1 then l\<lparr>dl_order_count := 0, dl_aggregate_qty := 0\<rparr>
     else l\<lparr>dl_order_count := dl_order_count l - 1, dl_aggregate_qty := dl_aggregate_qty l - q\<rparr>)"
  using assms by (auto simp: level_close_order_def Let_def)

end
