(* ===== verification/Depth.thy ===== *)
theory Depth
  imports Depth_Level Containers
begin

text \<open>
  \<^verbatim>\<open>src/book/depth.h\<close>: the limit orders of a book aggregated by price, the best \<open>SIZE\<close>
  levels of either side in an array, those beyond it in two maps. The array holds the bids
  in its first half and the asks in its second. A pointer to a level is \<open>Slot i\<close> for the
  array's element \<open>i\<close>, or \<open>Excess p\<close> for the element of the side's map at the price \<open>p\<close>.
\<close>

section \<open>The state\<close>

type_synonym level_map = "(price, depth_level) omap"

record depth =
  dp_SIZE :: nat
  dp_levels :: "depth_level list"
  dp_last_change :: change_id
  dp_last_published_change :: change_id
  dp_ignore_bid_fill_qty :: quantity
  dp_ignore_ask_fill_qty :: quantity
  dp_excess_bid_levels :: level_map
  dp_excess_ask_levels :: level_map

definition Depth :: "nat \<Rightarrow> depth" where
  "Depth SIZE =
     \<lparr>dp_SIZE = SIZE,
      dp_levels = replicate (SIZE * 2)
        \<lparr>dl_price = 0, dl_order_count = 0, dl_aggregate_qty = 0, dl_is_excess = False,
         dl_last_change = 0\<rparr>,
      dp_last_change = 0, dp_last_published_change = 0, dp_ignore_bid_fill_qty = 0,
      dp_ignore_ask_fill_qty = 0, dp_excess_bid_levels = [], dp_excess_ask_levels = []\<rparr>"

datatype level_ref = Slot nat | Excess price

definition bids :: "depth \<Rightarrow> nat" where "bids d = 0"
definition asks :: "depth \<Rightarrow> nat" where "asks d = dp_SIZE d"
definition last_bid_level :: "depth \<Rightarrow> nat" where "last_bid_level d = dp_SIZE d - 1"
definition last_ask_level :: "depth \<Rightarrow> nat" where "last_ask_level d = dp_SIZE d * 2 - 1"
definition depth_end :: "depth \<Rightarrow> nat" where "depth_end d = dp_SIZE d * 2"

text \<open>The ordering and the content of a side's map.\<close>

definition excess_lt :: "bool \<Rightarrow> price \<Rightarrow> price \<Rightarrow> bool" where
  "excess_lt is_bid a b = (if is_bid then b < a else a < b)"

definition excess_levels :: "bool \<Rightarrow> depth \<Rightarrow> level_map" where
  "excess_levels is_bid d = (if is_bid then dp_excess_bid_levels d else dp_excess_ask_levels d)"

definition set_excess :: "bool \<Rightarrow> level_map \<Rightarrow> depth \<Rightarrow> depth" where
  "set_excess is_bid m d =
     (if is_bid then d\<lparr>dp_excess_bid_levels := m\<rparr> else d\<lparr>dp_excess_ask_levels := m\<rparr>)"

definition set_slot :: "nat \<Rightarrow> depth_level \<Rightarrow> depth \<Rightarrow> depth" where
  "set_slot i l d = d\<lparr>dp_levels := (dp_levels d)[i := l]\<rparr>"

definition get_level :: "bool \<Rightarrow> level_ref \<Rightarrow> depth \<Rightarrow> depth_level result" where
  "get_level is_bid r d =
     (case r of
        Slot i \<Rightarrow> if i < length (dp_levels d) then Inr (dp_levels d ! i) else Inl Out_of_bounds
      | Excess p \<Rightarrow> (case map_of (excess_levels is_bid d) p of
                      Some l \<Rightarrow> Inr l | None \<Rightarrow> Inl Invalid_iterator))"

definition put_level :: "bool \<Rightarrow> level_ref \<Rightarrow> depth_level \<Rightarrow> depth \<Rightarrow> depth" where
  "put_level is_bid r l d =
     (case r of
        Slot i \<Rightarrow> set_slot i l d
      | Excess p \<Rightarrow> set_excess is_bid (om_put p l (excess_levels is_bid d)) d)"

section \<open>Moving levels\<close>

text \<open>
  The loop of \<^verbatim>\<open>insert_level_before\<close>, from \<^verbatim>\<open>current_level\<close> \<open>= k - 1\<close> down to \<^verbatim>\<open>level\<close>.
\<close>

fun shift_down :: "change_id \<Rightarrow> nat \<Rightarrow> nat \<Rightarrow> depth_level list \<Rightarrow> depth_level list" where
  "shift_down change level 0 ls = ls"
| "shift_down change level (Suc current) ls =
     (if level \<le> current then
        let l = level_assign (ls ! Suc current) (ls ! current);
            l = (if dl_price (ls ! current) \<noteq> INVALID_LEVEL_PRICE then level_last_change change l else l)
        in shift_down change level current (ls[Suc current := l])
      else ls)"

definition insert_level_before :: "nat \<Rightarrow> bool \<Rightarrow> price \<Rightarrow> depth \<Rightarrow> depth" where
  "insert_level_before level is_bid price d =
     (let last_side_level = (if is_bid then last_bid_level d else last_ask_level d);
          lst = dp_levels d ! last_side_level;
          d1 = (if dl_price lst \<noteq> INVALID_LEVEL_PRICE then
                  let excess_level = level_assign (level_init 0 True DepthLevel) lst
                  in set_excess is_bid
                       (om_insert (excess_lt is_bid) (dl_price lst) excess_level (excess_levels is_bid d)) d
                else d);
          d2 = d1\<lparr>dp_last_change := dp_last_change d1 + 1\<rparr>;
          d3 = d2\<lparr>dp_levels := shift_down (dp_last_change d2) level last_side_level (dp_levels d2)\<rparr>
      in set_slot level (level_init price False (dp_levels d3 ! level)) d3)"

text \<open>
  The loop of \<^verbatim>\<open>erase_level\<close>: \<open>n\<close> is the distance from \<^verbatim>\<open>current_level\<close> to the last level.
\<close>

fun shift_up :: "change_id \<Rightarrow> nat \<Rightarrow> nat \<Rightarrow> nat \<Rightarrow> depth_level list \<Rightarrow> depth_level list" where
  "shift_up change level current 0 ls = ls"
| "shift_up change level current (Suc n) ls =
     shift_up change level (Suc current) n
       (if dl_price (ls ! current) \<noteq> INVALID_LEVEL_PRICE \<or> current = level
        then ls[current := level_last_change change (level_assign (ls ! current) (ls ! Suc current))]
        else ls)"

definition restore_last :: "bool \<Rightarrow> nat \<Rightarrow> depth \<Rightarrow> depth" where
  "restore_last is_bid last_side_level d =
     (let lst = dp_levels d ! last_side_level;
          d1 = (case excess_levels is_bid d of
                  (p, best) # rest \<Rightarrow>
                    set_excess is_bid rest (set_slot last_side_level (level_assign lst best) d)
                | [] \<Rightarrow>
                    set_slot last_side_level
                      (level_last_change (dp_last_change d) (level_init INVALID_LEVEL_PRICE False lst)) d)
      in set_slot last_side_level
           (level_last_change (dp_last_change d1) (dp_levels d1 ! last_side_level)) d1)"

definition erase_level :: "level_ref \<Rightarrow> bool \<Rightarrow> depth \<Rightarrow> depth result" where
  "erase_level level is_bid d =
     rbind (get_level is_bid level d) (\<lambda>l.
       if dl_is_excess l then
         Inr (set_excess is_bid (om_erase (dl_price l) (excess_levels is_bid d)) d)
       else
         case level of
           Excess p \<Rightarrow> Inl Invalid_iterator
         | Slot i \<Rightarrow>
             let last_side_level = (if is_bid then last_bid_level d else last_ask_level d);
                 d1 = d\<lparr>dp_last_change := dp_last_change d + 1\<rparr>;
                 d2 = d1\<lparr>dp_levels := shift_up (dp_last_change d1) i i (last_side_level - i) (dp_levels d1)\<rparr>
             in Inr (if i = last_side_level \<or>
                        dl_price (dp_levels d2 ! last_side_level) \<noteq> INVALID_LEVEL_PRICE
                     then restore_last is_bid last_side_level d2 else d2))"

section \<open>Finding a level\<close>

text \<open>The search through the array; \<open>n\<close> slots are left before \<^verbatim>\<open>past_end\<close>.\<close>

fun find_visible :: "price \<Rightarrow> bool \<Rightarrow> bool \<Rightarrow> nat \<Rightarrow> nat \<Rightarrow> depth \<Rightarrow> nat \<times> depth" where
  "find_visible price is_bid should_create level 0 d = (level, d)"
| "find_visible price is_bid should_create level (Suc n) d =
     (let l = dp_levels d ! level
      in if dl_price l = price then (level, d)
         else if should_create \<and> dl_price l = INVALID_LEVEL_PRICE then
           (level, set_slot level (level_init price False l) d)
         else if is_bid \<and> should_create \<and> dl_price l < price then
           (level, insert_level_before level is_bid price d)
         else if \<not> is_bid \<and> should_create \<and> price < dl_price l then
           (level, insert_level_before level is_bid price d)
         else find_visible price is_bid should_create (Suc level) n d)"

text \<open>
  A level that is neither found nor created is the pointer \<^verbatim>\<open>past_end\<close>, which is not null:
  for a bid it points to the first ask.
\<close>

definition find_level :: "price \<Rightarrow> bool \<Rightarrow> bool \<Rightarrow> depth \<Rightarrow> level_ref \<times> depth" where
  "find_level price is_bid should_create d =
     (let start = (if is_bid then bids d else asks d);
          past_end = (if is_bid then asks d else depth_end d);
          (level, d1) = find_visible price is_bid should_create start (past_end - start) d
      in if level = past_end then
           (case map_of (excess_levels is_bid d1) price of
              Some l \<Rightarrow> (Excess price, d1)
            | None \<Rightarrow>
                if should_create then
                  (Excess price,
                   set_excess is_bid
                     (om_insert (excess_lt is_bid) price (level_init price True DepthLevel)
                        (excess_levels is_bid d1)) d1)
                else (Slot past_end, d1))
         else (Slot level, d1))"

section \<open>The operations\<close>

text \<open>
  An operation that throws keeps what it has done: it returns its result or the exception,
  and the depth as it is then.
\<close>

type_synonym 'a depth_result = "'a result \<times> depth"

definition depth_add_order :: "price \<Rightarrow> quantity \<Rightarrow> bool \<Rightarrow> depth \<Rightarrow> unit depth_result" where
  "depth_add_order price qty is_bid d =
     (let last_change_copy = dp_last_change d;
          (level, d1) = find_level price is_bid True d
      in case get_level is_bid level d1 of
           Inl e \<Rightarrow> (Inl e, d1)
         | Inr l \<Rightarrow>
             let l1 = level_add_order qty l
             in if \<not> dl_is_excess l1 then
                  (Inr (), put_level is_bid level (level_last_change (last_change_copy + 1) l1)
                             (d1\<lparr>dp_last_change := last_change_copy + 1\<rparr>))
                else (Inr (), put_level is_bid level l1 d1))"

definition ignore_fill_qty :: "quantity \<Rightarrow> bool \<Rightarrow> depth \<Rightarrow> unit depth_result" where
  "ignore_fill_qty qty is_bid d =
     (if is_bid then
        (if dp_ignore_bid_fill_qty d \<noteq> 0
         then (Inl (Runtime_error ''Unexpected ignore_bid_fill_qty_''), d)
         else (Inr (), d\<lparr>dp_ignore_bid_fill_qty := qty\<rparr>))
      else
        (if dp_ignore_ask_fill_qty d \<noteq> 0
         then (Inl (Runtime_error ''Unexpected ignore_ask_fill_qty_''), d)
         else (Inr (), d\<lparr>dp_ignore_ask_fill_qty := qty\<rparr>)))"

definition depth_close_order :: "price \<Rightarrow> quantity \<Rightarrow> bool \<Rightarrow> depth \<Rightarrow> bool depth_result" where
  "depth_close_order price open_qty is_bid d =
     (let (level, d1) = find_level price is_bid False d
      in case get_level is_bid level d1 of
           Inl e \<Rightarrow> (Inl e, d1)
         | Inr l \<Rightarrow>
             (case level_close_order open_qty l of
                (Inl e, l1) \<Rightarrow> (Inl e, put_level is_bid level l1 d1)
              | (Inr True, l1) \<Rightarrow>
                  (let d2 = put_level is_bid level l1 d1
                   in case erase_level level is_bid d2 of
                        Inl e \<Rightarrow> (Inl e, d2)
                      | Inr d3 \<Rightarrow> (Inr True, d3))
              | (Inr False, l1) \<Rightarrow>
                  (Inr False, put_level is_bid level (level_last_change (dp_last_change d1 + 1) l1)
                                (d1\<lparr>dp_last_change := dp_last_change d1 + 1\<rparr>))))"

definition change_qty_order :: "price \<Rightarrow> int32 \<Rightarrow> bool \<Rightarrow> depth \<Rightarrow> unit depth_result" where
  "change_qty_order price qty_delta is_bid d =
     (let (level, d1) = find_level price is_bid False d
      in if qty_delta \<noteq> 0 then
           (case get_level is_bid level d1 of
              Inl e \<Rightarrow> (Inl e, d1)
            | Inr l \<Rightarrow>
                let l1 = (if 0 < sint qty_delta then level_increase_qty qty_delta l
                          else level_decrease_qty (- qty_delta) l)
                in (Inr (), put_level is_bid level (level_last_change (dp_last_change d1 + 1) l1)
                              (d1\<lparr>dp_last_change := dp_last_change d1 + 1\<rparr>)))
         else (Inr (), d1))"

definition forget :: "'a depth_result \<Rightarrow> unit depth_result" where
  "forget r = (case r of (Inl e, d) \<Rightarrow> (Inl e, d) | (Inr x, d) \<Rightarrow> (Inr (), d))"

definition fill_order :: "price \<Rightarrow> quantity \<Rightarrow> bool \<Rightarrow> bool \<Rightarrow> depth \<Rightarrow> unit depth_result" where
  "fill_order price fill_qty filled is_bid d =
     (if is_bid \<and> dp_ignore_bid_fill_qty d \<noteq> 0 then
        (Inr (), d\<lparr>dp_ignore_bid_fill_qty := dp_ignore_bid_fill_qty d - fill_qty\<rparr>)
      else if \<not> is_bid \<and> dp_ignore_ask_fill_qty d \<noteq> 0 then
        (Inr (), d\<lparr>dp_ignore_ask_fill_qty := dp_ignore_ask_fill_qty d - fill_qty\<rparr>)
      else if filled then forget (depth_close_order price fill_qty is_bid d)
      else change_qty_order price (- fill_qty) is_bid d)"

definition replace_order ::
  "price \<Rightarrow> price \<Rightarrow> quantity \<Rightarrow> quantity \<Rightarrow> bool \<Rightarrow> depth \<Rightarrow> bool depth_result" where
  "replace_order current_price new_price current_qty new_qty is_bid d =
     (if current_price = new_price then
        (case change_qty_order current_price (new_qty - current_qty) is_bid d of
           (Inl e, d1) \<Rightarrow> (Inl e, d1) | (Inr x, d1) \<Rightarrow> (Inr False, d1))
      else
        (case depth_add_order new_price new_qty is_bid d of
           (Inl e, d1) \<Rightarrow> (Inl e, d1)
         | (Inr x, d1) \<Rightarrow> depth_close_order current_price current_qty is_bid d1))"

text \<open>The result and the value of the output parameter.\<close>

definition needs_bid_restoration :: "depth \<Rightarrow> (bool \<times> price) result" where
  "needs_bid_restoration d =
     (if 1 < dp_SIZE d then
        (let restoration_price = dl_price (dp_levels d ! (last_bid_level d - 1))
         in Inr (restoration_price \<noteq> INVALID_LEVEL_PRICE, restoration_price))
      else if dp_SIZE d = 1 then Inr (True, MARKET_ORDER_BID_SORT_PRICE)
      else Inl (Runtime_error ''Depth size less than one not allowed''))"

definition needs_ask_restoration :: "depth \<Rightarrow> (bool \<times> price) result" where
  "needs_ask_restoration d =
     (if 1 < dp_SIZE d then
        (let restoration_price = dl_price (dp_levels d ! (last_ask_level d - 1))
         in Inr (restoration_price \<noteq> INVALID_LEVEL_PRICE, restoration_price))
      else if dp_SIZE d = 1 then Inr (True, MARKET_ORDER_ASK_SORT_PRICE)
      else Inl (Runtime_error ''Depth size less than one not allowed''))"

definition changed :: "depth \<Rightarrow> bool" where
  "changed d = (dp_last_published_change d < dp_last_change d)"

definition published :: "depth \<Rightarrow> depth" where
  "published d = d\<lparr>dp_last_published_change := dp_last_change d\<rparr>"

end
