(* ===== verification/Depth_Refinement.thy ===== *)
theory Depth_Refinement
  imports Depth
begin

text \<open>
  What the depth promises, and that it keeps it: a side of the market is a list of levels in
  strict price order, of which the array shows the best \<open>SIZE\<close> and the map holds the rest.
  Every operation on the array and the map refines an operation on that list.
\<close>

section \<open>The abstract side\<close>

type_synonym levels = "aggregate list"

abbreviation agg_price :: "aggregate \<Rightarrow> price" where "agg_price \<equiv> fst"

definition levels_sorted :: "bool \<Rightarrow> levels \<Rightarrow> bool" where
  "levels_sorted s L = sorted_wrt (\<lambda>a b. excess_lt s (agg_price a) (agg_price b)) L"

definition levels_ok :: "bool \<Rightarrow> levels \<Rightarrow> bool" where
  "levels_ok s L \<longleftrightarrow> levels_sorted s L \<and> (\<forall>a \<in> set L. agg_price a \<noteq> INVALID_LEVEL_PRICE)"

text \<open>The row of the array that shows the side: the best levels, then blank ones.\<close>

definition row :: "nat \<Rightarrow> levels \<Rightarrow> levels" where
  "row sz L = take sz L @ replicate (sz - length L) blank"

text \<open>The abstract operations.\<close>

fun add_level :: "bool \<Rightarrow> price \<Rightarrow> quantity \<Rightarrow> levels \<Rightarrow> levels" where
  "add_level s p q [] = [(p, 1, q)]"
| "add_level s p q ((p', n, a) # L) =
     (if p' = p then (p, n + 1, a + q) # L
      else if excess_lt s p' p then (p', n, a) # add_level s p q L
      else (p, 1, q) # (p', n, a) # L)"

definition close_level :: "price \<Rightarrow> quantity \<Rightarrow> levels \<Rightarrow> levels" where
  "close_level p q L =
     concat (map (\<lambda>(p', n, a). if p' \<noteq> p then [(p', n, a)]
                               else if n = 1 then [] else [(p', n - 1, a - q)]) L)"

definition change_level :: "price \<Rightarrow> int32 \<Rightarrow> levels \<Rightarrow> levels" where
  "change_level p delta L = map (\<lambda>(p', n, a). if p' = p then (p', n, a + delta) else (p', n, a)) L"

section \<open>The orders of the two maps\<close>

lemma excess_lt_simps [simp]:
  "excess_lt True a b = (b < a)" "excess_lt False a b = (a < b)"
  by (simp_all add: excess_lt_def)

interpretation excess: container_order "excess_lt s" "\<lambda>_. True" for s
  by unfold_locales (cases s; auto)+

lemma excess_lt_total: "a \<noteq> b \<Longrightarrow> excess_lt s a b \<or> excess_lt s b a"
  by (cases s) auto

lemma excess_lt_irrefl [simp]: "\<not> excess_lt s a a"
  by (cases s) auto

section \<open>Moving levels\<close>

definition cores :: "depth_level list \<Rightarrow> levels" where
  "cores ls = map level_core ls"

definition flags :: "depth_level list \<Rightarrow> bool list" where
  "flags ls = map dl_is_excess ls"

lemma cores_simps [simp]:
  "length (cores ls) = length ls" "cores (ls[i := l]) = (cores ls)[i := level_core l]"
  "i < length ls \<Longrightarrow> cores ls ! i = level_core (ls ! i)"
  by (simp_all add: cores_def map_update)

lemma flags_simps [simp]:
  "length (flags ls) = length ls" "flags (ls[i := l]) = (flags ls)[i := dl_is_excess l]"
  "i < length ls \<Longrightarrow> flags ls ! i = dl_is_excess (ls ! i)"
  by (simp_all add: flags_def map_update)

lemma flags_keep: "i < length ls \<Longrightarrow> dl_is_excess l = dl_is_excess (ls ! i) \<Longrightarrow> flags (ls[i := l]) = flags ls"
  by (simp add: flags_def map_update list_update_same_conv)

lemma length_shift_down [simp]: "length (shift_down ch lv k ls) = length ls"
  by (induction ch lv k ls rule: shift_down.induct) (simp_all add: Let_def)

lemma flags_shift_down: "k < length ls \<Longrightarrow> flags (shift_down ch lv k ls) = flags ls"
proof (induction ch lv k ls rule: shift_down.induct)
  case (1 change level ls)
  then show ?case by simp
next
  case (2 change level current ls)
  then show ?case by (auto simp: Let_def flags_def map_update list_update_same_conv)
qed

lemma cores_shift_down:
  "k < length ls \<Longrightarrow> lv \<le> k \<Longrightarrow>
     cores (shift_down ch lv k ls) =
       take (Suc lv) (cores ls) @ drop lv (take k (cores ls)) @ drop (Suc k) (cores ls)"
proof (induction ch lv k ls rule: shift_down.induct)
  case (1 change level ls)
  then show ?case by simp
next
  case (2 change level current ls)
  let ?c = "cores ls"
  show ?case
  proof (cases "level \<le> current")
    case True
    define l where "l = (if dl_price (ls ! current) \<noteq> INVALID_LEVEL_PRICE
      then level_last_change change (level_assign (ls ! Suc current) (ls ! current))
      else level_assign (ls ! Suc current) (ls ! current))"
    have core: "level_core l = ?c ! current" using 2 by (simp add: l_def)
    have step: "shift_down change level (Suc current) ls =
        shift_down change level current (ls[Suc current := l])"
      using True by (simp add: l_def Let_def)
    have "cores (shift_down change level current (ls[Suc current := l])) =
        take (Suc level) (cores (ls[Suc current := l])) @
        drop level (take current (cores (ls[Suc current := l]))) @
        drop (Suc current) (cores (ls[Suc current := l]))"
      using True 2 unfolding l_def by (intro "2.IH") simp_all
    also have "\<dots> = take (Suc level) ?c @ drop level (take current ?c) @ ?c ! current # drop (Suc (Suc current)) ?c"
      using True 2(2) core by (simp add: drop_update_swap Cons_nth_drop_Suc [symmetric])
    also have "drop level (take current ?c) @ ?c ! current # drop (Suc (Suc current)) ?c =
        drop level (take (Suc current) ?c) @ drop (Suc (Suc current)) ?c"
      using True 2(2) by (simp add: take_Suc_conv_app_nth)
    finally show ?thesis using step by simp
  next
    case False
    with 2 have "level = Suc current" by simp
    then show ?thesis by simp
  qed
qed

lemma length_shift_up [simp]: "length (shift_up ch lv cur n ls) = length ls"
  by (induction ch lv cur n ls rule: shift_up.induct) simp_all

lemma flags_shift_up: "cur + n < length ls \<Longrightarrow> flags (shift_up ch lv cur n ls) = flags ls"
proof (induction ch lv cur n ls rule: shift_up.induct)
  case (1 change level current ls)
  then show ?case by simp
next
  case (2 change level current n ls)
  then show ?case by (auto simp: flags_def map_update list_update_same_conv)
qed

text \<open>A blank level is followed by blank levels only, so that skipping it changes nothing.\<close>

lemma cores_shift_up:
  "cur + n < length ls \<Longrightarrow>
     \<forall>j. cur \<le> j \<and> j < cur + n \<and> agg_price (cores ls ! j) = INVALID_LEVEL_PRICE \<and> j \<noteq> lv
        \<longrightarrow> cores ls ! Suc j = cores ls ! j \<Longrightarrow>
     cores (shift_up ch lv cur n ls) =
       take cur (cores ls) @ take n (drop (Suc cur) (cores ls)) @ drop (cur + n) (cores ls)"
proof (induction ch lv cur n ls rule: shift_up.induct)
  case (1 change level current ls)
  then show ?case by simp
next
  case (2 ch lv cur n ls)
  let ?c = "cores ls"
  define ls1 where "ls1 = (if dl_price (ls ! cur) \<noteq> INVALID_LEVEL_PRICE \<or> cur = lv
        then ls[cur := level_last_change ch (level_assign (ls ! cur) (ls ! Suc cur))] else ls)"
  have c1: "cores ls1 = ?c[cur := ?c ! Suc cur]"
  proof (cases "dl_price (ls ! cur) \<noteq> INVALID_LEVEL_PRICE \<or> cur = lv")
    case True
    then show ?thesis using 2(2) by (simp add: ls1_def)
  next
    case False
    then have "?c ! Suc cur = ?c ! cur"
      using 2(2) 2(3)[rule_format, of cur] by (simp add: level_core_price)
    then show ?thesis using False by (simp add: ls1_def)
  qed
  have len: "length ls1 = length ls" by (simp add: ls1_def)
  have "cores (shift_up ch lv (Suc cur) n ls1) =
     take (Suc cur) (cores ls1) @ take n (drop (Suc (Suc cur)) (cores ls1)) @ drop (Suc cur + n) (cores ls1)"
    unfolding ls1_def
  proof (rule "2.IH")
    show "Suc cur + n < length (if dl_price (ls ! cur) \<noteq> INVALID_LEVEL_PRICE \<or> cur = lv
        then ls[cur := level_last_change ch (level_assign (ls ! cur) (ls ! Suc cur))] else ls)"
      using 2(2) by simp
    show "\<forall>j. Suc cur \<le> j \<and> j < Suc cur + n \<and>
        agg_price (cores (if dl_price (ls ! cur) \<noteq> INVALID_LEVEL_PRICE \<or> cur = lv
          then ls[cur := level_last_change ch (level_assign (ls ! cur) (ls ! Suc cur))] else ls) ! j) =
          INVALID_LEVEL_PRICE \<and> j \<noteq> lv \<longrightarrow>
        cores (if dl_price (ls ! cur) \<noteq> INVALID_LEVEL_PRICE \<or> cur = lv
          then ls[cur := level_last_change ch (level_assign (ls ! cur) (ls ! Suc cur))] else ls) ! Suc j =
        cores (if dl_price (ls ! cur) \<noteq> INVALID_LEVEL_PRICE \<or> cur = lv
          then ls[cur := level_last_change ch (level_assign (ls ! cur) (ls ! Suc cur))] else ls) ! j"
      unfolding ls1_def [symmetric] c1 using 2(3) by (auto simp: nth_list_update)
  qed
  also have "take (Suc cur) (cores ls1) = take cur ?c @ [?c ! Suc cur]"
    using 2(2) unfolding c1 by (simp add: take_Suc_conv_app_nth)
  also have "take n (drop (Suc (Suc cur)) (cores ls1)) = take n (drop (Suc (Suc cur)) ?c)"
    unfolding c1 by simp
  also have "drop (Suc cur + n) (cores ls1) = drop (Suc cur + n) ?c"
    unfolding c1 by simp
  finally show ?case
    using 2(2) unfolding ls1_def [symmetric]
    by (simp add: ls1_def Cons_nth_drop_Suc [symmetric, of "Suc cur"])
qed

section \<open>The representation of a side\<close>

definition excess_repr :: "level_map \<Rightarrow> levels \<Rightarrow> bool" where
  "excess_repr m X \<longleftrightarrow> map (\<lambda>(k, l). level_core l) m = X \<and>
     (\<forall>(k, l) \<in> set m. k = dl_price l \<and> dl_is_excess l)"

text \<open>
  \<open>window s d pre L post m\<close>: the side \<open>s\<close> of \<open>d\<close> represents \<open>L\<close>; what belongs to the other side
  are the parts \<open>pre\<close> and \<open>post\<close> of the array and the map \<open>m\<close>.
\<close>

definition window ::
  "bool \<Rightarrow> depth \<Rightarrow> levels \<Rightarrow> levels \<Rightarrow> levels \<Rightarrow> level_map \<Rightarrow> bool" where
  "window s d pre L post m \<longleftrightarrow>
     0 < dp_SIZE d \<and> cores (dp_levels d) = pre @ row (dp_SIZE d) L @ post \<and>
     length pre = (if s then 0 else dp_SIZE d) \<and> length post = (if s then dp_SIZE d else 0) \<and>
     (\<forall>f \<in> set (flags (dp_levels d)). \<not> f) \<and>
     excess_repr (excess_levels s d) (drop (dp_SIZE d) L) \<and> excess_levels (\<not> s) d = m \<and>
     levels_ok s L"

lemma length_row [simp]: "length (row sz L) = sz"
  by (simp add: row_def)

lemma row_nth: "i < sz \<Longrightarrow> row sz L ! i = (if i < length L then L ! i else blank)"
  by (simp add: row_def nth_append)

lemma row_update: "i < sz \<Longrightarrow> i < length L \<Longrightarrow> row sz (L[i := a]) = (row sz L)[i := a]"
  by (simp add: row_def list_update_append take_update_swap)

lemma excess_levels_sel [simp]:
  "excess_levels s (set_excess s m d) = m" "excess_levels (\<not> s) (set_excess s m d) = excess_levels (\<not> s) d"
  "dp_levels (set_excess s m d) = dp_levels d" "dp_SIZE (set_excess s m d) = dp_SIZE d"
  "dp_last_change (set_excess s m d) = dp_last_change d"
  "excess_levels s (set_slot i l d) = excess_levels s d" "dp_SIZE (set_slot i l d) = dp_SIZE d"
  "dp_levels (set_slot i l d) = (dp_levels d)[i := l]"
  "dp_last_change (set_slot i l d) = dp_last_change d"
  "excess_levels s (d\<lparr>dp_last_change := c\<rparr>) = excess_levels s d"
  "excess_levels s (d\<lparr>dp_levels := ls\<rparr>) = excess_levels s d"
  by (simp_all add: excess_levels_def set_excess_def set_slot_def)

lemma window_last_change [simp]: "window s (d\<lparr>dp_last_change := c\<rparr>) = window s d"
  by (rule ext)+ (simp add: window_def)

lemma window_length: "window s d pre L post m \<Longrightarrow> length (dp_levels d) = dp_SIZE d * 2"
proof -
  assume "window s d pre L post m"
  then have "length (cores (dp_levels d)) = length pre + dp_SIZE d + length post"
    "length pre + length post = dp_SIZE d" by (auto simp: window_def)
  then show ?thesis by simp
qed

lemma window_slot:
  assumes "window s d pre L post m" "i < dp_SIZE d"
  shows "length pre + i < length (dp_levels d)"
    "level_core (dp_levels d ! (length pre + i)) = (if i < length L then L ! i else blank)"
    "dl_price (dp_levels d ! (length pre + i)) = (if i < length L then agg_price (L ! i) else INVALID_LEVEL_PRICE)"
    "\<not> dl_is_excess (dp_levels d ! (length pre + i))"
proof -
  have len: "length (cores (dp_levels d)) = length pre + dp_SIZE d + length post"
    using assms(1) by (simp add: window_def)
  then show lt: "length pre + i < length (dp_levels d)" using assms(2) by simp
  have "cores (dp_levels d) ! (length pre + i) = row (dp_SIZE d) L ! i"
    using assms by (simp add: window_def nth_append)
  then show c: "level_core (dp_levels d ! (length pre + i)) = (if i < length L then L ! i else blank)"
    using lt assms(2) by (simp add: row_nth)
  show "dl_price (dp_levels d ! (length pre + i)) =
      (if i < length L then agg_price (L ! i) else INVALID_LEVEL_PRICE)"
    using c by (simp add: level_core_price blank_def)
  have "flags (dp_levels d) ! (length pre + i) \<in> set (flags (dp_levels d))"
    using lt by (intro nth_mem) simp
  then show "\<not> dl_is_excess (dp_levels d ! (length pre + i))"
    using assms(1) lt unfolding window_def by (metis flags_simps(3))
qed

lemma window_set_slot:
  assumes "window s d pre L post m" "i < dp_SIZE d" "\<not> dl_is_excess l" "levels_ok s L'"
    "row (dp_SIZE d) L' = (row (dp_SIZE d) L)[i := level_core l]"
    "drop (dp_SIZE d) L' = drop (dp_SIZE d) L"
  shows "window s (set_slot (length pre + i) l d) pre L' post m"
proof -
  have "cores ((dp_levels d)[length pre + i := l]) = pre @ row (dp_SIZE d) L' @ post"
    using assms by (simp add: window_def list_update_append)
  moreover have "set (flags ((dp_levels d)[length pre + i := l])) \<subseteq> insert False (set (flags (dp_levels d)))"
    using assms(3) set_update_subset_insert [of "flags (dp_levels d)" "length pre + i" False]
    by simp
  ultimately show ?thesis using assms(1,4,6) unfolding window_def by auto
qed

subsection \<open>The excess map\<close>

lemma excess_keys: "excess_repr m X \<Longrightarrow> map fst m = map agg_price X"
  unfolding excess_repr_def by (auto simp: level_core_price split: prod.splits)

lemma excess_repr_Cons [simp]:
  "excess_repr ((k, l) # m) X \<longleftrightarrow>
     (\<exists>X'. X = level_core l # X' \<and> k = dl_price l \<and> dl_is_excess l \<and> excess_repr m X')"
  by (auto simp: excess_repr_def)

lemma excess_repr_Nil [simp]: "excess_repr [] X \<longleftrightarrow> X = []"
  by (auto simp: excess_repr_def)

lemma excess_repr_append:
  assumes "excess_repr m (X @ Y)"
  obtains m1 m2 where "m = m1 @ m2" "excess_repr m1 X" "excess_repr m2 Y"
proof
  have len: "length m = length X + length Y"
    using arg_cong [OF excess_keys [OF assms], of length] by simp
  show "m = take (length X) m @ drop (length X) m" by simp
  have e: "map (\<lambda>(k, l). level_core l) m = X @ Y" using assms by (simp add: excess_repr_def)
  show "excess_repr (take (length X) m) X" "excess_repr (drop (length X) m) Y"
    using assms e len unfolding excess_repr_def
    by (auto simp: take_map [symmetric] drop_map [symmetric] dest: in_set_takeD in_set_dropD)
qed

lemma excess_repr_join: "excess_repr m X \<Longrightarrow> excess_repr m' Y \<Longrightarrow> excess_repr (m @ m') (X @ Y)"
  by (auto simp: excess_repr_def)

lemma levels_sorted_append [simp]:
  "levels_sorted s (A @ B) \<longleftrightarrow> levels_sorted s A \<and> levels_sorted s B \<and>
     (\<forall>a \<in> set A. \<forall>b \<in> set B. excess_lt s (agg_price a) (agg_price b))"
  by (simp add: levels_sorted_def sorted_wrt_append)

lemma levels_sorted_Cons [simp]:
  "levels_sorted s (a # B) \<longleftrightarrow> levels_sorted s B \<and> (\<forall>b \<in> set B. excess_lt s (agg_price a) (agg_price b))"
  "levels_sorted s []"
  by (auto simp: levels_sorted_def)

lemma levels_ok_append [simp]:
  "levels_ok s (A @ B) \<longleftrightarrow> levels_ok s A \<and> levels_ok s B \<and>
     (\<forall>a \<in> set A. \<forall>b \<in> set B. excess_lt s (agg_price a) (agg_price b))"
  by (auto simp: levels_ok_def)

lemma levels_ok_Cons [simp]:
  "levels_ok s (a # B) \<longleftrightarrow> agg_price a \<noteq> INVALID_LEVEL_PRICE \<and> levels_ok s B \<and>
     (\<forall>b \<in> set B. excess_lt s (agg_price a) (agg_price b))"
  "levels_ok s []"
  by (auto simp: levels_ok_def)

lemma om_insert_at:
  assumes "\<forall>a \<in> set m1. lt (fst a) k \<and> \<not> lt k (fst a)" "\<forall>a \<in> set m2. lt k (fst a)"
  shows "om_insert lt k v (m1 @ m2) = m1 @ (k, v) # m2"
  using assms
proof (induction m1)
  case Nil
  then show ?case by (cases m2) auto
next
  case (Cons a m1)
  then show ?case by (cases a) auto
qed

lemma om_put_at:
  "\<forall>a \<in> set m1 \<union> set m2. fst a \<noteq> k \<Longrightarrow> om_put k v (m1 @ (k, w) # m2) = m1 @ (k, v) # m2"
  by (auto simp: om_put_def map_idI)

lemma om_erase_at:
  "\<forall>a \<in> set m1 \<union> set m2. fst a \<noteq> k \<Longrightarrow> om_erase k (m1 @ (k, w) # m2) = m1 @ m2"
  by (auto simp: om_erase_def filter_id_conv)

lemma map_of_at:
  "\<forall>a \<in> set m1. fst a \<noteq> k \<Longrightarrow> map_of (m1 @ (k, w) # m2) k = Some w"
  by (induction m1) auto

end
