(* ===== verification/Depth_Ops.thy ===== *)
theory Depth_Ops
  imports Depth_Refinement
begin

text \<open>
  The operations of the depth refine the operations on the list of levels: finding or creating
  a level, changing the level found, erasing it.
\<close>

section \<open>The level at a position\<close>

definition ref_at :: "nat \<Rightarrow> levels \<Rightarrow> price \<Rightarrow> nat \<Rightarrow> level_ref" where
  "ref_at sz pre p k = (if k < sz then Slot (length pre + k) else Excess p)"

lemma windowD:
  assumes "window s d pre L post m"
  shows "0 < dp_SIZE d" "cores (dp_levels d) = pre @ row (dp_SIZE d) L @ post"
    "length pre = (if s then 0 else dp_SIZE d)" "length post = (if s then dp_SIZE d else 0)"
    "excess_repr (excess_levels s d) (drop (dp_SIZE d) L)" "levels_ok s L"
  using assms unfolding window_def by blast+

lemma window_set_excess:
  assumes "window s d pre L post m" "excess_repr x (drop (dp_SIZE d) L')" "levels_ok s L'"
    "row (dp_SIZE d) L' = row (dp_SIZE d) L"
  shows "window s (set_excess s x d) pre L' post m"
  using assms unfolding window_def by auto

lemma window_excess_split:
  assumes W: "window s d pre (A @ x # B) post m" and k: "dp_SIZE d \<le> length A"
  obtains m1 l m2 where "excess_levels s d = m1 @ (agg_price x, l) # m2"
    "excess_repr m1 (drop (dp_SIZE d) A)" "excess_repr m2 B" "level_core l = x" "dl_is_excess l"
    "\<forall>a \<in> set m1 \<union> set m2. fst a \<noteq> agg_price x"
proof -
  have ok: "levels_ok s (A @ x # B)" using W by (rule windowD)
  have "excess_repr (excess_levels s d) (drop (dp_SIZE d) A @ x # B)"
    using windowD(5) [OF W] k by simp
  then obtain m1 m0 where m: "excess_levels s d = m1 @ m0" "excess_repr m1 (drop (dp_SIZE d) A)"
    "excess_repr m0 (x # B)" by (rule excess_repr_append)
  from m(3) obtain l m2 where m0: "m0 = (agg_price x, l) # m2" "level_core l = x" "dl_is_excess l"
    "excess_repr m2 B"
  proof (cases m0)
    case (Cons a m2)
    obtain k l where a: "a = (k, l)" by fastforce
    have "level_core l = x" "k = dl_price l" "dl_is_excess l" "excess_repr m2 B"
      using m(3) unfolding Cons a by auto
    then show thesis using Cons a by (intro that [of l m2]) (simp_all add: level_core_price)
  qed (use m(3) in simp)
  have "fst ` set m1 = agg_price ` set (drop (dp_SIZE d) A)" "fst ` set m2 = agg_price ` set B"
    using excess_keys [OF m(2)] excess_keys [OF m0(4)] by (metis list.set_map)+
  moreover have "agg_price x \<notin> agg_price ` set (drop (dp_SIZE d) A)"
    using ok set_drop_subset [of "dp_SIZE d" A] by fastforce
  moreover have "agg_price x \<notin> agg_price ` set B" using ok by fastforce
  ultimately have "agg_price x \<notin> fst ` set m1" "agg_price x \<notin> fst ` set m2" by simp_all
  then have "\<forall>a \<in> set m1 \<union> set m2. fst a \<noteq> agg_price x" by (metis UnE image_eqI)
  with m m0 show thesis by (intro that [of m1 l m2]) auto
qed

lemma get_ref:
  assumes W: "window s d pre (A @ x # B) post m"
  obtains l where "get_level s (ref_at (dp_SIZE d) pre (agg_price x) (length A)) d = Inr l"
    "level_core l = x" "dl_is_excess l = (dp_SIZE d \<le> length A)" "dl_price l = agg_price x"
proof (cases "length A < dp_SIZE d")
  case True
  from window_slot [OF W True] True show thesis
    by (intro that [of "dp_levels d ! (length pre + length A)"])
      (simp_all add: get_level_def ref_at_def nth_append)
next
  case False
  then obtain m1 l m2 where "excess_levels s d = m1 @ (agg_price x, l) # m2"
    "level_core l = x" "dl_is_excess l" "\<forall>a \<in> set m1 \<union> set m2. fst a \<noteq> agg_price x"
    using window_excess_split [OF W] by (metis not_le)
  then show thesis using False
    by (intro that [of l]) (simp_all add: get_level_def ref_at_def map_of_at level_core_price
        del: map_of_append)
qed

lemma levels_ok_put:
  "levels_ok s (A @ x # B) \<Longrightarrow> agg_price y = agg_price x \<Longrightarrow> levels_ok s (A @ y # B)"
  by auto

lemma put_ref:
  assumes W: "window s d pre (A @ x # B) post m"
    and l: "dl_price l = agg_price x" "dl_is_excess l = (dp_SIZE d \<le> length A)"
  shows "window s (put_level s (ref_at (dp_SIZE d) pre (agg_price x) (length A)) l d)
           pre (A @ level_core l # B) post m"
proof -
  have ok: "levels_ok s (A @ level_core l # B)"
    using windowD(6) [OF W] l(1) levels_ok_put [of s A x B "level_core l"] by (simp add: level_core_price)
  show ?thesis
  proof (cases "length A < dp_SIZE d")
    case True
    have e: "A @ level_core l # B = (A @ x # B)[length A := level_core l]" by simp
    have "row (dp_SIZE d) (A @ level_core l # B) =
        (row (dp_SIZE d) (A @ x # B))[length A := level_core l]"
      unfolding e using True by (intro row_update) simp_all
    moreover have "drop (dp_SIZE d) (A @ level_core l # B) = drop (dp_SIZE d) (A @ x # B)"
      using True by (simp add: drop_Cons')
    moreover have "\<not> dl_is_excess l" using True l(2) by simp
    ultimately have "window s (set_slot (length pre + length A) l d) pre (A @ level_core l # B) post m"
      using window_set_slot [OF W True _ ok] by blast
    then show ?thesis using True by (simp add: put_level_def ref_at_def)
  next
    case False
    then obtain m1 l0 m2 where e: "excess_levels s d = m1 @ (agg_price x, l0) # m2"
      "excess_repr m1 (drop (dp_SIZE d) A)" "excess_repr m2 B"
      "\<forall>a \<in> set m1 \<union> set m2. fst a \<noteq> agg_price x"
      using window_excess_split [OF W] by (metis not_le)
    have "excess_repr (m1 @ (agg_price x, l) # m2) (drop (dp_SIZE d) A @ level_core l # B)"
      using e l False by (intro excess_repr_join) auto
    moreover have "row (dp_SIZE d) (A @ level_core l # B) = row (dp_SIZE d) (A @ x # B)"
      using False by (simp add: row_def)
    ultimately have "window s (set_excess s (m1 @ (agg_price x, l) # m2) d) pre (A @ level_core l # B) post m"
      using W ok False by (intro window_set_excess [OF W]) simp_all
    moreover have "om_put (agg_price x) l (excess_levels s d) = m1 @ (agg_price x, l) # m2"
      unfolding e(1) using e(4) by (rule om_put_at)
    ultimately show ?thesis using False by (simp add: put_level_def ref_at_def)
  qed
qed

section \<open>The search\<close>

definition side_start :: "bool \<Rightarrow> depth \<Rightarrow> nat" where
  "side_start s d = (if s then bids d else asks d)"

lemma side_start_window: "window s d pre L post m \<Longrightarrow> side_start s d = length pre"
  by (auto simp: side_start_def bids_def asks_def window_def)

text \<open>The slots the search passes over.\<close>

definition passes :: "price \<Rightarrow> bool \<Rightarrow> bool \<Rightarrow> price \<Rightarrow> bool" where
  "passes p s create x \<longleftrightarrow> x \<noteq> p \<and> (create \<longrightarrow> x \<noteq> INVALID_LEVEL_PRICE \<and> excess_lt s x p)"

lemma find_visible_skip:
  assumes W: "window s d pre L post m" and "i \<le> k" "k \<le> dp_SIZE d"
    and P: "\<forall>j. i \<le> j \<and> j < k \<longrightarrow>
      passes p s create (if j < length L then agg_price (L ! j) else INVALID_LEVEL_PRICE)"
  shows "find_visible p s create (length pre + i) (dp_SIZE d - i) d =
    find_visible p s create (length pre + k) (dp_SIZE d - k) d"
  using assms(2,3) P
proof (induction "k - i" arbitrary: i)
  case 0
  then show ?case by simp
next
  case (Suc n)
  then have lt: "i < k" "i < dp_SIZE d" by auto
  have "passes p s create (dl_price (dp_levels d ! (length pre + i)))"
    using window_slot(3) [OF W lt(2)] Suc.prems(3) lt(1) by auto
  then have "find_visible p s create (length pre + i) (Suc (dp_SIZE d - Suc i)) d =
      find_visible p s create (length pre + Suc i) (dp_SIZE d - Suc i) d"
    by (cases s) (auto simp: passes_def Let_def)
  moreover have "dp_SIZE d - i = Suc (dp_SIZE d - Suc i)" using lt by simp
  moreover have "find_visible p s create (length pre + Suc i) (dp_SIZE d - Suc i) d =
      find_visible p s create (length pre + k) (dp_SIZE d - k) d"
    using Suc lt by (intro Suc.hyps(1)) auto
  ultimately show ?case by simp
qed

lemma find_level_unfold:
  assumes W: "window s d pre L post m"
  shows "find_level p s create d =
    (let (level, d1) = find_visible p s create (length pre) (dp_SIZE d) d
     in if level = length pre + dp_SIZE d then
          (case map_of (excess_levels s d1) p of
             Some l \<Rightarrow> (Excess p, d1)
           | None \<Rightarrow> if create then
               (Excess p, set_excess s (om_insert (excess_lt s) p (level_init p True DepthLevel)
                  (excess_levels s d1)) d1)
             else (Slot (length pre + dp_SIZE d), d1))
        else (Slot level, d1))"
proof -
  have "(if s then bids d else asks d) = length pre"
    "(if s then asks d else depth_end d) = length pre + dp_SIZE d"
    using windowD(3) [OF W] by (auto simp: bids_def asks_def depth_end_def)
  then show ?thesis unfolding find_level_def by (simp only: Let_def diff_add_inverse)
qed

text \<open>An existing level is found where it is, whether one may be created or not.\<close>

lemma find_existing:
  assumes W: "window s d pre (A @ x # B) post m"
  shows "find_level (agg_price x) s create d =
    (ref_at (dp_SIZE d) pre (agg_price x) (length A), d)"
proof -
  let ?p = "agg_price x" and ?k = "min (length A) (dp_SIZE d)"
  have ok: "levels_ok s (A @ x # B)" using W by (rule windowD)
  have pass: "passes ?p s create (if j < length (A @ x # B) then agg_price ((A @ x # B) ! j)
      else INVALID_LEVEL_PRICE)" if "j < ?k" for j
  proof -
    have "A ! j \<in> set A" using that by simp
    then have "excess_lt s (agg_price (A ! j)) ?p" "agg_price (A ! j) \<noteq> INVALID_LEVEL_PRICE"
      using ok by (auto simp: levels_ok_def)
    then show ?thesis using that by (auto simp: passes_def nth_append)
  qed
  have skip: "find_visible ?p s create (length pre) (dp_SIZE d) d =
      find_visible ?p s create (length pre + ?k) (dp_SIZE d - ?k) d"
    using find_visible_skip [OF W, of 0 ?k ?p create] pass by simp
  show ?thesis
  proof (cases "length A < dp_SIZE d")
    case True
    then have "dp_SIZE d - ?k = Suc (dp_SIZE d - Suc ?k)" by simp
    moreover have "dl_price (dp_levels d ! (length pre + ?k)) = ?p"
      using window_slot(3) [OF W, of ?k] True by (simp add: nth_append)
    ultimately have "find_visible ?p s create (length pre) (dp_SIZE d) d = (length pre + length A, d)"
      unfolding skip using True by (simp add: Let_def)
    then show ?thesis using True by (simp add: find_level_unfold [OF W] ref_at_def)
  next
    case False
    obtain m1 l m2 where e: "excess_levels s d = m1 @ (?p, l) # m2"
      "\<forall>a \<in> set m1 \<union> set m2. fst a \<noteq> ?p"
      using window_excess_split [OF W] False by (metis not_le)
    have "find_visible ?p s create (length pre) (dp_SIZE d) d = (length pre + dp_SIZE d, d)"
      unfolding skip using False by simp
    moreover have "map_of (excess_levels s d) ?p = Some l"
      using e by (simp add: map_of_at del: map_of_append)
    ultimately show ?thesis using False by (simp add: find_level_unfold [OF W] ref_at_def)
  qed
qed

section \<open>Creating a level\<close>

lemma row_insert:
  assumes "length A < sz"
  shows "row sz (A @ x # B) =
    take (length A) (row sz (A @ B)) @ x # drop (length A) (take (sz - 1) (row sz (A @ B)))"
  using assms by (intro nth_equalityI) (auto simp: row_nth nth_append nth_Cons split: nat.splits)

lemma drop_insert:
  assumes "length A < sz"
  shows "drop sz (A @ x # B) = drop (sz - 1) (A @ B)"
proof -
  obtain n where "sz = Suc (length A + n)" using less_imp_Suc_add [OF assms] by blast
  then show ?thesis by simp
qed

lemma levels_ok_insert:
  assumes "levels_ok s (A @ B)" "p \<noteq> INVALID_LEVEL_PRICE" "\<forall>a \<in> set A. excess_lt s (agg_price a) p"
    "B = [] \<or> excess_lt s p (agg_price (hd B))"
  shows "levels_ok s (A @ (p, n, q) # B)"
proof -
  have "excess_lt s p (agg_price b)" if "b \<in> set B" for b
  proof (cases B)
    case (Cons h t)
    then show ?thesis
      using that assms(1,4) by (auto intro: excess.lt_trans)
  qed (use that in simp)
  then show ?thesis using assms by auto
qed

lemma insert_level_before_window:
  assumes W: "window s d pre (A @ B) post m" and k: "length A < dp_SIZE d"
    and ok: "levels_ok s (A @ (p, 0, 0) # B)"
  shows "window s (insert_level_before (length pre + length A) s p d) pre (A @ (p, 0, 0) # B) post m"
proof -
  let ?L = "A @ B" and ?L' = "A @ (p, 0, 0) # B" and ?sz = "dp_SIZE d"
  define last where "last = length pre + (?sz - 1)"
  have last: "(if s then last_bid_level d else last_ask_level d) = last"
    using windowD(1,3) [OF W] by (auto simp: last_def last_bid_level_def last_ask_level_def)
  define lst where "lst = dp_levels d ! last"
  have lprice: "dl_price lst = (if ?sz \<le> length ?L then agg_price (?L ! (?sz - 1)) else INVALID_LEVEL_PRICE)"
    and lcore: "level_core lst = (if ?sz \<le> length ?L then ?L ! (?sz - 1) else blank)"
    using window_slot(2,3) [OF W, of "?sz - 1"] windowD(1) [OF W]
    by (auto simp: lst_def last_def Suc_le_eq)
  define d1 where "d1 = (if dl_price lst \<noteq> INVALID_LEVEL_PRICE then
      set_excess s (om_insert (excess_lt s) (dl_price lst)
        (level_assign (level_init 0 True DepthLevel) lst) (excess_levels s d)) d else d)"
  have d1_sel: "dp_levels d1 = dp_levels d" "dp_SIZE d1 = ?sz" "excess_levels (\<not> s) d1 = m"
    using W by (simp_all add: d1_def window_def)
  have d1_excess: "excess_repr (excess_levels s d1) (drop ?sz ?L')"
  proof (cases "?sz \<le> length ?L")
    case True
    have lt: "?sz - 1 < length ?L" and suc: "Suc (?sz - 1) = ?sz" using True windowD(1) [OF W] by linarith+
    have "?L = take (?sz - 1) ?L @ ?L ! (?sz - 1) # drop ?sz ?L"
      using id_take_nth_drop [OF lt] unfolding suc .
    then have okL: "levels_ok s (take (?sz - 1) ?L @ ?L ! (?sz - 1) # drop ?sz ?L)"
      using windowD(6) [OF W] by metis
    have nz: "dl_price lst \<noteq> INVALID_LEVEL_PRICE" using okL True lprice by simp
    have "fst ` set (excess_levels s d) = agg_price ` set (drop ?sz ?L)"
      using excess_keys [OF windowD(5) [OF W]] by (metis list.set_map)
    moreover have "\<forall>k \<in> agg_price ` set (drop ?sz ?L). excess_lt s (dl_price lst) k"
      using okL True lprice by simp
    ultimately have "\<forall>k \<in> fst ` set (excess_levels s d). excess_lt s (dl_price lst) k" by simp
    then have "\<forall>a \<in> set (excess_levels s d). excess_lt s (dl_price lst) (fst a)" by blast
    then have "om_insert (excess_lt s) (dl_price lst) v ([] @ excess_levels s d) =
        [] @ (dl_price lst, v) # excess_levels s d" for v
      by (intro om_insert_at) auto
    moreover have "drop ?sz ?L' = ?L ! (?sz - 1) # drop ?sz ?L"
      using drop_insert [OF k, of "(p, 0, 0)" B] Cons_nth_drop_Suc [OF lt] unfolding suc by simp
    ultimately show ?thesis
      using nz True lcore windowD(5) [OF W] by (simp add: d1_def)
  next
    case False
    then have "drop ?sz ?L' = []" "drop ?sz ?L = []" using k by simp_all
    then show ?thesis using False lprice windowD(5) [OF W] by (simp add: d1_def)
  qed
  define ls where "ls = shift_down (dp_last_change d1 + 1) (length pre + length A) last (dp_levels d)"
  have len: "last < length (dp_levels d)" "length pre + length A \<le> last"
    using window_length [OF W] windowD(1,3) [OF W] k by (auto simp: last_def split: if_splits)
  have c: "cores (dp_levels d) = pre @ row ?sz ?L @ post" using windowD(2) [OF W] .
  have cores: "cores (ls[length pre + length A := level_init p False l]) = pre @ row ?sz ?L' @ post" for l
  proof -
    have "cores ls = (pre @ take (Suc (length A)) (row ?sz ?L)) @
        drop (length A) (take (?sz - 1) (row ?sz ?L)) @ post"
      using cores_shift_down [OF len] k windowD(1) [OF W] by (simp add: ls_def c last_def)
    then show ?thesis
      using k unfolding row_insert [OF k]
      by (simp add: list_update_append take_Suc_conv_app_nth)
  qed
  have fl: "flags ls = flags (dp_levels d)" using len by (simp add: ls_def flags_shift_down)
  have flags: "\<forall>f \<in> set (flags (ls[length pre + length A := level_init p False l])). \<not> f" for l
    using W set_update_subset_insert [of "flags ls" "length pre + length A" False] fl
    by (auto simp: window_def)
  have "insert_level_before (length pre + length A) s p d =
      set_slot (length pre + length A) (level_init p False (ls ! (length pre + length A)))
        (d1\<lparr>dp_last_change := dp_last_change d1 + 1, dp_levels := ls\<rparr>)"
    unfolding insert_level_before_def last lst_def [symmetric] Let_def d1_def [symmetric]
    by (simp add: d1_sel ls_def)
  then show ?thesis
    using cores flags d1_excess d1_sel windowD(1,3,4) [OF W] ok unfolding window_def by auto
qed

lemma find_create:
  assumes W: "window s d pre (A @ B) post m" and p: "p \<noteq> INVALID_LEVEL_PRICE"
    and A: "\<forall>a \<in> set A. excess_lt s (agg_price a) p" and B: "B = [] \<or> excess_lt s p (agg_price (hd B))"
  obtains d1 where "find_level p s True d = (ref_at (dp_SIZE d) pre p (length A), d1)"
    "window s d1 pre (A @ (p, 0, 0) # B) post m" "dp_SIZE d1 = dp_SIZE d"
proof -
  let ?L = "A @ B" and ?L' = "A @ (p, 0, 0) # B" and ?sz = "dp_SIZE d"
  let ?k = "min (length A) ?sz"
  have ok: "levels_ok s ?L'" by (rule levels_ok_insert [OF windowD(6) [OF W] p A B])
  have pass: "passes p s True (if j < length ?L then agg_price (?L ! j) else INVALID_LEVEL_PRICE)"
    if "j < ?k" for j
  proof -
    have "A ! j \<in> set A" using that by simp
    then have "excess_lt s (agg_price (A ! j)) p" "agg_price (A ! j) \<noteq> INVALID_LEVEL_PRICE"
      using A ok by (auto simp: levels_ok_def)
    then show ?thesis using that by (auto simp: passes_def nth_append)
  qed
  have skip: "find_visible p s True (length pre) ?sz d =
      find_visible p s True (length pre + ?k) (?sz - ?k) d"
    using find_visible_skip [OF W, of 0 ?k p True] pass by simp
  show thesis
  proof (cases "length A < ?sz")
    case k: True
    let ?l = "dp_levels d ! (length pre + length A)"
    have sz: "?sz - length A = Suc (?sz - Suc (length A))" using k by simp
    have lp: "dl_price ?l = (if B = [] then INVALID_LEVEL_PRICE else agg_price (hd B))"
      using window_slot(3) [OF W k] by (auto simp: nth_append hd_conv_nth)
    show thesis
    proof (cases B)
      case Nil
      have "find_visible p s True (length pre) ?sz d =
          (length pre + length A, set_slot (length pre + length A) (level_init p False ?l) d)"
        unfolding skip using k sz lp Nil p by (simp add: Let_def)
      moreover have "window s (set_slot (length pre + length A) (level_init p False ?l) d) pre ?L' post m"
      proof (rule window_set_slot [OF W k _ ok])
        show "row ?sz ?L' = (row ?sz ?L)[length A := level_core (level_init p False ?l)]"
          using k Nil by (intro nth_equalityI) (auto simp: row_nth nth_append nth_list_update)
        show "drop ?sz ?L' = drop ?sz ?L" using k Nil by simp
      qed simp
      ultimately show thesis using k
        by (intro that [of "set_slot (length pre + length A) (level_init p False ?l) d"])
          (simp_all add: find_level_unfold [OF W] ref_at_def)
    next
      case (Cons b B')
      then have b: "excess_lt s p (agg_price b)" "agg_price b \<noteq> p" "agg_price b \<noteq> INVALID_LEVEL_PRICE"
        using B ok by auto
      have "find_visible p s True (length pre) ?sz d =
          (length pre + length A, insert_level_before (length pre + length A) s p d)"
        unfolding skip using k sz lp Cons b by (cases s) (simp_all add: Let_def)
      moreover have "dp_SIZE (insert_level_before (length pre + length A) s p d) = ?sz"
        by (simp add: insert_level_before_def Let_def)
      ultimately show thesis
        using k insert_level_before_window [OF W k ok]
        by (intro that [of "insert_level_before (length pre + length A) s p d"])
          (simp_all add: find_level_unfold [OF W] ref_at_def)
    qed
  next
    case k: False
    have vis: "find_visible p s True (length pre) ?sz d = (length pre + ?sz, d)"
      unfolding skip using k by simp
    have ex: "excess_repr (excess_levels s d) (drop ?sz A @ B)" using windowD(5) [OF W] k by simp
    then obtain m1 m2 where m12: "excess_levels s d = m1 @ m2" "excess_repr m1 (drop ?sz A)"
      "excess_repr m2 B" by (rule excess_repr_append)
    have k1: "\<forall>a \<in> set m1. excess_lt s (fst a) p"
    proof -
      have "fst ` set m1 = agg_price ` set (drop ?sz A)"
        using excess_keys [OF m12(2)] by (metis list.set_map)
      moreover have "agg_price ` set (drop ?sz A) \<subseteq> agg_price ` set A"
        by (intro image_mono set_drop_subset)
      ultimately have "fst ` set m1 \<subseteq> agg_price ` set A" by simp
      moreover have "\<forall>k \<in> agg_price ` set A. excess_lt s k p" using A by simp
      ultimately have "\<forall>k \<in> fst ` set m1. excess_lt s k p" by (meson subsetD)
      then show ?thesis by simp
    qed
    have k2: "\<forall>a \<in> set m2. excess_lt s p (fst a)"
    proof -
      have "fst ` set m2 = agg_price ` set B" using excess_keys [OF m12(3)] by (metis list.set_map)
      moreover have "\<forall>k \<in> agg_price ` set B. excess_lt s p k" using ok by simp
      ultimately have "\<forall>k \<in> fst ` set m2. excess_lt s p k" by simp
      then show ?thesis by simp
    qed
    have ins: "om_insert (excess_lt s) p v (excess_levels s d) = m1 @ (p, v) # m2" for v
      unfolding m12(1) using k1 k2 excess.lt_asym by (intro om_insert_at) auto
    have "p \<notin> fst ` set (excess_levels s d)" using k1 k2 m12(1) by auto
    then have none: "map_of (excess_levels s d) p = None" by (simp add: map_of_eq_None_iff)
    let ?v = "level_init p True DepthLevel"
    have "window s (set_excess s (m1 @ (p, ?v) # m2) d) pre ?L' post m"
    proof (rule window_set_excess [OF W _ ok])
      have "excess_repr (m1 @ (p, ?v) # m2) (drop ?sz A @ (p, 0, 0) # B)"
        using m12 by (intro excess_repr_join) auto
      then show "excess_repr (m1 @ (p, ?v) # m2) (drop ?sz ?L')" using k by simp
      show "row ?sz ?L' = row ?sz ?L" using k by (simp add: row_def)
    qed
    then show thesis
      using k vis none ins
      by (intro that [of "set_excess s (m1 @ (p, ?v) # m2) d"])
        (simp_all add: find_level_unfold [OF W] ref_at_def)
  qed
qed

end
