(* ===== verification/Depth_Simulation.thy ===== *)
theory Depth_Simulation
  imports Depth_Ops
begin

text \<open>
  The simulation: adding, closing, changing and replacing an order on the depth of the code is
  the operation of the same name on the list of levels, and never touches the other side.
\<close>

section \<open>Erasing a level\<close>

lemma row_erase:
  assumes "length A < sz"
  shows "row sz (A @ B) = take (length A) (row sz (A @ x # B)) @
    take (sz - 1 - length A) (drop (Suc (length A)) (row sz (A @ x # B))) @
    [if sz \<le> length (A @ B) then (A @ B) ! (sz - 1) else blank]"
proof (intro nth_equalityI)
  fix i assume "i < length (row sz (A @ B))"
  then consider "i < length A" | "length A \<le> i" "i < sz - 1" | "i = sz - 1" "length A \<le> i"
    using assms by fastforce
  then show "row sz (A @ B) ! i = (take (length A) (row sz (A @ x # B)) @
    take (sz - 1 - length A) (drop (Suc (length A)) (row sz (A @ x # B))) @
    [if sz \<le> length (A @ B) then (A @ B) ! (sz - 1) else blank]) ! i"
  proof cases
    case 1
    then show ?thesis using assms by (simp add: row_nth nth_append)
  next
    case 2
    then have "i - length A < sz - Suc (length A)" "i < sz - Suc 0" "i < sz" by linarith+
    moreover have "Suc (length A + (i - length A)) = Suc i" using 2 by simp
    ultimately show ?thesis using 2 assms by (simp add: row_nth nth_append)
  next
    case 3
    then show ?thesis using assms by (auto simp: row_nth nth_append min_def)
  qed
qed (use assms in simp)

lemma window_nth:
  assumes W: "window s d pre L post m" and j: "length pre \<le> j" "j \<le> length pre + (dp_SIZE d - 1)"
  shows "cores (dp_levels d) ! j = (if j - length pre < length L then L ! (j - length pre) else blank)"
proof -
  have "j - length pre < dp_SIZE d" using j windowD(1) [OF W] by simp
  then show ?thesis using j by (simp add: windowD(2) [OF W] nth_append row_nth)
qed

lemma levels_ok_price: "levels_ok s L \<Longrightarrow> i < length L \<Longrightarrow> agg_price (L ! i) \<noteq> INVALID_LEVEL_PRICE"
  using nth_mem [of i L] by (auto simp: levels_ok_def)

text \<open>The levels behind the erased one move up; the last slot keeps what it had.\<close>

lemma shift_up_window:
  fixes ch :: change_id
  assumes W: "window s d pre (A @ x # B) post m" and k: "length A < dp_SIZE d"
  defines "i \<equiv> length pre + length A" and "fin \<equiv> length pre + (dp_SIZE d - 1)" and "L \<equiv> A @ x # B"
  defines "ls \<equiv> shift_up ch i i (fin - i) (dp_levels d)"
  shows "cores ls = pre @ (take (length A) (row (dp_SIZE d) L) @
      take (dp_SIZE d - 1 - length A) (drop (Suc (length A)) (row (dp_SIZE d) L)) @
      [row (dp_SIZE d) L ! (dp_SIZE d - 1)]) @ post"
    "flags ls = flags (dp_levels d)" "length ls = length (dp_levels d)" "fin < length (dp_levels d)"
proof -
  let ?sz = "dp_SIZE d"
  have len: "fin < length (dp_levels d)" "i \<le> fin" "i + (fin - i) = fin"
    using window_length [OF W] windowD(1,3) [OF W] k by (auto simp: fin_def i_def split: if_splits)
  have c: "cores (dp_levels d) = pre @ row ?sz L @ post" using windowD(2) [OF W] by (simp add: L_def)
  note c_nth = window_nth [OF W, folded L_def fin_def]
  have "cores ls = take i (cores (dp_levels d)) @
      take (fin - i) (drop (Suc i) (cores (dp_levels d))) @ drop fin (cores (dp_levels d))"
    unfolding ls_def
  proof (subst cores_shift_up)
    show "i + (fin - i) < length (dp_levels d)" using len by simp
    show "\<forall>j. i \<le> j \<and> j < i + (fin - i) \<and>
        agg_price (cores (dp_levels d) ! j) = INVALID_LEVEL_PRICE \<and> j \<noteq> i \<longrightarrow>
        cores (dp_levels d) ! Suc j = cores (dp_levels d) ! j"
    proof (intro allI impI)
      fix j assume j: "i \<le> j \<and> j < i + (fin - i) \<and>
        agg_price (cores (dp_levels d) ! j) = INVALID_LEVEL_PRICE \<and> j \<noteq> i"
      then have b: "length pre \<le> j" "Suc j \<le> fin" using len(3) by (auto simp: i_def)
      then have "\<not> j - length pre < length L"
        using j c_nth [of j] levels_ok_price [OF windowD(6) [OF W, folded L_def], of "j - length pre"] by auto
      then show "cores (dp_levels d) ! Suc j = cores (dp_levels d) ! j"
        using c_nth [of j] c_nth [of "Suc j"] b by auto
    qed
  qed (simp add: len(3))
  also have "drop fin (cores (dp_levels d)) = row ?sz L ! (?sz - 1) # post"
  proof -
    have "?sz - 1 < length (row ?sz L)" using windowD(1) [OF W] by simp
    from Cons_nth_drop_Suc [OF this] have "drop (?sz - 1) (row ?sz L) = [row ?sz L ! (?sz - 1)]"
      using windowD(1) [OF W] by simp
    then show ?thesis using windowD(1) [OF W] by (simp add: c fin_def)
  qed
  finally show "cores ls = pre @ (take (length A) (row ?sz L) @
      take (?sz - 1 - length A) (drop (Suc (length A)) (row ?sz L)) @ [row ?sz L ! (?sz - 1)]) @ post"
    using k windowD(1) [OF W] by (simp add: c fin_def i_def)
  show "flags ls = flags (dp_levels d)" "length ls = length (dp_levels d)" "fin < length (dp_levels d)"
    using len by (simp_all add: ls_def flags_shift_up)
qed

text \<open>What is put into the last slot then completes the row.\<close>

lemma window_put_last:
  assumes W: "window s d pre (A @ x # B) post m" and k: "length A < dp_SIZE d"
    and ls: "cores ls = pre @ (take (length A) (row (dp_SIZE d) (A @ x # B)) @
      take (dp_SIZE d - 1 - length A) (drop (Suc (length A)) (row (dp_SIZE d) (A @ x # B))) @ [z]) @ post"
      "flags ls = flags (dp_levels d)"
    and d': "dp_levels d' = ls[length pre + (dp_SIZE d - 1) := l]" "\<not> dl_is_excess l" "dp_SIZE d' = dp_SIZE d"
      "level_core l = (if dp_SIZE d \<le> length (A @ B) then (A @ B) ! (dp_SIZE d - 1) else blank)"
      "excess_repr (excess_levels s d') (drop (dp_SIZE d) (A @ B))" "excess_levels (\<not> s) d' = m"
  shows "window s d' pre (A @ B) post m"
proof -
  let ?sz = "dp_SIZE d" and ?L = "A @ x # B"
  define T where "T = take (length A) (row ?sz ?L) @ take (?sz - 1 - length A) (drop (Suc (length A)) (row ?sz ?L))"
  have T: "length T = ?sz - 1" using k by (simp add: T_def)
  have "row ?sz (A @ B) = T @ [level_core l]"
    unfolding d'(4) row_erase [OF k, of B x] T_def by simp
  moreover have "cores ls = pre @ (T @ [z]) @ post" unfolding ls(1) T_def by simp
  ultimately have "cores (dp_levels d') = pre @ row ?sz (A @ B) @ post"
    unfolding d'(1) cores_simps T [symmetric] by (simp add: list_update_append)
  moreover have "\<forall>f \<in> set (flags (dp_levels d')). \<not> f"
    using W set_update_subset_insert [of "flags ls" "length pre + (?sz - 1)" False] ls(2) d'(1,2)
    by (auto simp: window_def)
  moreover have "levels_ok s (A @ B)" using windowD(6) [OF W] by auto
  ultimately show ?thesis using d'(3,5,6) windowD(1,3,4) [OF W] unfolding window_def by auto
qed

lemma restore_last_SIZE [simp]: "dp_SIZE (restore_last s i d) = dp_SIZE d"
  by (simp add: restore_last_def Let_def set_slot_def set_excess_def split: list.split)

text \<open>
  Restoring the last slot: it takes the best of the spare levels, or is blank when there is none.
\<close>

lemma restore_last_window:
  fixes ch :: change_id
  assumes W: "window s d pre (A @ x # B) post m" and k: "length A < dp_SIZE d"
  defines "fin \<equiv> length pre + (dp_SIZE d - 1)"
  assumes ls: "cores ls = pre @ (take (length A) (row (dp_SIZE d) (A @ x # B)) @
      take (dp_SIZE d - 1 - length A) (drop (Suc (length A)) (row (dp_SIZE d) (A @ x # B))) @ [z]) @ post"
      "flags ls = flags (dp_levels d)" "length ls = length (dp_levels d)" "fin < length (dp_levels d)"
    and nl: "\<not> dl_is_excess (ls ! fin)"
  defines "d2 \<equiv> d\<lparr>dp_last_change := ch, dp_levels := ls\<rparr>"
  shows "window s (restore_last s fin d2) pre (A @ B) post m"
proof -
  let ?sz = "dp_SIZE d"
  have d2: "dp_levels d2 = ls" "dp_SIZE d2 = ?sz" "excess_levels t d2 = excess_levels t d" for t
    by (simp_all add: d2_def)
  note build = window_put_last [OF W k ls(1,2), folded fin_def]
  have om: "excess_levels (\<not> s) d = m" using W by (simp add: window_def)
  have ex: "excess_repr (excess_levels s d) (drop (?sz - 1) (A @ B))"
    using windowD(5) [OF W] drop_insert [OF k, of x B] by simp
  show ?thesis
  proof (cases "excess_levels s d")
    case Nil
    then have "drop (?sz - 1) (A @ B) = []" using ex by (simp only: excess_repr_Nil)
    then have "length (A @ B) \<le> ?sz - 1" by (simp only: drop_eq_Nil)
    then have short: "\<not> ?sz \<le> length (A @ B)" "drop ?sz (A @ B) = []" using windowD(1) [OF W] by auto
    define l where "l = level_last_change ch (level_last_change ch (level_init INVALID_LEVEL_PRICE False (ls ! fin)))"
    have r: "restore_last s fin d2 = set_slot fin l d2"
      using Nil ls(3,4) by (simp add: restore_last_def d2 Let_def l_def set_slot_def d2_def)
    show ?thesis
      unfolding r using short Nil om d2 by (intro build [of _ l]) (simp_all add: l_def blank_def)
  next
    case (Cons e rest)
    obtain p best where e: "e = (p, best)" by fastforce
    have lt: "?sz - 1 < length (A @ B)"
    proof (rule ccontr)
      assume "\<not> ?thesis"
      then have "drop (?sz - 1) (A @ B) = []" by (simp only: drop_eq_Nil not_less)
      then show False using ex unfolding Cons e by simp
    qed
    have suc: "Suc (?sz - 1) = ?sz" using windowD(1) [OF W] by simp
    have le: "?sz \<le> length (A @ B)" using lt suc by linarith
    have dr: "drop (?sz - 1) (A @ B) = (A @ B) ! (?sz - 1) # drop ?sz (A @ B)"
      using Cons_nth_drop_Suc [OF lt] unfolding suc by simp
    have best: "level_core best = (A @ B) ! (?sz - 1)" "excess_repr rest (drop ?sz (A @ B))"
      using ex unfolding Cons e dr by auto
    define l where "l = level_last_change ch (level_assign (ls ! fin) best)"
    have r: "restore_last s fin d2 = set_excess s rest (set_slot fin l d2)"
      using Cons e ls(3,4) by (simp add: restore_last_def d2 Let_def l_def set_slot_def d2_def set_excess_def)
    show ?thesis
      unfolding r using le best om d2 nl by (intro build [of _ l]) (simp_all add: l_def)
  qed
qed

lemma erase_slot_window:
  assumes W: "window s d pre (A @ x # B) post m" and k: "length A < dp_SIZE d"
  shows "\<exists>d'. erase_level (Slot (length pre + length A)) s d = Inr d' \<and>
    window s d' pre (A @ B) post m \<and> dp_SIZE d' = dp_SIZE d"
proof -
  let ?L = "A @ x # B" and ?sz = "dp_SIZE d" and ?i = "length pre + length A"
  define last where "last = length pre + (?sz - 1)"
  define ch where "ch = dp_last_change d + 1"
  define ls where "ls = shift_up ch ?i ?i (last - ?i) (dp_levels d)"
  define d2 where "d2 = d\<lparr>dp_last_change := ch, dp_levels := ls\<rparr>"
  have last: "(if s then last_bid_level d else last_ask_level d) = last"
    using windowD(1,3) [OF W] by (auto simp: last_def last_bid_level_def last_ask_level_def)
  note S = shift_up_window(1,2,3) [OF W k, of ch, folded last_def, folded ls_def] shift_up_window(4) [OF W k, folded last_def]
  have "cores ls ! last = row ?sz ?L ! (?sz - 1)"
  proof -
    obtain n where n: "?sz = Suc n" using windowD(1) [OF W] by (cases ?sz) auto
    then have "length A \<le> n" using k by simp
    then show ?thesis unfolding S(1) last_def n by (simp add: nth_append)
  qed
  then have clast: "level_core (ls ! last) = row ?sz ?L ! (?sz - 1)"
    "dl_price (ls ! last) = agg_price (row ?sz ?L ! (?sz - 1))"
    using S(3,4) by (simp_all add: level_core_price)
  have nl: "\<not> dl_is_excess (ls ! last)"
  proof -
    have "flags ls ! last \<in> set (flags ls)" using S(3,4) by (intro nth_mem) simp
    then show ?thesis using W S(2-4) unfolding window_def by (metis flags_simps(3))
  qed
  have get: "get_level s (Slot ?i) d = Inr (dp_levels d ! ?i)" "\<not> dl_is_excess (dp_levels d ! ?i)"
    using window_slot(1,4) [OF W k] by (simp_all add: get_level_def)
  have erase: "erase_level (Slot ?i) s d = Inr (if ?i = last \<or> dl_price (ls ! last) \<noteq> INVALID_LEVEL_PRICE
      then restore_last s last d2 else d2)"
    using get unfolding erase_level_def
    by (simp add: last Let_def d2_def ls_def ch_def last_bid_level_def last_ask_level_def)
  show ?thesis
  proof (cases "?i = last \<or> dl_price (ls ! last) \<noteq> INVALID_LEVEL_PRICE")
    case True
    have "window s (restore_last s last d2) pre (A @ B) post m"
      unfolding d2_def last_def by (rule restore_last_window [OF W k S(1,2,3)]) (use S(4) nl in \<open>simp_all add: last_def\<close>)
    then show ?thesis using erase True by (auto simp: d2_def)
  next
    case False
    have b: "\<not> ?sz - 1 < length ?L"
      using False clast(2) windowD(1) [OF W] levels_ok_price [OF windowD(6) [OF W], of "?sz - 1"]
      by (auto simp: row_nth)
    then have "drop ?sz (A @ B) = []" "drop (?sz - 1) (A @ B) = []" "\<not> ?sz \<le> length (A @ B)" by simp_all
    moreover have "level_core (ls ! last) = blank" using clast(1) b windowD(1) [OF W] by (simp add: row_nth)
    moreover have "excess_levels (\<not> s) d = m" using W by (simp add: window_def)
    moreover have "excess_repr (excess_levels s d) (drop (?sz - 1) (A @ B))"
      using windowD(5) [OF W] drop_insert [OF k, of x B] by simp
    ultimately have "window s d2 pre (A @ B) post m"
      using nl by (intro window_put_last [OF W k S(1,2), of _ "ls ! last"]) (simp_all add: d2_def last_def)
    then show ?thesis using erase False by (simp add: d2_def)
  qed
qed

lemma erase_ref:
  assumes W: "window s d pre (A @ x # B) post m"
  shows "\<exists>d'. erase_level (ref_at (dp_SIZE d) pre (agg_price x) (length A)) s d = Inr d' \<and>
    window s d' pre (A @ B) post m \<and> dp_SIZE d' = dp_SIZE d"
proof (cases "length A < dp_SIZE d")
  case True
  then show ?thesis using erase_slot_window [OF W True] by (simp add: ref_at_def)
next
  case False
  then obtain m1 l m2 where e: "excess_levels s d = m1 @ (agg_price x, l) # m2"
    "excess_repr m1 (drop (dp_SIZE d) A)" "excess_repr m2 B" "level_core l = x" "dl_is_excess l"
    "\<forall>a \<in> set m1 \<union> set m2. fst a \<noteq> agg_price x"
    using window_excess_split [OF W] by (metis not_le)
  have lp: "dl_price l = agg_price x" using e(4) by (simp add: level_core_price)
  have "get_level s (Excess (agg_price x)) d = Inr l"
    using e(1,6) by (simp add: get_level_def map_of_at del: map_of_append)
  moreover have "om_erase (agg_price x) (excess_levels s d) = m1 @ m2"
    unfolding e(1) using e(6) by (rule om_erase_at)
  ultimately have "erase_level (Excess (agg_price x)) s d = Inr (set_excess s (m1 @ m2) d)"
    using e(5) lp by (simp add: erase_level_def)
  moreover have "window s (set_excess s (m1 @ m2) d) pre (A @ B) post m"
  proof (rule window_set_excess [OF W])
    show "excess_repr (m1 @ m2) (drop (dp_SIZE d) (A @ B))"
      using excess_repr_join [OF e(2,3)] False by simp
    show "levels_ok s (A @ B)" using windowD(6) [OF W] by auto
    show "row (dp_SIZE d) (A @ B) = row (dp_SIZE d) (A @ x # B)" using False by (simp add: row_def)
  qed
  ultimately show ?thesis using False by (simp add: ref_at_def)
qed

section \<open>The operations of one side\<close>

lemma levels_split:
  obtains A B where "L = A @ B" "\<forall>a \<in> set A. excess_lt s (agg_price a) p"
    "B = [] \<or> agg_price (hd B) = p \<or> excess_lt s p (agg_price (hd B))"
proof
  let ?P = "\<lambda>a. excess_lt s (agg_price a) p"
  show "L = takeWhile ?P L @ dropWhile ?P L" by simp
  show "\<forall>a \<in> set (takeWhile ?P L). excess_lt s (agg_price a) p" by (auto dest: set_takeWhileD)
  show "dropWhile ?P L = [] \<or> agg_price (hd (dropWhile ?P L)) = p \<or>
      excess_lt s p (agg_price (hd (dropWhile ?P L)))"
    using hd_dropWhile [of ?P L] excess_lt_total by blast
qed

lemma add_level_append:
  "\<forall>a \<in> set A. excess_lt s (agg_price a) p \<Longrightarrow> add_level s p q (A @ B) = A @ add_level s p q B"
  by (induction A) auto

lemma dl_set_fields [simp]:
  "dl_price (level_last_change c l) = dl_price l" "dl_is_excess (level_last_change c l) = dl_is_excess l"
  "level_core (level_add_order q l) = (dl_price l, dl_order_count l + 1, dl_aggregate_qty l + q)"
  by (simp_all add: level_core_def level_defs)

lemma add_order_window:
  assumes W: "window s d pre L post m" and p: "p \<noteq> INVALID_LEVEL_PRICE"
  shows "\<exists>d'. depth_add_order p q s d = (Inr (), d') \<and>
    window s d' pre (add_level s p q L) post m \<and> dp_SIZE d' = dp_SIZE d"
proof -
  obtain A B where L: "L = A @ B" "\<forall>a \<in> set A. excess_lt s (agg_price a) p"
    "B = [] \<or> agg_price (hd B) = p \<or> excess_lt s p (agg_price (hd B))" by (rule levels_split)
  obtain d1 n a B' where f: "find_level p s True d = (ref_at (dp_SIZE d) pre p (length A), d1)"
    "window s d1 pre (A @ (p, n, a) # B') post m" "dp_SIZE d1 = dp_SIZE d"
    "add_level s p q L = A @ (p, n + 1, a + q) # B'"
  proof (cases "B \<noteq> [] \<and> agg_price (hd B) = p")
    case True
    then obtain n a B' where B: "B = (p, n, a) # B'" by (cases B) auto
    have "add_level s p q L = A @ (p, n + 1, a + q) # B'"
      using L B by (simp add: add_level_append)
    moreover have W1: "window s d pre (A @ (p, n, a) # B') post m" using W unfolding L(1) B .
    moreover have "find_level p s True d = (ref_at (dp_SIZE d) pre p (length A), d)"
      using find_existing [OF W1, of True] by simp
    ultimately show thesis by (intro that [of d n a B']) (rule refl | assumption)+
  next
    case False
    then have B: "B = [] \<or> excess_lt s p (agg_price (hd B))" using L(3) by blast
    have "add_level s p q B = (p, 0 + 1, 0 + q) # B"
    proof (cases B)
      case (Cons b B')
      then have b: "excess_lt s p (agg_price b)" using B by simp
      then have "agg_price b \<noteq> p" "\<not> excess_lt s (agg_price b) p"
        using excess.lt_asym by auto
      then show ?thesis using Cons by (cases b) simp
    qed simp
    then have lvl: "add_level s p q L = A @ (p, 0 + 1, 0 + q) # B"
      using add_level_append [OF L(2), of q B] unfolding L(1) by simp
    obtain d1 where d1: "find_level p s True d = (ref_at (dp_SIZE d) pre p (length A), d1)"
      "window s d1 pre (A @ (p, 0, 0) # B) post m" "dp_SIZE d1 = dp_SIZE d"
      by (rule find_create [OF W [unfolded L(1)] p L(2) B])
    show thesis by (rule that [OF d1 lvl])
  qed
  obtain l where l: "get_level s (ref_at (dp_SIZE d) pre p (length A)) d1 = Inr l"
    "level_core l = (p, n, a)" "dl_is_excess l = (dp_SIZE d \<le> length A)"
    using get_ref [OF f(2)] f(3) by auto
  have lp: "dl_price l = p" "dl_order_count l = n" "dl_aggregate_qty l = a"
    using l(2) by (simp_all add: level_core_def)
  have put: "window s (put_level s (ref_at (dp_SIZE d) pre p (length A)) l' (d1\<lparr>dp_last_change := c\<rparr>))
      pre (A @ (p, n + 1, a + q) # B') post m"
    if "level_core l' = (p, n + 1, a + q)" "dl_is_excess l' = dl_is_excess l" for l' c
    using put_ref [of s "d1\<lparr>dp_last_change := c\<rparr>" pre A "(p, n, a)" B' post m l'] f(2,3) that l(3)
    by (simp add: level_core_price)
  have sz: "dp_SIZE (put_level s r l' e) = dp_SIZE e" for r l' e
    by (simp add: put_level_def split: level_ref.split)
  have "d1 = d1\<lparr>dp_last_change := dp_last_change d1\<rparr>" by simp
  then have put': "window s (put_level s (ref_at (dp_SIZE d) pre p (length A)) l' d1)
      pre (A @ (p, n + 1, a + q) # B') post m"
    if "level_core l' = (p, n + 1, a + q)" "dl_is_excess l' = dl_is_excess l" for l'
    using put [OF that, of "dp_last_change d1"] by simp
  show ?thesis
    unfolding depth_add_order_def f(1,4)
    using l(1) lp put put' sz f(3) by (simp add: Let_def)
qed

text \<open>
  Closing is exact for a level that counts the order, and whose quantity covers it unless the
  order is its last.
\<close>

definition can_close :: "price \<Rightarrow> quantity \<Rightarrow> levels \<Rightarrow> bool" where
  "can_close p q L \<longleftrightarrow> (\<exists>n a. (p, n, a) \<in> set L \<and> n \<noteq> 0 \<and> (n = 1 \<or> q \<le> a))"

lemma levels_ok_other:
  assumes "levels_ok s (A @ (p, n, a) # B)"
  shows "\<forall>x \<in> set A \<union> set B. agg_price x \<noteq> p"
  using assms by (auto simp: levels_ok_def)

lemma close_level_at:
  assumes "levels_ok s (A @ (p, n, a) # B)"
  shows "close_level p q (A @ (p, n, a) # B) =
    A @ (if n = 1 then B else (p, n - 1, a - q) # B)"
proof -
  have "concat (map (\<lambda>(p', n, a). if p' \<noteq> p then [(p', n, a)]
      else if n = 1 then [] else [(p', n - 1, a - q)]) X) = X" if "\<forall>x \<in> set X. agg_price x \<noteq> p" for X
    using that by (induction X) auto
  then show ?thesis using levels_ok_other [OF assms] by (simp add: close_level_def)
qed

lemma close_order_window:
  assumes W: "window s d pre L post m" and c: "can_close p q L"
  shows "\<exists>e d'. depth_close_order p q s d = (Inr e, d') \<and>
    window s d' pre (close_level p q L) post m \<and> dp_SIZE d' = dp_SIZE d"
proof -
  obtain n a where na: "(p, n, a) \<in> set L" "n \<noteq> 0" "n = 1 \<or> q \<le> a"
    using c by (auto simp: can_close_def)
  then obtain A B where L: "L = A @ (p, n, a) # B" by (meson split_list)
  let ?r = "ref_at (dp_SIZE d) pre p (length A)"
  have W': "window s d pre (A @ (p, n, a) # B) post m" using W L by simp
  have cl: "close_level p q L = A @ (if n = 1 then B else (p, n - 1, a - q) # B)"
    unfolding L by (rule close_level_at [OF windowD(6) [OF W']])
  have f: "find_level p s False d = (?r, d)" using find_existing [OF W', of False] by simp
  obtain l where l: "get_level s ?r d = Inr l" "level_core l = (p, n, a)"
    "dl_is_excess l = (dp_SIZE d \<le> length A)"
    using get_ref [OF W'] by auto
  have lp: "dl_price l = p" "dl_order_count l = n" "dl_aggregate_qty l = a"
    using l(2) by (simp_all add: level_core_def)
  have lc: "level_close_order q l = (Inr (n = 1),
      if n = 1 then l\<lparr>dl_order_count := 0, dl_aggregate_qty := 0\<rparr>
      else l\<lparr>dl_order_count := n - 1, dl_aggregate_qty := a - q\<rparr>)"
    using level_close_order_ok [of l q] lp na by auto
  have sz: "dp_SIZE (put_level s r l' e) = dp_SIZE e" for r l' e
    by (simp add: put_level_def split: level_ref.split)
  show ?thesis
  proof (cases "n = 1")
    case True
    let ?l1 = "l\<lparr>dl_order_count := 0, dl_aggregate_qty := 0\<rparr>"
    let ?d2 = "put_level s ?r ?l1 d"
    have "window s ?d2 pre (A @ level_core ?l1 # B) post m"
      using put_ref [OF W', of ?l1] lp l(3) by simp
    then obtain d3 where d3: "erase_level (ref_at (dp_SIZE ?d2) pre (agg_price (level_core ?l1)) (length A)) s ?d2 = Inr d3"
      "window s d3 pre (A @ B) post m" "dp_SIZE d3 = dp_SIZE ?d2"
      using erase_ref by blast
    have "agg_price (level_core ?l1) = p" using lp by (simp add: level_core_def)
    then have "depth_close_order p q s d = (Inr True, d3)"
      using f l(1) lc True d3(1) sz by (simp add: depth_close_order_def)
    then show ?thesis using d3 sz cl True by auto
  next
    case False
    let ?l1 = "l\<lparr>dl_order_count := n - 1, dl_aggregate_qty := a - q\<rparr>"
    let ?l2 = "level_last_change (dp_last_change d + 1) ?l1"
    let ?d2 = "put_level s ?r ?l2 (d\<lparr>dp_last_change := dp_last_change d + 1\<rparr>)"
    have "level_core ?l2 = (p, n - 1, a - q)"
      using lp by (simp add: level_core_def level_last_change_def)
    then have "window s ?d2 pre (A @ (p, n - 1, a - q) # B) post m"
      using put_ref [of s "d\<lparr>dp_last_change := dp_last_change d + 1\<rparr>" pre A "(p, n, a)" B post m ?l2]
        W' lp l(3) by simp
    moreover have "depth_close_order p q s d = (Inr False, ?d2)"
      using f l(1) lc False by (simp add: depth_close_order_def)
    ultimately show ?thesis using cl False sz by auto
  qed
qed

end
