(* ===== verification/Depth_Facts.thy ===== *)
theory Depth_Facts
  imports Depth_Simulation
begin

text \<open>
  The depth as a whole: both sides, what a reader of the array sees, and the operations made
  of the others. What happens at a price the depth does not have is at the end.
\<close>

section \<open>Changing a quantity\<close>

lemma change_level_at:
  assumes "levels_ok s (A @ (p, n, a) # B)"
  shows "change_level p delta (A @ (p, n, a) # B) = A @ (p, n, a + delta) # B"
proof -
  have "map (\<lambda>(p', n, a). if p' = p then (p', n, a + delta) else (p', n, a)) X = X"
    if "\<forall>x \<in> set X. agg_price x \<noteq> p" for X
    using that by (induction X) auto
  then show ?thesis using levels_ok_other [OF assms] by (simp add: change_level_def)
qed

lemma change_level_zero [simp]: "change_level p 0 L = L"
  by (induction L) (auto simp: change_level_def)

lemma put_level_SIZE [simp]: "dp_SIZE (put_level s r l d) = dp_SIZE d"
  by (simp add: put_level_def split: level_ref.split)

lemma change_qty_window:
  assumes W: "window s d pre L post m" and c: "p \<in> agg_price ` set L"
  shows "\<exists>d'. change_qty_order p delta s d = (Inr (), d') \<and>
    window s d' pre (change_level p delta L) post m \<and> dp_SIZE d' = dp_SIZE d"
proof -
  obtain n a where na: "(p, n, a) \<in> set L" using c by auto
  then obtain A B where L: "L = A @ (p, n, a) # B" by (meson split_list)
  let ?r = "ref_at (dp_SIZE d) pre p (length A)"
  have W': "window s d pre (A @ (p, n, a) # B) post m" using W L by simp
  have cl: "change_level p delta L = A @ (p, n, a + delta) # B"
    unfolding L by (rule change_level_at [OF windowD(6) [OF W']])
  have f: "find_level p s False d = (?r, d)" using find_existing [OF W', of False] by simp
  obtain l where l: "get_level s ?r d = Inr l" "level_core l = (p, n, a)"
    "dl_is_excess l = (dp_SIZE d \<le> length A)"
    using get_ref [OF W'] by auto
  have lp: "dl_price l = p" "dl_order_count l = n" "dl_aggregate_qty l = a"
    using l(2) by (simp_all add: level_core_def)
  show ?thesis
  proof (cases "delta = 0")
    case True
    then show ?thesis using W f by (simp add: change_qty_order_def)
  next
    case False
    define l1 where "l1 = (if 0 < sint delta then level_increase_qty delta l
        else level_decrease_qty (- delta) l)"
    let ?l2 = "level_last_change (dp_last_change d + 1) l1"
    let ?d2 = "put_level s ?r ?l2 (d\<lparr>dp_last_change := dp_last_change d + 1\<rparr>)"
    have l2: "level_core ?l2 = (p, n, a + delta)" "dl_is_excess ?l2 = dl_is_excess l"
      using lp by (simp_all add: l1_def level_core_def level_defs)
    then have "window s ?d2 pre (A @ (p, n, a + delta) # B) post m"
      using put_ref [of s "d\<lparr>dp_last_change := dp_last_change d + 1\<rparr>" pre A "(p, n, a)" B post m ?l2]
        W' l(3) by (simp add: level_core_price)
    moreover have "change_qty_order p delta s d = (Inr (), ?d2)"
      using f l(1) False by (simp add: change_qty_order_def Let_def l1_def)
    ultimately show ?thesis using cl by simp
  qed
qed

section \<open>Both sides\<close>

type_synonym two_sides = "bool \<Rightarrow> levels"

definition depth_repr :: "depth \<Rightarrow> two_sides \<Rightarrow> bool" where
  "depth_repr d f \<longleftrightarrow>
     0 < dp_SIZE d \<and>
     cores (dp_levels d) = row (dp_SIZE d) (f True) @ row (dp_SIZE d) (f False) \<and>
     (\<forall>x \<in> set (flags (dp_levels d)). \<not> x) \<and>
     (\<forall>s. excess_repr (excess_levels s d) (drop (dp_SIZE d) (f s)) \<and> levels_ok s (f s))"

text \<open>What of the other side a side's window leaves alone.\<close>

definition before :: "bool \<Rightarrow> depth \<Rightarrow> two_sides \<Rightarrow> levels" where
  "before s d f = (if s then [] else row (dp_SIZE d) (f True))"

definition behind :: "bool \<Rightarrow> depth \<Rightarrow> two_sides \<Rightarrow> levels" where
  "behind s d f = (if s then row (dp_SIZE d) (f False) else [])"

lemma repr_window:
  "depth_repr d f \<Longrightarrow>
     window s d (before s d f) (f s) (behind s d f) (excess_levels (\<not> s) d)"
  by (cases s) (auto simp: depth_repr_def window_def before_def behind_def)

lemma window_repr:
  assumes R: "depth_repr d f" and W: "window s d' (before s d f) L (behind s d f) (excess_levels (\<not> s) d)"
    and sz: "dp_SIZE d' = dp_SIZE d"
  shows "depth_repr d' (f(s := L))"
proof -
  have "excess_repr (excess_levels t d') (drop (dp_SIZE d) ((f(s := L)) t)) \<and> levels_ok t ((f(s := L)) t)" for t
  proof (cases "t = s")
    case True
    then show ?thesis using windowD(5,6) [OF W] sz by simp
  next
    case False
    then have t: "t = (\<not> s)" by auto
    then have "excess_levels t d' = excess_levels t d" using W by (simp add: window_def)
    then show ?thesis using R t by (simp add: depth_repr_def)
  qed
  moreover have "cores (dp_levels d') =
      row (dp_SIZE d) ((f(s := L)) True) @ row (dp_SIZE d) ((f(s := L)) False)"
    using windowD(2) [OF W] sz by (cases s) (simp_all add: before_def behind_def)
  ultimately show ?thesis using W sz windowD(1) [OF W] unfolding depth_repr_def window_def by auto
qed

lemma depth_repr_Depth: "0 < SIZE \<Longrightarrow> depth_repr (Depth SIZE) (\<lambda>_. [])"
  by (auto simp: depth_repr_def Depth_def cores_def flags_def row_def level_core_def blank_def
      INVALID_LEVEL_PRICE_def excess_levels_def replicate_add [symmetric] mult_2_right)

lemma depth_add_repr:
  assumes R: "depth_repr d f" and p: "p \<noteq> INVALID_LEVEL_PRICE"
  obtains d' where "depth_add_order p q s d = (Inr (), d')"
    "depth_repr d' (f(s := add_level s p q (f s)))" "dp_SIZE d' = dp_SIZE d"
proof -
  obtain d' where d': "depth_add_order p q s d = (Inr (), d')"
    "window s d' (before s d f) (add_level s p q (f s)) (behind s d f) (excess_levels (\<not> s) d)"
    "dp_SIZE d' = dp_SIZE d" using add_order_window [OF repr_window [OF R] p] by blast
  show thesis by (rule that [OF d'(1) window_repr [OF R d'(2,3)] d'(3)])
qed

lemma depth_close_repr:
  assumes R: "depth_repr d f" and c: "can_close p q (f s)"
  obtains e d' where "depth_close_order p q s d = (Inr e, d')"
    "depth_repr d' (f(s := close_level p q (f s)))" "dp_SIZE d' = dp_SIZE d"
proof -
  obtain e d' where d': "depth_close_order p q s d = (Inr e, d')"
    "window s d' (before s d f) (close_level p q (f s)) (behind s d f) (excess_levels (\<not> s) d)"
    "dp_SIZE d' = dp_SIZE d" using close_order_window [OF repr_window [OF R] c] by blast
  show thesis by (rule that [OF d'(1) window_repr [OF R d'(2,3)] d'(3)])
qed

lemma depth_change_repr:
  assumes R: "depth_repr d f" and c: "p \<in> agg_price ` set (f s)"
  obtains d' where "change_qty_order p delta s d = (Inr (), d')"
    "depth_repr d' (f(s := change_level p delta (f s)))" "dp_SIZE d' = dp_SIZE d"
proof -
  obtain d' where d': "change_qty_order p delta s d = (Inr (), d')"
    "window s d' (before s d f) (change_level p delta (f s)) (behind s d f) (excess_levels (\<not> s) d)"
    "dp_SIZE d' = dp_SIZE d" using change_qty_window [OF repr_window [OF R] c] by blast
  show thesis by (rule that [OF d'(1) window_repr [OF R d'(2,3)] d'(3)])
qed

section \<open>What a reader sees\<close>

text \<open>The slots of a side, in the order of the array.\<close>

definition shown :: "bool \<Rightarrow> depth \<Rightarrow> levels" where
  "shown s d = cores (take (dp_SIZE d) (drop (if s then bids d else asks d) (dp_levels d)))"

lemma shown_repr:
  assumes "depth_repr d f"
  shows "shown s d = take (dp_SIZE d) (f s) @ replicate (dp_SIZE d - length (f s)) blank"
proof -
  have "shown s d = take (dp_SIZE d) (drop (if s then 0 else dp_SIZE d) (cores (dp_levels d)))"
    by (simp add: shown_def cores_def take_map drop_map bids_def asks_def)
  then show ?thesis using assms by (simp add: depth_repr_def row_def [symmetric])
qed

section \<open>Replacing and filling\<close>

lemma add_level_prices: "agg_price ` set (add_level s p q L) = insert p (agg_price ` set L)"
  by (induction s p q L rule: add_level.induct) auto

lemma add_level_keeps: "p' \<noteq> p \<Longrightarrow> (p', n, a) \<in> set (add_level s p q L) \<longleftrightarrow> (p', n, a) \<in> set L"
  by (induction s p q L rule: add_level.induct) auto

lemma depth_replace_same_repr:
  assumes R: "depth_repr d f" and c: "p \<in> agg_price ` set (f s)"
  obtains d' where "replace_order p p q q' s d = (Inr False, d')"
    "depth_repr d' (f(s := change_level p (q' - q) (f s)))"
proof -
  obtain d' where "change_qty_order p (q' - q) s d = (Inr (), d')"
    "depth_repr d' (f(s := change_level p (q' - q) (f s)))" "dp_SIZE d' = dp_SIZE d"
    by (rule depth_change_repr [OF R c])
  then show thesis by (intro that [of d']) (simp_all add: replace_order_def)
qed

lemma depth_replace_move_repr:
  assumes R: "depth_repr d f" and c: "can_close p q (f s)" and p': "p' \<noteq> p" "p' \<noteq> INVALID_LEVEL_PRICE"
  obtains e d' where "replace_order p p' q q' s d = (Inr e, d')"
    "depth_repr d' (f(s := close_level p q (add_level s p' q' (f s))))"
proof -
  let ?g = "f(s := add_level s p' q' (f s))"
  obtain d1 where d1: "depth_add_order p' q' s d = (Inr (), d1)" "depth_repr d1 ?g"
    "dp_SIZE d1 = dp_SIZE d" by (rule depth_add_repr [OF R p'(2)])
  have "can_close p q (?g s)" using c p'(1) by (auto simp: can_close_def add_level_keeps)
  then obtain e d2 where d2: "depth_close_order p q s d1 = (Inr e, d2)"
    "depth_repr d2 (?g(s := close_level p q (?g s)))" "dp_SIZE d2 = dp_SIZE d1"
    by (rule depth_close_repr [OF d1(2)])
  then show thesis using d1(1) p'(1) by (intro that [of e d2]) (simp_all add: replace_order_def)
qed

definition ignored_fill_qty :: "bool \<Rightarrow> depth \<Rightarrow> quantity" where
  "ignored_fill_qty s d = (if s then dp_ignore_bid_fill_qty d else dp_ignore_ask_fill_qty d)"

definition fill_level :: "price \<Rightarrow> quantity \<Rightarrow> bool \<Rightarrow> levels \<Rightarrow> levels" where
  "fill_level p q filled L = (if filled then close_level p q L else change_level p (- q) L)"

lemma depth_fill_repr:
  assumes R: "depth_repr d f" and c: "can_close p q (f s)" and i: "ignored_fill_qty s d = 0"
  obtains d' where "fill_order p q filled s d = (Inr (), d')"
    "depth_repr d' (f(s := fill_level p q filled (f s)))"
proof (cases filled)
  case True
  obtain e d' where "depth_close_order p q s d = (Inr e, d')"
    "depth_repr d' (f(s := close_level p q (f s)))" "dp_SIZE d' = dp_SIZE d"
    by (rule depth_close_repr [OF R c])
  then show thesis
    using i True by (intro that [of d'])
      (simp_all add: fill_order_def ignored_fill_qty_def forget_def fill_level_def split: if_splits)
next
  case False
  have "p \<in> agg_price ` set (f s)" using c by (force simp: can_close_def)
  then obtain d' where "change_qty_order p (- q) s d = (Inr (), d')"
    "depth_repr d' (f(s := change_level p (- q) (f s)))" "dp_SIZE d' = dp_SIZE d"
    by (rule depth_change_repr [OF R])
  then show thesis
    using i False by (intro that [of d'])
      (simp_all add: fill_order_def ignored_fill_qty_def fill_level_def split: if_splits)
qed

lemma depth_repr_fields [simp]:
  "depth_repr (d\<lparr>dp_ignore_bid_fill_qty := x\<rparr>) f = depth_repr d f"
  "depth_repr (d\<lparr>dp_ignore_ask_fill_qty := x\<rparr>) f = depth_repr d f"
  "depth_repr (d\<lparr>dp_last_published_change := c\<rparr>) f = depth_repr d f"
  by (simp_all add: depth_repr_def excess_levels_def)

lemma depth_fill_ignored:
  assumes "ignored_fill_qty s d \<noteq> 0" "depth_repr d f"
  shows "\<exists>d'. fill_order p q filled s d = (Inr (), d') \<and> depth_repr d' f \<and>
    ignored_fill_qty s d' = ignored_fill_qty s d - q"
  using assms by (cases s) (simp_all add: fill_order_def ignored_fill_qty_def)

section \<open>A price the depth does not have\<close>

text \<open>
  \<^verbatim>\<open>find_level\<close> is documented to return a null pointer for a price it neither finds nor
  may create; it returns the end of its search instead, which for a bid is the first ask and
  for an ask lies past the array. Closing a bid the depth does not have closes an order of the
  best ask.
\<close>

lemma find_absent:
  assumes W: "window s d pre L post m" and p: "p \<noteq> INVALID_LEVEL_PRICE" "p \<notin> agg_price ` set L"
  shows "find_level p s False d = (Slot (length pre + dp_SIZE d), d)"
proof -
  have "passes p s False (if j < length L then agg_price (L ! j) else INVALID_LEVEL_PRICE)" for j
    using p nth_mem [of j L] by (auto simp: passes_def)
  then have "find_visible p s False (length pre) (dp_SIZE d) d = (length pre + dp_SIZE d, d)"
    using find_visible_skip [OF W, of 0 "dp_SIZE d" p False] by simp
  moreover have "map_of (excess_levels s d) p = None"
  proof -
    have "fst ` set (excess_levels s d) = agg_price ` set (drop (dp_SIZE d) L)"
      using excess_keys [OF windowD(5) [OF W]] by (metis list.set_map)
    moreover have "agg_price ` set (drop (dp_SIZE d) L) \<subseteq> agg_price ` set L"
      by (intro image_mono set_drop_subset)
    then have "p \<notin> agg_price ` set (drop (dp_SIZE d) L)" using p(2) by (rule contra_subsetD)
    ultimately have "p \<notin> fst ` set (excess_levels s d)" by simp
    then show ?thesis by (simp add: map_of_eq_None_iff)
  qed
  ultimately show ?thesis by (simp add: find_level_unfold [OF W])
qed

lemma close_absent_bid:
  assumes R: "depth_repr d f" and p: "p \<noteq> INVALID_LEVEL_PRICE" "p \<notin> agg_price ` set (f True)"
    and a: "f False = (a, n, v) # L" "n \<noteq> 0" "n \<noteq> 1" "q \<le> v"
  obtains d' where "depth_close_order p q True d = (Inr False, d')"
    "depth_repr d' (f(False := (a, n - 1, v - q) # L))"
proof -
  have sz: "0 < dp_SIZE d" using R by (simp add: depth_repr_def)
  have f: "find_level p True False d = (Slot (dp_SIZE d), d)"
    using find_absent [OF repr_window [OF R, of True] p] by (simp add: before_def)
  have W: "window False d (before False d f) ([] @ (a, n, v) # L) (behind False d f)
      (excess_levels (\<not> False) d)"
    using repr_window [OF R, of False] a(1) by simp
  have ref: "ref_at (dp_SIZE d) (before False d f) a 0 = Slot (dp_SIZE d)"
    using sz by (simp add: ref_at_def before_def)
  obtain l where l: "get_level False (Slot (dp_SIZE d)) d = Inr l" "level_core l = (a, n, v)"
    "\<not> dl_is_excess l"
  proof -
    obtain l where "get_level False (ref_at (dp_SIZE d) (before False d f) (agg_price (a, n, v)) (length ([] :: levels))) d = Inr l"
      "level_core l = (a, n, v)" "dl_is_excess l = (dp_SIZE d \<le> length ([] :: levels))"
      by (rule get_ref [OF W]) blast
    then show thesis using ref sz by (intro that [of l]) simp_all
  qed
  have lp: "dl_price l = a" "dl_order_count l = n" "dl_aggregate_qty l = v"
    using l(2) by (simp_all add: level_core_def)
  have g: "get_level True (Slot (dp_SIZE d)) d = Inr l" using l(1) by (simp add: get_level_def)
  let ?l1 = "l\<lparr>dl_order_count := n - 1, dl_aggregate_qty := v - q\<rparr>"
  let ?l2 = "level_last_change (dp_last_change d + 1) ?l1"
  let ?d2 = "put_level True (Slot (dp_SIZE d)) ?l2 (d\<lparr>dp_last_change := dp_last_change d + 1\<rparr>)"
  have "level_close_order q l = (Inr False, ?l1)" using level_close_order_ok [of l q] lp a by simp
  then have r: "depth_close_order p q True d = (Inr False, ?d2)"
    using f g by (simp add: depth_close_order_def)
  have "level_core ?l2 = (a, n - 1, v - q)"
    using lp by (simp add: level_core_def level_last_change_def)
  moreover have "?d2 = put_level False (Slot (dp_SIZE d)) ?l2 (d\<lparr>dp_last_change := dp_last_change d + 1\<rparr>)"
    by (simp add: put_level_def)
  moreover have "window False (put_level False (ref_at (dp_SIZE (d\<lparr>dp_last_change := dp_last_change d + 1\<rparr>))
      (before False d f) (agg_price (a, n, v)) (length ([] :: levels))) ?l2 (d\<lparr>dp_last_change := dp_last_change d + 1\<rparr>))
      (before False d f) ([] @ level_core ?l2 # L) (behind False d f) (excess_levels (\<not> False) d)"
    by (rule put_ref) (use W lp l(3) sz in simp_all)
  ultimately have "window False ?d2 (before False d f) ((a, n - 1, v - q) # L) (behind False d f)
      (excess_levels (\<not> False) d)"
    using ref by simp
  then show thesis using r window_repr [OF R] by (intro that [of ?d2]) simp_all
qed

lemma close_absent_ask:
  assumes R: "depth_repr d f" and p: "p \<noteq> INVALID_LEVEL_PRICE" "p \<notin> agg_price ` set (f False)"
  shows "depth_close_order p q False d = (Inl Out_of_bounds, d)"
proof -
  have W: "window False d (before False d f) (f False) (behind False d f) (excess_levels (\<not> False) d)"
    by (rule repr_window [OF R])
  have "length (before False d f) + dp_SIZE d = length (dp_levels d)"
    using window_length [OF W] by (simp add: before_def)
  then have "get_level False (Slot (length (before False d f) + dp_SIZE d)) d = Inl Out_of_bounds"
    by (simp add: get_level_def)
  then show ?thesis using find_absent [OF W p] by (simp add: depth_close_order_def)
qed

end
