(* ===== verification/Depth_Order_Book.thy ===== *)
theory Depth_Order_Book
  imports Callback_Run Depth_Facts
begin

text \<open>
  \<^verbatim>\<open>src/book/depth_order_book.h\<close>: the order book that keeps a depth. It overrides the
  virtual callbacks of the book, so the depth follows the notifications and not the book
  itself. The members of the derived class are the first fields of the world; what a further
  derived class or the listeners keep extends the record.
\<close>

section \<open>The state\<close>

record depth_book =
  db_depth :: depth
  db_bbo_listener :: "listener option"
  db_depth_listener :: "listener option"

definition DepthOrderBook :: "nat \<Rightarrow> depth_book" where
  "DepthOrderBook SIZE =
     \<lparr>db_depth = Depth SIZE, db_bbo_listener = None, db_depth_listener = None\<rparr>"

definition set_bbo_listener :: "listener option \<Rightarrow> 'w depth_book_scheme \<Rightarrow> 'w depth_book_scheme" where
  "set_bbo_listener l w = w\<lparr>db_bbo_listener := l\<rparr>"

definition set_depth_listener :: "listener option \<Rightarrow> 'w depth_book_scheme \<Rightarrow> 'w depth_book_scheme" where
  "set_depth_listener l w = w\<lparr>db_depth_listener := l\<rparr>"

section \<open>The callbacks\<close>

text \<open>
  A call of a method of the member \<^verbatim>\<open>depth_\<close>, and of a method of an order that may be
  null.
\<close>

definition on_depth ::
  "(depth \<Rightarrow> 'a depth_result) \<Rightarrow> 'w depth_book_scheme system effect" where
  "on_depth op s =
     (case op (db_depth (sys_world s)) of
        (r, d) \<Rightarrow> (case r of Inl e \<Rightarrow> Some e | Inr x \<Rightarrow> None,
                  s\<lparr>sys_world := (sys_world s)\<lparr>db_depth := d\<rparr>\<rparr>))"

definition with_order ::
  "('w \<Rightarrow> order_env) \<Rightarrow> order_ptr option \<Rightarrow> (order_view \<Rightarrow> 'w system effect) \<Rightarrow> 'w system effect" where
  "with_order view ord f s =
     (case ord of None \<Rightarrow> (Some Invalid_iterator, s) | Some i \<Rightarrow> f (view (sys_world s) i) s)"

definition depth_on_accept ::
  "('w depth_book_scheme \<Rightarrow> order_env) \<Rightarrow> order_ptr option \<Rightarrow> quantity \<Rightarrow> 'w depth_book_scheme system effect" where
  "depth_on_accept view ord quantity =
     with_order view ord (\<lambda>v.
       if Order_is_limit v then
         (if quantity = o_order_qty v
          then on_depth (ignore_fill_qty quantity (o_is_buy v))
          else on_depth (depth_add_order (o_price v) (o_order_qty v) (o_is_buy v)))
       else eff_skip)"

definition depth_on_fill ::
  "('w depth_book_scheme \<Rightarrow> order_env) \<Rightarrow> order_ptr option \<Rightarrow> order_ptr option \<Rightarrow> quantity \<Rightarrow> bool \<Rightarrow> bool
     \<Rightarrow> 'w depth_book_scheme system effect" where
  "depth_on_fill view ord matched_order quantity inbound_order_filled matched_order_filled =
     eff_then
       (with_order view matched_order (\<lambda>v.
          if Order_is_limit v
          then on_depth (fill_order (o_price v) quantity matched_order_filled (o_is_buy v)) else eff_skip))
       (with_order view ord (\<lambda>v.
          if Order_is_limit v
          then on_depth (fill_order (o_price v) quantity inbound_order_filled (o_is_buy v)) else eff_skip))"

definition depth_on_cancel ::
  "('w depth_book_scheme \<Rightarrow> order_env) \<Rightarrow> order_ptr option \<Rightarrow> quantity \<Rightarrow> 'w depth_book_scheme system effect" where
  "depth_on_cancel view ord quantity =
     with_order view ord (\<lambda>v.
       if Order_is_limit v then on_depth (depth_close_order (o_price v) quantity (o_is_buy v))
       else eff_skip)"

definition depth_on_replace ::
  "('w depth_book_scheme \<Rightarrow> order_env) \<Rightarrow> order_ptr option \<Rightarrow> quantity \<Rightarrow> quantity \<Rightarrow> price
     \<Rightarrow> 'w depth_book_scheme system effect" where
  "depth_on_replace view ord current_qty new_qty new_price =
     with_order view ord (\<lambda>v.
       on_depth (replace_order (o_price v) new_price current_qty new_qty (o_is_buy v)))"

definition world_listener ::
  "('w \<Rightarrow> listener option) \<Rightarrow> (listener \<Rightarrow> 'w system effect) \<Rightarrow> 'w system effect" where
  "world_listener field f s = (case field (sys_world s) of None \<Rightarrow> (None, s) | Some l \<Rightarrow> f l s)"

text \<open>The best level of either side carries a change later than the last published one.\<close>

definition bbo_changed :: "depth \<Rightarrow> bool" where
  "bbo_changed d =
     (let last_change = dp_last_published_change d
      in level_changed_since last_change (dp_levels d ! bids d) \<or>
         level_changed_since last_change (dp_levels d ! asks d))"

definition depth_on_order_book_change :: "'w depth_book_scheme handler \<Rightarrow> 'w depth_book_scheme system effect" where
  "depth_on_order_book_change h s =
     (if changed (db_depth (sys_world s)) then
        eff_then (world_listener db_depth_listener (\<lambda>l. h (L_on_depth_change l)))
          (eff_then
             (world_listener db_bbo_listener (\<lambda>l s.
                if bbo_changed (db_depth (sys_world s)) then h (L_on_bbo_change l) s else (None, s)))
             (on_depth (\<lambda>d. (Inr (), published d)))) s
      else (None, s))"

definition depth_handler ::
  "('w depth_book_scheme \<Rightarrow> order_env) \<Rightarrow> 'w depth_book_scheme handler \<Rightarrow> 'w depth_book_scheme handler" where
  "depth_handler view client c =
     (case c of
        V_on_accept ord q \<Rightarrow> depth_on_accept view ord q
      | V_on_fill ord m q x i f \<Rightarrow> depth_on_fill view ord m q i f
      | V_on_cancel ord q \<Rightarrow> depth_on_cancel view ord q
      | V_on_replace ord cur new x \<Rightarrow> depth_on_replace view ord cur new x
      | V_on_order_book_change \<Rightarrow> depth_on_order_book_change client
      | _ \<Rightarrow> base_handler client c)"

section \<open>A depth book is quiet when its listeners are\<close>

text \<open>The frame of an effect on the book: it leaves the book and the log alone.\<close>

definition book_frame :: "'w system effect \<Rightarrow> bool" where
  "book_frame f \<longleftrightarrow> (\<forall>s. sys_book (snd (f s)) = sys_book s)"

named_theorems frame_intros \<open>effects that leave the book alone\<close>

lemma book_frameD: "book_frame f \<Longrightarrow> sys_book (snd (f s)) = sys_book s"
  by (simp add: book_frame_def)

lemma book_frame_skip [frame_intros]: "book_frame eff_skip" "book_frame (Pair e)"
  by (simp_all add: book_frame_def)

lemma book_frame_then [frame_intros]: "book_frame f \<Longrightarrow> book_frame g \<Longrightarrow> book_frame (eff_then f g)"
  unfolding book_frame_def eff_then_def
  by (auto split: prod.split option.split) (metis snd_conv)+

lemma book_frame_if [frame_intros]:
  "(b \<Longrightarrow> book_frame f) \<Longrightarrow> (\<not> b \<Longrightarrow> book_frame g) \<Longrightarrow> book_frame (if b then f else g)"
  by simp

lemma book_frame_depth [frame_intros]: "book_frame (on_depth op)"
  by (simp add: book_frame_def on_depth_def split: prod.split)

lemma book_frame_order [frame_intros]: "(\<And>v. book_frame (f v)) \<Longrightarrow> book_frame (with_order view ord f)"
  by (simp add: book_frame_def with_order_def split: option.split)

lemma book_frame_listener [frame_intros]:
  "(\<And>l. book_frame (f l)) \<Longrightarrow> book_frame (world_listener field f)"
  by (simp add: book_frame_def world_listener_def split: option.split)

lemma book_frame_cond [frame_intros]:
  "book_frame f \<Longrightarrow> book_frame (\<lambda>s. if P s then f s else (None, s))"
  by (simp add: book_frame_def)

lemma book_frame_change [frame_intros]:
  assumes "\<And>c. book_frame (client c)"
  shows "book_frame (depth_on_order_book_change client)"
proof -
  have "book_frame (\<lambda>s. if changed (db_depth (sys_world s)) then
      eff_then (world_listener db_depth_listener (\<lambda>l. client (L_on_depth_change l)))
          (eff_then
             (world_listener db_bbo_listener (\<lambda>l s.
                if bbo_changed (db_depth (sys_world s)) then client (L_on_bbo_change l) s else (None, s)))
             (on_depth (\<lambda>d. (Inr (), published d)))) s
      else (None, s))"
    by (intro frame_intros assms)
  then show ?thesis by (simp add: book_frame_def depth_on_order_book_change_def)
qed

lemma depth_handler_frame [frame_intros]:
  assumes "\<And>c. book_frame (client c)"
  shows "book_frame (depth_handler view client c)"
  unfolding depth_handler_def
  by (cases c)
    (simp_all add: depth_on_accept_def depth_on_fill_def depth_on_cancel_def depth_on_replace_def
      base_handler_def, (intro frame_intros assms)+)

interpretation depth_book:
  quiet_callbacks "perform_callback view (depth_handler view no_client)"
  for view :: "'w depth_book_scheme \<Rightarrow> order_env"
proof unfold_locales
  have "book_frame (no_client c)" for c by (simp add: no_client_def frame_intros)
  then have "book_frame (depth_handler view no_client c)" for c by (rule depth_handler_frame)
  then show "sys_book (snd (perform_callback view (depth_handler view no_client) cb s)) = sys_book s"
    for cb and s :: "'w depth_book_scheme system"
    by (rule perform_callback_cases [OF book_frameD])
qed

lemma eff_then_skip [simp]: "eff_then f eff_skip = f" "eff_then eff_skip f = f"
  by (simp_all add: fun_eq_iff eff_then_def eff_skip_def split: prod.split option.split)

end
