(* ===== verification/Simple_Order.thy ===== *)
theory Simple_Order
  imports Order_Tracker
begin

text \<open>
  \<^verbatim>\<open>src/simple/simple_order.h\<close> and \<^verbatim>\<open>simple_order.cpp\<close>: an order that keeps its own
  state, updated from the notifications of the book.
\<close>

section \<open>The class\<close>

datatype order_state = os_new | os_accepted | os_complete | os_cancelled | os_rejected

record simple_order =
  so_state :: order_state
  so_is_buy :: bool
  so_order_qty :: quantity
  so_price :: price
  so_stop_price :: price
  so_conditions :: order_conditions
  so_filled_qty :: quantity
  so_filled_cost :: cost
  so_order_id :: "32 word"

text \<open>The static member \<^verbatim>\<open>last_order_id_\<close> is passed in and returned.\<close>

definition SimpleOrder ::
  "bool \<Rightarrow> price \<Rightarrow> quantity \<Rightarrow> price \<Rightarrow> order_conditions \<Rightarrow> 32 word \<Rightarrow> simple_order \<times> 32 word" where
  "SimpleOrder is_buy price qty stop_price conditions last_order_id =
     (\<lparr>so_state = os_new, so_is_buy = is_buy, so_order_qty = qty, so_price = price,
       so_stop_price = stop_price, so_conditions = conditions, so_filled_qty = 0,
       so_filled_cost = 0, so_order_id = last_order_id + 1\<rparr>, last_order_id + 1)"

definition so_all_or_none :: "simple_order \<Rightarrow> bool" where
  "so_all_or_none x = (so_conditions x AND oc_all_or_none \<noteq> 0)"

definition so_immediate_or_cancel :: "simple_order \<Rightarrow> bool" where
  "so_immediate_or_cancel x = (so_conditions x AND oc_immediate_or_cancel \<noteq> 0)"

definition so_open_qty :: "simple_order \<Rightarrow> quantity" where
  "so_open_qty x = (if so_filled_qty x < so_order_qty x then so_order_qty x - so_filled_qty x else 0)"

definition so_fill :: "quantity \<Rightarrow> cost \<Rightarrow> fill_id \<Rightarrow> simple_order \<Rightarrow> simple_order" where
  "so_fill fill_qty fill_cost fill_id x =
     (let x1 = x\<lparr>so_filled_qty := so_filled_qty x + fill_qty,
                 so_filled_cost := so_filled_cost x + fill_cost\<rparr>
      in if so_open_qty x1 = 0 then x1\<lparr>so_state := os_complete\<rparr> else x1)"

definition so_accept :: "simple_order \<Rightarrow> simple_order" where
  "so_accept x = (if so_state x = os_new then x\<lparr>so_state := os_accepted\<rparr> else x)"

definition so_cancel :: "simple_order \<Rightarrow> simple_order" where
  "so_cancel x = (if so_state x \<noteq> os_complete then x\<lparr>so_state := os_cancelled\<rparr> else x)"

definition so_replace :: "quantity \<Rightarrow> price \<Rightarrow> simple_order \<Rightarrow> simple_order" where
  "so_replace size_delta new_price x =
     (if so_state x = os_accepted
      then x\<lparr>so_order_qty := so_order_qty x + size_delta, so_price := new_price\<rparr> else x)"

text \<open>What the book sees of it through the interface \<^verbatim>\<open>Order\<close>.\<close>

definition simple_view :: "simple_order \<Rightarrow> order_view" where
  "simple_view x =
     \<lparr>o_is_buy = so_is_buy x, o_price = so_price x, o_stop_price = so_stop_price x,
      o_order_qty = so_order_qty x, o_all_or_none = so_all_or_none x,
      o_immediate_or_cancel = so_immediate_or_cancel x\<rparr>"

section \<open>The events of an order, and its states\<close>

datatype order_event =
    E_accepted
  | E_filled quantity cost fill_id
  | E_cancelled
  | E_replaced quantity price

fun so_event :: "order_event \<Rightarrow> simple_order \<Rightarrow> simple_order" where
  "so_event E_accepted x = so_accept x"
| "so_event (E_filled q c i) x = so_fill q c i x"
| "so_event E_cancelled x = so_cancel x"
| "so_event (E_replaced d p) x = so_replace d p x"

text \<open>
  The protocol of the book: an order is filled by at most its open quantity, and a replacement
  does not take it below what is filled. The book cuts a reduction to the open quantity, so a
  replacement may leave nothing open; the book then cancels the order.
\<close>

inductive so_step :: "simple_order \<Rightarrow> order_event \<Rightarrow> simple_order \<Rightarrow> bool" where
  accept: "so_step x E_accepted (so_event E_accepted x)"
| fill: "0 < q \<Longrightarrow> q \<le> so_open_qty x \<Longrightarrow> so_step x (E_filled q c i) (so_event (E_filled q c i) x)"
| cancel: "so_step x E_cancelled (so_event E_cancelled x)"
| replace: "so_filled_qty x \<le> so_order_qty x + d \<Longrightarrow>
     so_step x (E_replaced d p) (so_event (E_replaced d p) x)"

inductive_cases so_stepE: "so_step x e x'"
inductive_simps so_step_simps [simp]:
  "so_step x E_accepted x'" "so_step x (E_filled q c i) x'" "so_step x E_cancelled x'"
  "so_step x (E_replaced d p) x'"

inductive so_run :: "simple_order \<Rightarrow> order_event list \<Rightarrow> simple_order \<Rightarrow> bool" where
  start: "so_run x [] x"
| step: "so_run x es y \<Longrightarrow> so_step y e z \<Longrightarrow> so_run x (es @ [e]) z"

lemma so_step_event: "so_step x e x' \<Longrightarrow> x' = so_event e x"
  by (auto elim: so_step.cases)

lemma so_run_fold: "so_run x es y \<Longrightarrow> y = fold so_event es x"
  by (induction rule: so_run.induct) (simp_all add: so_step_event)

text \<open>
  The invariant: never filled beyond the order quantity, never rejected, filled when complete,
  and not filled when new. As long as no replacement takes the rest away, an order that has
  nothing open is complete.
\<close>

definition so_sound :: "simple_order \<Rightarrow> bool" where
  "so_sound x \<longleftrightarrow> so_filled_qty x \<le> so_order_qty x \<and> so_state x \<noteq> os_rejected \<and>
     (so_state x = os_complete \<longrightarrow> so_filled_qty x = so_order_qty x) \<and>
     (so_state x = os_new \<longrightarrow> so_filled_qty x \<noteq> so_order_qty x)"

definition so_ok :: "simple_order \<Rightarrow> bool" where
  "so_ok x \<longleftrightarrow> so_sound x \<and> (so_filled_qty x = so_order_qty x \<longrightarrow> so_state x = os_complete)"

lemma so_open_qty_sound: "so_sound x \<Longrightarrow> so_open_qty x = so_order_qty x - so_filled_qty x"
  by (auto simp: so_sound_def so_open_qty_def not_less)

lemma so_open_qty_ok: "so_ok x \<Longrightarrow> so_open_qty x = so_order_qty x - so_filled_qty x"
  by (simp add: so_ok_def so_open_qty_sound)

lemma so_ok_new:
  assumes "qty \<noteq> 0"
  shows "so_ok (fst (SimpleOrder b p qty stop conds lid))"
  using assms by (auto simp: SimpleOrder_def so_ok_def so_sound_def)

lemma so_fill_sound:
  assumes "so_sound x" "0 < q" "q \<le> so_open_qty x"
  shows "so_sound (so_fill q c i x)"
    "unat (so_filled_qty (so_fill q c i x)) = unat (so_filled_qty x) + unat q"
    "so_state (so_fill q c i x) = os_complete \<longleftrightarrow> so_filled_qty (so_fill q c i x) = so_order_qty (so_fill q c i x)"
proof -
  have le: "so_filled_qty x \<le> so_order_qty x" using assms(1) by (simp add: so_sound_def)
  have o: "unat q \<le> unat (so_order_qty x) - unat (so_filled_qty x)"
    using assms(3) so_open_qty_sound [OF assms(1)] unat_sub_le [OF le] by (simp add: word_le_nat_alt)
  have q: "0 < unat q" using assms(2) by (simp add: word_gt_0_unat)
  have u: "unat (so_filled_qty x + q) = unat (so_filled_qty x) + unat q"
    using o unat_32_less [of "so_order_qty x"] q
    by (intro unat_add_no_wrap) simp
  show "unat (so_filled_qty (so_fill q c i x)) = unat (so_filled_qty x) + unat q"
    using u by (simp add: so_fill_def Let_def)
  have nc: "so_state x \<noteq> os_complete"
    using assms(1) o q le by (auto simp: so_sound_def)
  have le': "so_filled_qty x + q \<le> so_order_qty x"
    unfolding word_le_nat_alt u using o q by simp
  show "so_sound (so_fill q c i x)"
    using assms(1) le' nc by (auto simp: so_fill_def Let_def so_sound_def so_open_qty_def not_less)
  show "so_state (so_fill q c i x) = os_complete \<longleftrightarrow>
      so_filled_qty (so_fill q c i x) = so_order_qty (so_fill q c i x)"
    using assms(1) le' nc by (auto simp: so_fill_def Let_def so_open_qty_def not_less)
qed

lemma so_fill_ok:
  assumes "so_ok x" "0 < q" "q \<le> so_open_qty x"
  shows "so_ok (so_fill q c i x)"
  using so_fill_sound [OF _ assms(2,3), of c i] assms(1) by (simp add: so_ok_def)

lemma so_step_sound:
  assumes "so_step x e x'" "so_sound x"
  shows "so_sound x'"
  using assms
proof (cases rule: so_step.cases)
  case accept
  then show ?thesis using assms(2) by (auto simp: so_sound_def so_accept_def)
next
  case (fill q c i)
  then show ?thesis using so_fill_sound [OF assms(2)] by simp
next
  case cancel
  then show ?thesis using assms(2) by (auto simp: so_sound_def so_cancel_def)
next
  case (replace d p)
  then show ?thesis using assms(2) by (auto simp: so_sound_def so_replace_def)
qed

lemma so_run_sound: "so_run x es y \<Longrightarrow> so_sound x \<Longrightarrow> so_sound y"
  by (induction rule: so_run.induct) (auto intro: so_step_sound)

definition no_replace :: "order_event list \<Rightarrow> bool" where
  "no_replace es \<longleftrightarrow> (\<forall>d p. E_replaced d p \<notin> set es)"

lemma no_replace_simps [simp]:
  "no_replace []" "no_replace (es @ es') \<longleftrightarrow> no_replace es \<and> no_replace es'"
  "no_replace [E_accepted]" "no_replace [E_cancelled]" "no_replace [E_filled q c i]"
  by (auto simp: no_replace_def)

lemma so_ok_keeps: "so_ok x \<Longrightarrow> so_ok (so_accept x)" "so_ok x \<Longrightarrow> so_ok (so_cancel x)"
  by (cases "so_state x"; simp add: so_ok_def so_sound_def so_accept_def so_cancel_def)+

lemma so_run_ok: "so_run x es y \<Longrightarrow> so_ok x \<Longrightarrow> no_replace es \<Longrightarrow> so_ok y"
proof (induction rule: so_run.induct)
  case (step x es y e z)
  then have y: "so_ok y" by simp
  show ?case
  proof (cases e)
    case (E_filled q c i)
    then show ?thesis using step.hyps(2) so_fill_ok [OF y] by simp
  next
    case (E_replaced d p)
    then have "E_replaced d p \<in> set (es @ [e])" by simp
    then show ?thesis using step.prems(2) unfolding no_replace_def by blast
  qed (use step.hyps(2) y so_ok_keeps in simp_all)
qed

text \<open>The terminal state: a complete order stays complete, and is not filled again.\<close>

lemma so_step_complete:
  assumes "so_step x e x'" "so_sound x" "so_state x = os_complete"
  shows "x' = x"
  using assms
  by (cases rule: so_step.cases)
    (auto simp: so_sound_def so_accept_def so_cancel_def so_replace_def so_open_qty_def word_gt_0)

text \<open>Only a fill completes an order, and it does when it leaves nothing open.\<close>

lemma so_step_completes:
  assumes "so_step x e x'" "so_sound x" "so_state x \<noteq> os_complete"
  shows "so_state x' = os_complete \<longleftrightarrow> (\<exists>q c i. e = E_filled q c i) \<and> so_open_qty x' = 0"
  using assms(1)
proof (cases rule: so_step.cases)
  case (fill q c i)
  note f = so_fill_sound [OF assms(2) fill(3,4), of c i]
  show ?thesis using f(3) so_open_qty_sound [OF f(1)] fill(1,2) by auto
qed (use assms(3) in \<open>auto simp: so_accept_def so_cancel_def so_replace_def\<close>)

definition filling_event :: "order_event list \<Rightarrow> simple_order \<Rightarrow> bool" where
  "filling_event es x \<longleftrightarrow> (\<exists>es1 q c i es2. es = es1 @ E_filled q c i # es2 \<and>
     so_open_qty (fold so_event (es1 @ [E_filled q c i]) x) = 0)"

lemma filling_event_snoc:
  "filling_event (es @ [e]) x \<longleftrightarrow> filling_event es x \<or>
     (\<exists>q c i. e = E_filled q c i) \<and> so_open_qty (fold so_event (es @ [e]) x) = 0"
  (is "?l \<longleftrightarrow> ?r")
proof
  assume ?l
  then obtain es1 q c i es2 where d: "es @ [e] = es1 @ E_filled q c i # es2"
    "so_open_qty (fold so_event (es1 @ [E_filled q c i]) x) = 0"
    unfolding filling_event_def by blast
  show ?r
  proof (cases es2 rule: rev_cases)
    case Nil
    then show ?thesis using d by auto
  next
    case (snoc es3 e')
    then have "es = es1 @ E_filled q c i # es3" using d(1) by simp
    then show ?thesis using d(2) unfolding filling_event_def by blast
  qed
next
  assume ?r
  then show ?l
  proof
    assume "filling_event es x"
    then show ?l unfolding filling_event_def by (metis append_Cons append_assoc)
  next
    assume "(\<exists>q c i. e = E_filled q c i) \<and> so_open_qty (fold so_event (es @ [e]) x) = 0"
    then obtain q c i where "e = E_filled q c i" "so_open_qty (fold so_event (es @ [E_filled q c i]) x) = 0"
      by blast
    then show ?l unfolding filling_event_def
      by (intro exI [of _ es] exI [of _ q] exI [of _ c] exI [of _ i] exI [of _ "[]"]) simp
  qed
qed

lemma so_run_complete:
  "so_run x es y \<Longrightarrow> so_sound x \<Longrightarrow> so_state x \<noteq> os_complete \<Longrightarrow>
     so_state y = os_complete \<longleftrightarrow> filling_event es x"
proof (induction rule: so_run.induct)
  case (start x)
  then show ?case by (simp add: filling_event_def)
next
  case (step x es y e z)
  have y: "so_sound y" using so_run_sound step by blast
  have z: "z = fold so_event (es @ [e]) x"
    using so_run_fold [OF step.hyps(1)] so_step_event [OF step.hyps(2)] by simp
  show ?case
  proof (cases "so_state y = os_complete")
    case True
    then show ?thesis
      using so_step_complete [OF step.hyps(2) y] step.IH step.prems by (simp add: filling_event_snoc)
  next
    case False
    then show ?thesis
      using so_step_completes [OF step.hyps(2) y] step.IH step.prems
      unfolding filling_event_snoc z by simp
  qed
qed

definition filled_by :: "order_event list \<Rightarrow> nat" where
  "filled_by es = (\<Sum>e \<leftarrow> es. case e of E_filled q c i \<Rightarrow> unat q | _ \<Rightarrow> 0)"

lemma filled_by_simps [simp]:
  "filled_by [] = 0" "filled_by (es @ es') = filled_by es + filled_by es'"
  "filled_by (e # es) = (case e of E_filled q c i \<Rightarrow> unat q | _ \<Rightarrow> 0) + filled_by es"
  by (simp_all add: filled_by_def)

lemma so_run_filled:
  "so_run x es y \<Longrightarrow> so_sound x \<Longrightarrow> unat (so_filled_qty y) = unat (so_filled_qty x) + filled_by es"
proof (induction rule: so_run.induct)
  case (start x)
  then show ?case by simp
next
  case (step x es y e z)
  have "so_sound y" using step so_run_sound by blast
  then have "unat (so_filled_qty z) = unat (so_filled_qty y) + filled_by [e]"
    using step.hyps(2) so_fill_sound(2) [of y]
    by (cases e) (auto simp: so_accept_def so_cancel_def so_replace_def)
  then show ?case using step by simp
qed

section \<open>The life of an order\<close>

text \<open>
  C8. An order created with a positive quantity and driven by the book's protocol, its
  replacements down to nothing open included, is never filled beyond its quantity, is never
  rejected, and its filled quantity is the sum of its fills. It is complete exactly when one of
  its fills left nothing open. An order with nothing open that is not complete had the rest
  taken by a replacement: it is still accepted, or cancelled, which is how the book ends it.
\<close>

theorem simple_order_life:
  fixes b p qty stop conds lid
  defines "x \<equiv> fst (SimpleOrder b p qty stop conds lid)"
  assumes "so_run x es y" "qty \<noteq> 0"
  shows "so_filled_qty y \<le> so_order_qty y \<and> so_state y \<noteq> os_rejected \<and>
    unat (so_filled_qty y) = filled_by es \<and>
    (so_state y = os_complete \<longleftrightarrow> (\<exists>es1 q c i es2. es = es1 @ E_filled q c i # es2 \<and>
       so_open_qty (fold so_event (es1 @ [E_filled q c i]) x) = 0)) \<and>
    (so_state y = os_complete \<longrightarrow> so_open_qty y = 0) \<and>
    (so_open_qty y = 0 \<and> so_state y \<noteq> os_complete \<longrightarrow>
       (\<exists>d p. E_replaced d p \<in> set es) \<and> so_state y \<in> {os_accepted, os_cancelled})"
proof -
  have x: "so_ok x" "so_sound x" "so_state x \<noteq> os_complete" "so_filled_qty x = 0"
    using so_ok_new [OF assms(3)] by (simp_all add: x_def so_ok_def SimpleOrder_def)
  have s: "so_sound y" using so_run_sound [OF assms(2) x(2)] .
  have o: "so_open_qty y = 0 \<longleftrightarrow> so_filled_qty y = so_order_qty y"
    using so_open_qty_sound [OF s] by auto
  have "so_ok y" if "\<not> (\<exists>d p. E_replaced d p \<in> set es)"
    using so_run_ok [OF assms(2) x(1)] that by (simp add: no_replace_def)
  then have "so_open_qty y = 0 \<and> so_state y \<noteq> os_complete \<longrightarrow>
      (\<exists>d p. E_replaced d p \<in> set es) \<and> so_state y \<in> {os_accepted, os_cancelled}"
    using o s by (cases "so_state y") (auto simp: so_ok_def so_sound_def)
  then show ?thesis
    using s o so_run_complete [OF assms(2) x(2,3)] so_run_filled [OF assms(2) x(2)] x(4)
    unfolding filling_event_def by (simp add: so_sound_def)
qed

text \<open>
  An order filled in two steps, and one reduced by all of its quantity, as in the test
  \<^verbatim>\<open>TestReplaceSizeDecreaseCancel\<close>.
\<close>

theorem simple_order_life_witness:
  "(\<exists>y. so_run (fst (SimpleOrder True 10 100 0 0 0)) [E_accepted, E_filled 60 600 1, E_filled 40 400 2] y \<and>
      so_state y = os_complete) \<and>
   (\<exists>y. so_run (fst (SimpleOrder True 10 100 0 0 0)) [E_accepted, E_filled 60 600 1, E_replaced (- 40) 10, E_cancelled] y \<and>
      so_open_qty y = 0 \<and> so_state y = os_cancelled)"
proof -
  let ?x = "fst (SimpleOrder True 10 100 0 0 0)"
  have q: "(100 :: quantity) \<noteq> 0" by simp
  let ?m = "so_fill 60 600 1 (so_accept ?x)"
  have m: "so_run ?x [E_accepted, E_filled 60 600 1] ?m"
    using so_run.step [OF so_run.step [OF so_run.start, where x = ?x and e = E_accepted], where e = "E_filled 60 600 1" and z = ?m]
    by (simp add: SimpleOrder_def so_accept_def so_open_qty_def)
  let ?y = "so_fill 40 400 2 ?m"
  have y: "so_run ?x [E_accepted, E_filled 60 600 1, E_filled 40 400 2] ?y"
    using so_run.step [OF m, where e = "E_filled 40 400 2" and z = ?y]
    by (simp add: SimpleOrder_def so_accept_def so_open_qty_def so_fill_def)
  have "so_open_qty (fold so_event ([E_accepted, E_filled 60 600 1] @ [E_filled 40 400 2]) ?x) = 0"
    by (simp add: SimpleOrder_def so_accept_def so_open_qty_def so_fill_def)
  moreover have "[E_accepted, E_filled 60 600 1, E_filled 40 400 2] =
      [E_accepted, E_filled 60 600 1] @ E_filled 40 400 2 # []" by simp
  moreover have "so_state ?y = os_complete \<longleftrightarrow> (\<exists>es1 q c i es2.
      [E_accepted, E_filled 60 600 1, E_filled 40 400 2] = es1 @ E_filled q c i # es2 \<and>
      so_open_qty (fold so_event (es1 @ [E_filled q c i]) ?x) = 0)"
    using simple_order_life [OF y q] by (elim conjE)
  ultimately have c: "so_state ?y = os_complete" by blast
  let ?r = "so_replace (- 40) 10 ?m"
  have r: "so_run ?x [E_accepted, E_filled 60 600 1, E_replaced (- 40) 10] ?r"
    using so_run.step [OF m, where e = "E_replaced (- 40) 10" and z = ?r]
    by (simp add: SimpleOrder_def so_accept_def so_open_qty_def so_fill_def)
  have z: "so_run ?x [E_accepted, E_filled 60 600 1, E_replaced (- 40) 10, E_cancelled] (so_cancel ?r)"
    using so_run.step [OF r, where e = E_cancelled and z = "so_cancel ?r"] by simp
  have "so_open_qty (so_cancel ?r) = 0 \<and> so_state (so_cancel ?r) = os_cancelled"
    by (simp add: SimpleOrder_def so_accept_def so_open_qty_def so_fill_def so_replace_def so_cancel_def)
  with y c z show ?thesis by blast
qed

end
