(* ===== verification/Simple_Order_Book.thy ===== *)
theory Simple_Order_Book
  imports Depth_Order_Book Simple_Order
begin

text \<open>
  \<^verbatim>\<open>src/simple/simple_order_book.h\<close>: the depth book over simple orders. It overrides
  \<^verbatim>\<open>perform_callback\<close> to keep the orders up to date. An order pointer is the index of the
  order in \<open>sb_orders\<close>.
\<close>

section \<open>The class\<close>

record simple_book = depth_book +
  sb_orders :: "order_ptr \<Rightarrow> simple_order"
  sb_fill_id :: fill_id

definition SimpleOrderBook :: "nat \<Rightarrow> (order_ptr \<Rightarrow> simple_order) \<Rightarrow> simple_book" where
  "SimpleOrderBook SIZE orders =
     \<lparr>db_depth = Depth SIZE, db_bbo_listener = None, db_depth_listener = None,
      sb_orders = orders, sb_fill_id = 0\<rparr>"

definition orders_view :: "'w simple_book_scheme \<Rightarrow> order_env" where
  "orders_view w i = simple_view (sb_orders w i)"

text \<open>A call of a method of an order behind a pointer that may be null.\<close>

definition on_order ::
  "order_ptr option \<Rightarrow> (simple_order \<Rightarrow> simple_order) \<Rightarrow> 'w simple_book_scheme system effect" where
  "on_order ord f s =
     (case ord of
        None \<Rightarrow> (Some Invalid_iterator, s)
      | Some i \<Rightarrow>
          (None, s\<lparr>sys_world := (sys_world s)
             \<lparr>sb_orders := (sb_orders (sys_world s))(i := f (sb_orders (sys_world s) i))\<rparr>\<rparr>))"

definition next_fill_id :: "'w simple_book_scheme system effect" where
  "next_fill_id s = (None, s\<lparr>sys_world := (sys_world s)\<lparr>sb_fill_id := sb_fill_id (sys_world s) + 1\<rparr>\<rparr>)"

definition update_filled :: "callback \<Rightarrow> 'w simple_book_scheme system effect" where
  "update_filled cb s =
     (let fill_id = sb_fill_id (sys_world s);
          fill_cost = cb_quantity cb * cb_price cb
      in eff_then (on_order (cb_matched_order cb) (so_fill (cb_quantity cb) fill_cost fill_id))
           (on_order (cb_order cb) (so_fill (cb_quantity cb) fill_cost fill_id)) s)"

definition simple_perform ::
  "'w simple_book_scheme handler \<Rightarrow> callback \<Rightarrow> 'w simple_book_scheme system effect" where
  "simple_perform client cb =
     eff_then (perform_callback orders_view (depth_handler orders_view client) cb)
       (case cb_kind cb of
          cb_order_accept \<Rightarrow> on_order (cb_order cb) so_accept
        | cb_order_fill \<Rightarrow>
            eff_then next_fill_id (update_filled cb)
        | cb_order_cancel \<Rightarrow> on_order (cb_order cb) so_cancel
        | cb_order_replace \<Rightarrow> on_order (cb_order cb) (so_replace (cb_delta cb) (cb_price cb))
        | _ \<Rightarrow> eff_skip)"

section \<open>It is quiet\<close>

lemma book_frame_on_order [frame_intros]: "book_frame (on_order ord f)" "book_frame next_fill_id"
  by (simp_all add: book_frame_def on_order_def next_fill_id_def split: option.split)

lemma book_frame_update_fill [frame_intros]: "book_frame (update_filled cb)"
  by (simp add: book_frame_def update_filled_def Let_def eff_then_def on_order_def
      split: prod.split option.split)

lemma book_frame_perform [frame_intros]:
  "(\<And>c. book_frame (h c)) \<Longrightarrow> book_frame (perform_callback view h cb)"
  unfolding book_frame_def [of "perform_callback view h cb"]
  using perform_callback_cases [of h view cb] by (simp add: book_frame_def)

lemma simple_perform_frame:
  assumes "\<And>c. book_frame (client c)"
  shows "book_frame (simple_perform client cb)"
  unfolding simple_perform_def Let_def
  by (cases "cb_kind cb") (simp_all, (intro frame_intros assms)+)

interpretation simple_book: quiet_callbacks "simple_perform no_client"
  by unfold_locales
    (rule book_frameD [OF simple_perform_frame], simp add: no_client_def frame_intros)

end
