(* ===== verification/Depth_Aggregate.thy ===== *)
theory Depth_Aggregate
  imports Depth_Facts "HOL-Library.Multiset"
begin

text \<open>
  The levels a multiset of orders makes: for every price, how many orders there are and what
  they add up to. The operations on levels are operations on the multiset, and what the depth
  keeps beside its levels is left alone by them.
\<close>

section \<open>The levels of a multiset of orders\<close>

type_synonym quote = "price \<times> quantity"

definition quotes_at :: "quote multiset \<Rightarrow> price \<Rightarrow> quote multiset" where
  "quotes_at M p = filter_mset (\<lambda>x. fst x = p) M"

definition level_of :: "quote multiset \<Rightarrow> price \<Rightarrow> aggregate" where
  "level_of M p = (p, of_nat (size (quotes_at M p)), \<Sum>x \<in># quotes_at M p. snd x)"

definition levels_of :: "bool \<Rightarrow> quote multiset \<Rightarrow> levels" where
  "levels_of s M =
     map (level_of M) ((if s then rev else (\<lambda>ps. ps)) (sorted_list_of_set (fst ` set_mset M)))"

definition quotes_qty :: "quote multiset \<Rightarrow> nat" where
  "quotes_qty M = (\<Sum>x \<in># M. unat (snd x))"

text \<open>What a side can hold: real prices, positive quantities, and 32 bits in all.\<close>

definition quotes_ok :: "quote multiset \<Rightarrow> bool" where
  "quotes_ok M \<longleftrightarrow> (\<forall>x \<in># M. fst x \<noteq> INVALID_LEVEL_PRICE \<and> snd x \<noteq> 0) \<and> quotes_qty M < 2 ^ 32"

lemma fst_level_of [simp]: "fst (level_of M p) = p"
  by (simp add: level_of_def)

lemma quotes_at_simps [simp]:
  "quotes_at (add_mset (p', q) M) p = (if p' = p then add_mset (p', q) (quotes_at M p) else quotes_at M p)"
  "quotes_at {#} p = {#}"
  by (simp_all add: quotes_at_def)

lemma levels_of_prices: "agg_price ` set (levels_of s M) = fst ` set_mset M"
  by (auto simp: levels_of_def image_image)

lemma levels_sorted_iff:
  "levels_sorted s L \<longleftrightarrow> sorted_wrt (<) (if s then rev (map agg_price L) else map agg_price L)"
  by (auto simp: levels_sorted_def sorted_wrt_map sorted_wrt_rev rev_map)

lemma levels_sorted_levels_of: "levels_sorted s (levels_of s M)"
  by (auto simp: levels_sorted_iff levels_of_def rev_map comp_def)

lemma levels_of_unique:
  assumes "levels_sorted s L" "agg_price ` set L = fst ` set_mset M"
    "\<And>x. x \<in> set L \<Longrightarrow> x = level_of M (agg_price x)"
  shows "L = levels_of s M"
proof -
  let ?ps = "if s then rev (map agg_price L) else map agg_price L"
  have "set ?ps = fst ` set_mset M" using assms(2) by simp
  then have "sorted_list_of_set (fst ` set_mset M) = ?ps"
    using assms(1) sorted_list_of_set.idem_if_sorted_distinct [of ?ps]
    by (auto simp: levels_sorted_iff strict_sorted_iff)
  then have "(if s then rev else (\<lambda>ps. ps)) (sorted_list_of_set (fst ` set_mset M)) = map agg_price L"
    by simp
  moreover have "map (level_of M) (map agg_price L) = L"
    using assms(3) by (simp add: map_idI)
  ultimately show ?thesis by (simp add: levels_of_def)
qed

lemma levels_of_at: "x \<in> set (levels_of s M) \<Longrightarrow> x = level_of M (agg_price x)"
  by (auto simp: levels_of_def)

lemma levels_ok_levels_of: "quotes_ok M \<Longrightarrow> levels_ok s (levels_of s M)"
  unfolding levels_ok_def
proof (intro conjI ballI)
  fix x assume ok: "quotes_ok M" and "x \<in> set (levels_of s M)"
  then have "agg_price x \<in> fst ` set_mset M" using levels_of_prices [of s M] by blast
  then show "agg_price x \<noteq> INVALID_LEVEL_PRICE" using ok by (auto simp: quotes_ok_def)
qed (rule levels_sorted_levels_of)

section \<open>Operations on levels are operations on orders\<close>

lemma close_add_level:
  assumes "levels_ok s L" "\<forall>n a. (p, n, a) \<in> set L \<longrightarrow> n \<noteq> 0"
  shows "close_level p q (add_level s p q L) = L"
  using assms
proof (induction s p q L rule: add_level.induct)
  case (1 s p q)
  then show ?case by (simp add: close_level_def)
next
  case (2 s p q p' n a L)
  have ok: "levels_ok s L" "\<forall>x \<in> set L. excess_lt s p' (agg_price x)"
    using 2(2) by (auto simp: levels_ok_def levels_sorted_def)
  have id: "close_level p q M = M" if "\<forall>x \<in> set M. agg_price x \<noteq> p" for M
    using that by (induction M) (auto simp: close_level_def)
  have split: "close_level p q (x # M) = close_level p q [x] @ close_level p q M" for x M
    by (simp add: close_level_def)
  consider "p' = p" | "p' \<noteq> p" "excess_lt s p' p" | "p' \<noteq> p" "\<not> excess_lt s p' p" by blast
  then show ?case
  proof cases
    case 1
    then have "\<forall>x \<in> set L. agg_price x \<noteq> p" using ok(2) by auto
    moreover have "n + 1 \<noteq> 1" using 2(3) 1 by simp
    ultimately show ?thesis using 1 id split [of "(p, n + 1, a + q)" L]
      by (simp add: close_level_def)
  next
    case 2
    then show ?thesis using "2.IH" ok "2.prems"
      by (simp add: split [of "(p', n, a)" "add_level s p q L"]) (simp add: close_level_def)
  next
    case 3
    then have "excess_lt s p p'" using excess_lt_total [of p p' s] by auto
    then have "\<forall>x \<in> set ((p', n, a) # L). agg_price x \<noteq> p"
      using 3 ok(2) by (cases s) auto
    then have "close_level p q ((p', n, a) # L) = (p', n, a) # L" by (rule id)
    then show ?thesis
      using 3 by (simp add: split [of "(p, 1, q)" "(p', n, a) # L"]) (simp add: close_level_def)
  qed
qed

lemma add_level_sorted: "levels_sorted s L \<Longrightarrow> levels_sorted s (add_level s p q L)"
proof (induction s p q L rule: add_level.induct)
  case (2 s p q p' n a L)
  have less: "excess_lt s p p'" if "p' \<noteq> p" "\<not> excess_lt s p' p"
    using that excess_lt_total [of p p' s] by auto
  have more: "excess_lt s p' (agg_price x)" if "excess_lt s p' p" "x \<in> set (add_level s p q L)" for x
  proof -
    have "agg_price x \<in> insert p (agg_price ` set L)"
      using that(2) unfolding add_level_prices [of s p q L, symmetric] by blast
    then show ?thesis using that(1) 2(2) by auto
  qed
  consider "p' = p" | "p' \<noteq> p" "excess_lt s p' p" | "p' \<noteq> p" "\<not> excess_lt s p' p" by blast
  then show ?case
  proof cases
    case 2
    then show ?thesis using "2.IH" "2.prems" more by simp
  next
    case 3
    have "excess_lt s p (agg_price x)" if "x \<in> set L" for x
      using that excess.lt_trans [OF TrueI TrueI TrueI less [OF 3], of "agg_price x"] "2.prems" by simp
    then show ?thesis using 3 "2.prems" less by simp
  qed (use 2 in auto)
qed simp

lemma add_level_at:
  assumes "levels_sorted s L" "(p, n, a) \<in> set (add_level s p q L)"
  shows "(\<exists>n0 a0. (p, n0, a0) \<in> set L \<and> n = n0 + 1 \<and> a = a0 + q) \<or>
    p \<notin> agg_price ` set L \<and> n = 1 \<and> a = q"
  using assms
proof (induction s p q L rule: add_level.induct)
  case (2 s p q p' m b L)
  show ?case
  proof (cases "p' = p")
    case True
    then have "\<forall>x \<in> set L. agg_price x \<noteq> p" using 2(2) by auto
    then show ?thesis using 2(3) True by force
  next
    case F: False
    show ?thesis
    proof (cases "excess_lt s p' p")
      case True
      then show ?thesis using 2 F by auto
    next
      case False
      then have "excess_lt s p p'" using F excess_lt_total [of p p' s] by auto
      then have "\<forall>x \<in> set L. agg_price x \<noteq> p"
        using 2(2) excess.lt_trans [of s p p'] by fastforce
      then show ?thesis using 2(3) F False by force
    qed
  qed
qed simp

lemma level_of_other: "p' \<noteq> p \<Longrightarrow> level_of (add_mset (p, q) M) p' = level_of M p'"
  by (simp add: level_of_def)

lemma quotes_at_empty: "p \<notin> fst ` set_mset M \<Longrightarrow> quotes_at M p = {#}"
  by (force simp: quotes_at_def multiset_eq_iff count_eq_zero_iff)

lemma add_level_levels_of: "add_level s p q (levels_of s M) = levels_of s (add_mset (p, q) M)"
proof (rule levels_of_unique)
  let ?L = "levels_of s M"
  show "levels_sorted s (add_level s p q ?L)"
    by (rule add_level_sorted [OF levels_sorted_levels_of])
  show "agg_price ` set (add_level s p q ?L) = fst ` set_mset (add_mset (p, q) M)"
    by (simp add: add_level_prices levels_of_prices)
  fix x assume x: "x \<in> set (add_level s p q ?L)"
  obtain p' n a where xe: "x = (p', n, a)" by (cases x) auto
  show "x = level_of (add_mset (p, q) M) (agg_price x)"
  proof (cases "p' = p")
    case False
    then have "x \<in> set ?L" using x xe add_level_keeps by simp
    then show ?thesis using levels_of_at [of x s M] False xe by (simp add: level_of_other)
  next
    case True
    then consider n0 a0 where "(p, n0, a0) \<in> set ?L" "n = n0 + 1" "a = a0 + q"
      | "p \<notin> agg_price ` set ?L" "n = 1" "a = q"
      using add_level_at [OF levels_sorted_levels_of, of p n a s q M] x xe by blast
    then show ?thesis
    proof cases
      case 1
      have "(p, n0, a0) = level_of M p" using levels_of_at [OF 1(1)] by simp
      then show ?thesis using 1 True xe by (simp add: level_of_def)
    next
      case 2
      then have "quotes_at M p = {#}" by (intro quotes_at_empty) (simp add: levels_of_prices)
      then show ?thesis using 2 True xe by (simp add: level_of_def)
    qed
  qed
qed

text \<open>The bound on the quantities bounds the counts, as every order has some quantity.\<close>

lemma size_le_qty:
  "\<forall>x \<in># Q. snd x \<noteq> (0 :: quantity) \<Longrightarrow> size Q \<le> (\<Sum>x \<in># Q. unat (snd x))"
proof (induction Q)
  case (add x Q)
  then have "0 < unat (snd x)" by (simp add: word_neq_0_conv [symmetric] unat_gt_0)
  then show ?case using add by simp
qed simp

lemma unat_sum_qty:
  "(\<Sum>x \<in># Q. unat (snd x)) < 2 ^ 32 \<Longrightarrow>
     unat (\<Sum>x \<in># Q. snd x :: quantity) = (\<Sum>x \<in># Q. unat (snd x))"
  by (induction Q) (auto simp: unat_add_no_wrap)

lemma quotes_at_bounds:
  assumes "quotes_ok M"
  shows "size (quotes_at M p) < 2 ^ 32" "(\<Sum>x \<in># quotes_at M p. unat (snd x)) < 2 ^ 32"
    "unat (\<Sum>x \<in># quotes_at M p. snd x) = (\<Sum>x \<in># quotes_at M p. unat (snd x))"
proof -
  have "(\<Sum>x \<in># quotes_at M p. unat (snd x)) \<le> quotes_qty M"
    unfolding quotes_qty_def quotes_at_def by (induction M) auto
  then show b: "(\<Sum>x \<in># quotes_at M p. unat (snd x)) < 2 ^ 32"
    using assms by (simp add: quotes_ok_def)
  have "\<forall>x \<in># quotes_at M p. snd x \<noteq> 0" using assms by (simp add: quotes_ok_def quotes_at_def)
  then show "size (quotes_at M p) < 2 ^ 32" by (rule le_less_trans [OF size_le_qty b])
  show "unat (\<Sum>x \<in># quotes_at M p. snd x) = (\<Sum>x \<in># quotes_at M p. unat (snd x))"
    by (rule unat_sum_qty [OF b])
qed


lemma quotes_ok_subset: "quotes_ok (add_mset x M) \<Longrightarrow> quotes_ok M"
  by (auto simp: quotes_ok_def quotes_qty_def)

lemma of_nat_nonzero:
  assumes "k < 2 ^ 32" "k \<noteq> 0"
  shows "of_nat k \<noteq> (0 :: 32 word)"
  using assms nat_dvd_not_less [of k "2 ^ 32"] word_of_nat_eq_0_iff [where 'a = 32, of k] by auto

text \<open>An order that is counted can be closed, and closing it takes it away.\<close>

lemma quotes_level:
  assumes "quotes_ok (add_mset (p, q) M)"
  obtains n a where "(p, n, a) \<in> set (levels_of s (add_mset (p, q) M))" "n \<noteq> 0" "q \<le> a"
proof -
  let ?M = "add_mset (p, q) M"
  let ?Q = "quotes_at ?M p"
  note b = quotes_at_bounds [OF assms, of p]
  have "p \<in> agg_price ` set (levels_of s ?M)" by (simp add: levels_of_prices)
  then obtain x where x: "x \<in> set (levels_of s ?M)" "agg_price x = p" by auto
  then have "level_of ?M p \<in> set (levels_of s ?M)" using levels_of_at [OF x(1)] by simp
  moreover have "of_nat (size ?Q) \<noteq> (0 :: 32 word)"
    by (rule of_nat_nonzero [OF b(1)]) simp
  moreover have "q \<le> (\<Sum>x \<in># ?Q. snd x)"
    unfolding word_le_nat_alt b(3) by simp
  ultimately show thesis by (intro that) (auto simp: level_of_def)
qed

lemma can_close_levels_of:
  assumes "quotes_ok (add_mset (p, q0) M)" "q \<le> q0"
  shows "can_close p q (levels_of s (add_mset (p, q0) M))"
proof -
  obtain n a where "(p, n, a) \<in> set (levels_of s (add_mset (p, q0) M))" "n \<noteq> 0" "q0 \<le> a"
    by (rule quotes_level [OF assms(1)])
  moreover from this(3) assms(2) have "q \<le> a" by (rule order_trans [rotated])
  ultimately show ?thesis unfolding can_close_def by blast
qed

lemma close_level_levels_of:
  assumes "quotes_ok (add_mset (p, q) M)"
  shows "close_level p q (levels_of s (add_mset (p, q) M)) = levels_of s M"
  unfolding add_level_levels_of [symmetric]
proof (rule close_add_level)
  have ok: "quotes_ok M" using quotes_ok_subset [OF assms] .
  then show "levels_ok s (levels_of s M)" by (rule levels_ok_levels_of)
  show "\<forall>n a. (p, n, a) \<in> set (levels_of s M) \<longrightarrow> n \<noteq> 0"
  proof (intro allI impI)
    fix n a assume l: "(p, n, a) \<in> set (levels_of s M)"
    then have "agg_price (p, n, a) \<in> agg_price ` set (levels_of s M)" by (rule imageI)
    then have "p \<in> fst ` set_mset M" unfolding levels_of_prices by simp
    then obtain q' where "(p, q') \<in># M" by auto
    then obtain M' where M: "M = add_mset (p, q') M'" by (metis insert_DiffM)
    obtain n' a' where n': "(p, n', a') \<in> set (levels_of s M)" "n' \<noteq> 0"
      by (rule quotes_level [OF ok [unfolded M], folded M])
    then show "n \<noteq> 0" using levels_of_at [OF l] levels_of_at [OF n'(1)] by (simp add: level_of_def)
  qed
qed

lemma change_level_levels_of:
  "change_level p d (levels_of s (add_mset (p, q) M)) = levels_of s (add_mset (p, q + d) M)"
proof (rule levels_of_unique)
  let ?L = "levels_of s (add_mset (p, q) M)"
  have m: "map agg_price (change_level p d ?L) = map agg_price ?L"
    by (auto simp: change_level_def)
  then show "levels_sorted s (change_level p d ?L)"
    using levels_sorted_levels_of [of s "add_mset (p, q) M"] unfolding levels_sorted_iff m by simp
  have "set (map agg_price (change_level p d ?L)) = set (map agg_price ?L)" unfolding m ..
  then have "agg_price ` set (change_level p d ?L) = agg_price ` set ?L" by simp
  then show "agg_price ` set (change_level p d ?L) = fst ` set_mset (add_mset (p, q + d) M)"
    by (simp add: levels_of_prices)
  fix x assume "x \<in> set (change_level p d ?L)"
  then obtain p' n a where y: "(p', n, a) \<in> set ?L" "x = (p', n, if p' = p then a + d else a)"
    by (auto simp: change_level_def split: if_splits)
  then show "x = level_of (add_mset (p, q + d) M) (agg_price x)"
    using levels_of_at [OF y(1)] by (auto simp: level_of_def)
qed

section \<open>What the operations leave alone\<close>

text \<open>The size of the depth and the quantities to ignore; also the published change.\<close>

definition kept :: "depth \<Rightarrow> nat \<times> quantity \<times> quantity \<times> change_id" where
  "kept d = (dp_SIZE d, dp_ignore_bid_fill_qty d, dp_ignore_ask_fill_qty d, dp_last_published_change d)"

lemma kept_fields [simp]:
  "kept (d\<lparr>dp_levels := ls\<rparr>) = kept d" "kept (d\<lparr>dp_last_change := c\<rparr>) = kept d"
  "kept (set_excess s m d) = kept d" "kept (set_slot i l d) = kept d" "kept (put_level s r l d) = kept d"
  by (simp_all add: kept_def set_excess_def set_slot_def put_level_def split: level_ref.split)

lemma kept_insert [simp]: "kept (insert_level_before i s p d) = kept d"
  by (simp add: insert_level_before_def Let_def)

lemma kept_find_visible: "kept (snd (find_visible p s c i n d)) = kept d"
  by (induction p s c i n d rule: find_visible.induct) (auto simp: Let_def)

lemma kept_find: "kept (snd (find_level p s c d)) = kept d"
proof -
  obtain l d1 where f: "find_visible p s c (if s then bids d else asks d)
      ((if s then asks d else depth_end d) - (if s then bids d else asks d)) d = (l, d1)" by fastforce
  then have "kept d1 = kept d" using kept_find_visible by (metis snd_conv)
  then show ?thesis using f by (auto simp: find_level_def Let_def split: option.split)
qed

lemma kept_restore [simp]: "kept (restore_last s i d) = kept d"
  by (simp add: restore_last_def Let_def split: list.split)

lemma kept_erase: "erase_level r s d = Inr d' \<Longrightarrow> kept d' = kept d"
  by (auto simp: erase_level_def Let_def split: if_splits level_ref.splits)

lemma kept_add: "kept (snd (depth_add_order p q s d)) = kept d"
  using kept_find [of p s True d]
  by (auto simp: depth_add_order_def Let_def split: prod.split sum.split)

lemma kept_close: "kept (snd (depth_close_order p q s d)) = kept d"
  using kept_find [of p s False d]
  by (auto simp: depth_close_order_def Let_def dest!: kept_erase
      split: prod.split sum.split bool.split)

lemma kept_change: "kept (snd (change_qty_order p q s d)) = kept d"
  using kept_find [of p s False d]
  by (auto simp: change_qty_order_def Let_def split: prod.split sum.split)

lemma kept_ignored: "kept d' = kept d \<Longrightarrow> ignored_fill_qty s d' = ignored_fill_qty s d"
  by (simp add: kept_def ignored_fill_qty_def)

end
