(* ===== verification/Depth_Properties.thy ===== *)
theory Depth_Properties
  imports Simple_Order_Book Depth_Aggregate
begin

text \<open>
  What the depth guarantees: its operations refine operations on the list of the levels of a
  side, and a reader sees the best of them.
\<close>

section \<open>Refinement\<close>

text \<open>
  C21. Adding an order to a depth that represents the levels of the two sides never fails, and
  the depth then represents the levels with the order counted at its price: in the level that
  has the price, or in a new level at its place in the order of the side. The other side is
  untouched.
\<close>

theorem depth_add_refines:
  assumes "depth_repr d f" "p \<noteq> INVALID_LEVEL_PRICE"
  shows "\<exists>d'. depth_add_order p q s d = (Inr (), d') \<and> depth_repr d' (f(s := add_level s p q (f s)))"
  using depth_add_repr [OF assms, of q s] by metis

definition two_bids :: "bool \<Rightarrow> levels" where
  "two_bids = (\<lambda>s. if s then [(20, 1, 5), (10, 1, 7)] else [])"

lemma Depth_repr_one [simp]: "depth_repr (Depth (Suc 0)) (\<lambda>_. [])"
  by (rule depth_repr_Depth) simp

theorem depth_add_refines_witness:
  "\<exists>d d'. depth_add_order 10 7 True (Depth (Suc 0)) = (Inr (), d) \<and>
     depth_add_order 20 5 True d = (Inr (), d') \<and> depth_repr d' two_bids"
proof -
  obtain d where d: "depth_add_order 10 7 True (Depth (Suc 0)) = (Inr (), d)"
    "depth_repr d (\<lambda>s. if s then [(10, 1, 7)] else [])"
    using depth_add_refines [OF Depth_repr_one, of 10 7 True]
    by (auto simp: INVALID_LEVEL_PRICE_def fun_upd_def)
  have "add_level True 20 5 [(10, 1, 7)] = two_bids True" by (simp add: two_bids_def)
  moreover have "(\<lambda>s. if s then [(10, 1, 7)] else [])(True := two_bids True) = two_bids"
    by (auto simp: two_bids_def)
  ultimately show ?thesis
    using depth_add_refines [OF d(2), of 20 5 True] d(1) by (auto simp: INVALID_LEVEL_PRICE_def)
qed

lemma two_bids_depth:
  obtains d where "depth_repr d two_bids" "dp_SIZE d = Suc 0"
proof -
  obtain d where d: "depth_repr d ((\<lambda>_. [])(True := add_level True 10 7 []))" "dp_SIZE d = dp_SIZE (Depth (Suc 0))"
    by (rule depth_add_repr [OF Depth_repr_one, of 10 7 True]) (simp_all add: INVALID_LEVEL_PRICE_def)
  obtain d' where d': "depth_repr d' (((\<lambda>_. [])(True := add_level True 10 7 []))(True := add_level True 20 5
      (((\<lambda>_. [])(True := add_level True 10 7 [])) True)))" "dp_SIZE d' = dp_SIZE d"
    by (rule depth_add_repr [OF d(1), of 20 5 True]) (simp_all add: INVALID_LEVEL_PRICE_def)
  have "((\<lambda>_. [])(True := add_level True 10 7 []))(True := add_level True 20 5
      (((\<lambda>_. [])(True := add_level True 10 7 [])) True)) = two_bids"
    by (auto simp: two_bids_def)
  then show thesis using d d' by (intro that [of d']) (simp_all add: Depth_def)
qed

text \<open>
  C22. Closing an order of a level the depth has, with a quantity the level covers, never fails:
  the level loses the order and its quantity, and disappears with its last order; levels behind
  it move up, the best hidden one into the array.
\<close>

theorem depth_close_refines:
  assumes "depth_repr d f" "can_close p q (f s)"
  shows "\<exists>e d'. depth_close_order p q s d = (Inr e, d') \<and> depth_repr d' (f(s := close_level p q (f s)))"
  using depth_close_repr [OF assms] by metis

theorem depth_close_refines_witness:
  "\<exists>d e d'. depth_repr d two_bids \<and> depth_close_order 20 5 True d = (Inr e, d') \<and>
     depth_repr d' (\<lambda>s. if s then [(10, 1, 7)] else [])"
proof -
  obtain d where d: "depth_repr d two_bids" by (rule two_bids_depth)
  have c: "can_close 20 5 (two_bids True)" by (auto simp: can_close_def two_bids_def)
  have "two_bids(True := close_level 20 5 (two_bids True)) = (\<lambda>s. if s then [(10, 1, 7)] else [])"
    by (auto simp: two_bids_def close_level_def)
  then show ?thesis using depth_close_refines [OF d c] d by metis
qed

text \<open>
  C23. A fill of an order the depth counts either closes the order or takes the quantity off its
  level; while a fill quantity is to be ignored on the side, the levels stay and the quantity to
  ignore goes down.
\<close>

theorem depth_fill_refines:
  assumes "depth_repr d f" "ignored_fill_qty s d = 0 \<Longrightarrow> can_close p q (f s)"
  shows "\<exists>d'. fill_order p q fin s d = (Inr (), d') \<and>
    depth_repr d' (if ignored_fill_qty s d = 0 then f(s := fill_level p q fin (f s)) else f) \<and>
    (ignored_fill_qty s d \<noteq> 0 \<longrightarrow> ignored_fill_qty s d' = ignored_fill_qty s d - q)"
proof (cases "ignored_fill_qty s d = 0")
  case True
  obtain d' where "fill_order p q fin s d = (Inr (), d')" "depth_repr d' (f(s := fill_level p q fin (f s)))"
    by (rule depth_fill_repr [OF assms(1) assms(2) [OF True] True])
  then show ?thesis using True by simp
next
  case False
  then show ?thesis using depth_fill_ignored [OF False assms(1), of p q fin] by auto
qed

theorem depth_fill_refines_witness:
  "\<exists>d d'. depth_repr d two_bids \<and> fill_order 10 3 False True d = (Inr (), d') \<and>
     (ignored_fill_qty True d = 0 \<longrightarrow> depth_repr d' (\<lambda>s. if s then [(20, 1, 5), (10, 1, 4)] else []))"
proof -
  obtain d where d: "depth_repr d two_bids" by (rule two_bids_depth)
  have c: "can_close 10 3 (two_bids True)" by (auto simp: can_close_def two_bids_def)
  have e: "two_bids(True := fill_level 10 3 False (two_bids True)) =
      (\<lambda>s. if s then [(20, 1, 5), (10, 1, 4)] else [])"
    by (auto simp: two_bids_def fill_level_def change_level_def)
  obtain d' where "fill_order 10 3 False True d = (Inr (), d')"
    "depth_repr d' (if ignored_fill_qty True d = 0 then two_bids(True := fill_level 10 3 False (two_bids True))
                    else two_bids)"
    using depth_fill_refines [OF d, of True 10 3 False] c by blast
  then show ?thesis
    using d by - (rule exI [of _ d], rule exI [of _ d'], cases "ignored_fill_qty True d = 0", simp_all add: e)
qed

text \<open>A replacement at the same price or at another.\<close>

lemma depth_replace_repr:
  assumes "depth_repr d f" "can_close p q (f s)" "p' \<noteq> INVALID_LEVEL_PRICE"
  shows "\<exists>e d'. replace_order p p' q q' s d = (Inr e, d') \<and>
    depth_repr d' (f(s := if p' = p then change_level p (q' - q) (f s)
                          else close_level p q (add_level s p' q' (f s))))"
proof (cases "p' = p")
  case True
  have "p \<in> agg_price ` set (f s)" using assms(2) by (force simp: can_close_def)
  then obtain d' where "replace_order p p q q' s d = (Inr False, d')"
    "depth_repr d' (f(s := change_level p (q' - q) (f s)))"
    by (rule depth_replace_same_repr [OF assms(1)])
  then show ?thesis using True by auto
next
  case False
  obtain e d' where "replace_order p p' q q' s d = (Inr e, d')"
    "depth_repr d' (f(s := close_level p q (add_level s p' q' (f s))))"
    by (rule depth_replace_move_repr [OF assms(1,2) False assms(3)])
  then show ?thesis using False by auto
qed

text \<open>
  C24. Replacing an order moves it: within its level the quantity changes by the difference of
  the two quantities, otherwise the order is counted at the new price and closed at the old one.
\<close>

theorem depth_replace_refines:
  assumes "depth_repr d f" "can_close p q (f s)" "p' \<noteq> INVALID_LEVEL_PRICE"
  shows "\<exists>e d'. replace_order p p' q q' s d = (Inr e, d') \<and>
    depth_repr d' (f(s := if p' = p then change_level p (q' - q) (f s)
                          else close_level p q (add_level s p' q' (f s))))"
  by (rule depth_replace_repr [OF assms])

theorem depth_replace_refines_witness:
  "\<exists>d e d'. depth_repr d two_bids \<and> replace_order 20 15 5 6 True d = (Inr e, d') \<and>
     depth_repr d' (\<lambda>s. if s then [(15, 1, 6), (10, 1, 7)] else [])"
proof -
  obtain d where d: "depth_repr d two_bids" by (rule two_bids_depth)
  have c: "can_close 20 5 (two_bids True)" by (auto simp: can_close_def two_bids_def)
  have "two_bids(True := close_level 20 5 (add_level True 15 6 (two_bids True))) =
      (\<lambda>s. if s then [(15, 1, 6), (10, 1, 7)] else [])"
    by (auto simp: two_bids_def close_level_def)
  then show ?thesis
    using depth_replace_refines [OF d c, of 15 6] d by (auto simp: INVALID_LEVEL_PRICE_def)
qed

section \<open>What a reader sees\<close>

text \<open>
  What a book does to its depth as it stands for orders: one is added, leaves, is filled by some
  of its open quantity, or is replaced. \<open>orders_after\<close> is what this makes of the orders of the
  two sides, given by their prices and open quantities.
\<close>

datatype depth_op =
    Op_add bool price quantity
  | Op_close bool price quantity
  | Op_fill bool price quantity quantity
  | Op_replace bool price price quantity quantity

fun run_op :: "depth_op \<Rightarrow> depth \<Rightarrow> unit depth_result" where
  "run_op (Op_add s p q) d = depth_add_order p q s d"
| "run_op (Op_close s p q) d = forget (depth_close_order p q s d)"
| "run_op (Op_fill s p open_q q) d = fill_order p q (q = open_q) s d"
| "run_op (Op_replace s p p' q q') d = forget (replace_order p p' q q' s d)"

fun run_ops :: "depth_op list \<Rightarrow> depth \<Rightarrow> unit depth_result" where
  "run_ops [] d = (Inr (), d)"
| "run_ops (x # xs) d =
     (case run_op x d of (Inl e, d') \<Rightarrow> (Inl e, d') | (Inr r, d') \<Rightarrow> run_ops xs d')"

fun orders_after :: "depth_op \<Rightarrow> (bool \<Rightarrow> quote multiset) \<Rightarrow> bool \<Rightarrow> quote multiset" where
  "orders_after (Op_add s p q) M = M(s := add_mset (p, q) (M s))"
| "orders_after (Op_close s p q) M = M(s := M s - {#(p, q)#})"
| "orders_after (Op_fill s p open_q q) M =
     M(s := M s - {#(p, open_q)#} + (if q = open_q then {#} else {#(p, open_q - q)#}))"
| "orders_after (Op_replace s p p' q q') M = M(s := M s - {#(p, q)#} + {#(p', q')#})"

text \<open>The orders named are there, prices and quantities are real, and 32 bits hold a side.\<close>

fun op_possible :: "depth_op \<Rightarrow> (bool \<Rightarrow> quote multiset) \<Rightarrow> bool" where
  "op_possible (Op_add s p q) M \<longleftrightarrow>
     p \<noteq> INVALID_LEVEL_PRICE \<and> q \<noteq> 0 \<and> quotes_qty (M s) + unat q < 2 ^ 32"
| "op_possible (Op_close s p q) M \<longleftrightarrow> (p, q) \<in># M s"
| "op_possible (Op_fill s p open_q q) M \<longleftrightarrow> (p, open_q) \<in># M s \<and> q \<le> open_q"
| "op_possible (Op_replace s p p' q q') M \<longleftrightarrow>
     (p, q) \<in># M s \<and> p' \<noteq> INVALID_LEVEL_PRICE \<and> q' \<noteq> 0 \<and> quotes_qty (M s) + unat q' < 2 ^ 32"

fun ops_possible :: "depth_op list \<Rightarrow> (bool \<Rightarrow> quote multiset) \<Rightarrow> bool" where
  "ops_possible [] M = True"
| "ops_possible (x # xs) M \<longleftrightarrow> op_possible x M \<and> ops_possible xs (orders_after x M)"

text \<open>A depth that stands for the orders \<open>M\<close>.\<close>

definition stands_for :: "depth \<Rightarrow> (bool \<Rightarrow> quote multiset) \<Rightarrow> bool" where
  "stands_for d M \<longleftrightarrow> depth_repr d (\<lambda>s. levels_of s (M s)) \<and> (\<forall>s. quotes_ok (M s)) \<and>
     (\<forall>s. ignored_fill_qty s d = 0)"

lemma quotes_qty_simps [simp]:
  "quotes_qty {#} = 0" "quotes_qty (add_mset x M) = unat (snd x) + quotes_qty M"
  by (simp_all add: quotes_qty_def)

lemma quotes_ok_add:
  "quotes_ok M \<Longrightarrow> p \<noteq> INVALID_LEVEL_PRICE \<Longrightarrow> q \<noteq> 0 \<Longrightarrow> quotes_qty M + unat q < 2 ^ 32 \<Longrightarrow>
     quotes_ok (add_mset (p, q) M)"
  by (simp add: quotes_ok_def)

lemma kept_forget: "kept (snd (forget r)) = kept (snd r)"
  by (auto simp: forget_def split: prod.split sum.split)

lemma kept_fill: "ignored_fill_qty s d = 0 \<Longrightarrow> kept (snd (fill_order p q fin s d)) = kept d"
  by (auto simp: fill_order_def ignored_fill_qty_def kept_forget kept_close kept_change split: if_splits)

lemma kept_replace: "kept (snd (replace_order p p' q q' s d)) = kept d"
  using kept_change [of p "q' - q" s d] kept_add [of p' q' s d] kept_close [of p q s]
  by (auto simp: replace_order_def split: prod.split sum.split)

lemma kept_op: "(\<And>s. ignored_fill_qty s d = 0) \<Longrightarrow> kept (snd (run_op x d)) = kept d"
  by (cases x) (simp_all add: kept_forget kept_add kept_close kept_fill kept_replace)

lemma stands_forI:
  assumes "depth_repr d' (f(s := levels_of s N))" "f = (\<lambda>s. levels_of s (M s))"
    "\<forall>s. quotes_ok (M s)" "quotes_ok N" "kept d' = kept d" "\<forall>s. ignored_fill_qty s d = 0"
  shows "stands_for d' (M(s := N))"
proof -
  have "f(s := levels_of s N) = (\<lambda>x. levels_of x ((M(s := N)) x))"
    using assms(2) by (auto simp: fun_eq_iff)
  then show ?thesis
    using assms(1,3,4,6) kept_ignored [OF assms(5)] unfolding stands_for_def by simp
qed

text \<open>An operation that changes a side as it should leaves a depth that stands for the result.\<close>

lemma run_op_sides:
  assumes S: "stands_for d M" and r: "run_op x d = (Inr (), d')"
    and p: "depth_repr d' ((\<lambda>s. levels_of s (M s))(s := levels_of s N))"
    and n: "quotes_ok N" and a: "orders_after x M = M(s := N)"
  shows "\<exists>d'. run_op x d = (Inr (), d') \<and> stands_for d' (orders_after x M) \<and> dp_SIZE d' = dp_SIZE d"
proof -
  have Q: "\<forall>s. quotes_ok (M s)" and i: "\<forall>s. ignored_fill_qty s d = 0"
    using S by (simp_all add: stands_for_def)
  have k: "kept d' = kept d" using kept_op [of d x] i r by simp
  then have "dp_SIZE d' = dp_SIZE d" by (simp add: kept_def)
  then show ?thesis using stands_forI [OF p refl Q n k i] r a by simp
qed

lemma stands_for_member:
  assumes S: "stands_for d M" and x: "(p, q) \<in># M s"
  defines "N \<equiv> M s - {#(p, q)#}"
  shows "depth_repr d (\<lambda>s. levels_of s (M s))" "M s = add_mset (p, q) N" "quotes_ok (add_mset (p, q) N)" "quotes_ok N"
    "q' \<le> q \<Longrightarrow> can_close p q' (levels_of s (M s))"
proof -
  show R: "depth_repr d (\<lambda>s. levels_of s (M s))" using S by (simp add: stands_for_def)
  have "quotes_ok (M s)" using S by (simp add: stands_for_def)
  moreover show M: "M s = add_mset (p, q) N" using x by (simp add: N_def)
  ultimately show Q: "quotes_ok (add_mset (p, q) N)" by metis
  then show "quotes_ok N" by (rule quotes_ok_subset)
  show "can_close p q' (levels_of s (M s))" if "q' \<le> q" unfolding M by (rule can_close_levels_of [OF Q that])
qed

lemma run_close_stands_for:
  assumes S: "stands_for d M" and x: "(p, q) \<in># M s"
  shows "\<exists>d'. run_op (Op_close s p q) d = (Inr (), d') \<and> stands_for d' (orders_after (Op_close s p q) M) \<and>
    dp_SIZE d' = dp_SIZE d"
proof -
  note m = stands_for_member [OF S x]
  have L: "close_level p q (levels_of s (M s)) = levels_of s (M s - {#(p, q)#})"
    by (subst m(2)) (rule close_level_levels_of [OF m(3)])
  obtain e d' where d': "depth_close_order p q s d = (Inr e, d')"
    "depth_repr d' ((\<lambda>s. levels_of s (M s))(s := levels_of s (M s - {#(p, q)#})))"
    by (rule depth_close_repr [OF m(1) m(5) [OF order_refl], unfolded L])
  show ?thesis by (rule run_op_sides [OF S _ d'(2) m(4)]) (simp_all add: d'(1) forget_def)
qed

lemma run_fill_stands_for:
  assumes S: "stands_for d M" and x: "(p, open_q) \<in># M s" and le: "q \<le> open_q"
  shows "\<exists>d'. run_op (Op_fill s p open_q q) d = (Inr (), d') \<and>
    stands_for d' (orders_after (Op_fill s p open_q q) M) \<and> dp_SIZE d' = dp_SIZE d"
proof -
  note m = stands_for_member [OF S x]
  define N where "N = M s - {#(p, open_q)#} + (if q = open_q then {#} else {#(p, open_q - q)#})"
  have L: "fill_level p q (q = open_q) (levels_of s (M s)) = levels_of s N"
    using close_level_levels_of [OF m(3)] change_level_levels_of [of p "- q" s open_q "M s - {#(p, open_q)#}"]
    unfolding N_def fill_level_def by (subst (1 2) m(2)) (simp split: if_split)
  have n: "quotes_ok N"
    using m(3,4) le by (auto simp: N_def quotes_ok_def unat_sub)
  have "ignored_fill_qty s d = 0" using S by (simp add: stands_for_def)
  then obtain d' where d': "fill_order p q (q = open_q) s d = (Inr (), d')"
    "depth_repr d' ((\<lambda>s. levels_of s (M s))(s := levels_of s N))"
    by (rule depth_fill_repr [OF m(1) m(5) [OF le], where filled = "q = open_q", unfolded L])
  show ?thesis by (rule run_op_sides [OF S _ d'(2) n]) (simp_all add: d'(1) N_def)
qed

lemma run_replace_stands_for:
  assumes S: "stands_for d M" and x: "(p, q) \<in># M s"
    and new: "p' \<noteq> INVALID_LEVEL_PRICE" "q' \<noteq> 0" "quotes_qty (M s) + unat q' < 2 ^ 32"
  shows "\<exists>d'. run_op (Op_replace s p p' q q') d = (Inr (), d') \<and>
    stands_for d' (orders_after (Op_replace s p p' q q') M) \<and> dp_SIZE d' = dp_SIZE d"
proof -
  note m = stands_for_member [OF S x]
  let ?N = "M s - {#(p, q)#}"
  have "quotes_ok (add_mset (p', q') (add_mset (p, q) ?N))"
    using S new m(2) quotes_ok_add [of "M s" p' q'] by (simp add: stands_for_def)
  then have n: "quotes_ok (add_mset (p, q) (add_mset (p', q') ?N))" by (simp add: add_mset_commute)
  have L: "(if p' = p then change_level p (q' - q) (levels_of s (M s))
      else close_level p q (add_level s p' q' (levels_of s (M s)))) = levels_of s (add_mset (p', q') ?N)"
    using change_level_levels_of [of p "q' - q" s q ?N] close_level_levels_of [OF n, of s]
    unfolding add_level_levels_of by (subst (1 2) m(2)) (simp add: add_mset_commute [of "(p', q')" "(p, q)"])
  obtain e d' where d': "replace_order p p' q q' s d = (Inr e, d')"
    "depth_repr d' ((\<lambda>s. levels_of s (M s))(s := levels_of s (add_mset (p', q') ?N)))"
    using depth_replace_repr [OF m(1) m(5) [OF order_refl] new(1), of q'] unfolding L by blast
  show ?thesis
    by (rule run_op_sides [OF S _ d'(2) quotes_ok_subset [OF n]]) (simp_all add: d'(1) forget_def)
qed

lemma run_op_stands_for:
  assumes S: "stands_for d M" and ok: "op_possible x M"
  shows "\<exists>d'. run_op x d = (Inr (), d') \<and> stands_for d' (orders_after x M) \<and> dp_SIZE d' = dp_SIZE d"
proof (cases x)
  case (Op_add s p q)
  have R: "depth_repr d (\<lambda>s. levels_of s (M s))" and Q: "quotes_ok (M s)" using S by (simp_all add: stands_for_def)
  obtain d' where d': "depth_add_order p q s d = (Inr (), d')"
    "depth_repr d' ((\<lambda>s. levels_of s (M s))(s := levels_of s (add_mset (p, q) (M s))))"
    using depth_add_repr [OF R, of p q s] ok Op_add unfolding add_level_levels_of by auto
  show ?thesis
    by (rule run_op_sides [OF S _ d'(2) quotes_ok_add [OF Q]]) (use ok Op_add d'(1) in simp_all)
qed (use ok run_close_stands_for [OF S] run_fill_stands_for [OF S] run_replace_stands_for [OF S] in auto)

lemma run_ops_stands_for:
  "stands_for d M \<Longrightarrow> ops_possible xs M \<Longrightarrow>
     \<exists>d'. run_ops xs d = (Inr (), d') \<and> stands_for d' (fold orders_after xs M) \<and> dp_SIZE d' = dp_SIZE d"
proof (induction xs arbitrary: d M)
  case (Cons x xs)
  then obtain d1 where "run_op x d = (Inr (), d1)" "stands_for d1 (orders_after x M)" "dp_SIZE d1 = dp_SIZE d"
    using run_op_stands_for by fastforce
  then show ?case using Cons.IH [of d1 "orders_after x M"] Cons.prems(2) by auto
qed simp

lemma levels_of_empty [simp]: "levels_of s {#} = []"
  by (cases s) (simp_all add: levels_of_def)

lemma stands_for_Depth: "0 < SIZE \<Longrightarrow> stands_for (Depth SIZE) (\<lambda>_. {#})"
  unfolding stands_for_def
proof (intro conjI)
  assume "0 < SIZE"
  then show "depth_repr (Depth SIZE) (\<lambda>s. levels_of s {#})"
    using depth_repr_Depth by simp
qed (simp_all add: quotes_ok_def ignored_fill_qty_def Depth_def)

text \<open>
  C25. However orders are added, closed, filled and replaced on a new depth, no operation fails
  and the array shows, for either side, the best price levels of the orders there are by then,
  best first, each with the number of its orders and the sum of their open quantities, and
  blank levels behind them; the levels that do not fit are kept behind in order.
\<close>

theorem depth_shows_best:
  assumes "0 < SIZE" "ops_possible xs (\<lambda>_. {#})"
  defines "M \<equiv> fold orders_after xs (\<lambda>_. {#})"
  shows "\<exists>d. run_ops xs (Depth SIZE) = (Inr (), d) \<and>
    (\<forall>s. shown s d = take SIZE (levels_of s (M s)) @ replicate (SIZE - length (levels_of s (M s))) blank \<and>
       map (\<lambda>(k, l). level_core l) (excess_levels s d) = drop SIZE (levels_of s (M s)))"
proof -
  obtain d where d: "run_ops xs (Depth SIZE) = (Inr (), d)" "stands_for d M" "dp_SIZE d = dp_SIZE (Depth SIZE)"
    using run_ops_stands_for [OF stands_for_Depth [OF assms(1)] assms(2)] unfolding M_def by blast
  have R: "depth_repr d (\<lambda>s. levels_of s (M s))" "dp_SIZE d = SIZE"
    using d(2,3) by (simp_all add: stands_for_def Depth_def)
  then show ?thesis
    using d(1) shown_repr [OF R(1)] by (auto simp: depth_repr_def excess_repr_def)
qed

text \<open>
  In a depth of one level, 100 hides 99, is filled in part, and closed: 99 comes into view with
  its two orders.
\<close>

theorem depth_shows_best_witness:
  "\<exists>d d'. run_ops [Op_add True 99 7, Op_add True 100 5, Op_add True 99 1, Op_fill True 100 5 2] (Depth 1) = (Inr (), d) \<and>
     shown True d = [(100, 1, 3)] \<and>
   run_ops [Op_add True 99 7, Op_add True 100 5, Op_add True 99 1, Op_fill True 100 5 2, Op_close True 100 3] (Depth 1) =
     (Inr (), d') \<and> shown True d' = [(99, 2, 8)] \<and> shown False d' = [blank]"
proof -
  let ?xs = "[Op_add True 99 7, Op_add True 100 5, Op_add True 99 1, Op_fill True 100 5 2]"
  let ?ys = "[Op_add True 99 7, Op_add True 100 5, Op_add True 99 1, Op_fill True 100 5 2, Op_close True 100 3]"
  have ok: "ops_possible ?ys (\<lambda>_. {#})" by (simp add: INVALID_LEVEL_PRICE_def)
  then have ok': "ops_possible ?xs (\<lambda>_. {#})" by simp
  have M: "fold orders_after ?xs (\<lambda>_. {#}) True = {#(99, 7), (99, 1), (100, 3)#}"
    "fold orders_after ?ys (\<lambda>_. {#}) True = {#(99, 7), (99, 1)#}"
    "fold orders_after ?ys (\<lambda>_. {#}) False = {#}"
    by simp_all
  have L: "levels_of True {#(99, 7), (99, 1), (100, 3)#} = [(100, 1, 3), (99, 2, 8)]"
    "levels_of True {#(99, 7), (99, 1)#} = [(99, 2, 8)]" "levels_of False {#} = []"
    by (simp_all add: levels_of_def level_of_def)
  have one: "0 < (1 :: nat)" by simp
  obtain d where d: "run_ops ?xs (Depth 1) = (Inr (), d)"
    "\<forall>s. shown s d = take 1 (levels_of s (fold orders_after ?xs (\<lambda>_. {#}) s)) @
       replicate (1 - length (levels_of s (fold orders_after ?xs (\<lambda>_. {#}) s))) blank"
    using depth_shows_best [OF one ok'] by blast
  obtain d' where d': "run_ops ?ys (Depth 1) = (Inr (), d')"
    "\<forall>s. shown s d' = take 1 (levels_of s (fold orders_after ?ys (\<lambda>_. {#}) s)) @
       replicate (1 - length (levels_of s (fold orders_after ?ys (\<lambda>_. {#}) s))) blank"
    using depth_shows_best [OF one ok] by blast
  have "shown True d = [(100, 1, 3)]" using spec [OF d(2), of True] unfolding M L by simp
  moreover have "shown True d' = [(99, 2, 8)] \<and> shown False d' = [blank]"
    using spec [OF d'(2), of True] spec [OF d'(2), of False] unfolding M L by simp
  ultimately show ?thesis using d(1) d'(1) by blast
qed

text \<open>
  Adding an order and closing it again gives back the levels there were, whatever the side
  held: the two operations are inverse as long as the count of the level does not overflow.
\<close>

theorem depth_add_close_roundtrip:
  assumes "depth_repr d f" "p \<noteq> INVALID_LEVEL_PRICE"
    "\<forall>n a. (p, n, a) \<in> set (f s) \<longrightarrow> n \<noteq> 0 \<and> n + 1 \<noteq> 0 \<and> q \<le> a + q"
  shows "\<exists>d1 e d2. depth_add_order p q s d = (Inr (), d1) \<and> depth_close_order p q s d1 = (Inr e, d2) \<and>
    depth_repr d2 f"
proof -
  let ?L = "add_level s p q (f s)"
  obtain d1 where d1: "depth_add_order p q s d = (Inr (), d1)" "depth_repr d1 (f(s := ?L))"
    "dp_SIZE d1 = dp_SIZE d" by (rule depth_add_repr [OF assms(1,2)])
  have "\<exists>n a. (p, n, a) \<in> set ?L \<and> n \<noteq> 0 \<and> (n = 1 \<or> q \<le> a)"
    using assms(3)
  proof (induction s p q "f s" arbitrary: f rule: add_level.induct)
    case (1 s p q)
    then show ?case by (metis add_level.simps(1) list.set_intros(1) zero_neq_one)
  next
    case (2 s p q p' n a L)
    show ?case
    proof (cases "p' \<noteq> p \<and> excess_lt s p' p")
      case True
      have "\<exists>n a. (p, n, a) \<in> set (add_level s p q L) \<and> n \<noteq> 0 \<and> (n = 1 \<or> q \<le> a)"
        using 2(1) [of "\<lambda>_. L"] 2(3) True unfolding 2(2) [symmetric] by auto
      then show ?thesis using True unfolding 2(2) [symmetric] by auto
    next
      case False
      then consider "p' = p" | "p' \<noteq> p" "\<not> excess_lt s p' p" by blast
      then show ?thesis
      proof cases
        case 1
        then show ?thesis using 2(3) unfolding 2(2) [symmetric] by auto
      next
        case 3: 2
        then have "(p, 1, q) \<in> set (add_level s p q ((p', n, a) # L))" by simp
        then show ?thesis unfolding 2(2) by (metis zero_neq_one)
      qed
    qed
  qed
  then have "can_close p q ((f(s := ?L)) s)" by (simp add: can_close_def)
  then obtain e d2 where d2: "depth_close_order p q s d1 = (Inr e, d2)"
    "depth_repr d2 ((f(s := ?L))(s := close_level p q ((f(s := ?L)) s)))" "dp_SIZE d2 = dp_SIZE d1"
    by (rule depth_close_repr [OF d1(2)])
  have "close_level p q ?L = f s"
    using assms(1,3) by (intro close_add_level) (auto simp: depth_repr_def)
  then show ?thesis using d1(1) d2(1,2) by auto
qed

theorem depth_add_close_roundtrip_witness:
  "\<exists>d d1 e d2. depth_repr d two_bids \<and> depth_add_order 20 3 True d = (Inr (), d1) \<and>
     depth_close_order 20 3 True d1 = (Inr e, d2) \<and> depth_repr d2 two_bids"
proof -
  obtain d where d: "depth_repr d two_bids" by (rule two_bids_depth)
  have "\<forall>n a. (20, n, a) \<in> set (two_bids True) \<longrightarrow> n \<noteq> 0 \<and> n + 1 \<noteq> 0 \<and> 3 \<le> a + 3"
    by (auto simp: two_bids_def)
  then show ?thesis
    using depth_add_close_roundtrip [OF d, of 20 True 3] d by (auto simp: INVALID_LEVEL_PRICE_def)
qed

section \<open>A price the depth does not have\<close>

text \<open>
  C26. Closing a bid at a price the depth does not have, which is documented to find no level,
  takes the order and its quantity off the best ask instead, when that has two orders or more and
  at least the closed quantity; closing an ask at such a price leaves the array.
\<close>

theorem close_at_absent_price:
  assumes "depth_repr d f" "p \<noteq> INVALID_LEVEL_PRICE" "\<forall>s. p \<notin> agg_price ` set (f s)"
    "f False = (a, n, v) # L" "n \<noteq> 0" "n \<noteq> 1" "q \<le> v"
  shows "(\<exists>d'. depth_close_order p q True d = (Inr False, d') \<and>
      depth_repr d' (f(False := (a, n - 1, v - q) # L))) \<and>
    depth_close_order p q False d = (Inl Out_of_bounds, d)"
proof -
  have p: "p \<notin> agg_price ` set (f True)" "p \<notin> agg_price ` set (f False)" using assms(3) by auto
  show ?thesis
    using close_absent_bid [OF assms(1,2) p(1) assms(4-7)] close_absent_ask [OF assms(1,2) p(2)] by metis
qed

theorem close_at_absent_price_witness:
  "\<exists>d d'. depth_repr d (\<lambda>s. if s then [] else [(30, 2, 9)]) \<and>
     depth_close_order 12 4 True d = (Inr False, d') \<and>
     depth_repr d' (\<lambda>s. if s then [] else [(30, 1, 5)])"
proof -
  have one: "(\<lambda>_. [])(False := add_level False 30 4 []) = (\<lambda>s. if s then [] else [(30, 1, 4)])" by auto
  obtain d1 where d1: "depth_repr d1 ((\<lambda>_. [])(False := add_level False 30 4 []))"
    by (rule depth_add_repr [OF Depth_repr_one, of 30 4 False]) (simp_all add: INVALID_LEVEL_PRICE_def)
  obtain d where d0: "depth_repr d (((\<lambda>_. [])(False := add_level False 30 4 []))
      (False := add_level False 30 5 (((\<lambda>_. [])(False := add_level False 30 4 [])) False)))"
    by (rule depth_add_repr [OF d1, of 30 5 False]) (simp_all add: INVALID_LEVEL_PRICE_def)
  have two: "((\<lambda>_. [])(False := add_level False 30 4 []))
      (False := add_level False 30 5 (((\<lambda>_. [])(False := add_level False 30 4 [])) False)) =
      (\<lambda>s. if s then [] else [(30, 2, 9)])" by auto
  have d: "depth_repr d (\<lambda>s. if s then [] else [(30, 2, 9)])" using d0 unfolding two .
  have "(\<lambda>s. if s then [] else [(30, 2, 9)])(False := (30, 2 - 1, 9 - 4) # []) =
      (\<lambda>s. if s then [] else [(30 :: price, 1 :: 32 word, 5 :: quantity)])" by auto
  then show ?thesis
    using close_at_absent_price [OF d, of 12 30 2 9 "[]" 4] d by (auto simp: INVALID_LEVEL_PRICE_def)
qed

section \<open>Notifications\<close>

text \<open>
  C29. A call that performs the notifications of a book whose callbacks do not call it back
  performs each queued notification once, in the order of the queue, and leaves the queue
  empty and the book otherwise as it was. For the book over simple orders: the world is what
  the notifications of the queue make of it, one after the other.
\<close>

theorem notifications_once_in_order:
  fixes s :: "'w simple_book_scheme system"
  assumes "\<not> ob_handling_callbacks (sys_book s)" "ob_workingCallbacks (sys_book s) = []"
  defines "cbs \<equiv> ob_callbacks (sys_book s)"
  defines "start \<equiv> s\<lparr>sys_book := (sys_book s)\<lparr>ob_handling_callbacks := True, ob_workingCallbacks := cbs,
      ob_callbacks := []\<rparr>\<rparr>"
  shows "\<exists>s'. callback_now (simple_perform no_client) s = Some s' \<and>
    sys_book s' = (sys_book s)\<lparr>ob_callbacks := []\<rparr> \<and>
    sys_world s' = (if cbs = [] then sys_world s
                    else sys_world (run_callbacks (simple_perform no_client) cbs start))"
  using simple_book.now_runs [OF assms(1,2)] by (auto simp: cbs_def start_def)


definition sample_world :: simple_book where
  "sample_world = SimpleOrderBook 5 (\<lambda>i. fst (SimpleOrder True 10 20 0 oc_no_conditions 0))"

definition sample_system :: "simple_book system" where
  "sample_system =
     \<lparr>sys_book = push_callback (Callback_cancel 0 20) (OrderBook ''ABC''), sys_world = sample_world, sys_log = []\<rparr>"

theorem notifications_once_in_order_witness:
  "\<exists>s'. callback_now (simple_perform no_client) sample_system = Some s' \<and> sys_book s' = OrderBook ''ABC''"
proof -
  have "\<not> ob_handling_callbacks (sys_book sample_system)" "ob_workingCallbacks (sys_book sample_system) = []"
    by (simp_all add: sample_system_def OrderBook_def)
  from notifications_once_in_order [OF this] obtain s' where
    "callback_now (simple_perform no_client) sample_system = Some s'"
    "sys_book s' = (sys_book sample_system)\<lparr>ob_callbacks := []\<rparr>" by blast
  moreover have "(sys_book sample_system)\<lparr>ob_callbacks := []\<rparr> = OrderBook ''ABC''"
    by (simp add: sample_system_def OrderBook_def push_callback_def)
  ultimately show ?thesis by auto
qed

end
