(* ===== verification/Book_Fills.thy ===== *)
theory Book_Fills
  imports Book_Calls
begin

text \<open>
  The notifications tell the whole story: from the executions the matching engine queues, and
  the book as it was, the book as it is can be rebuilt. \<open>fills\<close> is the step relation of one
  inbound order against a side, \<open>book_fills\<close> that of two sides whose orders trade.
\<close>

section \<open>Settling a node\<close>

definition settle :: "nat \<Rightarrow> quantity \<Rightarrow> tracker_map \<Rightarrow> tracker_map" where
  "settle i q m = concat (map (\<lambda>n.
     if nd_id n \<noteq> i then [n]
     else if tk_open_qty (nd_val n) = q then [] else [n\<lparr>nd_val := take_qty q (nd_val n)\<rparr>]) m)"

lemma settle_simps [simp]:
  "settle i q [] = []" "settle i q (m @ m') = settle i q m @ settle i q m'"
  "settle i q (n # m) = (if nd_id n \<noteq> i then [n] else if tk_open_qty (nd_val n) = q then []
     else [n\<lparr>nd_val := take_qty q (nd_val n)\<rparr>]) @ settle i q m"
  by (simp_all add: settle_def)

lemma settle_notin [simp]: "i \<notin> set (mm_ids m) \<Longrightarrow> settle i q m = m"
  by (induction m) auto

lemma set_settle: "set (mm_ids (settle i q m)) \<subseteq> set (mm_ids m)"
  by (induction m) auto

lemma node_in_split:
  assumes "n \<in> set m" "distinct (mm_ids m)"
  obtains a c where "m = a @ n # c" "nd_id n \<notin> set (mm_ids a)" "nd_id n \<notin> set (mm_ids c)"
  using split_list [OF assms(1)] assms(2) by fastforce

lemma settle_at:
  assumes "live_side (a @ n # c)"
  shows "settle (nd_id n) q (a @ n # c) =
    a @ (if tk_open_qty (nd_val n) = q then [] else [n\<lparr>nd_val := take_qty q (nd_val n)\<rparr>]) @ c"
  using assms by simp

lemma live_side_Nil [simp]: "live_side []"
  by (simp add: live_side_def)

lemma live_take: "live t \<Longrightarrow> q \<le> tk_open_qty t \<Longrightarrow> tk_open_qty t \<noteq> q \<Longrightarrow> live (take_qty q t)"
  by (simp add: live_def)

lemma live_settle:
  assumes "live_side m" "\<And>n. n \<in> set m \<Longrightarrow> nd_id n = i \<Longrightarrow> q \<le> tk_open_qty (nd_val n)"
  shows "live_side (settle i q m)"
  using assms
proof (induction m)
  case (Cons n m)
  have "live_side (settle i q m)" using Cons by auto
  moreover have "nd_id n \<notin> set (mm_ids (settle i q m))"
    using Cons.prems(1) set_settle [of i q m] by auto
  ultimately show ?case using Cons.prems live_take [of "nd_val n" q] by auto
qed simp

section \<open>One inbound order against a side\<close>

definition fill_flags_of :: "tracker \<Rightarrow> tracker \<Rightarrow> quantity \<Rightarrow> fill_flags" where
  "fill_flags_of i c q =
     (if tk_open_qty i = q then ff_inbound_filled else 0) OR
     (if tk_open_qty c = q then ff_matched_filled else 0)"

inductive fills :: "tracker \<Rightarrow> tracker_map \<Rightarrow> callback list \<Rightarrow> tracker \<Rightarrow> tracker_map \<Rightarrow> bool" where
  none: "fills i m [] i m"
| one: "fills i m cbs i1 m1 \<Longrightarrow> n \<in> set m1 \<Longrightarrow> q \<noteq> 0 \<Longrightarrow> q \<le> tk_open_qty i1 \<Longrightarrow>
     q \<le> tk_open_qty (nd_val n) \<Longrightarrow>
     fills i m (cbs @ [Callback_fill (tk_order i1) (tk_order (nd_val n)) q price (fill_flags_of i1 (nd_val n) q)])
       (take_qty q i1) (settle (nd_id n) q m1)"

lemma fills_trans:
  "fills i1 m1 c2 i2 m2 \<Longrightarrow> fills i m c1 i1 m1 \<Longrightarrow> fills i m (c1 @ c2) i2 m2"
proof (induction rule: fills.induct)
  case (one i m cbs i1 m1 n q price)
  then show ?case by (metis append.assoc fills.one)
qed simp

lemma fills_single:
  assumes "n \<in> set m" "q \<noteq> 0" "q \<le> tk_open_qty i" "q \<le> tk_open_qty (nd_val n)"
  shows "fills i m [Callback_fill (tk_order i) (tk_order (nd_val n)) q price (fill_flags_of i (nd_val n) q)]
     (take_qty q i) (settle (nd_id n) q m)"
  using fills.one [OF fills.none assms] by simp

lemma fills_live:
  "fills i m cbs i' m' \<Longrightarrow> live_side m \<Longrightarrow> live_side m' \<and> set (mm_ids m') \<subseteq> set (mm_ids m)"
proof (induction rule: fills.induct)
  case (one i m cbs i1 m1 n q price)
  then have l: "live_side m1" "set (mm_ids m1) \<subseteq> set (mm_ids m)" by auto
  have "n' = n" if "n' \<in> set m1" "nd_id n' = nd_id n" for n'
    using l(1) one(2) that by (auto simp: live_side_def mm_ids_def distinct_map inj_on_def)
  then have "live_side (settle (nd_id n) q m1)" using one(5) l(1) by (intro live_settle) auto
  then show ?case using l(2) set_settle [of "nd_id n" q m1] by blast
qed simp

lemma fills_inbound:
  "fills i m cbs i' m' \<Longrightarrow> tk_order i' = tk_order i \<and> unreserved i' = unreserved i \<and>
     tk_conditions i' = tk_conditions i \<and> tk_open_qty i' \<le> tk_open_qty i \<and>
     unat (tk_open_qty i') + traded_qty cbs = unat (tk_open_qty i) \<and>
     (\<forall>cb \<in> set cbs. is_fill cb)"
proof (induction rule: fills.induct)
  case (one i m cbs i1 m1 n q price)
  have "unat (tk_open_qty (take_qty q i1)) + unat q = unat (tk_open_qty i1)"
    by (rule unat_take_qty) (rule one(4))
  moreover have "tk_open_qty i1 - q \<le> tk_open_qty i1" using one(4) by (rule word_sub_le)
  moreover have "is_fill (Callback_fill a b' q price f) \<and> cb_quantity (Callback_fill a b' q price f) = q"
    for a b' f by (simp add: is_fill_def callback_defs)
  ultimately show ?case using one.IH by (auto intro: order.trans)
qed simp

text \<open>The orders of a side that the loop is not at do not matter.\<close>

lemma fills_append:
  "fills i m cbs i' m' \<Longrightarrow> live_side m \<Longrightarrow> set (mm_ids r) \<inter> set (mm_ids m) = {} \<Longrightarrow>
     fills i (m @ r) cbs i' (m' @ r)"
proof (induction rule: fills.induct)
  case (one i m cbs i1 m1 n q price)
  have "set (mm_ids m1) \<subseteq> set (mm_ids m)" using fills_live [OF one(1)] one by blast
  then have "nd_id n \<notin> set (mm_ids r)" using one(2,8) by (auto simp: mm_ids_def)
  then have "settle (nd_id n) q (m1 @ r) = settle (nd_id n) q m1 @ r" by simp
  then show ?case using fills.one [of i "m @ r" cbs i1 "m1 @ r" n q price] one by auto
qed (rule fills.none)

section \<open>A trade, as the relation sees it\<close>

lemma fill_callback_flags:
  "fill_callback env b i c q =
     Callback_fill (tk_order i) (tk_order c) q (cross_price env b i c) (fill_flags_of i c q)"
  by (simp add: fill_callback_def fill_flags_of_def)

lemma create_trade_cases:
  assumes "unreserved i" "unreserved c" "create_trade env b i c mx = Inr (t, i', c', b')"
  obtains "t = 0" "i' = i" "c' = c" "b' = b"
  | "t \<noteq> 0" "i' = take_qty t i" "c' = take_qty t c" "t \<le> tk_open_qty i" "t \<le> tk_open_qty c"
    "t = min mx (min (tk_open_qty i) (tk_open_qty c))"
    "ob_callbacks b' = ob_callbacks b @ [Callback_fill (tk_order i) (tk_order c) t
       (cross_price env b i c) (fill_flags_of i c t)]"
proof -
  let ?q = "trade_qty env b i c mx"
  have e: "t = ?q" "i' = take_qty ?q i" "c' = take_qty ?q c" "b' = trade_book env b i c ?q"
    using create_trade_eq [OF assms(1,2) refl, of env b mx] assms(3) by auto
  show thesis
  proof (cases "?q = 0")
    case True
    then show thesis using e by (intro that(1)) (simp_all add: trade_book_def)
  next
    case False
    have "?q \<le> tk_open_qty i" "?q \<le> tk_open_qty c" by (rule trade_qty_le)+
    moreover have "?q = min mx (min (tk_open_qty i) (tk_open_qty c))"
      using False by (auto simp: trade_qty_def split: if_splits)
    ultimately show thesis
      using e False by (intro that(2)) (simp_all add: trade_book_def fill_callback_flags)
  qed
qed

text \<open>\<open>tells b cbs b'\<close>: between the two books just \<open>cbs\<close> were queued.\<close>

definition tells :: "order_book \<Rightarrow> callback list \<Rightarrow> order_book \<Rightarrow> bool" where
  "tells b cbs b' \<longleftrightarrow> ob_callbacks b' = ob_callbacks b @ cbs"

lemma tells_refl [simp]: "tells b [] b"
  by (simp add: tells_def)

lemma tells_trans: "tells a c1 b \<Longrightarrow> tells b c2 c \<Longrightarrow> tells a (c1 @ c2) c"
  by (simp add: tells_def)

text \<open>Trading with a node of a side: what is left of it stays where it was.\<close>

lemma trade_node:
  assumes "unreserved i" "live_side (a @ n # c)"
    "create_trade env b i (nd_val n) mx = Inr (t, i', x, b')"
  obtains cbs where "tells b cbs b'"
    "fills i (a @ n # c) cbs i' (a @ (if filled x then [] else [n\<lparr>nd_val := x\<rparr>]) @ c)"
    "unreserved i'" "t = 0 \<longrightarrow> i' = i \<and> x = nd_val n" "i' = take_qty t i" "t \<le> tk_open_qty i"
    "t \<noteq> 0 \<longrightarrow> t = min mx (min (tk_open_qty i) (tk_open_qty (nd_val n)))"
    "filled x \<longleftrightarrow> t = tk_open_qty (nd_val n)"
proof -
  have l: "live (nd_val n)" using assms(2) by simp
  then have u: "unreserved (nd_val n)" "tk_open_qty (nd_val n) \<noteq> 0" by (simp_all add: live_def)
  show thesis
  proof (rule create_trade_cases [OF assms(1) u(1) assms(3)])
    assume z: "t = 0" "i' = i" "x = nd_val n" "b' = b"
    have "n\<lparr>nd_val := nd_val n\<rparr> = n" by simp
    then show thesis using z u assms(1) by (intro that [of "[]"]) (auto simp: filled_def intro: fills.none)
  next
    assume t: "t \<noteq> 0" "i' = take_qty t i" "x = take_qty t (nd_val n)" "t \<le> tk_open_qty i"
      "t \<le> tk_open_qty (nd_val n)" "t = min mx (min (tk_open_qty i) (tk_open_qty (nd_val n)))"
      and cb: "ob_callbacks b' = ob_callbacks b @ [Callback_fill (tk_order i) (tk_order (nd_val n)) t
       (cross_price env b i (nd_val n)) (fill_flags_of i (nd_val n) t)]"
    have f: "filled x \<longleftrightarrow> t = tk_open_qty (nd_val n)" using t(3) by (auto simp: filled_def)
    have "fills i (a @ n # c) [Callback_fill (tk_order i) (tk_order (nd_val n)) t
        (cross_price env b i (nd_val n)) (fill_flags_of i (nd_val n) t)] i'
        (settle (nd_id n) t (a @ n # c))"
      using fills_single [of n "a @ n # c" t i] t by simp
    moreover have "settle (nd_id n) t (a @ n # c) = a @ (if filled x then [] else [n\<lparr>nd_val := x\<rparr>]) @ c"
      using settle_at [OF assms(2), of t] f t(3) by auto
    ultimately show thesis
      using t f cb assms(1) by (intro that [of "[_]"]) (simp_all add: tells_def)
  qed
qed

section \<open>The loops\<close>

definition filling ::
  "tracker \<Rightarrow> order_book \<Rightarrow> tracker_map \<Rightarrow> tracker_map \<Rightarrow> match_state \<Rightarrow> bool" where
  "filling inb b0 m0 pos s \<longleftrightarrow>
     (\<exists>cbs. tells b0 cbs (ms_book s) \<and> fills inb m0 cbs (ms_inbound s) (ms_visited s @ pos))"

lemma filling_step:
  assumes "filling inb b0 m0 pos s" "tells (ms_book s) c (ms_book s')"
    "fills (ms_inbound s) (ms_visited s @ pos) c (ms_inbound s') (ms_visited s' @ pos')"
  shows "filling inb b0 m0 pos' s'"
  using assms fills_trans tells_trans unfolding filling_def by blast

lemma regular_step_fills:
  assumes F: "filling inb b0 m0 (e # pos) s" and L: "live_side (ms_visited s @ e # pos)"
    and u: "unreserved (ms_inbound s)" and q: "ms_inbound_qty s = tk_open_qty (ms_inbound s)"
    and r: "regular_step env e s = Inr s'"
  shows "filling inb b0 m0 pos s'"
proof -
  let ?c = "nd_val e" and ?i = "ms_inbound s" and ?V = "ms_visited s"
  have lc: "live ?c" "open_qty ?c = tk_open_qty ?c" using L by (simp_all add: live_def)
  show ?thesis
  proof (cases "all_or_none ?c \<and> \<not> tk_open_qty ?c \<le> tk_open_qty ?i")
    case True
    then have "s' = keep_node e (s\<lparr>ms_deferred_aons := ms_deferred_aons s @ [nd_id e]\<rparr>)"
      using r lc q by (simp add: regular_step_def Let_def)
    then show ?thesis using F by (simp add: filling_def keep_node_def)
  next
    case False
    then obtain t i' x b' where ct: "create_trade env (ms_book s) ?i ?c UINT32_MAX = Inr (t, i', x, b')"
      using r lc q by (auto simp: regular_step_def Let_def split: if_splits)
    obtain cbs where T: "tells (ms_book s) cbs b'"
      "fills ?i (?V @ e # pos) cbs i' (?V @ (if filled x then [] else [e\<lparr>nd_val := x\<rparr>]) @ pos)"
      "t = 0 \<longrightarrow> i' = ?i \<and> x = ?c" "t \<noteq> 0 \<longrightarrow> t = min UINT32_MAX (min (tk_open_qty ?i) (tk_open_qty ?c))"
      "filled x \<longleftrightarrow> t = tk_open_qty ?c"
      by (rule trade_node [OF u L ct]) blast
    have aon: "all_or_none ?c \<Longrightarrow> t \<noteq> 0 \<Longrightarrow> filled x"
      using T(4,5) False by (auto simp: min_absorb2)
    have "ms_book s' = b' \<and> ms_inbound s' = i' \<and>
        ms_visited s' = ?V @ (if filled x then [] else [e\<lparr>nd_val := x\<rparr>])"
    proof (cases "0 < t")
      case True
      then show ?thesis
        using r ct False lc q aon
        by (cases "all_or_none ?c") (auto simp: regular_step_def Let_def keep_node_def split: if_splits)
    next
      case t0: False
      then have "t = 0" by (simp add: word_gt_0)
      then have "\<not> filled x" "x = ?c" using T(3) lc(1) by (auto simp: live_def filled_def)
      then show ?thesis
        using r ct False lc q t0
        by (cases "all_or_none ?c") (auto simp: regular_step_def Let_def keep_node_def split: if_splits)
    qed
    then show ?thesis using filling_step [OF F, of cbs s' pos] T by simp
  qed
qed

text \<open>What a filling loop has of the side it started with.\<close>

lemma filling_live:
  assumes "filling inb b0 m0 pos s" "live_side m0" "unreserved inb"
  shows "live_side (ms_visited s @ pos)" "unreserved (ms_inbound s)"
  using assms fills_live fills_inbound unfolding filling_def by blast+

interpretation regular_fills:
  match_loop_rule "regular_step env" p
    "\<lambda>pos s. regular_inv env p inb b0 d0 m0 pos s \<and> filling inb b0 m0 pos s" for env p inb b0 d0 m0
proof unfold_locales
  fix e pos s
  assume I: "regular_inv env p inb b0 d0 m0 (e # pos) s \<and> filling inb b0 m0 (e # pos) s"
    and nf: "\<not> filled (ms_inbound s)" and m: "matches (nd_key e) p"
  then have l: "live_side m0" "unreserved inb" "ms_inbound_qty s = tk_open_qty (ms_inbound s)"
    by (simp_all add: regular_inv_def)
  obtain s' where s': "regular_step env e s = Inr s'" "regular_inv env p inb b0 d0 m0 pos s'"
    using regular_step_keeps I nf m by blast
  have F: "filling inb b0 m0 (e # pos) s" using I by simp
  have "filling inb b0 m0 pos s'"
    by (rule regular_step_fills [OF F filling_live [OF F l(1,2)] l(3) s'(1)])
  with s' show "\<exists>s'. regular_step env e s = Inr s' \<and>
      regular_inv env p inb b0 d0 m0 pos s' \<and> filling inb b0 m0 pos s'" by blast
qed

subsection \<open>Deferred trades\<close>

lemma put_or_erase:
  assumes "distinct (mm_ids (a @ n # c))"
  shows "(if filled x then mm_erase (nd_id n) (a @ n # c) else mm_put (nd_id n) x (a @ n # c)) =
    a @ (if filled x then [] else [n\<lparr>nd_val := x\<rparr>]) @ c"
  using assms by (simp add: mm_erase_Cons mm_put_Cons)

lemma execute_fills_fills:
  "execute_fills env foundQty D qs traded i b m = Inr (traded', i', b', m') \<Longrightarrow>
     live_side m \<Longrightarrow> unreserved i \<Longrightarrow>
     \<exists>cbs. tells b cbs b' \<and> fills i m cbs i' m' \<and> traded' - traded = tk_open_qty i - tk_open_qty i'"
proof (induction env foundQty D qs traded i b m rule: execute_fills.induct)
  case (1 env foundQty entry pos qty qs traded i b m)
  show ?case
  proof (cases "traded < foundQty")
    case False
    then show ?thesis using 1(2) by (auto intro!: exI [of _ "[]"] intro: fills.none)
  next
    case True
    then obtain n t i1 x b1 where g: "mm_get entry m = Inr n"
      and ct: "create_trade env b i (nd_val n) qty = Inr (t, i1, x, b1)"
      and r: "execute_fills env foundQty pos qs (traded + t) i1 b1
        (if filled x then mm_erase entry m else mm_put entry x m) = Inr (traded', i', b', m')"
      using 1(2) by auto
    have d: "distinct (mm_ids m)" using 1(3) by (simp add: live_side_def)
    obtain a c where m: "m = a @ n # c" and id: "nd_id n = entry"
      using g d by (metis mm_get_Inr_iff node_in_split)
    let ?m = "a @ (if filled x then [] else [n\<lparr>nd_val := x\<rparr>]) @ c"
    obtain cbs where T: "tells b cbs b1" "fills i m cbs i1 ?m" "unreserved i1" "i1 = take_qty t i"
      by (rule trade_node [OF 1(4) 1(3) [unfolded m] ct]) (use m in blast)
    have pe: "(if filled x then mm_erase entry m else mm_put entry x m) = ?m"
      using put_or_erase [of a n c x] d unfolding m id by blast
    have "live_side ?m" using fills_live [OF T(2)] 1(3) by blast
    then obtain c2 where c2: "tells b1 c2 b'" "fills i1 ?m c2 i' m'"
      "traded' - (traded + t) = tk_open_qty i1 - tk_open_qty i'"
      using "1.IH" [OF True g ct refl refl refl refl] r T(3) unfolding pe by blast
    have "traded' - traded = tk_open_qty i - tk_open_qty i'"
      using c2(3) T(4) by (simp add: algebra_simps)
    then show ?thesis using tells_trans [OF T(1) c2(1)] fills_trans [OF c2(2) T(2)] by blast
  qed
qed (auto intro!: exI [of _ "[]"] intro: fills.none)

lemma try_create_fills:
  assumes "try_create_deferred_trades env i D mx mn m b = Inr (traded, i', b', m')"
    "live_side m" "unreserved i"
  obtains cbs where "tells b cbs b'" "fills i m cbs i' m'" "traded = tk_open_qty i - tk_open_qty i'"
proof -
  obtain found qs where p: "propose_fills m mx D 0 = Inr (found, qs)"
    using assms(1) by (auto simp: try_create_deferred_trades_def)
  show thesis
  proof (cases "mn \<le> found \<and> found \<le> mx")
    case True
    then have "execute_fills env found D qs 0 i b m = Inr (traded, i', b', m')"
      using assms(1) p by (simp add: try_create_deferred_trades_def)
    then show thesis using execute_fills_fills [of env found D qs 0 i b m] assms(2,3) that by auto
  next
    case False
    then have "traded = 0" "i' = i" "b' = b" "m' = m"
      using assms(1) p by (auto simp: try_create_deferred_trades_def split: if_splits)
    then show thesis using that [of "[]"] fills.none by simp
  qed
qed

subsection \<open>An all-or-none inbound order\<close>

text \<open>The deferred trades, then a trade with the order the loop is at.\<close>

lemma deferred_and_here_fills:
  assumes L: "live_side (pre @ e # pos)" and u: "unreserved inb"
    and D: "try_create_deferred_trades env inb D mx mn pre b0 = Inr (traded, i1, b1, v1)"
    and ct: "create_trade env b1 i1 (nd_val e) UINT32_MAX = Inr (t, i2, x, b2)"
    and s1: "ms_book s1 = b2" "ms_inbound s1 = i2"
      "ms_visited s1 = v1 @ (if filled x then [] else [e\<lparr>nd_val := x\<rparr>])"
  shows "filling inb b0 (pre @ e # pos) pos s1"
    "(t = 0 \<longrightarrow> x = nd_val e) \<and>
     (t \<noteq> 0 \<longrightarrow> t = min UINT32_MAX (min (tk_open_qty i1) (tk_open_qty (nd_val e)))) \<and>
     (filled x \<longleftrightarrow> t = tk_open_qty (nd_val e))" "traded = tk_open_qty inb - tk_open_qty i1"
proof -
  have l: "live_side pre" "set (mm_ids (e # pos)) \<inter> set (mm_ids pre) = {}" using L by auto
  obtain c1 where 1: "tells b0 c1 b1" "fills inb pre c1 i1 v1" "traded = tk_open_qty inb - tk_open_qty i1"
    by (rule try_create_fills [OF D l(1) u])
  have f1: "fills inb (pre @ e # pos) c1 i1 (v1 @ e # pos)" by (rule fills_append [OF 1(2) l])
  have l1: "live_side (v1 @ e # pos)" "unreserved i1"
    using fills_live [OF f1 L] fills_inbound [OF f1] u by auto
  obtain c2 where 2: "tells b1 c2 b2"
    "fills i1 (v1 @ e # pos) c2 i2 (v1 @ (if filled x then [] else [e\<lparr>nd_val := x\<rparr>]) @ pos)"
    by (rule trade_node [OF l1(2,1) ct]) blast
  show "filling inb b0 (pre @ e # pos) pos s1"
    using tells_trans [OF 1(1) 2(1)] fills_trans [OF 2(2) f1] s1
    unfolding filling_def by (intro exI [of _ "c1 @ c2"]) simp
  show "traded = tk_open_qty inb - tk_open_qty i1" by (rule 1(3))
  show "(t = 0 \<longrightarrow> x = nd_val e) \<and>
     (t \<noteq> 0 \<longrightarrow> t = min UINT32_MAX (min (tk_open_qty i1) (tk_open_qty (nd_val e)))) \<and>
     (filled x \<longleftrightarrow> t = tk_open_qty (nd_val e))"
    by (rule trade_node [OF l1(2,1) ct]) blast
qed

text \<open>Deferred trades that do not suffice.\<close>

lemma deferred_only_fills:
  assumes L: "live_side (pre @ e # pos)" and u: "unreserved inb"
    and D: "try_create_deferred_trades env inb D mx mn pre b0 = Inr (traded, i1, b1, v1)"
    and s1: "ms_book s1 = b1" "ms_inbound s1 = i1" "ms_visited s1 = v1 @ [e]"
  shows "filling inb b0 (pre @ e # pos) pos s1"
proof -
  have l: "live_side pre" "set (mm_ids (e # pos)) \<inter> set (mm_ids pre) = {}" using L by auto
  obtain c1 where 1: "tells b0 c1 b1" "fills inb pre c1 i1 v1"
    by (rule try_create_fills [OF D l(1) u])
  show ?thesis
    using 1(1) fills_append [OF 1(2) l] s1 unfolding filling_def by (intro exI [of _ c1]) simp
qed

text \<open>No trade at all: the order is kept.\<close>

lemma untouched_filling:
  assumes "untouched inb b0 d0 pre s" "ms_book s1 = b0" "ms_inbound s1 = inb" "ms_visited s1 = pre @ [e]"
  shows "filling inb b0 (pre @ e # pos) pos s1"
  using assms by (auto simp: filling_def untouched_def intro!: exI [of _ "[]"] intro: fills.none)

lemma aon_aon_step_fills:
  assumes U: "untouched inb b0 d0 pre s" and L: "live_side (pre @ e # pos)" and u: "unreserved inb"
    and a: "aon_aon_step env e s = Inr s'"
  shows "filling inb b0 (pre @ e # pos) pos s'"
proof -
  let ?c = "nd_val e"
  have s: "ms_inbound s = inb" "ms_book s = b0" "ms_visited s = pre"
    "ms_inbound_qty s = tk_open_qty inb" using U by (simp_all add: untouched_def)
  have lc: "live ?c" "open_qty ?c = tk_open_qty ?c" using L by (simp_all add: live_def)
  let ?mx = "tk_open_qty inb - tk_open_qty ?c"
  consider "\<not> tk_open_qty ?c \<le> tk_open_qty inb"
    | "tk_open_qty ?c \<le> tk_open_qty inb" "\<not> tk_open_qty inb \<le> tk_open_qty ?c + ms_deferred_qty s"
    | "tk_open_qty ?c \<le> tk_open_qty inb" "tk_open_qty inb \<le> tk_open_qty ?c + ms_deferred_qty s" by blast
  then show ?thesis
  proof cases
    case 3
    then obtain traded i1 b1 v1 where D:
      "try_create_deferred_trades env inb (ms_deferred_matches s) ?mx ?mx pre b0 = Inr (traded, i1, b1, v1)"
      using a s lc by (auto simp: aon_aon_step_def Let_def)
    show ?thesis
    proof (cases "?mx = traded")
      case False
      then have "s' = keep_node e (s\<lparr>ms_inbound := i1, ms_book := b1, ms_visited := v1\<rparr>)"
        using a 3 s lc D by (simp add: aon_aon_step_def Let_def)
      then show ?thesis by (intro deferred_only_fills [OF L u D]) (simp_all add: keep_node_def)
    next
      case eq: True
      then obtain t i2 x b2 where ct: "create_trade env b1 i1 ?c UINT32_MAX = Inr (t, i2, x, b2)"
        using a 3 s lc D by (auto simp: aon_aon_step_def Let_def)
      note F = deferred_and_here_fills [OF L u D ct]
      let ?s = "s\<lparr>ms_book := b2, ms_inbound := i2, ms_visited := v1 @ (if filled x then [] else [e\<lparr>nd_val := x\<rparr>])\<rparr>"
      have "tk_open_qty i1 = tk_open_qty ?c" using F(3) [of ?s] eq by simp
      then have x: "filled x \<longleftrightarrow> 0 < t" using F(2) [of ?s] lc(1) by (auto simp: word_gt_0 live_def)
      show ?thesis
        by (intro F(1))
          (use a 3(1) s lc D ct eq x 3(2) in
            \<open>auto simp: aon_aon_step_def Let_def keep_node_def split: if_splits\<close>)
    qed
  next
    case 1
    show ?thesis by (rule untouched_filling [OF U]) (use a s lc 1 in \<open>auto simp: aon_aon_step_def Let_def keep_node_def\<close>)
  next
    case 2
    show ?thesis by (rule untouched_filling [OF U]) (use a s lc 2 in \<open>auto simp: aon_aon_step_def Let_def keep_node_def\<close>)
  qed
qed

lemma aon_regular_step_fills:
  assumes U: "untouched inb b0 d0 pre s" and L: "live_side (pre @ e # pos)" and u: "unreserved inb"
    and a: "aon_regular_step env e s = Inr s'"
  shows "filling inb b0 (pre @ e # pos) pos s'"
proof -
  let ?c = "nd_val e"
  have s: "ms_inbound s = inb" "ms_book s = b0" "ms_visited s = pre"
    "ms_inbound_qty s = tk_open_qty inb" using U by (simp_all add: untouched_def)
  have lc: "live ?c" "open_qty ?c = tk_open_qty ?c" using L by (simp_all add: live_def)
  let ?mn = "if tk_open_qty ?c < tk_open_qty inb then tk_open_qty inb - tk_open_qty ?c else 0"
  show ?thesis
  proof (cases "tk_open_qty inb \<le> tk_open_qty ?c + ms_deferred_qty s")
    case no: False
    show ?thesis by (rule untouched_filling [OF U]) (use a s lc no in \<open>auto simp: aon_regular_step_def Let_def keep_node_def\<close>)
  next
    case True
    then obtain traded i1 b1 v1 where D:
      "try_create_deferred_trades env inb (ms_deferred_matches s) (tk_open_qty inb) ?mn pre b0 =
         Inr (traded, i1, b1, v1)"
      using a s lc by (auto simp: aon_regular_step_def Let_def cong: if_cong)
    show ?thesis
    proof (cases "tk_open_qty inb \<le> tk_open_qty ?c + traded")
      case no: False
      then have "s' = keep_node e (s\<lparr>ms_inbound := i1, ms_book := b1, ms_visited := v1\<rparr>)"
        using a True s lc D by (simp add: aon_regular_step_def Let_def cong: if_cong)
      then show ?thesis by (intro deferred_only_fills [OF L u D]) (simp_all add: keep_node_def)
    next
      case yes: True
      then obtain t i2 x b2 where ct: "create_trade env b1 i1 ?c UINT32_MAX = Inr (t, i2, x, b2)"
        using a True s lc D by (auto simp: aon_regular_step_def Let_def cong: if_cong)
      show ?thesis
        by (intro deferred_and_here_fills(1) [OF L u D ct])
          (use a True s lc D ct yes in
            \<open>auto simp: aon_regular_step_def Let_def keep_node_def cong: if_cong split: if_splits\<close>)
    qed
  qed
qed

lemma aon_step_fills:
  assumes U: "untouched inb b0 d0 pre s" and L: "live_side (pre @ e # pos)" and u: "unreserved inb"
    and r: "aon_step env e s = Inr s'"
  shows "filling inb b0 (pre @ e # pos) pos s'"
  using aon_aon_step_fills [OF U L u] aon_regular_step_fills [OF U L u] r by (auto simp: aon_step_def split: if_splits)

end
