(* ===== verification/Book_Trades.thy ===== *)
theory Book_Trades
  imports Book_Fills
begin

text \<open>
  The executions of a whole call. The two sides are multisets of trackers: where in the order
  of a side a tracker stands does not matter for what the notifications say. \<open>trades\<close> is the
  step relation of two sides whose orders trade with each other.
\<close>

section \<open>Trades between two sides\<close>

type_synonym sides = "bool \<Rightarrow> tracker multiset"

abbreviation vals :: "tracker_map \<Rightarrow> tracker multiset" where
  "vals m \<equiv> image_mset nd_val (mset m)"

definition sides_of :: "order_book \<Rightarrow> sides" where
  "sides_of b s = vals (if s then ob_bids b else ob_asks b)"

definition both :: "bool \<Rightarrow> tracker multiset \<Rightarrow> tracker multiset \<Rightarrow> sides" where
  "both s M N = (\<lambda>x. if x = s then M else N)"

definition residual :: "tracker \<Rightarrow> tracker multiset" where
  "residual t = (if tk_open_qty t = 0 then {#} else {#t#})"

definition settle_tk :: "tracker \<Rightarrow> quantity \<Rightarrow> tracker multiset \<Rightarrow> tracker multiset" where
  "settle_tk t q M = M - {#t#} + residual (take_qty q t)"

inductive trades :: "sides \<Rightarrow> callback list \<Rightarrow> sides \<Rightarrow> bool" where
  none: "trades M [] M"
| one: "trades M cbs M1 \<Longrightarrow> i \<in># M1 s \<Longrightarrow> c \<in># M1 (\<not> s) \<Longrightarrow> q \<noteq> 0 \<Longrightarrow>
     q \<le> tk_open_qty i \<Longrightarrow> q \<le> tk_open_qty c \<Longrightarrow>
     trades M (cbs @ [Callback_fill (tk_order i) (tk_order c) q price (fill_flags_of i c q)])
       (both s (settle_tk i q (M1 s)) (settle_tk c q (M1 (\<not> s))))"

lemma both_simps [simp]: "both s M N s = M" "both s M N (\<not> s) = N" "both (\<not> s) M N s = N"
  by (simp_all add: both_def)

lemma both_eta: "both s (f s) (f (\<not> s)) = f"
  by (auto simp: both_def fun_eq_iff)

lemma both_swap: "both (\<not> s) M N = both s N M"
  by (auto simp: both_def fun_eq_iff)

lemma trades_trans: "trades M1 c2 M2 \<Longrightarrow> trades M c1 M1 \<Longrightarrow> trades M (c1 @ c2) M2"
proof (induction rule: trades.induct)
  case (one M1 cbs M2 i s c q price)
  then show ?case by (metis append.assoc trades.one)
qed simp

section \<open>From the relation of one inbound order\<close>

lemma settle_vals:
  assumes "live_side m" "n \<in> set m"
  shows "vals (settle (nd_id n) q m) = settle_tk (nd_val n) q (vals m)"
proof -
  have d: "distinct (mm_ids m)" using assms(1) by (simp add: live_side_def)
  obtain a c where m: "m = a @ n # c" by (rule node_in_split [OF assms(2) d])
  show ?thesis
    using settle_at [OF assms(1) [unfolded m], of q] unfolding m
    by (simp add: settle_tk_def residual_def)
qed

text \<open>
  The inbound order counts among the orders of its side, \<open>R\<close> being the others, as long as it
  has something open.
\<close>

lemma fills_trades:
  "fills i m cbs i' m' \<Longrightarrow> live_side m \<Longrightarrow>
     trades (both s (R + residual i) (vals m)) cbs (both s (R + residual i') (vals m'))"
proof (induction rule: fills.induct)
  case (one i m cbs i1 m1 n q price)
  let ?M = "both s (R + residual i1) (vals m1)"
  have l: "live_side m1" using fills_live [OF one(1)] one by blast
  have r: "residual i1 = {#i1#}" using one(3,4) by (auto simp: residual_def)
  have "settle_tk i1 q (?M s) = R + residual (take_qty q i1)"
    by (simp add: settle_tk_def r)
  moreover have "settle_tk (nd_val n) q (?M (\<not> s)) = vals (settle (nd_id n) q m1)"
    using settle_vals [OF l one(2)] by simp
  moreover have "i1 \<in># ?M s" "nd_val n \<in># ?M (\<not> s)" using r one(2) by auto
  ultimately show ?case
    using trades.one [OF one.IH [OF one.prems], of i1 s "nd_val n" q price] one(3-5) by metis
qed (rule trades.none)

section \<open>Matching an order\<close>

interpretation aon_fills:
  match_loop_rule "aon_step env" p
    "\<lambda>pos s. aon_inv env p inb b0 d0 m0 pos s \<and> filling inb b0 m0 pos s" for env p inb b0 d0 m0
proof unfold_locales
  fix e pos s
  assume I: "aon_inv env p inb b0 d0 m0 (e # pos) s \<and> filling inb b0 m0 (e # pos) s"
    and nf: "\<not> filled (ms_inbound s)" and m: "matches (nd_key e) p"
  then obtain pre where pre: "m0 = pre @ e # pos" "untouched inb b0 d0 pre s"
    and l: "live_side m0" "unreserved inb"
    by (auto simp: aon_inv_def aon_context_def live_def)
  obtain s' where s': "aon_step env e s = Inr s'" "aon_inv env p inb b0 d0 m0 pos s'"
    using aon_step_keeps I nf m by blast
  have "filling inb b0 m0 pos s'"
    unfolding pre(1) by (rule aon_step_fills [OF pre(2) l(1) [unfolded pre(1)] l(2) s'(1)])
  with s' show "\<exists>s'. aon_step env e s = Inr s' \<and>
      aon_inv env p inb b0 d0 m0 pos s' \<and> filling inb b0 m0 pos s'" by blast
qed

lemma filling_start: "filling inb b m m (match_start inb b d)"
  by (auto simp: filling_def match_start_def intro!: exI [of _ "[]"] intro: fills.none)

lemma match_order_fills:
  assumes "live_side m" "live inb" "all_or_none inb \<longrightarrow> tk_priced env b inb" "side_qty m < 2 ^ 32"
    "match_order env inb p m [] b = Inr (matched, inb', m', aons, b')"
  obtains cbs where "tells b cbs b'" "fills inb m cbs inb' m'"
proof -
  have "\<exists>pos s. filling inb b m pos s \<and> inb' = ms_inbound s \<and> m' = ms_visited s @ pos \<and> b' = ms_book s"
  proof (cases "all_or_none inb")
    case True
    have "aon_inv env p inb b [] m m (match_start inb b [])"
      using assms(1-4) True by (auto simp: aon_inv_def untouched_def match_start_def aon_context_def
          priced_def tk_priced_def live_def intro!: exI [of _ "[]"])
    with filling_start obtain s pos where "rbind (match_loop (aon_step env) p m (match_start inb b [])) match_finish =
        Inr (ms_matched s, ms_inbound s, ms_visited s @ pos, ms_deferred_aons s, ms_book s)"
      "filling inb b m pos s" using aon_fills.finish by blast
    then show ?thesis
      using assms(5) True by (intro exI [of _ pos] exI [of _ s]) (auto simp: match_order_def match_aon_order_def)
  next
    case False
    have "regular_inv env p inb b [] m m (match_start inb b [])"
      using assms(1,2) by (intro regular_inv_start) (auto simp: live_def)
    with filling_start obtain s pos where "rbind (match_loop (regular_step env) p m (match_start inb b [])) match_finish =
        Inr (ms_matched s, ms_inbound s, ms_visited s @ pos, ms_deferred_aons s, ms_book s)"
      "filling inb b m pos s" using regular_fills.finish by blast
    then show ?thesis
      using assms(5) False
      by (intro exI [of _ pos] exI [of _ s]) (auto simp: match_order_def match_regular_order_def)
  qed
  then show thesis using that by (auto simp: filling_def)
qed


section \<open>Deferred orders\<close>

lemma erase_or_put_vals:
  assumes "distinct (mm_ids m)" "n \<in> set m" "tk_open_qty (nd_val n) \<noteq> 0"
  shows "vals (if filled t then mm_erase (nd_id n) m else mm_put (nd_id n) t m) =
    vals m - {#nd_val n#} + residual t"
proof -
  obtain a c where m: "m = a @ n # c" by (rule node_in_split [OF assms(2,1)])
  show ?thesis
    using put_or_erase [of a n c t] assms(1) unfolding m by (auto simp: residual_def filled_def)
qed

lemma check_deferred_trades:
  assumes "check_deferred_aons env ids D M b r = Inr (r', D', M', b')"
    "live_side D" "live_side M" "distinct ids"
    "\<forall>i \<in> set ids. \<exists>n \<in> set D. nd_id n = i \<and> all_or_none (nd_val n)"
    "\<forall>n \<in> set D. all_or_none (nd_val n) \<longrightarrow> tk_priced env b (nd_val n)" "side_qty M < 2 ^ 32"
  shows "\<exists>cbs. tells b cbs b' \<and> trades (both s (vals D) (vals M)) cbs (both s (vals D') (vals M'))"
  using assms
proof (induction ids arbitrary: D M b r)
  case Nil
  then show ?case by (auto intro!: exI [of _ "[]"] intro: trades.none)
next
  case (Cons i ids)
  obtain n where n: "n \<in> set D" "nd_id n = i" "all_or_none (nd_val n)" using Cons.prems(5) by auto
  have dD: "distinct (mm_ids D)" and ln: "live (nd_val n)"
    using Cons.prems(2) n(1) by (auto simp: live_side_def)
  have pn: "all_or_none (nd_val n) \<longrightarrow> tk_priced env b (nd_val n)" using Cons.prems(6) n(1) by blast
  have get: "mm_get i D = Inr n" using mm_get_mem [OF dD n(1)] n(2) by simp
  obtain matched t M1 ig b1 where
    m: "match_order env (nd_val n) (cp_price (nd_key n)) M [] b = Inr (matched, t, M1, ig, b1)"
    and rest: "check_deferred_aons env ids (if filled t then mm_erase i D else mm_put i t D) M1 b1
      (r \<or> matched) = Inr (r', D', M', b')"
    using Cons.prems(1) get by (auto simp: Let_def)
  let ?D1 = "if filled t then mm_erase i D else mm_put i t D"
  have first: "check_deferred_aons env [i] D M b r = Inr (r \<or> matched, ?D1, M1, b1)"
    using get m by (simp add: Let_def)
  obtain c where c: "shrinks D ?D1" "shrinks M M1" "trading b c b1"
    "side_qty ?D1 + side_qty M1 + 2 * traded_qty c = side_qty D + side_qty M"
  proof -
    have i: "\<forall>j \<in> set [i]. \<exists>n \<in> set D. nd_id n = j \<and> all_or_none (nd_val n)" using n by auto
    show thesis
      using check_deferred_aons_ok [OF Cons.prems(2,3) _ i Cons.prems(6,7), of r] that
      unfolding first by auto
  qed
  obtain c1 where c1: "tells b c1 b1" "fills (nd_val n) M c1 t M1"
    by (rule match_order_fills [OF Cons.prems(3) ln pn Cons.prems(7) m])
  have "traded_qty c1 + unat (tk_open_qty t) = unat (tk_open_qty (nd_val n))"
    using fills_inbound [OF c1(2)] by simp
  have q: "side_qty M1 < 2 ^ 32"
  proof -
    obtain M2 where "match_outcome env (cp_price (nd_key n)) (nd_val n) b M (matched, t, M1, ig, b1)"
      using match_order_ok [OF Cons.prems(3) ln pn Cons.prems(7), of "cp_price (nd_key n)"] m by auto
    then have "side_qty M1 \<le> side_qty M" by (auto simp: match_outcome_def)
    then show ?thesis using Cons.prems(7) by simp
  qed
  have ids: "\<forall>j \<in> set ids. \<exists>n \<in> set ?D1. nd_id n = j \<and> all_or_none (nd_val n)"
  proof
    fix j assume j: "j \<in> set ids"
    then obtain n' where n': "n' \<in> set D" "nd_id n' = j" "all_or_none (nd_val n')"
      using Cons.prems(5) by auto
    have "j \<noteq> i" using j Cons.prems(4) by auto
    then have "n' \<in> set ?D1" using n' by (auto simp: mm_erase_def mm_put_def)
    then show "\<exists>n \<in> set ?D1. nd_id n = j \<and> all_or_none (nd_val n)" using n' by blast
  qed
  have pr: "\<forall>n \<in> set ?D1. all_or_none (nd_val n) \<longrightarrow> tk_priced env b1 (nd_val n)"
    using shrunk_aon_node [OF c(1) dD] Cons.prems(6) tk_priced_mono [OF _ c(3) refl] by blast
  have IH: "\<exists>c2. tells b1 c2 b' \<and> trades (both s (vals ?D1) (vals M1)) c2 (both s (vals D') (vals M'))"
    by (rule Cons.IH [OF rest shrinks_live [OF c(1) Cons.prems(2)] shrinks_live [OF c(2) Cons.prems(3)]
          _ ids pr q]) (use Cons.prems(4) in simp)
  have "trades (both s (vals D - {#nd_val n#} + residual (nd_val n)) (vals M)) c1
      (both s (vals D - {#nd_val n#} + residual t) (vals M1))"
    by (rule fills_trades [OF c1(2) Cons.prems(3)])
  moreover have "vals D - {#nd_val n#} + residual (nd_val n) = vals D"
    using ln n(1) by (simp add: residual_def live_def)
  moreover have "vals ?D1 = vals D - {#nd_val n#} + residual t"
    using erase_or_put_vals [OF dD n(1), of t] ln unfolding n(2) live_def by blast
  ultimately have T: "trades (both s (vals D) (vals M)) c1 (both s (vals ?D1) (vals M1))" by simp
  from IH obtain c2 where c2: "tells b1 c2 b'"
    "trades (both s (vals ?D1) (vals M1)) c2 (both s (vals D') (vals M'))" by blast
  show ?case
    by (rule exI [of _ "c1 @ c2"]) (use tells_trans [OF c1(1) c2(1)] trades_trans [OF c2(2) T] in blast)
qed


section \<open>Adding an order\<close>

lemma vals_insert [simp]: "vals (mm_insert lt (new_node b k t) m) = add_mset t (vals m)"
  by (induction m) (simp_all add: new_node_def)

lemma add_half_trades:
  assumes O: "side_ok env b buy Ow" and X: "side_ok env b (\<not> buy) X" and inb: "live inb"
    and dir: "o_is_buy (env (tk_order inb)) = buy"
    and pr: "all_or_none inb \<longrightarrow> tk_priced env b inb"
    and q: "side_qty Ow + side_qty X + unat (tk_open_qty inb) < 2 ^ 32"
    and r: "match_order env inb p X [] b = Inr (matched, inb1, X1, aons, b1)"
  obtains c1 where "tells b c1 b1" "fills inb X c1 inb1 X1" "trading b c1 b1"
    "\<And>b2 res X3 O3 b3. open_qty inb1 \<noteq> 0 \<Longrightarrow> bare b2 = bare b1 \<Longrightarrow>
       check_deferred_aons env aons X1 (mm_insert cp_less (new_node b1 (ComparablePrice buy p) inb1) Ow)
         b2 False = Inr (res, X3, O3, b3) \<Longrightarrow>
       \<exists>c2. tells b2 c2 b3 \<and>
         trades (both buy (add_mset inb1 (vals Ow)) (vals X1)) c2 (both buy (vals O3) (vals X3))"
proof -
  have lX: "live_side X" using X by (simp add: side_ok_def)
  have q32: "side_qty X < 2 ^ 32" using q by simp
  obtain c1 where c1: "tells b c1 b1" "fills inb X c1 inb1 X1"
    by (rule match_order_fills [OF lX inb pr q32 r])
  obtain c where m: "trading b c b1" "side_ok env b1 buy Ow" "side_ok env b1 (\<not> buy) X1"
    "side_qty X1 \<le> side_qty X" "tk_open_qty inb1 \<le> tk_open_qty inb" "tk_order inb1 = tk_order inb"
    "unreserved inb1" "all_or_none inb1 \<longrightarrow> tk_priced env b1 inb1" "distinct aons"
    "\<forall>i \<in> set aons. \<exists>n \<in> set X1. nd_id n = i \<and> all_or_none (nd_val n)"
  proof -
    show thesis
      by (rule add_match [OF O X inb pr q32, of p], rule that)
        (use r in \<open>auto simp: word_le_nat_alt\<close>)
  qed
  have "c = c1" using m(1) c1(1) by (simp add: trading_def tells_def)
  with m(1) have tr: "trading b c1 b1" by simp
  show thesis
  proof (rule that [OF c1 tr])
    fix b2 res X3 O3 b3
    let ?O2 = "mm_insert cp_less (new_node b1 (ComparablePrice buy p) inb1) Ow"
    assume op: "open_qty inb1 \<noteq> 0" and b2: "bare b2 = bare b1"
      and cd: "check_deferred_aons env aons X1 ?O2 b2 False = Inr (res, X3, O3, b3)"
    have lv: "live inb1" using m(7) op by (rule live_rest)
    have "side_ok env (b1\<lparr>ob_next_node := Suc (ob_next_node b1)\<rparr>) buy ?O2"
      by (rule side_ok_insert [OF m(2) lv _ m(8)]) (simp_all add: m(6) dir)
    then have O2: "live_side ?O2" by (simp add: side_ok_def)
    have mp: "ob_marketPrice b2 = ob_marketPrice b1" using b2 by (metis bare_sel(5))
    have X1: "live_side X1" "\<forall>n \<in> set X1. all_or_none (nd_val n) \<longrightarrow> tk_priced env b2 (nd_val n)"
      using m(3) mp by (auto simp: side_ok_def tk_priced_def)
    have qO: "side_qty ?O2 < 2 ^ 32" using q m(5) by (simp add: word_le_nat_alt)
    have "\<exists>c2. tells b2 c2 b3 \<and>
        trades (both (\<not> buy) (vals X1) (vals ?O2)) c2 (both (\<not> buy) (vals X3) (vals O3))"
      by (rule check_deferred_trades [OF cd X1(1) O2 m(9,10) X1(2) qO])
    then show "\<exists>c2. tells b2 c2 b3 \<and>
        trades (both buy (add_mset inb1 (vals Ow)) (vals X1)) c2 (both buy (vals O3) (vals X3))"
      by (simp add: both_swap)
  qed
qed

text \<open>
  \<open>entering\<close>: the executions of \<^verbatim>\<open>add_order\<close>. First the inbound order trades with the other
  side (\<open>c1\<close>); if it comes to rest, orders that were passed over because they are all-or-none
  may trade with its side (\<open>c2\<close>).
\<close>

definition entering ::
  "bool \<Rightarrow> tracker \<Rightarrow> sides \<Rightarrow> callback list \<Rightarrow> callback list \<Rightarrow> tracker \<Rightarrow> sides \<Rightarrow> bool" where
  "entering buy inb M c1 c2 inb' M' \<longleftrightarrow>
     (\<exists>m X. live_side m \<and> vals m = M (\<not> buy) \<and> fills inb m c1 inb' X \<and>
        (if tk_open_qty inb' = 0 \<or> immediate_or_cancel inb'
         then c2 = [] \<and> M' = both buy (M buy) (vals X)
         else trades (both buy (add_mset inb' (M buy)) (vals X)) c2 M'))"

lemma sides_of_both:
  "sides_of b = both True (vals (ob_bids b)) (vals (ob_asks b))"
  "sides_of b = both False (vals (ob_asks b)) (vals (ob_bids b))"
  by (auto simp: sides_of_def both_def fun_eq_iff)

lemma entering_out:
  assumes "live_side m" "fills inb m c1 inb' X" "tk_open_qty inb' = 0 \<or> immediate_or_cancel inb'"
  shows "entering buy inb (both buy M (vals m)) c1 [] inb' (both buy M (vals X))"
  using assms unfolding entering_def by (intro exI [of _ m] exI [of _ X]) simp

lemma entering_in:
  assumes "live_side m" "fills inb m c1 inb' X" "tk_open_qty inb' \<noteq> 0" "\<not> immediate_or_cancel inb'"
    "trades (both buy (add_mset inb' M) (vals X)) c2 M'"
  shows "entering buy inb (both buy M (vals m)) c1 c2 inb' M'"
  using assms unfolding entering_def by (intro exI [of _ m] exI [of _ X]) simp

lemma add_order_entering:
  assumes B: "book_ok env b" and inb: "live inb" and pr: "all_or_none inb \<longrightarrow> tk_priced env b inb"
    and q: "book_qty b + unat (tk_open_qty inb) < 2 ^ 32"
    and r: "add_order env inb p b = Inr (matched, inb', b')"
  obtains c1 c2 where "tells b (c1 @ c2) b'"
    "entering (o_is_buy (env (tk_order inb))) inb (sides_of b) c1 c2 inb' (sides_of b')"
proof (cases "o_is_buy (env (tk_order inb))")
  case True
  have s: "side_ok env b True (ob_bids b)" "side_ok env b (\<not> True) (ob_asks b)"
    and q': "side_qty (ob_bids b) + side_qty (ob_asks b) + unat (tk_open_qty inb) < 2 ^ 32"
    using B q by (simp_all add: book_ok_def book_qty_def)
  obtain m1 X1 aons b1 where mo: "match_order env inb p (ob_asks b) [] b = Inr (m1, inb', X1, aons, b1)"
    using r True by (auto simp: add_order_def Let_def split: if_splits)
  have lX: "live_side (ob_asks b)" using s(2) by (simp add: side_ok_def)
  have d: "o_is_buy (env (tk_order inb)) = True" using True by simp
  obtain c1 where c1: "tells b c1 b1" "fills inb (ob_asks b) c1 inb' X1" "trading b c1 b1"
    "\<And>b2 res X3 O3 b3. open_qty inb' \<noteq> 0 \<Longrightarrow> bare b2 = bare b1 \<Longrightarrow>
       check_deferred_aons env aons X1
         (mm_insert cp_less (new_node b1 (ComparablePrice True p) inb') (ob_bids b))
         b2 False = Inr (res, X3, O3, b3) \<Longrightarrow>
       \<exists>c2. tells b2 c2 b3 \<and>
         trades (both True (add_mset inb' (vals (ob_bids b))) (vals X1)) c2 (both True (vals O3) (vals X3))"
    by (rule add_half_trades [OF s inb d pr q' mo]) blast
  note same = tradingD(2,3,4) [OF c1(3)]
  have u: "open_qty inb' = tk_open_qty inb'"
    using fills_inbound [OF c1(2)] inb by (simp add: live_def)
  show thesis
  proof (cases "open_qty inb' \<noteq> 0 \<and> \<not> immediate_or_cancel inb'")
    case False
    then have "b' = b1\<lparr>ob_asks := X1\<rparr>" using r mo True by (auto simp: add_order_def)
    then show thesis
      using entering_out [OF lX c1(2), of True "vals (ob_bids b)"] False same c1(1) u d
      by (intro that [of c1 "[]"]) (auto simp: tells_def sides_of_both(1))
  next
    case op: True
    define b2 where "b2 = insert_bid p inb' (b1\<lparr>ob_asks := X1\<rparr>)"
    have b2: "bare b2 = bare b1" "ob_asks b2 = X1" "ob_callbacks b2 = ob_callbacks b1"
      "ob_bids b2 = mm_insert cp_less (new_node b1 (ComparablePrice True p) inb') (ob_bids b)"
      using same by (simp_all add: b2_def insert_bid_def new_node_def)
    obtain res X3 O3 b3 where cd: "check_deferred_aons env aons (ob_asks b2) (ob_bids b2) b2 False =
        Inr (res, X3, O3, b3)" "b' = b3\<lparr>ob_asks := X3, ob_bids := O3\<rparr>"
      using r mo op True by (auto simp: add_order_def b2_def [symmetric] Let_def)
    then obtain c2 where "tells b2 c2 b3"
      "trades (both True (add_mset inb' (vals (ob_bids b))) (vals X1)) c2 (both True (vals O3) (vals X3))"
      using c1(4) [of b2 res X3 O3 b3] op b2 by auto
    then show thesis
      using entering_in [OF lX c1(2), of True "vals (ob_bids b)" c2] op c1(1) u d b2(3) cd(2)
      by (intro that [of c1 c2]) (auto simp: tells_def sides_of_both(1))
  qed
next
  case False
  have s: "side_ok env b False (ob_asks b)" "side_ok env b (\<not> False) (ob_bids b)"
    and q': "side_qty (ob_asks b) + side_qty (ob_bids b) + unat (tk_open_qty inb) < 2 ^ 32"
    using B q by (simp_all add: book_ok_def book_qty_def)
  obtain m1 X1 aons b1 where mo: "match_order env inb p (ob_bids b) [] b = Inr (m1, inb', X1, aons, b1)"
    using r False by (auto simp: add_order_def Let_def split: if_splits)
  have lX: "live_side (ob_bids b)" using s(2) by (simp add: side_ok_def)
  have d: "o_is_buy (env (tk_order inb)) = False" using False by simp
  obtain c1 where c1: "tells b c1 b1" "fills inb (ob_bids b) c1 inb' X1" "trading b c1 b1"
    "\<And>b2 res X3 O3 b3. open_qty inb' \<noteq> 0 \<Longrightarrow> bare b2 = bare b1 \<Longrightarrow>
       check_deferred_aons env aons X1
         (mm_insert cp_less (new_node b1 (ComparablePrice False p) inb') (ob_asks b))
         b2 False = Inr (res, X3, O3, b3) \<Longrightarrow>
       \<exists>c2. tells b2 c2 b3 \<and>
         trades (both False (add_mset inb' (vals (ob_asks b))) (vals X1)) c2 (both False (vals O3) (vals X3))"
    by (rule add_half_trades [OF s inb d pr q' mo]) blast
  note same = tradingD(2,3,4) [OF c1(3)]
  have u: "open_qty inb' = tk_open_qty inb'"
    using fills_inbound [OF c1(2)] inb by (simp add: live_def)
  show thesis
  proof (cases "open_qty inb' \<noteq> 0 \<and> \<not> immediate_or_cancel inb'")
    case no: False
    then have "b' = b1\<lparr>ob_bids := X1\<rparr>" using r mo False by (auto simp: add_order_def)
    then show thesis
      using entering_out [OF lX c1(2), of False "vals (ob_asks b)"] no same c1(1) u d
      by (intro that [of c1 "[]"]) (auto simp: tells_def sides_of_both(2))
  next
    case op: True
    define b2 where "b2 = insert_ask p inb' (b1\<lparr>ob_bids := X1\<rparr>)"
    have b2: "bare b2 = bare b1" "ob_bids b2 = X1" "ob_callbacks b2 = ob_callbacks b1"
      "ob_asks b2 = mm_insert cp_less (new_node b1 (ComparablePrice False p) inb') (ob_asks b)"
      using same by (simp_all add: b2_def insert_ask_def new_node_def)
    obtain res X3 O3 b3 where cd: "check_deferred_aons env aons (ob_bids b2) (ob_asks b2) b2 False =
        Inr (res, X3, O3, b3)" "b' = b3\<lparr>ob_bids := X3, ob_asks := O3\<rparr>"
      using r mo op False by (auto simp: add_order_def b2_def [symmetric] Let_def)
    then obtain c2 where "tells b2 c2 b3"
      "trades (both False (add_mset inb' (vals (ob_asks b))) (vals X1)) c2 (both False (vals O3) (vals X3))"
      using c1(4) [of b2 res X3 O3 b3] op b2 by auto
    then show thesis
      using entering_in [OF lX c1(2), of False "vals (ob_asks b)" c2] op c1(1) u d b2(3) cd(2)
      by (intro that [of c1 c2]) (auto simp: tells_def sides_of_both(2))
  qed
qed


section \<open>The whole of add and cancel\<close>

lemma sides_of_simps [simp]:
  "sides_of (push_callback cb b) = sides_of b" "sides_of (b\<lparr>ob_callbacks := c\<rparr>) = sides_of b"
  by (simp_all add: sides_of_def fun_eq_iff)

lemma no_stops_pending: "stop_mset b = {#} \<Longrightarrow> ob_pendingOrders b = []"
  by (simp add: stop_mset_def)

text \<open>
  Without stop orders, what \<^verbatim>\<open>add\<close> queues is the accept notification with the quantity the
  inbound order traded, the executions, and a book update.
\<close>

lemma add_enqueue_entering:
  assumes B: "book_ok env b" and qty: "o_order_qty (env ord) \<noteq> 0"
    and pr: "ob_marketPrice b \<noteq> 0 \<or> o_price (env ord) \<noteq> 0"
    and q: "book_qty b + unat (o_order_qty (env ord)) < 2 ^ 32"
    and ns: "stop_mset b = {#}" "o_stop_price (env ord) = 0"
    and ni: "conditions AND oc_immediate_or_cancel = 0"
  obtains matched b' c1 c2 inb' where "add_enqueue env ord conditions b = Inr (matched, b')"
    "ob_callbacks b' = ob_callbacks b @
       (Callback_accept ord)\<lparr>cb_quantity := o_order_qty (env ord) - tk_open_qty inb'\<rparr> # c1 @ c2 @ [Callback_book_update]"
    "entering (o_is_buy (env ord)) (OrderTracker env ord conditions) (sides_of b) c1 c2 inb' (sides_of b')"
    "\<not> immediate_or_cancel inb'" "stop_mset b' = {#}"
proof -
  let ?b1 = "push_callback (Callback_accept ord) b" and ?t = "OrderTracker env ord conditions"
  have B1: "book_ok env ?b1" using B by simp
  have lv: "live ?t" using qty by (simp add: live_def)
  have pt: "all_or_none ?t \<longrightarrow> tk_priced env ?b1 ?t" using pr by (simp add: tk_priced_def)
  have q1: "book_qty ?b1 + unat (tk_open_qty ?t) < 2 ^ 32" using q by simp
  obtain cbs t' b2 where r: "add_order env ?t (o_price (env ord)) ?b1 = Inr (cbs \<noteq> [], t', b2)"
    "add_result env ?t (o_price (env ord)) ?b1 cbs t' b2"
    by (rule add_order_ok [OF B1 lv pt q1])
  obtain c1 c2 where c: "tells ?b1 (c1 @ c2) b2"
    "entering (o_is_buy (env (tk_order ?t))) ?t (sides_of ?b1) c1 c2 t' (sides_of b2)"
    by (rule add_order_entering [OF B1 lv pt q1 r(1)])
  have nt: "\<not> immediate_or_cancel t'"
    using r(2) ni by (simp add: add_result_def immediate_or_cancel_def)
  have "engine_run ?b1 cbs b2" using r(2) by (simp add: add_result_def)
  then have ms: "stop_mset b2 = {#}" using engine_runD(2) ns(1) by fastforce
  have to: "tk_order t' = ord" "unreserved t'" using r(2) by (simp_all add: add_result_def)
  have fq: "filled_qty env t' = o_order_qty (env ord) - tk_open_qty t'"
    using to by (simp add: filled_qty_def)
  have sub: "submit_order env ?t ?b1 = Inr (cbs \<noteq> [], t', b2)"
    using r(1) by (simp add: submit_order_def)
  let ?b3 = "b2\<lparr>ob_callbacks := set_cb_quantity (length (ob_callbacks b)) (filled_qty env t') (ob_callbacks b2)\<rparr>"
  have e: "add_enter env ord conditions b = Inr (cbs \<noteq> [], ?b3)"
    using sub nt ns(2) by (simp add: add_enter_def Let_def)
  have ms3: "stop_mset ?b3 = {#}" using ms by simp
  have "submit_until_empty env ?b3 = Inr ?b3"
    using no_stops_pending [OF ms3] by (subst submit_until_empty.simps) simp
  then have a: "add_enqueue env ord conditions b = Inr (cbs \<noteq> [], push_callback Callback_book_update ?b3)"
    using e by (simp add: add_enqueue_enter [of env ord conditions b, OF qty])
  have cb: "ob_callbacks b2 = ob_callbacks b @ Callback_accept ord # c1 @ c2"
    using c(1) by (simp add: tells_def)
  show thesis
  proof (rule that [OF a])
    show "ob_callbacks (push_callback Callback_book_update ?b3) = ob_callbacks b @
       (Callback_accept ord)\<lparr>cb_quantity := o_order_qty (env ord) - tk_open_qty t'\<rparr> # c1 @ c2 @ [Callback_book_update]"
      unfolding fq by (simp add: cb set_cb_quantity_append)
    show "stop_mset (push_callback Callback_book_update ?b3) = {#}" using ms by simp
  qed (use c(2) nt in simp_all)
qed

lemma vals_erase:
  assumes "distinct (mm_ids m)" "n \<in> set m"
  shows "vals (mm_erase (nd_id n) m) = vals m - {#nd_val n#}"
proof -
  obtain a c where m: "m = a @ n # c" by (rule node_in_split [OF assms(2,1)])
  then show ?thesis using assms(1) by (simp add: mm_erase_Cons)
qed

lemma cancel_leaving:
  assumes "book_ok env b" "find_on_market env ord b = Some n"
  defines "b' \<equiv> cancel_enqueue env ord b" and "s \<equiv> o_is_buy (env ord)"
  shows "sides_of b' = both s (sides_of b s - {#nd_val n#}) (sides_of b (\<not> s))"
    "nd_val n \<in># sides_of b s" "tk_order (nd_val n) = ord" "stop_mset b' = stop_mset b"
    "ob_callbacks b' = ob_callbacks b @ [Callback_cancel ord (tk_open_qty (nd_val n)), Callback_book_update]"
proof -
  have n: "n \<in> set (own_side env ord b)" "tk_order (nd_val n) = ord"
    using find_on_market_Some [OF assms(2)] by auto
  have o: "open_qty (nd_val n) = tk_open_qty (nd_val n)"
    using found_live(1) [OF assms(1) n(1)] by (simp add: live_def)
  have d: "distinct (mm_ids (own_side env ord b))"
    using own_side_ok [OF assms(1), of ord] by (simp add: side_ok_def live_side_def)
  have e: "b' = push_callback Callback_book_update
      (push_callback (Callback_cancel ord (open_qty (nd_val n))) (erase_from_market s (nd_id n) b))"
    by (simp add: b'_def s_def cancel_enqueue_def assms(2) Let_def)
  have os: "vals (own_side env ord b) = sides_of b s"
    by (simp add: own_side_def sides_of_def s_def)
  show "nd_val n \<in># sides_of b s" "tk_order (nd_val n) = ord" unfolding os [symmetric] using n by auto
  show "sides_of b' = both s (sides_of b s - {#nd_val n#}) (sides_of b (\<not> s))"
    using vals_erase [OF d n(1)] by (auto simp: e sides_of_def own_side_def s_def both_def fun_eq_iff)
  show "stop_mset b' = stop_mset b" by (simp add: e)
  show "ob_callbacks b' = ob_callbacks b @ [Callback_cancel ord (tk_open_qty (nd_val n)), Callback_book_update]"
    by (simp add: e o)
qed

end
