(* ===== verification/Depth_Follows.thy ===== *)
theory Depth_Follows
  imports Depth_Aggregate Book_Trades
begin

text \<open>
  The depth follows the book: performed on a depth that shows the limit orders of two sides,
  the executions between the sides lead to a depth that shows what is left of them. Here the
  notifications act on the depth alone; \<open>Depth_Sync\<close> adds the books that perform them.
\<close>

section \<open>What a notification does to the depth\<close>

definition then_depth ::
  "(depth \<Rightarrow> unit depth_result) \<Rightarrow> (depth \<Rightarrow> unit depth_result) \<Rightarrow> depth \<Rightarrow> unit depth_result" where
  "then_depth f g d = (case f d of (Inl e, d1) \<Rightarrow> (Inl e, d1) | (Inr x, d1) \<Rightarrow> g d1)"

definition at_limit ::
  "order_env \<Rightarrow> order_ptr option \<Rightarrow> (order_view \<Rightarrow> depth \<Rightarrow> unit depth_result) \<Rightarrow> depth \<Rightarrow> unit depth_result" where
  "at_limit env ord f d =
     (case ord of
        None \<Rightarrow> (Inl Invalid_iterator, d)
      | Some i \<Rightarrow> if Order_is_limit (env i) then f (env i) d else (Inr (), d))"

definition depth_cb :: "order_env \<Rightarrow> callback \<Rightarrow> depth \<Rightarrow> unit depth_result" where
  "depth_cb env cb =
     (case cb_kind cb of
        cb_order_accept \<Rightarrow> at_limit env (cb_order cb) (\<lambda>v.
          if cb_quantity cb = o_order_qty v then ignore_fill_qty (cb_quantity cb) (o_is_buy v)
          else depth_add_order (o_price v) (o_order_qty v) (o_is_buy v))
      | cb_order_fill \<Rightarrow>
          then_depth
            (at_limit env (cb_matched_order cb) (\<lambda>v. fill_order (o_price v) (cb_quantity cb)
               (cb_flags cb AND (ff_matched_filled OR ff_both_filled) \<noteq> 0) (o_is_buy v)))
            (at_limit env (cb_order cb) (\<lambda>v. fill_order (o_price v) (cb_quantity cb)
               (cb_flags cb AND (ff_inbound_filled OR ff_both_filled) \<noteq> 0) (o_is_buy v)))
      | cb_order_cancel \<Rightarrow> at_limit env (cb_order cb) (\<lambda>v d.
          forget (depth_close_order (o_price v) (cb_quantity cb) (o_is_buy v) d))
      | cb_book_update \<Rightarrow> (\<lambda>d. (Inr (), if changed d then published d else d))
      | cb_order_replace \<Rightarrow> (\<lambda>d. (Inl Out_of_bounds, d))
      | _ \<Rightarrow> (\<lambda>d. (Inr (), d)))"

fun depth_run :: "order_env \<Rightarrow> callback list \<Rightarrow> depth \<Rightarrow> unit depth_result" where
  "depth_run env [] d = (Inr (), d)"
| "depth_run env (cb # cbs) d = then_depth (depth_cb env cb) (depth_run env cbs) d"

lemma depth_run_append:
  "depth_run env (a @ b) d = then_depth (depth_run env a) (depth_run env b) d"
  by (induction a arbitrary: d) (auto simp: then_depth_def split: prod.split sum.split)

lemma then_depth_Inr: "f d = (Inr (), d1) \<Longrightarrow> then_depth f g d = g d1"
  by (simp add: then_depth_def)

section \<open>What the depth shows of a side\<close>

definition quotes :: "order_env \<Rightarrow> tracker multiset \<Rightarrow> quote multiset" where
  "quotes env T = image_mset (\<lambda>t. (o_price (env (tk_order t)), tk_open_qty t))
     (filter_mset (\<lambda>t. Order_is_limit (env (tk_order t))) T)"

definition shown_levels :: "order_env \<Rightarrow> sides \<Rightarrow> two_sides" where
  "shown_levels env M s = levels_of s (quotes env (M s))"

definition sides_good :: "order_env \<Rightarrow> sides \<Rightarrow> bool" where
  "sides_good env M \<longleftrightarrow>
     (\<forall>s. (\<forall>t \<in># M s. tk_open_qty t \<noteq> 0 \<and> o_is_buy (env (tk_order t)) = s) \<and> trackers_qty (M s) < 2 ^ 32)"

lemma quotes_simps [simp]:
  "quotes env {#} = {#}" "quotes env (S + T) = quotes env S + quotes env T"
  "quotes env (add_mset t T) =
     (if Order_is_limit (env (tk_order t))
      then add_mset (o_price (env (tk_order t)), tk_open_qty t) (quotes env T) else quotes env T)"
  by (simp_all add: quotes_def)

lemma quotes_qty_le: "quotes_qty (quotes env T) \<le> trackers_qty T"
  by (induction T) (auto simp: quotes_qty_def)

lemma quotes_ok_side: "sides_good env M \<Longrightarrow> quotes_ok (quotes env (M s))"
  using quotes_qty_le [of env "M s"]
  by (fastforce simp: quotes_ok_def sides_good_def quotes_def Order_is_limit_def INVALID_LEVEL_PRICE_def
      MARKET_ORDER_PRICE_def intro: le_less_trans)

section \<open>Fills\<close>

lemma fill_one_side:
  assumes R: "depth_repr d f" and f: "f s = levels_of s (quotes env T)"
    and ok: "quotes_ok (quotes env T)" and t: "t \<in># T" "o_is_buy (env (tk_order t)) = s"
    and q: "q \<noteq> 0" "q \<le> tk_open_qty t" and i: "ignored_fill_qty s d = 0"
  shows "\<exists>d'. at_limit env (Some (tk_order t)) (\<lambda>v. fill_order (o_price v) q (tk_open_qty t = q) (o_is_buy v)) d =
       (Inr (), d') \<and> depth_repr d' (f(s := levels_of s (quotes env (settle_tk t q T)))) \<and> kept d' = kept d"
proof (cases "Order_is_limit (env (tk_order t))")
  case False
  have "quotes env (settle_tk t q T) = quotes env T"
    using t(1) False by (auto simp: settle_tk_def residual_def dest!: multi_member_split)
  then show ?thesis using R f False by (simp add: at_limit_def fun_upd_idem)
next
  case True
  let ?p = "o_price (env (tk_order t))"
  obtain T' where T: "T = add_mset t T'" using t(1) by (meson multi_member_split)
  have Q: "quotes env T = add_mset (?p, tk_open_qty t) (quotes env T')" using T True by simp
  have c: "can_close ?p q (f s)" unfolding f Q by (rule can_close_levels_of [OF ok [unfolded Q] q(2)])
  obtain d' where d': "fill_order ?p q (tk_open_qty t = q) s d = (Inr (), d')"
    "depth_repr d' (f(s := fill_level ?p q (tk_open_qty t = q) (f s)))" by (rule depth_fill_repr [OF R c i])
  have "fill_level ?p q (tk_open_qty t = q) (f s) = levels_of s (quotes env (settle_tk t q T))"
  proof (cases "tk_open_qty t = q")
    case full: True
    have "settle_tk t q T = T'" using T full by (simp add: settle_tk_def residual_def)
    then show ?thesis
      using close_level_levels_of [OF ok [unfolded Q], of s] full Q f by (simp add: fill_level_def)
  next
    case part: False
    have "settle_tk t q T = add_mset (take_qty q t) T'" using T part by (simp add: settle_tk_def residual_def)
    then show ?thesis
      using change_level_levels_of [of ?p "- q" s "tk_open_qty t" "quotes env T'"] part Q f True
      by (simp add: fill_level_def)
  qed
  moreover have "kept d' = kept d"
    using d'(1) i kept_close [of ?p q s d] kept_change [of ?p "- q" s d]
    by (auto simp: fill_order_def ignored_fill_qty_def forget_def split: if_splits prod.splits sum.splits)
  ultimately show ?thesis using d' True t(2) by (auto simp: at_limit_def)
qed

lemma fill_flags_filled:
  "(fill_flags_of i c q AND (ff_matched_filled OR ff_both_filled) \<noteq> 0) = (tk_open_qty c = q)"
  "(fill_flags_of i c q AND (ff_inbound_filled OR ff_both_filled) \<noteq> 0) = (tk_open_qty i = q)"
  by (simp_all add: fill_flags_of_def ff_defs)

lemma depth_cb_fill:
  "depth_cb env (Callback_fill (tk_order i) (tk_order c) q p (fill_flags_of i c q)) =
     then_depth
       (at_limit env (Some (tk_order c)) (\<lambda>v. fill_order (o_price v) q (tk_open_qty c = q) (o_is_buy v)))
       (at_limit env (Some (tk_order i)) (\<lambda>v. fill_order (o_price v) q (tk_open_qty i = q) (o_is_buy v)))"
  using fill_flags_filled [of i c q] by (simp add: depth_cb_def callback_defs)


section \<open>Trades between two sides\<close>

text \<open>The depth shows the limit orders of the two sides, and is to ignore nothing.\<close>

definition follows :: "order_env \<Rightarrow> sides \<Rightarrow> depth \<Rightarrow> bool" where
  "follows env M d \<longleftrightarrow> depth_repr d (shown_levels env M) \<and> (\<forall>s. ignored_fill_qty s d = 0)"

lemma settle_tk_mem:
  "t' \<in># settle_tk t q T \<Longrightarrow> t' \<in># T \<or> t' = take_qty q t \<and> tk_open_qty t' \<noteq> 0"
  by (auto simp: settle_tk_def residual_def split: if_splits dest: in_diffD)

lemma settle_tk_qty:
  assumes "t \<in># T" "q \<le> tk_open_qty t"
  shows "trackers_qty (settle_tk t q T) \<le> trackers_qty T"
proof -
  obtain T' where "T = add_mset t T'" using assms(1) by (meson multi_member_split)
  then show ?thesis
    using unat_take_qty [OF assms(2)] by (auto simp: settle_tk_def residual_def)
qed

lemma sides_good_both:
  "sides_good env (both s S T) \<longleftrightarrow>
     (\<forall>t \<in># S. tk_open_qty t \<noteq> 0 \<and> o_is_buy (env (tk_order t)) = s) \<and> trackers_qty S < 2 ^ 32 \<and>
     (\<forall>t \<in># T. tk_open_qty t \<noteq> 0 \<and> o_is_buy (env (tk_order t)) = (\<not> s)) \<and> trackers_qty T < 2 ^ 32"
  by (cases s) (auto simp: sides_good_def both_def all_bool_eq)

lemma sides_good_split: "sides_good env M \<longleftrightarrow> sides_good env (both s (M s) (M (\<not> s)))"
  by (simp add: both_eta)

lemma sides_good_settle:
  assumes "sides_good env M" "i \<in># M s" "c \<in># M (\<not> s)" "q \<le> tk_open_qty i" "q \<le> tk_open_qty c"
  shows "sides_good env (both s (settle_tk i q (M s)) (settle_tk c q (M (\<not> s))))"
proof -
  have g: "(\<forall>t' \<in># settle_tk t q (M x). tk_open_qty t' \<noteq> 0 \<and> o_is_buy (env (tk_order t')) = x) \<and>
      trackers_qty (settle_tk t q (M x)) < 2 ^ 32" if "t \<in># M x" "q \<le> tk_open_qty t" for t x
    using assms(1) that settle_tk_mem [of _ t q "M x"] settle_tk_qty [OF that]
    unfolding sides_good_def by fastforce
  show ?thesis using g [OF assms(2,4)] g [OF assms(3,5)] by (simp add: sides_good_both)
qed

lemma trades_good: "trades M cbs M' \<Longrightarrow> sides_good env M \<Longrightarrow> sides_good env M'"
  by (induction rule: trades.induct) (auto intro: sides_good_settle)

lemma shown_both:
  "shown_levels env (both s S T) =
     (\<lambda>x. if x = s then levels_of s (quotes env S) else levels_of (\<not> s) (quotes env T))"
  by (auto simp: shown_levels_def both_def fun_eq_iff)

lemma fill_follows:
  assumes F: "follows env M d" and G: "sides_good env M"
    and i: "i \<in># M s" "q \<le> tk_open_qty i" and c: "c \<in># M (\<not> s)" "q \<le> tk_open_qty c" and q: "q \<noteq> 0"
  shows "\<exists>d'. depth_cb env (Callback_fill (tk_order i) (tk_order c) q p (fill_flags_of i c q)) d = (Inr (), d') \<and>
    follows env (both s (settle_tk i q (M s)) (settle_tk c q (M (\<not> s)))) d' \<and> kept d' = kept d"
proof -
  let ?f = "shown_levels env M"
  have R: "depth_repr d ?f" and z: "ignored_fill_qty x d = 0" for x
    using F by (auto simp: follows_def)
  have dir: "o_is_buy (env (tk_order c)) = (\<not> s)" "o_is_buy (env (tk_order i)) = s"
    using G i c by (auto simp: sides_good_def)
  obtain d1 where d1: "at_limit env (Some (tk_order c)) (\<lambda>v. fill_order (o_price v) q (tk_open_qty c = q) (o_is_buy v)) d =
      (Inr (), d1)" "depth_repr d1 (?f(\<not> s := levels_of (\<not> s) (quotes env (settle_tk c q (M (\<not> s))))))"
    "kept d1 = kept d"
    using fill_one_side [OF R _ quotes_ok_side [OF G] c(1) dir(1) q c(2) z]
    by (auto simp: shown_levels_def)
  let ?g = "?f(\<not> s := levels_of (\<not> s) (quotes env (settle_tk c q (M (\<not> s)))))"
  have g: "?g s = levels_of s (quotes env (M s))" by (simp add: shown_levels_def)
  have z1: "ignored_fill_qty x d1 = 0" for x using z kept_ignored [OF d1(3)] by simp
  obtain d2 where d2: "at_limit env (Some (tk_order i)) (\<lambda>v. fill_order (o_price v) q (tk_open_qty i = q) (o_is_buy v)) d1 =
      (Inr (), d2)" "depth_repr d2 (?g(s := levels_of s (quotes env (settle_tk i q (M s)))))"
    "kept d2 = kept d1"
    using fill_one_side [OF d1(2) g quotes_ok_side [OF G] i(1) dir(2) q i(2) z1] by blast
  have "?g(s := levels_of s (quotes env (settle_tk i q (M s)))) =
      shown_levels env (both s (settle_tk i q (M s)) (settle_tk c q (M (\<not> s))))"
    by (auto simp: shown_both fun_eq_iff)
  moreover have "ignored_fill_qty x d2 = 0" for x using z1 kept_ignored [OF d2(3)] by simp
  ultimately show ?thesis
    using d1(1,3) d2 unfolding depth_cb_fill follows_def by (auto simp: then_depth_def)
qed

lemma trades_follow:
  "trades M cbs M' \<Longrightarrow> sides_good env M \<Longrightarrow> follows env M d \<Longrightarrow>
     \<exists>d'. depth_run env cbs d = (Inr (), d') \<and> follows env M' d' \<and> kept d' = kept d"
proof (induction rule: trades.induct)
  case (one M cbs M1 i s c q price)
  from one.IH [OF one.prems] obtain d1 where d1: "depth_run env cbs d = (Inr (), d1)"
    "follows env M1 d1" "kept d1 = kept d" by blast
  have G: "sides_good env M1" using trades_good [OF one(1) one.prems(1)] .
  obtain d2 where "depth_cb env (Callback_fill (tk_order i) (tk_order c) q price (fill_flags_of i c q)) d1 = (Inr (), d2)"
    "follows env (both s (settle_tk i q (M1 s)) (settle_tk c q (M1 (\<not> s)))) d2" "kept d2 = kept d1"
    using fill_follows [OF d1(2) G one(2,5,3,6,4)] by blast
  then show ?case using d1 by (auto simp: depth_run_append then_depth_def)
qed auto

section \<open>An order that is filled as it enters\<close>

text \<open>
  Such an order is not shown: the depth is told to ignore its quantity, and the executions
  bring the quantity to ignore back to zero.
\<close>

definition ignoring :: "order_env \<Rightarrow> bool \<Rightarrow> quantity \<Rightarrow> tracker multiset \<Rightarrow> tracker multiset \<Rightarrow> depth \<Rightarrow> bool" where
  "ignoring env s q S T d \<longleftrightarrow> depth_repr d (shown_levels env (both s S T)) \<and>
     ignored_fill_qty s d = q \<and> ignored_fill_qty (\<not> s) d = 0"

lemma ignored_fill:
  assumes F: "ignoring env s (tk_open_qty i) S T d" and G: "sides_good env (both s S T)"
    and lim: "Order_is_limit (env (tk_order i))" "o_is_buy (env (tk_order i)) = s" "q \<le> tk_open_qty i"
    and c: "c \<in># T" "q \<le> tk_open_qty c" and q: "q \<noteq> 0"
  shows "\<exists>d'. depth_cb env (Callback_fill (tk_order i) (tk_order c) q p (fill_flags_of i c q)) d = (Inr (), d') \<and>
    ignoring env s (tk_open_qty (take_qty q i)) S (settle_tk c q T) d'"
proof -
  let ?f = "shown_levels env (both s S T)"
  have R: "depth_repr d ?f" and z: "ignored_fill_qty (\<not> s) d = 0" "ignored_fill_qty s d = tk_open_qty i"
    using F by (auto simp: ignoring_def)
  have dir: "o_is_buy (env (tk_order c)) = (\<not> s)" using G c by (auto simp: sides_good_both)
  have ok: "quotes_ok (quotes env T)" using quotes_ok_side [OF G, of "\<not> s"] by simp
  have f: "?f (\<not> s) = levels_of (\<not> s) (quotes env T)" by (simp add: shown_both)
  obtain d1 where d1: "at_limit env (Some (tk_order c)) (\<lambda>v. fill_order (o_price v) q (tk_open_qty c = q) (o_is_buy v)) d =
      (Inr (), d1)" "depth_repr d1 (?f(\<not> s := levels_of (\<not> s) (quotes env (settle_tk c q T))))"
    "kept d1 = kept d"
    using fill_one_side [OF R f ok c(1) dir q c(2) z(1)] by blast
  have e: "?f(\<not> s := levels_of (\<not> s) (quotes env (settle_tk c q T))) = shown_levels env (both s S (settle_tk c q T))"
    by (auto simp: shown_both fun_eq_iff)
  have z1: "ignored_fill_qty s d1 = tk_open_qty i" "ignored_fill_qty (\<not> s) d1 = 0"
    using z kept_ignored [OF d1(3)] by auto
  have "ignored_fill_qty s d1 \<noteq> 0" using z1(1) q lim(3) by auto
  then obtain d2 where d2: "fill_order (o_price (env (tk_order i))) q (tk_open_qty i = q) s d1 = (Inr (), d2)"
    "depth_repr d2 (shown_levels env (both s S (settle_tk c q T)))" "ignored_fill_qty s d2 = tk_open_qty i - q"
    "ignored_fill_qty (\<not> s) d2 = 0"
  proof -
    assume nz: "ignored_fill_qty s d1 \<noteq> 0"
    have r: "depth_repr d1 (shown_levels env (both s S (settle_tk c q T)))" using d1(2) unfolding e .
    show thesis
      using nz r z1 that by (cases s) (auto simp: fill_order_def ignored_fill_qty_def)
  qed
  have "at_limit env (Some (tk_order i)) (\<lambda>v. fill_order (o_price v) q (tk_open_qty i = q) (o_is_buy v)) d1 = (Inr (), d2)"
    using d2(1) lim by (simp add: at_limit_def)
  then show ?thesis
    using d1(1) d2(2-4) unfolding depth_cb_fill ignoring_def by (simp add: then_depth_def)
qed

lemma fills_ignored:
  "fills i m cbs i' m' \<Longrightarrow> live_side m \<Longrightarrow> sides_good env (both s S (vals m)) \<Longrightarrow>
     Order_is_limit (env (tk_order i)) \<Longrightarrow> o_is_buy (env (tk_order i)) = s \<Longrightarrow>
     ignoring env s (tk_open_qty i) S (vals m) d \<Longrightarrow>
     \<exists>d'. depth_run env cbs d = (Inr (), d') \<and> ignoring env s (tk_open_qty i') S (vals m') d' \<and>
       sides_good env (both s S (vals m'))"
proof (induction rule: fills.induct)
  case (one i m cbs i1 m1 n q price)
  from one.IH [OF one.prems] obtain d1 where d1: "depth_run env cbs d = (Inr (), d1)"
    "ignoring env s (tk_open_qty i1) S (vals m1) d1" "sides_good env (both s S (vals m1))" by blast
  have i1: "tk_order i1 = tk_order i" using fills_inbound [OF one(1)] by blast
  have l1: "live_side m1" using fills_live [OF one(1) one.prems(1)] by blast
  have c: "nd_val n \<in># vals m1" using one(2) by auto
  obtain d2 where d2: "depth_cb env (Callback_fill (tk_order i1) (tk_order (nd_val n)) q price
      (fill_flags_of i1 (nd_val n) q)) d1 = (Inr (), d2)"
    "ignoring env s (tk_open_qty (take_qty q i1)) S (settle_tk (nd_val n) q (vals m1)) d2"
    using ignored_fill [OF d1(2,3) _ _ one(4) c one(5,3)] one.prems(3,4) i1 by auto
  have v: "vals (settle (nd_id n) q m1) = settle_tk (nd_val n) q (vals m1)"
    by (rule settle_vals [OF l1 one(2)])
  have "sides_good env (both s S (settle_tk (nd_val n) q (vals m1)))"
    using d1(3) c settle_tk_mem [of _ "nd_val n" q "vals m1"] settle_tk_qty [OF c one(5)]
    unfolding sides_good_both by fastforce
  then show ?case using d1(1) d2 by (auto simp: depth_run_append then_depth_def v)
qed auto


section \<open>Entering and leaving\<close>

lemma follows_update: "follows env M (if changed d then published d else d) = follows env M d"
  by (auto simp: follows_def published_def ignored_fill_qty_def)

lemma depth_run_update:
  "depth_run env [Callback_book_update] d = (Inr (), if changed d then published d else d)"
  by (simp add: then_depth_def depth_cb_def callback_defs)

lemma depth_cb_accept:
  "depth_cb env ((Callback_accept ord)\<lparr>cb_quantity := q\<rparr>) =
     at_limit env (Some ord) (\<lambda>v. if q = o_order_qty v then ignore_fill_qty q (o_is_buy v)
       else depth_add_order (o_price v) (o_order_qty v) (o_is_buy v))"
  by (auto simp: depth_cb_def callback_defs at_limit_def fun_eq_iff)

lemma add_follows_counted:
  assumes F: "follows env M d" and p: "Order_is_limit (env (tk_order t))"
    "o_is_buy (env (tk_order t)) = s" "q = tk_open_qty t"
  shows "\<exists>d'. depth_add_order (o_price (env (tk_order t))) q s d = (Inr (), d') \<and>
    follows env (both s (add_mset t (M s)) (M (\<not> s))) d'"
proof -
  let ?p = "o_price (env (tk_order t))"
  have R: "depth_repr d (shown_levels env M)" using F by (simp add: follows_def)
  have "?p \<noteq> INVALID_LEVEL_PRICE"
    using p(1) by (auto simp: Order_is_limit_def INVALID_LEVEL_PRICE_def MARKET_ORDER_PRICE_def)
  then obtain d' where d': "depth_add_order ?p q s d = (Inr (), d')"
    "depth_repr d' ((shown_levels env M)(s := add_level s ?p q (shown_levels env M s)))"
    using depth_add_repr [OF R] by metis
  have "(shown_levels env M)(s := add_level s ?p q (shown_levels env M s)) =
      shown_levels env (both s (add_mset t (M s)) (M (\<not> s)))"
    using p by (auto simp: shown_levels_def add_level_levels_of fun_eq_iff both_def)
  moreover have "kept d' = kept d" using kept_add [of ?p q s d] d'(1) by simp
  ultimately show ?thesis using d' F kept_ignored unfolding follows_def by metis
qed

lemma enter_follows:
  assumes E: "entering buy inb M c1 c2 inb' M'" and t: "inb = OrderTracker env ord conditions"
    and ni: "\<not> immediate_or_cancel inb'" and qty: "o_order_qty (env ord) \<noteq> 0"
    and dir: "o_is_buy (env ord) = buy"
    and G: "sides_good env (both buy (add_mset inb (M buy)) (M (\<not> buy)))" and F: "follows env M d"
  shows "\<exists>d'. depth_run env ((Callback_accept ord)\<lparr>cb_quantity := o_order_qty (env ord) - tk_open_qty inb'\<rparr> #
      c1 @ c2 @ [Callback_book_update]) d = (Inr (), d') \<and> follows env M' d'"
proof -
  let ?acc = "(Callback_accept ord)\<lparr>cb_quantity := o_order_qty (env ord) - tk_open_qty inb'\<rparr>"
  obtain m X where m: "live_side m" "vals m = M (\<not> buy)" "fills inb m c1 inb' X"
    and rest: "if tk_open_qty inb' = 0 then c2 = [] \<and> M' = both buy (M buy) (vals X)
      else trades (both buy (add_mset inb' (M buy)) (vals X)) c2 M'"
    using E ni unfolding entering_def by auto
  have o: "tk_order inb = ord" "tk_open_qty inb = o_order_qty (env ord)" using t by simp_all
  have all: "follows env M' (if changed d2 then published d2 else d2) = follows env M' d2" for d2
    by (rule follows_update)
  show ?thesis
  proof (cases "Order_is_limit (env ord) \<and> tk_open_qty inb' = 0")
    case True
    let ?d0 = "snd (ignore_fill_qty (o_order_qty (env ord)) buy d)"
    have z: "ignored_fill_qty s d = 0" for s using F by (simp add: follows_def)
    have acc: "depth_cb env ?acc d = (Inr (), ?d0)"
      using True dir z [of buy]
      by (cases buy) (simp_all add: depth_cb_accept at_limit_def ignore_fill_qty_def ignored_fill_qty_def)
    have M: "both buy (M buy) (vals m) = M" by (simp add: m(2) both_eta)
    have R: "depth_repr d (shown_levels env M)" using F by (simp add: follows_def)
    have "ignoring env buy (tk_open_qty inb) (M buy) (vals m) ?d0"
      using R z [of True] z [of False] o unfolding ignoring_def M
      by (cases buy) (simp_all add: ignore_fill_qty_def ignored_fill_qty_def)
    moreover have "sides_good env (both buy (M buy) (vals m))"
      using G m(2) by (simp add: sides_good_both)
    ultimately obtain d1 where "depth_run env c1 ?d0 = (Inr (), d1)"
      "ignoring env buy (tk_open_qty inb') (M buy) (vals X) d1"
      using fills_ignored [OF m(3,1), of env buy "M buy" ?d0] True o dir by auto
    moreover have "follows env M' d1"
    proof -
      have i: "ignoring env buy (tk_open_qty inb') (M buy) (vals X) d1" by fact
      then have "ignored_fill_qty s d1 = 0" for s
        using True by (cases "s = buy") (auto simp: ignoring_def)
      then show ?thesis using i True rest by (simp add: follows_def ignoring_def)
    qed
    ultimately show ?thesis
      using acc rest True all
      by (auto simp: depth_run_append depth_run_update then_depth_def simp del: depth_run.simps(2))
        (simp add: then_depth_def depth_run_append depth_cb_def callback_defs)
  next
    case False
    have r: "residual inb = {#inb#}" using o qty by (simp add: residual_def)
    have "\<exists>d1. depth_cb env ?acc d = (Inr (), d1) \<and> follows env (both buy (add_mset inb (M buy)) (M (\<not> buy))) d1"
    proof (cases "Order_is_limit (env ord)")
      case lim: True
      then have "o_order_qty (env ord) - tk_open_qty inb' \<noteq> o_order_qty (env ord)" using False by simp
      then show ?thesis
        using add_follows_counted [OF F, of inb buy] lim o dir by (simp add: depth_cb_accept at_limit_def)
    next
      case mkt: False
      have "shown_levels env (both buy (add_mset inb (M buy)) (M (\<not> buy))) = shown_levels env M"
        using mkt o by (auto simp: shown_levels_def both_def fun_eq_iff)
      then show ?thesis using F mkt by (simp add: depth_cb_accept at_limit_def follows_def)
    qed
    then obtain d1 where d1: "depth_cb env ?acc d = (Inr (), d1)"
      "follows env (both buy (add_mset inb (M buy)) (M (\<not> buy))) d1" by blast
    have t1: "trades (both buy (add_mset inb (M buy)) (M (\<not> buy))) c1 (both buy (M buy + residual inb') (vals X))"
      using fills_trades [OF m(3,1), of buy "M buy"] r m(2) by simp
    have "trades (both buy (M buy + residual inb') (vals X)) c2 M'"
      using rest by (auto simp: residual_def intro: trades.none split: if_splits)
    then have "trades (both buy (add_mset inb (M buy)) (M (\<not> buy))) (c1 @ c2) M'"
      using t1 by (rule trades_trans)
    then obtain d2 where "depth_run env (c1 @ c2) d1 = (Inr (), d2)" "follows env M' d2"
      using trades_follow [OF _ G d1(2)] by blast
    then have "depth_run env (?acc # (c1 @ c2) @ [Callback_book_update]) d =
        (Inr (), if changed d2 then published d2 else d2)"
      using d1(1) depth_run_update by (simp only: depth_run.simps(2) then_depth_def depth_run_append) simp
    then show ?thesis using all \<open>follows env M' d2\<close> by auto
  qed
qed

lemma leave_follows:
  assumes F: "follows env M d" and G: "sides_good env M" and t: "t \<in># M s"
  shows "\<exists>d'. depth_run env [Callback_cancel (tk_order t) (tk_open_qty t), Callback_book_update] d = (Inr (), d') \<and>
    follows env (both s (M s - {#t#}) (M (\<not> s))) d'"
proof -
  let ?v = "env (tk_order t)" and ?M = "both s (M s - {#t#}) (M (\<not> s))"
  obtain T where T: "M s = add_mset t T" using t by (meson multi_member_split)
  have dir: "o_is_buy ?v = s" using G t by (simp add: sides_good_def)
  have "\<exists>d1. depth_cb env (Callback_cancel (tk_order t) (tk_open_qty t)) d = (Inr (), d1) \<and> follows env ?M d1"
  proof (cases "Order_is_limit ?v")
    case False
    then have "shown_levels env ?M = shown_levels env M"
      using T by (auto simp: shown_levels_def both_def fun_eq_iff)
    then show ?thesis using F False by (simp add: depth_cb_def callback_defs at_limit_def follows_def)
  next
    case True
    let ?f = "shown_levels env M"
    have R: "depth_repr d ?f" using F by (simp add: follows_def)
    have Q: "quotes env (M s) = add_mset (o_price ?v, tk_open_qty t) (quotes env T)" using T True by simp
    note ok = quotes_ok_side [OF G, of s, unfolded Q]
    have "can_close (o_price ?v) (tk_open_qty t) (?f s)"
      unfolding shown_levels_def Q by (rule can_close_levels_of [OF ok order_refl])
    then obtain e d' where d': "depth_close_order (o_price ?v) (tk_open_qty t) s d = (Inr e, d')"
      "depth_repr d' (?f(s := close_level (o_price ?v) (tk_open_qty t) (?f s)))"
      by (rule depth_close_repr [OF R])
    have "?f(s := close_level (o_price ?v) (tk_open_qty t) (?f s)) = shown_levels env ?M"
      using close_level_levels_of [OF ok, of s] T True
      by (auto simp: shown_levels_def both_def fun_eq_iff Q)
    moreover have "kept d' = kept d" using kept_close [of "o_price ?v" "tk_open_qty t" s d] d'(1) by simp
    ultimately have "follows env ?M d'" using d'(2) F kept_ignored unfolding follows_def by metis
    then show ?thesis using d'(1) True dir by (simp add: depth_cb_def callback_defs at_limit_def forget_def)
  qed
  then obtain d1 where d1: "depth_cb env (Callback_cancel (tk_order t) (tk_open_qty t)) d = (Inr (), d1)"
    "follows env ?M d1" by blast
  then show ?thesis
    using depth_run_update [of env d1] follows_update [of env ?M d1]
    by (simp only: depth_run.simps(2) then_depth_def) simp
qed

end
