(* ===== verification/Depth_Sync.thy ===== *)
theory Depth_Sync
  imports Depth_Follows Simple_Order_Book
begin

text \<open>
  The books that keep a depth: performing the notifications of a call brings the depth in step
  with the book. The interface is the locale \<open>depth_follower\<close>; \<^verbatim>\<open>DepthOrderBook\<close> and
  \<^verbatim>\<open>SimpleOrderBook\<close> provide it.
\<close>

section \<open>In step\<close>

text \<open>
  Between calls: the book is well-formed and holds no stop orders, nothing is left to notify,
  and the depth shows exactly the limit orders of the book.
\<close>

definition in_step :: "('w depth_book_scheme \<Rightarrow> order_env) \<Rightarrow> 'w depth_book_scheme system \<Rightarrow> bool" where
  "in_step view s \<longleftrightarrow>
     (let env = view (sys_world s); b = sys_book s
      in book_ok env b \<and> keyed_book env b \<and> book_qty b < 2 ^ 32 \<and> stop_mset b = {#} \<and>
         ob_callbacks b = [] \<and> ob_workingCallbacks b = [] \<and> \<not> ob_handling_callbacks b \<and>
         follows env (sides_of b) (db_depth (sys_world s)))"

lemma trackers_qty_vals [simp]: "trackers_qty (vals m) = side_qty m"
  by (induction m) auto

lemma book_sides_good:
  assumes "book_ok env b" "book_qty b < 2 ^ 32"
  shows "sides_good env (sides_of b)"
proof -
  have "sides_good env (both True (vals (ob_bids b)) (vals (ob_asks b)))"
    using assms unfolding sides_good_both
    by (auto simp: book_ok_def side_ok_def live_side_def live_def book_qty_def)
  then show ?thesis by (simp add: sides_of_both(1))
qed

lemma entered_sides_good:
  assumes "book_ok env b" "book_qty b + unat (tk_open_qty t) < 2 ^ 32" "tk_open_qty t \<noteq> 0"
    "o_is_buy (env (tk_order t)) = s"
  shows "sides_good env (both s (add_mset t (sides_of b s)) (sides_of b (\<not> s)))"
proof -
  have "sides_good env (both s (sides_of b s) (sides_of b (\<not> s)))"
    using book_sides_good [OF assms(1)] assms(2) by (simp add: both_eta)
  moreover have "trackers_qty (sides_of b s) \<le> book_qty b"
    by (cases s) (simp_all add: sides_of_def book_qty_def)
  ultimately show ?thesis using assms(2-4) by (simp add: sides_good_both)
qed

text \<open>What a cancel request tells, and the sides it leaves.\<close>

definition cancels :: "order_env \<Rightarrow> order_ptr \<Rightarrow> sides \<Rightarrow> callback list \<Rightarrow> sides \<Rightarrow> bool" where
  "cancels env ord M cbs M' \<longleftrightarrow>
     cbs = [Callback_cancel_reject ord ''not found''] \<and> M' = M \<or>
     (\<exists>s t. t \<in># M s \<and> cbs = [Callback_cancel (tk_order t) (tk_open_qty t), Callback_book_update] \<and>
        M' = both s (M s - {#t#}) (M (\<not> s)))"

section \<open>The interface\<close>

locale depth_follower = quiet_callbacks perform
  for perform :: "callback \<Rightarrow> 'w depth_book_scheme system effect" +
  fixes view :: "'w depth_book_scheme \<Rightarrow> order_env"
  assumes performs: "depth_cb (view (sys_world s)) cb (db_depth (sys_world s)) = (Inr (), d) \<Longrightarrow>
    \<exists>s'. perform cb s = (None, s') \<and> db_depth (sys_world s') = d \<and>
      view (sys_world s') = view (sys_world s) \<and> sys_log s' = sys_log s"
begin

lemma run_follows:
  "depth_run (view (sys_world s)) cbs (db_depth (sys_world s)) = (Inr (), d) \<Longrightarrow>
     db_depth (sys_world (run_callbacks perform cbs s)) = d \<and>
     view (sys_world (run_callbacks perform cbs s)) = view (sys_world s) \<and>
     sys_log (run_callbacks perform cbs s) = sys_log s"
proof (induction cbs arbitrary: s)
  case (Cons cb cbs)
  then obtain d1 where d1: "depth_cb (view (sys_world s)) cb (db_depth (sys_world s)) = (Inr (), d1)"
    "depth_run (view (sys_world s)) cbs d1 = (Inr (), d)"
    by (auto simp: then_depth_def split: prod.splits sum.splits)
  obtain s1 where s1: "perform cb s = (None, s1)" "db_depth (sys_world s1) = d1"
    "view (sys_world s1) = view (sys_world s)" "sys_log s1 = sys_log s"
    using performs [OF d1(1)] by blast
  have "depth_run (view (sys_world s1)) cbs (db_depth (sys_world s1)) = (Inr (), d)"
    using d1(2) s1 by simp
  from Cons.IH [OF this] show ?case using s1 by (simp add: perform_logged_def)
qed simp

text \<open>The world after a call is the one its notifications lead to.\<close>

definition runs :: "callback list \<Rightarrow> 'w depth_book_scheme system \<Rightarrow> 'w depth_book_scheme system \<Rightarrow> bool" where
  "runs cbs s s' \<longleftrightarrow> (\<exists>b. sys_world s' = sys_world (run_callbacks perform cbs (s\<lparr>sys_book := b\<rparr>)))"

lemma finish_follows:
  assumes s: "\<not> ob_handling_callbacks b" "ob_workingCallbacks b = []"
    and r: "depth_run (view (sys_world s)) (ob_callbacks b) (db_depth (sys_world s)) = (Inr (), d)"
  obtains s' where "finish_call perform x True b s = Some (Inr (x, s'))" "sys_book s' = b\<lparr>ob_callbacks := []\<rparr>"
    "db_depth (sys_world s') = d" "view (sys_world s') = view (sys_world s)" "sys_log s' = sys_log s"
    "runs (ob_callbacks b) s s'"
proof -
  let ?s = "s\<lparr>sys_book := b\<rparr>"
  let ?start = "?s\<lparr>sys_book := b\<lparr>ob_handling_callbacks := True, ob_workingCallbacks := ob_callbacks b,
      ob_callbacks := []\<rparr>\<rparr>"
  let ?final = "(run_callbacks perform (ob_callbacks b) ?start)\<lparr>sys_book := b\<lparr>ob_callbacks := []\<rparr>\<rparr>"
  have e: "callback_now perform ?s = Some (if ob_callbacks b = [] then ?s else ?final)"
    using now_runs [of ?s] s by simp
  show thesis
  proof (cases "ob_callbacks b = []")
    case True
    moreover have "b\<lparr>ob_callbacks := []\<rparr> = b" using True by (cases b) simp
    ultimately show thesis using e r by (intro that [of ?s]) (auto simp: finish_call_def runs_def)
  next
    case False
    have "depth_run (view (sys_world ?start)) (ob_callbacks b) (db_depth (sys_world ?start)) = (Inr (), d)"
      using r by simp
    from run_follows [OF this] show thesis
      using e False by (intro that [of ?final]) (auto simp: finish_call_def runs_def)
  qed
qed

lemma add_runs:
  fixes s :: "'w depth_book_scheme system"
  assumes I: "in_step view s"
  defines "env \<equiv> view (sys_world s)"
  assumes qty: "o_order_qty (env ord) \<noteq> 0" "o_stop_price (env ord) = 0"
    and pr: "ob_marketPrice (sys_book s) \<noteq> 0 \<or> o_price (env ord) \<noteq> 0"
    and q: "book_qty (sys_book s) + unat (o_order_qty (env ord)) < 2 ^ 32"
    and ni: "conditions AND oc_immediate_or_cancel = 0"
  obtains matched s' c1 c2 inb' where "book_add view perform ord conditions s = Some (Inr (matched, s'))"
    "in_step view s'" "sys_log s' = sys_log s" "view (sys_world s') = env"
    "entering (o_is_buy (env ord)) (OrderTracker env ord conditions) (sides_of (sys_book s)) c1 c2 inb'
       (sides_of (sys_book s'))" "\<not> immediate_or_cancel inb'"
    "runs ((Callback_accept ord)\<lparr>cb_quantity := o_order_qty (env ord) - tk_open_qty inb'\<rparr> #
       c1 @ c2 @ [Callback_book_update]) s s'"
    "depth_run env ((Callback_accept ord)\<lparr>cb_quantity := o_order_qty (env ord) - tk_open_qty inb'\<rparr> #
       c1 @ c2 @ [Callback_book_update]) (db_depth (sys_world s)) = (Inr (), db_depth (sys_world s'))"
proof -
  let ?b = "sys_book s" and ?t = "OrderTracker env ord conditions"
  have B: "book_ok env ?b" "keyed_book env ?b" and ms: "stop_mset ?b = {#}"
    and cb: "ob_callbacks ?b = []" "ob_workingCallbacks ?b = []" "\<not> ob_handling_callbacks ?b"
    and F: "follows env (sides_of ?b) (db_depth (sys_world s))"
    using I by (simp_all add: in_step_def env_def Let_def)
  obtain matched b' c1 c2 inb' where A: "add_enqueue env ord conditions ?b = Inr (matched, b')"
    "ob_callbacks b' = ob_callbacks ?b @
       (Callback_accept ord)\<lparr>cb_quantity := o_order_qty (env ord) - tk_open_qty inb'\<rparr> # c1 @ c2 @ [Callback_book_update]"
    "entering (o_is_buy (env ord)) ?t (sides_of ?b) c1 c2 inb' (sides_of b')"
    "\<not> immediate_or_cancel inb'" "stop_mset b' = {#}"
    by (rule add_enqueue_entering [OF B(1) qty(1) pr q ms qty(2) ni])
  obtain cbs d where R: "added env ord conditions ?b cbs d b'"
    using add_enqueue_ok [OF B(1) qty(1) pr q, of conditions] A(1) by auto
  have G: "sides_good env (both (o_is_buy (env ord)) (add_mset ?t (sides_of ?b (o_is_buy (env ord))))
      (sides_of ?b (\<not> o_is_buy (env ord))))"
    using q qty(1) by (intro entered_sides_good [OF B(1)]) simp_all
  obtain d' where d': "depth_run env ((Callback_accept ord)\<lparr>cb_quantity := o_order_qty (env ord) - tk_open_qty inb'\<rparr> #
      c1 @ c2 @ [Callback_book_update]) (db_depth (sys_world s)) = (Inr (), d')" "follows env (sides_of b') d'"
    using enter_follows [OF A(3) refl A(4) qty(1) refl G F] by blast
  have sr: "same_rest ?b b'" using R by (simp add: added_def)
  then have w: "\<not> ob_handling_callbacks b'" "ob_workingCallbacks b' = []"
    using cb by (simp_all add: same_rest_def)
  have run: "depth_run (view (sys_world s)) (ob_callbacks b') (db_depth (sys_world s)) = (Inr (), d')"
    using d'(1) A(2) cb(1) by (simp add: env_def)
  obtain s' where s': "finish_call perform matched True b' s = Some (Inr (matched, s'))"
    "sys_book s' = b'\<lparr>ob_callbacks := []\<rparr>" "db_depth (sys_world s') = d'"
    "view (sys_world s') = env" "sys_log s' = sys_log s"
    "runs (ob_callbacks b') s s'"
    unfolding env_def by (rule finish_follows [OF w run])
  have "book_ok env b'" "keyed_book env b'" "book_qty b' < 2 ^ 32"
    using R B(2) q by (auto simp: added_def)
  then have "in_step view s'"
    using s' d'(2) A(5) w by (simp add: in_step_def Let_def)
  moreover have "book_add view perform ord conditions s = Some (Inr (matched, s'))"
    using A(1) s'(1) by (simp add: book_add_def env_def)
  moreover have "runs ((Callback_accept ord)\<lparr>cb_quantity := o_order_qty (env ord) - tk_open_qty inb'\<rparr> #
       c1 @ c2 @ [Callback_book_update]) s s'"
    using s'(6) A(2) cb(1) by simp
  moreover have "entering (o_is_buy (env ord)) (OrderTracker env ord conditions) (sides_of (sys_book s)) c1 c2 inb'
       (sides_of (sys_book s'))"
    using A(3) s'(2) by simp
  ultimately show thesis
    using that [of matched s' c1 c2 inb'] A(4) s'(4,5) d'(1) [folded s'(3)] by blast
qed

lemma add_in_step:
  fixes s :: "'w depth_book_scheme system"
  assumes "in_step view s"
  defines "env \<equiv> view (sys_world s)"
  assumes "o_order_qty (env ord) \<noteq> 0" "o_stop_price (env ord) = 0"
    "ob_marketPrice (sys_book s) \<noteq> 0 \<or> o_price (env ord) \<noteq> 0"
    "book_qty (sys_book s) + unat (o_order_qty (env ord)) < 2 ^ 32"
    "conditions AND oc_immediate_or_cancel = 0"
  shows "\<exists>matched s'. book_add view perform ord conditions s = Some (Inr (matched, s')) \<and>
    in_step view s' \<and> sys_log s' = sys_log s"
  by (rule add_runs [of s ord conditions]) (use assms in \<open>auto simp: env_def\<close>)

lemma cancel_runs:
  fixes s :: "'w depth_book_scheme system"
  assumes I: "in_step view s"
  obtains s' cbs where "book_cancel view perform ord s = Some (Inr ((), s'))" "in_step view s'"
    "sys_log s' = sys_log s" "view (sys_world s') = view (sys_world s)"
    "cancels (view (sys_world s)) ord (sides_of (sys_book s)) cbs (sides_of (sys_book s'))" "runs cbs s s'"
    "depth_run (view (sys_world s)) cbs (db_depth (sys_world s)) = (Inr (), db_depth (sys_world s'))"
proof -
  let ?b = "sys_book s" and ?env = "view (sys_world s)"
  let ?b' = "cancel_enqueue ?env ord ?b"
  have B: "book_ok ?env ?b" "keyed_book ?env ?b" "book_qty ?b < 2 ^ 32" and ms: "stop_mset ?b = {#}"
    and cb: "ob_callbacks ?b = []" "ob_workingCallbacks ?b = []" "\<not> ob_handling_callbacks ?b"
    and F: "follows ?env (sides_of ?b) (db_depth (sys_world s))"
    using I by (simp_all add: in_step_def Let_def)
  have "\<exists>d'. depth_run ?env (ob_callbacks ?b') (db_depth (sys_world s)) = (Inr (), d') \<and>
      follows ?env (sides_of ?b') d' \<and> book_ok ?env ?b' \<and> keyed_book ?env ?b' \<and> book_qty ?b' < 2 ^ 32 \<and>
      stop_mset ?b' = {#} \<and> same_rest ?b ?b' \<and> cancels ?env ord (sides_of ?b) (ob_callbacks ?b') (sides_of ?b')"
  proof (cases "find_on_market ?env ord ?b")
    case None
    then have b': "?b' = push_callback (Callback_cancel_reject ord ''not found'') ?b"
      by (simp add: cancel_enqueue_def)
    have "depth_cb ?env (Callback_cancel_reject ord ''not found'') d = (Inr (), d)" for d
      by (simp add: depth_cb_def callback_defs)
    then have "depth_run ?env (ob_callbacks ?b') (db_depth (sys_world s)) = (Inr (), db_depth (sys_world s))"
      using cb by (simp add: b' then_depth_def)
    moreover have "cancels ?env ord (sides_of ?b) (ob_callbacks ?b') (sides_of ?b')"
      using cb by (simp add: b' cancels_def)
    ultimately show ?thesis using B ms F unfolding b' by (intro exI [of _ "db_depth (sys_world s)"]) simp
  next
    case (Some n)
    note L = cancel_leaving [OF B(1) Some]
    obtain d' where d': "depth_run ?env [Callback_cancel (tk_order (nd_val n)) (tk_open_qty (nd_val n)),
        Callback_book_update] (db_depth (sys_world s)) = (Inr (), d')"
      "follows ?env (both (o_is_buy (?env ord)) (sides_of ?b (o_is_buy (?env ord)) - {#nd_val n#})
        (sides_of ?b (\<not> o_is_buy (?env ord)))) d'"
      using leave_follows [OF F book_sides_good [OF B(1,3)] L(2)] by blast
    have "keyed_book ?env ?b'"
      using erase_from_market_keeps(1) [OF B(2)] by (simp add: cancel_enqueue_def Some Let_def)
    moreover have "cancels ?env ord (sides_of ?b) (ob_callbacks ?b') (sides_of ?b')"
      using L cb(1) unfolding cancels_def
      by (intro disjI2 exI [of _ "o_is_buy (?env ord)"] exI [of _ "nd_val n"]) simp
    ultimately show ?thesis
      using d' L cancel_found_ok [OF B(1) Some] cb(1) ms B(3) by (intro exI [of _ d']) auto
  qed
  then obtain d' where d': "depth_run ?env (ob_callbacks ?b') (db_depth (sys_world s)) = (Inr (), d')"
    "follows ?env (sides_of ?b') d'" "book_ok ?env ?b'" "keyed_book ?env ?b'" "book_qty ?b' < 2 ^ 32"
    "stop_mset ?b' = {#}" "same_rest ?b ?b'" "cancels ?env ord (sides_of ?b) (ob_callbacks ?b') (sides_of ?b')"
    by blast
  have w: "\<not> ob_handling_callbacks ?b'" "ob_workingCallbacks ?b' = []"
    using d'(7) cb by (simp_all add: same_rest_def)
  obtain s' where s': "finish_call perform () True ?b' s = Some (Inr ((), s'))"
    "sys_book s' = ?b'\<lparr>ob_callbacks := []\<rparr>" "db_depth (sys_world s') = d'"
    "view (sys_world s') = ?env" "sys_log s' = sys_log s" "runs (ob_callbacks ?b') s s'"
    by (rule finish_follows [OF w d'(1)])
  then have "in_step view s'" using d' w by (simp add: in_step_def Let_def)
  moreover have "book_cancel view perform ord s = Some (Inr ((), s'))"
    using s'(1) by (simp add: book_cancel_def)
  moreover have "cancels ?env ord (sides_of ?b) (ob_callbacks ?b') (sides_of (sys_book s'))"
    using d'(8) s'(2) by simp
  ultimately show thesis using that s'(4-6) d'(1) [folded s'(3)] by blast
qed

lemma cancel_in_step:
  fixes s :: "'w depth_book_scheme system"
  assumes "in_step view s"
  shows "\<exists>s'. book_cancel view perform ord s = Some (Inr ((), s')) \<and> in_step view s' \<and> sys_log s' = sys_log s"
  by (rule cancel_runs [OF assms, of ord]) auto

end

section \<open>The two books provide it\<close>

lemma on_depth_Inr:
  "op (db_depth (sys_world s)) = (Inr x, d) \<Longrightarrow>
     on_depth op s = (None, s\<lparr>sys_world := (sys_world s)\<lparr>db_depth := d\<rparr>\<rparr>)"
  by (simp add: on_depth_def)

lemma silent_listener [simp]:
  "if_listener field (\<lambda>l. depth_handler view no_client (L_on_accept l p)) = eff_skip"
  "if_listener field (\<lambda>l. depth_handler view no_client (L_on_reject l p r)) = eff_skip"
  "if_listener field (\<lambda>l. depth_handler view no_client (L_on_fill l p m q c)) = eff_skip"
  "if_listener field (\<lambda>l. depth_handler view no_client (L_on_cancel l p)) = eff_skip"
  "if_listener field (\<lambda>l. depth_handler view no_client (L_on_cancel_reject l p r)) = eff_skip"
  "if_listener field (\<lambda>l. depth_handler view no_client (L_on_replace l p d x)) = eff_skip"
  "if_listener field (\<lambda>l. depth_handler view no_client (L_on_replace_reject l p r)) = eff_skip"
  "if_listener field (\<lambda>l. depth_handler view no_client (L_on_trade l q c)) = eff_skip"
  "if_listener field (\<lambda>l. depth_handler view no_client (L_on_order_book_change l)) = eff_skip"
  by (simp_all add: fun_eq_iff if_listener_def depth_handler_def base_handler_def no_client_def
      eff_skip_def split: option.split)

text \<open>
  A notification that succeeds on the depth alone succeeds in the depth book, and changes
  nothing but the depth.
\<close>

lemma with_order_at_limit:
  assumes f: "\<And>v d'. f v (db_depth (sys_world s)) = (Inr (), d') \<Longrightarrow>
      g v s = (None, s\<lparr>sys_world := (sys_world s)\<lparr>db_depth := d'\<rparr>\<rparr>)"
    and r: "at_limit (view (sys_world s)) ord f (db_depth (sys_world s)) = (Inr (), d)"
  shows "with_order view ord (\<lambda>v. if Order_is_limit v then g v else eff_skip) s =
    (None, s\<lparr>sys_world := (sys_world s)\<lparr>db_depth := d\<rparr>\<rparr>)"
  using r f by (auto simp: at_limit_def with_order_def eff_skip_def split: option.splits if_splits)

lemma with_order_depth:
  assumes "at_limit (view (sys_world s)) ord op (db_depth (sys_world s)) = (Inr (), d)"
  shows "with_order view ord (\<lambda>v. if Order_is_limit v then on_depth (op v) else eff_skip) s =
    (None, s\<lparr>sys_world := (sys_world s)\<lparr>db_depth := d\<rparr>\<rparr>)"
  using assms on_depth_Inr [of "op (view (sys_world s) (the ord))" s "()" d]
  by (auto simp: at_limit_def with_order_def eff_skip_def split: option.splits if_splits)

lemma base_performs:
  assumes v: "\<And>w d. view (w\<lparr>db_depth := d\<rparr>) = view w"
    and r: "depth_cb (view (sys_world s)) cb (db_depth (sys_world s)) = (Inr (), d)"
  shows "perform_callback view (depth_handler view no_client) cb s =
    (None, s\<lparr>sys_world := (sys_world s)\<lparr>db_depth := d\<rparr>\<rparr>)"
proof (cases "cb_kind cb")
  case cb_order_accept
  have "with_order view (cb_order cb) (\<lambda>v. if Order_is_limit v then
         (if cb_quantity cb = o_order_qty v
          then on_depth (ignore_fill_qty (cb_quantity cb) (o_is_buy v))
          else on_depth (depth_add_order (o_price v) (o_order_qty v) (o_is_buy v)))
       else eff_skip) s = (None, s\<lparr>sys_world := (sys_world s)\<lparr>db_depth := d\<rparr>\<rparr>)"
  proof (rule with_order_at_limit)
    show "at_limit (view (sys_world s)) (cb_order cb) (\<lambda>v.
        if cb_quantity cb = o_order_qty v then ignore_fill_qty (cb_quantity cb) (o_is_buy v)
        else depth_add_order (o_price v) (o_order_qty v) (o_is_buy v)) (db_depth (sys_world s)) = (Inr (), d)"
      using r cb_order_accept by (simp add: depth_cb_def)
  qed (auto intro: on_depth_Inr split: if_splits)
  then show ?thesis
    using cb_order_accept
    by (simp add: perform_callback_def) (simp add: depth_handler_def depth_on_accept_def)
next
  case cb_order_fill
  let ?fi = "cb_flags cb AND (ff_inbound_filled OR ff_both_filled) \<noteq> 0"
  let ?fm = "cb_flags cb AND (ff_matched_filled OR ff_both_filled) \<noteq> 0"
  let ?op = "\<lambda>fin v. fill_order (o_price v) (cb_quantity cb) fin (o_is_buy v)"
  have "then_depth (at_limit (view (sys_world s)) (cb_matched_order cb) (?op ?fm))
      (at_limit (view (sys_world s)) (cb_order cb) (?op ?fi)) (db_depth (sys_world s)) = (Inr (), d)"
    using r cb_order_fill by (simp add: depth_cb_def)
  then obtain d1 where d1:
    "at_limit (view (sys_world s)) (cb_matched_order cb) (?op ?fm) (db_depth (sys_world s)) = (Inr (), d1)"
    "at_limit (view (sys_world s)) (cb_order cb) (?op ?fi) d1 = (Inr (), d)"
    by (auto simp: then_depth_def split: prod.splits sum.splits)
  let ?s1 = "s\<lparr>sys_world := (sys_world s)\<lparr>db_depth := d1\<rparr>\<rparr>"
  have 1: "with_order view (cb_matched_order cb) (\<lambda>v. if Order_is_limit v then on_depth (?op ?fm v) else eff_skip) s =
      (None, ?s1)" 
    by (rule with_order_depth) (rule d1(1))
  have "at_limit (view (sys_world ?s1)) (cb_order cb) (?op ?fi) (db_depth (sys_world ?s1)) = (Inr (), d)"
    using d1(2) v by simp
  from with_order_depth [of view ?s1 "cb_order cb" "?op ?fi", OF this]
  have 2: "with_order view (cb_order cb) (\<lambda>v. if Order_is_limit v then on_depth (?op ?fi v) else eff_skip) ?s1 =
      (None, s\<lparr>sys_world := (sys_world s)\<lparr>db_depth := d\<rparr>\<rparr>)" by simp
  have t: "depth_handler view no_client (V_on_trade q c) = eff_skip" for q c
    by (simp add: depth_handler_def base_handler_def)
  show ?thesis
    using 1 2 cb_order_fill
    by (simp add: perform_callback_def t) (simp add: depth_handler_def depth_on_fill_def eff_then_def)
next
  case cb_order_cancel
  let ?op = "\<lambda>v. depth_close_order (o_price v) (cb_quantity cb) (o_is_buy v)"
  have "with_order view (cb_order cb) (\<lambda>v. if Order_is_limit v then on_depth (?op v) else eff_skip) s =
      (None, s\<lparr>sys_world := (sys_world s)\<lparr>db_depth := d\<rparr>\<rparr>)"
  proof (rule with_order_at_limit)
    show "at_limit (view (sys_world s)) (cb_order cb) (\<lambda>v d. forget (?op v d)) (db_depth (sys_world s)) = (Inr (), d)"
      using r cb_order_cancel by (simp add: depth_cb_def)
  qed (auto simp: forget_def intro: on_depth_Inr split: prod.splits sum.splits)
  then show ?thesis
    using cb_order_cancel
    by (simp add: perform_callback_def) (simp add: depth_handler_def depth_on_cancel_def)
next
  case cb_book_update
  have "depth_on_order_book_change no_client s =
      (None, s\<lparr>sys_world := (sys_world s)\<lparr>db_depth := d\<rparr>\<rparr>)"
    using r cb_book_update
    by (auto simp: depth_on_order_book_change_def depth_cb_def world_listener_def no_client_def
        eff_skip_def eff_then_def on_depth_def split: option.split if_splits)
  then show ?thesis
    using cb_book_update by (simp add: perform_callback_def) (simp add: depth_handler_def)
next
  case cb_order_replace
  then show ?thesis using r by (simp add: depth_cb_def)
qed (use r in \<open>simp_all add: perform_callback_def depth_cb_def depth_handler_def base_handler_def eff_skip_def
  no_client_def if_listener_def split: option.split\<close>)

interpretation depth_sync:
  depth_follower "perform_callback (\<lambda>_. env) (depth_handler (\<lambda>_. env) no_client)" "\<lambda>_ :: 'w depth_book_scheme. env"
  for env
  by unfold_locales (simp add: base_performs)


lemma simple_view_frame [simp]:
  "simple_view (so_fill q c i x) = simple_view x" "simple_view (so_accept x) = simple_view x"
  "simple_view (so_cancel x) = simple_view x"
  by (simp_all add: simple_view_def so_fill_def so_accept_def so_cancel_def so_all_or_none_def
      so_immediate_or_cancel_def Let_def)

text \<open>Updating an order by a method that keeps what the book sees of it.\<close>

definition order_update :: "'w simple_book_scheme system \<Rightarrow> 'w simple_book_scheme system \<Rightarrow> bool" where
  "order_update s s' \<longleftrightarrow> sys_book s' = sys_book s \<and> sys_log s' = sys_log s \<and>
     db_depth (sys_world s') = db_depth (sys_world s) \<and>
     orders_view (sys_world s') = orders_view (sys_world s)"

lemma on_order_update:
  assumes "\<And>x. simple_view (f x) = simple_view x" "ord \<noteq> None"
  shows "\<exists>s'. on_order ord f s = (None, s') \<and> order_update s s'"
  using assms by (auto simp: on_order_def order_update_def orders_view_def fun_eq_iff)

lemma order_update_trans: "order_update a b \<Longrightarrow> order_update b c \<Longrightarrow> order_update a c"
  by (simp add: order_update_def)

lemma update_filled_update:
  assumes "cb_order cb \<noteq> None" "cb_matched_order cb \<noteq> None"
  shows "\<exists>s'. eff_then next_fill_id (update_filled cb) s = (None, s') \<and> order_update s s'"
proof -
  let ?s0 = "s\<lparr>sys_world := (sys_world s)\<lparr>sb_fill_id := sb_fill_id (sys_world s) + 1\<rparr>\<rparr>"
  let ?f = "so_fill (cb_quantity cb) (cb_quantity cb * cb_price cb) (sb_fill_id (sys_world ?s0))"
  obtain s1 where s1: "on_order (cb_matched_order cb) ?f ?s0 = (None, s1)" "order_update ?s0 s1"
    using on_order_update [of ?f "cb_matched_order cb" ?s0, OF simple_view_frame(1) assms(2)] by (elim exE conjE)
  obtain s2 where s2: "on_order (cb_order cb) ?f s1 = (None, s2)" "order_update s1 s2"
    using on_order_update [of ?f "cb_order cb" s1, OF simple_view_frame(1) assms(1)] by (elim exE conjE)
  have "order_update s ?s0" by (simp add: order_update_def orders_view_def fun_eq_iff)
  then have "order_update s s2" using s1(2) s2(2) order_update_trans by blast
  moreover have "eff_then next_fill_id (update_filled cb) s = (None, s2)"
    using s1(1) s2(1) by (simp add: eff_then_def next_fill_id_def update_filled_def Let_def)
  ultimately show ?thesis by blast
qed

lemma depth_cb_orders:
  assumes "depth_cb env cb d = (Inr (), d')"
  shows "cb_kind cb \<in> {cb_order_accept, cb_order_fill, cb_order_cancel} \<Longrightarrow> cb_order cb \<noteq> None"
    "cb_kind cb = cb_order_fill \<Longrightarrow> cb_matched_order cb \<noteq> None" "cb_kind cb \<noteq> cb_order_replace"
  using assms
  by (auto simp: depth_cb_def at_limit_def then_depth_def split: option.splits prod.splits sum.splits)

lemma simple_performs:
  fixes s :: "'w simple_book_scheme system"
  assumes r: "depth_cb (orders_view (sys_world s)) cb (db_depth (sys_world s)) = (Inr (), d)"
  shows "\<exists>s'. simple_perform no_client cb s = (None, s') \<and>
    order_update (s\<lparr>sys_world := (sys_world s)\<lparr>db_depth := d\<rparr>\<rparr>) s'"
proof -
  let ?s1 = "s\<lparr>sys_world := (sys_world s)\<lparr>db_depth := d\<rparr>\<rparr>"
  have b: "perform_callback orders_view (depth_handler orders_view no_client) cb s = (None, ?s1)"
    using base_performs [of orders_view s cb d] r by (simp add: orders_view_def fun_eq_iff)
  note o = depth_cb_orders [OF r]
  have skip: "\<exists>s'. eff_skip ?s1 = (None, s') \<and> order_update ?s1 s'"
    by (simp add: eff_skip_def order_update_def)
  let ?rest = "case cb_kind cb of
          cb_order_accept \<Rightarrow> on_order (cb_order cb) so_accept
        | cb_order_fill \<Rightarrow> eff_then next_fill_id (update_filled cb)
        | cb_order_cancel \<Rightarrow> on_order (cb_order cb) so_cancel
        | cb_order_replace \<Rightarrow> on_order (cb_order cb) (so_replace (cb_delta cb) (cb_price cb))
        | _ \<Rightarrow> eff_skip"
  have "\<exists>s'. ?rest ?s1 = (None, s') \<and> order_update ?s1 s'"
  proof (cases "cb_kind cb")
    case cb_order_accept
    then show ?thesis using on_order_update [OF simple_view_frame(2) o(1), of ?s1] by simp
  next
    case cb_order_fill
    then show ?thesis using update_filled_update [OF o(1,2), of ?s1] by simp
  next
    case cb_order_cancel
    then show ?thesis using on_order_update [OF simple_view_frame(3) o(1), of ?s1] by simp
  next
    case cb_order_replace
    then show ?thesis using o(3) by simp
  qed (use skip in simp_all)
  then show ?thesis using b by (simp add: simple_perform_def eff_then_def)
qed

interpretation simple_sync: depth_follower "simple_perform no_client" orders_view
proof unfold_locales
  fix s :: "'w simple_book_scheme system" and cb d
  assume "depth_cb (orders_view (sys_world s)) cb (db_depth (sys_world s)) = (Inr (), d)"
  from simple_performs [OF this] show "\<exists>s'. simple_perform no_client cb s = (None, s') \<and>
      db_depth (sys_world s') = d \<and> orders_view (sys_world s') = orders_view (sys_world s) \<and> sys_log s' = sys_log s"
    by (auto simp: order_update_def orders_view_def fun_eq_iff)
qed

end
