(* ===== verification/Sync_Session.thy ===== *)
theory Sync_Session
  imports Depth_Sync Samples
begin

text \<open>
  Sessions: what the users of a book do to it, call after call, and what holds between the
  calls. A call is admissible when its order is one the engine is meant for: it has a quantity,
  is not a stop or immediate-or-cancel order, a market order does not come before the first
  trade, and the open quantities of the book stay below the range of the quantities.
\<close>

section \<open>Requests\<close>

datatype request = R_add order_ptr order_conditions | R_cancel order_ptr

definition serve ::
  "('w \<Rightarrow> order_env) \<Rightarrow> (callback \<Rightarrow> 'w system effect) \<Rightarrow> request \<Rightarrow> 'w system \<Rightarrow> 'w system result option" where
  "serve view perform r s =
     (case r of
        R_add ord conditions \<Rightarrow> map_option (map_sum id snd) (book_add view perform ord conditions s)
      | R_cancel ord \<Rightarrow> map_option (map_sum id snd) (book_cancel view perform ord s))"

definition admissible :: "order_env \<Rightarrow> order_book \<Rightarrow> request \<Rightarrow> bool" where
  "admissible env b r =
     (case r of
        R_add ord conditions \<Rightarrow>
          o_order_qty (env ord) \<noteq> 0 \<and> o_stop_price (env ord) = 0 \<and>
          conditions AND oc_immediate_or_cancel = 0 \<and>
          (ob_marketPrice b \<noteq> 0 \<or> o_price (env ord) \<noteq> 0) \<and>
          book_qty b + unat (o_order_qty (env ord)) < 2 ^ 32
      | R_cancel ord \<Rightarrow> True)"

inductive session ::
  "('w \<Rightarrow> order_env) \<Rightarrow> (callback \<Rightarrow> 'w system effect) \<Rightarrow> 'w system \<Rightarrow> request list \<Rightarrow> 'w system \<Rightarrow> bool"
  for view perform s0 where
  session_start: "session view perform s0 [] s0"
| session_call: "session view perform s0 rs s \<Longrightarrow> admissible (view (sys_world s)) (sys_book s) r \<Longrightarrow>
    serve view perform r s = Some (Inr s') \<Longrightarrow> session view perform s0 (rs @ [r]) s'"

section \<open>What every session keeps\<close>

context depth_follower begin

lemma serve_in_step:
  assumes "in_step view s" "admissible (view (sys_world s)) (sys_book s) r"
  shows "\<exists>s'. serve view perform r s = Some (Inr s') \<and> in_step view s' \<and> sys_log s' = sys_log s"
proof (cases r)
  case (R_add ord conditions)
  then obtain matched s' where "book_add view perform ord conditions s = Some (Inr (matched, s'))"
    "in_step view s'" "sys_log s' = sys_log s"
    using add_in_step [OF assms(1), of ord conditions] assms(2) by (auto simp: admissible_def)
  then show ?thesis using R_add by (simp add: serve_def)
next
  case (R_cancel ord)
  then show ?thesis using cancel_in_step [OF assms(1), of ord] by (auto simp: serve_def)
qed

lemma session_in_step:
  "session view perform s0 rs s \<Longrightarrow> in_step view s0 \<Longrightarrow> in_step view s \<and> sys_log s = sys_log s0"
proof (induction rule: session.induct)
  case (session_call rs s r s')
  then show ?case using serve_in_step [of s r] by auto
qed simp

end

section \<open>The beginning\<close>

text \<open>A book just constructed, and the depth of the same size as the constructor makes it.\<close>

definition fresh_system :: "string \<Rightarrow> 'w \<Rightarrow> 'w system" where
  "fresh_system symbol w = \<lparr>sys_book = OrderBook symbol, sys_world = w, sys_log = []\<rparr>"

lemma fresh_in_step:
  assumes "db_depth w = Depth SIZE" "0 < SIZE"
  shows "in_step view (fresh_system symbol w)"
proof -
  have "book_ok env (OrderBook symbol)" "keyed_book env (OrderBook symbol)" for env
    by (simp_all add: OrderBook_def book_ok_def side_ok_def stops_ok_def stop_side_ok_def
        keyed_book_def keyed_def live_side_def mm_sorted_def stop_mset_def)
  moreover have "book_qty (OrderBook symbol) = 0" "stop_mset (OrderBook symbol) = {#}"
    "sides_of (OrderBook symbol) = (\<lambda>_. {#})"
    by (simp_all add: OrderBook_def book_qty_def stop_mset_def sides_of_def fun_eq_iff)
  moreover have "follows env (\<lambda>_. {#}) (Depth SIZE)" for env
  proof -
    have "shown_levels env (\<lambda>_. {#}) = (\<lambda>_. [])"
      by (simp add: shown_levels_def levels_of_def fun_eq_iff)
    then show ?thesis
      using depth_repr_Depth [OF assms(2)]
      by (simp add: follows_def) (simp add: Depth_def ignored_fill_qty_def)
  qed
  ultimately show ?thesis
    using assms(1) by (simp add: in_step_def fresh_system_def) (simp add: OrderBook_def)
qed


section \<open>The simple order book\<close>

text \<open>
  C2. Whatever admissible requests the users make of a simple order book, after each of them
  the depth shows a reader exactly the best price levels of the limit orders on the market: per
  price the number of orders and the total open quantity, best price first, and blank levels
  behind them. The book is well-formed, and no exception was caught on the way.
\<close>

theorem depth_shows_the_market:
  assumes "session orders_view (simple_perform no_client) (fresh_system symbol (SimpleOrderBook SIZE orders)) rs s"
    "0 < SIZE"
  defines "env \<equiv> orders_view (sys_world s)"
  shows "shown buy (db_depth (sys_world s)) =
      take (dp_SIZE (db_depth (sys_world s))) (levels_of buy (quotes env (sides_of (sys_book s) buy))) @
      replicate (dp_SIZE (db_depth (sys_world s)) - length (levels_of buy (quotes env (sides_of (sys_book s) buy)))) blank \<and>
    book_ok env (sys_book s) \<and> sys_log s = []"
proof -
  let ?s0 = "fresh_system symbol (SimpleOrderBook SIZE orders)"
  have "in_step orders_view ?s0"
    using assms(2) by (intro fresh_in_step) (simp_all add: SimpleOrderBook_def)
  then have "in_step orders_view s" "sys_log s = []"
    using simple_sync.session_in_step [OF assms(1)] by (simp_all add: fresh_system_def)
  then show ?thesis
    using shown_repr [of "db_depth (sys_world s)" "shown_levels env (sides_of (sys_book s))" buy]
    by (simp add: in_step_def env_def Let_def follows_def shown_levels_def)
qed

text \<open>
  C27. No admissible request hangs or fails: after any session the next one returns, with a
  system in which the session goes on.
\<close>

theorem requests_return:
  assumes "session orders_view (simple_perform no_client) (fresh_system symbol (SimpleOrderBook SIZE orders)) rs s"
    "0 < SIZE" "admissible (orders_view (sys_world s)) (sys_book s) r"
  shows "\<exists>s'. serve orders_view (simple_perform no_client) r s = Some (Inr s') \<and>
    session orders_view (simple_perform no_client) (fresh_system symbol (SimpleOrderBook SIZE orders)) (rs @ [r]) s'"
proof -
  have "in_step orders_view (fresh_system symbol (SimpleOrderBook SIZE orders))"
    using assms(2) by (intro fresh_in_step) (simp_all add: SimpleOrderBook_def)
  then have "in_step orders_view s"
    using simple_sync.session_in_step [OF assms(1)] by blast
  then obtain s' where "serve orders_view (simple_perform no_client) r s = Some (Inr s')"
    using simple_sync.serve_in_step [OF _ assms(3)] by blast
  then show ?thesis using session_call [OF assms(1,3)] by blast
qed


text \<open>Two orders to apply the properties to: a bid for 100 at 10 and an ask of 40 at 10.\<close>

definition sample_orders :: "order_ptr \<Rightarrow> simple_order" where
  "sample_orders i = (if i = 0 then fst (SimpleOrder True 10 100 0 0 0) else fst (SimpleOrder False 10 40 0 0 1))"

lemma sample_orders_sel [simp]:
  "simple_view (sample_orders 0) = \<lparr>o_is_buy = True, o_price = 10, o_stop_price = 0, o_order_qty = 100,
     o_all_or_none = False, o_immediate_or_cancel = False\<rparr>"
  "i \<noteq> 0 \<Longrightarrow> simple_view (sample_orders i) = \<lparr>o_is_buy = False, o_price = 10, o_stop_price = 0, o_order_qty = 40,
     o_all_or_none = False, o_immediate_or_cancel = False\<rparr>"
  by (simp_all add: sample_orders_def SimpleOrder_def simple_view_def so_all_or_none_def so_immediate_or_cancel_def)

abbreviation sample_start :: "simple_book system" where
  "sample_start \<equiv> fresh_system ''ABC'' (SimpleOrderBook 5 sample_orders)"

lemma sample_admissible: "admissible (orders_view (sys_world sample_start)) (sys_book sample_start) (R_add 0 0)"
  by (simp add: admissible_def fresh_system_def SimpleOrderBook_def OrderBook_def book_qty_def stop_mset_def
      orders_view_def)

lemma sample_session:
  obtains s where "session orders_view (simple_perform no_client) sample_start [R_add 0 0, R_cancel 0] s"
proof -
  have i: "in_step orders_view sample_start" by (rule fresh_in_step [of _ 5]) (simp_all add: SimpleOrderBook_def)
  obtain s where s: "serve orders_view (simple_perform no_client) (R_add 0 0) sample_start = Some (Inr s)"
    "in_step orders_view s" using simple_sync.serve_in_step [OF i sample_admissible] by blast
  have a: "admissible (orders_view (sys_world s)) (sys_book s) (R_cancel 0)" by (simp add: admissible_def)
  obtain s' where s': "serve orders_view (simple_perform no_client) (R_cancel 0) s = Some (Inr s')"
    using simple_sync.serve_in_step [OF s(2) a] by blast
  have "session orders_view (simple_perform no_client) sample_start (([] @ [R_add 0 0]) @ [R_cancel 0]) s'"
    by (rule session_call [OF session_call [OF session_start sample_admissible s(1)] a s'])
  then show thesis using that by simp
qed

theorem depth_shows_the_market_witness:
  "\<exists>s. session orders_view (simple_perform no_client) sample_start [R_add 0 0, R_cancel 0] s \<and>
     sys_log s = [] \<and> book_ok (orders_view (sys_world s)) (sys_book s)"
proof -
  obtain s where s: "session orders_view (simple_perform no_client) sample_start [R_add 0 0, R_cancel 0] s"
    by (rule sample_session)
  show ?thesis using depth_shows_the_market [OF s] s by auto
qed

theorem requests_return_witness:
  "\<exists>s'. serve orders_view (simple_perform no_client) (R_add 0 0) sample_start = Some (Inr s')"
  using requests_return [OF session_start _ sample_admissible] by auto

end
