(* ===== verification/Order_Agreement.thy ===== *)
theory Order_Agreement
  imports Sync_Session
begin

text \<open>
  The simple orders agree with the book: what an order records of itself from the notifications
  is what the tracker of the book says, and the notifications keep the protocol of the order.
\<close>

section \<open>What a notification does to the orders\<close>

type_synonym orders = "order_ptr \<Rightarrow> simple_order"

fun at_order :: "order_ptr option \<Rightarrow> (simple_order \<Rightarrow> simple_order) \<Rightarrow> orders \<Rightarrow> orders" where
  "at_order None f O' = O'"
| "at_order (Some i) f O' = O'(i := f (O' i))"

definition orders_cb :: "callback \<Rightarrow> orders \<Rightarrow> orders" where
  "orders_cb cb O' =
     (case cb_kind cb of
        cb_order_accept \<Rightarrow> at_order (cb_order cb) so_accept O'
      | cb_order_fill \<Rightarrow>
          (let f = so_fill (cb_quantity cb) (cb_quantity cb * cb_price cb) 0
           in at_order (cb_order cb) f (at_order (cb_matched_order cb) f O'))
      | cb_order_cancel \<Rightarrow> at_order (cb_order cb) so_cancel O'
      | _ \<Rightarrow> O')"

definition orders_run :: "callback list \<Rightarrow> orders \<Rightarrow> orders" where
  "orders_run cbs O' = fold orders_cb cbs O'"

lemma orders_run_simps [simp]:
  "orders_run [] O' = O'" "orders_run (cb # cbs) O' = orders_run cbs (orders_cb cb O')"
  "orders_run (a @ b) O' = orders_run b (orders_run a O')"
  by (simp_all add: orders_run_def)

section \<open>Agreement\<close>

text \<open>Every order is on the market at most once, and every tracker tells what its order tells.\<close>

definition tracks :: "orders \<Rightarrow> tracker \<Rightarrow> bool" where
  "tracks O' t \<longleftrightarrow> (let x = O' (tk_order t) in so_state x = os_accepted \<and> so_open_qty x = tk_open_qty t \<and> so_ok x)"

definition entries :: "sides \<Rightarrow> order_ptr \<Rightarrow> nat" where
  "entries M ord = size (filter_mset (\<lambda>t. tk_order t = ord) (M True + M False))"

definition agree :: "sides \<Rightarrow> orders \<Rightarrow> bool" where
  "agree M O' \<longleftrightarrow> (\<forall>ord. entries M ord \<le> 1) \<and> (\<forall>s. \<forall>t \<in># M s. tracks O' t)"

lemma entries_sides: "entries M ord =
    size (filter_mset (\<lambda>t. tk_order t = ord) (M s)) + size (filter_mset (\<lambda>t. tk_order t = ord) (M (\<not> s)))"
  by (cases s) (simp_all add: entries_def)

text \<open>The other trackers belong to other orders.\<close>

lemma agree_other:
  assumes "agree M O'" "t \<in># M s"
  shows "t' \<in># M s - {#t#} \<Longrightarrow> tk_order t' \<noteq> tk_order t" "t' \<in># M (\<not> s) \<Longrightarrow> tk_order t' \<noteq> tk_order t"
proof -
  have e: "entries M (tk_order t) \<le> 1" using assms(1) by (simp add: agree_def)
  obtain T where T: "M s = add_mset t T" using assms(2) by (meson multi_member_split)
  have z: "filter_mset (\<lambda>x. tk_order x = tk_order t) T = {#}"
    "filter_mset (\<lambda>x. tk_order x = tk_order t) (M (\<not> s)) = {#}"
    using e entries_sides [of M "tk_order t" s] T by auto
  show "t' \<in># M s - {#t#} \<Longrightarrow> tk_order t' \<noteq> tk_order t" "t' \<in># M (\<not> s) \<Longrightarrow> tk_order t' \<noteq> tk_order t"
    using z T multi_member_split [of t' T] multi_member_split [of t' "M (\<not> s)"] by auto
qed

lemma take_qty_tracked:
  assumes "tracks O' t" "q \<noteq> 0" "q \<le> tk_open_qty t" "tk_open_qty t \<noteq> q"
    and "O2 (tk_order t) = so_fill q c 0 (O' (tk_order t))"
  shows "tracks O2 (take_qty q t)"
proof -
  let ?x = "O' (tk_order t)"
  have x: "so_state ?x = os_accepted" "so_open_qty ?x = tk_open_qty t" "so_ok ?x"
    using assms(1) by (simp_all add: tracks_def Let_def)
  have q: "0 < q" "q \<le> so_open_qty ?x" using assms(2,3) x by (simp_all add: word_gt_0)
  note f = so_fill_ok [OF x(3) q, of c 0]
  have "so_open_qty (so_fill q c 0 ?x) = so_order_qty ?x - (so_filled_qty ?x + q)"
    using so_open_qty_ok [OF f(1)] by (simp add: so_fill_def Let_def)
  also have "\<dots> = tk_open_qty t - q" using so_open_qty_ok [OF x(3)] x(2) by simp
  finally have o: "so_open_qty (so_fill q c 0 ?x) = tk_open_qty t - q" .
  then have "so_open_qty (so_fill q c 0 ?x) \<noteq> 0" using assms(4) by simp
  then have "so_state (so_fill q c 0 ?x) = os_accepted"
    using x(1) by (auto simp: so_fill_def Let_def so_open_qty_def split: if_splits)
  then show ?thesis using f(1) o assms(5) by (simp add: tracks_def Let_def)
qed


section \<open>Executions\<close>

text \<open>The life of an order: a run of its protocol, without replacements.\<close>

definition lives :: "orders \<Rightarrow> orders \<Rightarrow> bool" where
  "lives O' O2 \<longleftrightarrow> (\<forall>i. \<exists>es. so_run (O' i) es (O2 i) \<and> no_replace es)"

lemma so_run_trans: "so_run y es' z \<Longrightarrow> so_run x es y \<Longrightarrow> so_run x (es @ es') z"
  by (induction rule: so_run.induct) (auto simp: so_run.step simp flip: append_assoc)

lemma lives_refl [simp]: "lives O' O'"
  unfolding lives_def using so_run.start no_replace_simps(1) by blast

lemma lives_trans: "lives O1 O2 \<Longrightarrow> lives O2 O3 \<Longrightarrow> lives O1 O3"
  unfolding lives_def using so_run_trans no_replace_simps(2) by meson

lemma lives_step:
  assumes "so_step (O' i) e x" "no_replace [e]"
  shows "lives O' (O'(i := x))"
proof -
  have "so_run (O' i) [e] x" using so_run.step [OF so_run.start assms(1)] by simp
  then show ?thesis unfolding lives_def using assms(2) so_run.start no_replace_simps(1)
    by (metis fun_upd_apply)
qed

lemma tracked_fill_step:
  assumes "tracks O' t" "q \<noteq> 0" "q \<le> tk_open_qty t"
  shows "so_step (O' (tk_order t)) (E_filled q c 0) (so_fill q c 0 (O' (tk_order t)))"
  using assms by (simp add: tracks_def Let_def word_gt_0)

lemma entries_settle:
  assumes "t \<in># M s"
  shows "size (filter_mset (\<lambda>x. tk_order x = ord) (settle_tk t q (M s))) \<le>
    size (filter_mset (\<lambda>x. tk_order x = ord) (M s))"
proof -
  obtain T where "M s = add_mset t T" using assms by (meson multi_member_split)
  then show ?thesis by (simp add: settle_tk_def residual_def)
qed

lemma settled_tracked:
  assumes A: "agree M O'" and t: "t \<in># M s" "q \<noteq> 0" "q \<le> tk_open_qty t"
    and f: "O2 (tk_order t) = so_fill q c 0 (O' (tk_order t))"
    and o: "\<And>i. i \<noteq> tk_order t \<Longrightarrow> i \<noteq> other \<Longrightarrow> O2 i = O' i"
    and d: "\<And>x. x \<in># M s \<Longrightarrow> tk_order x \<noteq> other"
  shows "\<forall>x \<in># settle_tk t q (M s). tracks O2 x"
proof
  fix x
  assume "x \<in># settle_tk t q (M s)"
  then consider "x \<in># M s - {#t#}" | "x = take_qty q t" "tk_open_qty t \<noteq> q"
    by (auto simp: settle_tk_def residual_def split: if_splits)
  then show "tracks O2 x"
  proof cases
    case 1
    have n: "tk_order x \<noteq> tk_order t" using agree_other(1) [OF A t(1) 1] .
    have x: "x \<in># M s" using 1 by (rule in_diffD)
    show ?thesis using A x o [OF n d [OF x]] by (simp add: agree_def tracks_def)
  next
    case 2
    have "tracks O' t" using A t(1) by (simp add: agree_def)
    from take_qty_tracked [OF this t(2,3) 2(2), of O2 c] f 2(1) show ?thesis by simp
  qed
qed

lemma fill_agrees:
  assumes A: "agree M O'" and i: "i \<in># M s" "q \<le> tk_open_qty i" and c: "c \<in># M (\<not> s)" "q \<le> tk_open_qty c"
    and q: "q \<noteq> 0"
    and O2_def: "O2 = orders_cb (Callback_fill (tk_order i) (tk_order c) q p fl) O'"
  shows "agree (both s (settle_tk i q (M s)) (settle_tk c q (M (\<not> s)))) O2 \<and> lives O' O2"
proof -
  let ?f = "so_fill q (q * p) 0"
  have ci: "tk_order c \<noteq> tk_order i" using agree_other(2) [OF A i(1) c(1)] .
  have O2: "O2 = O'(tk_order c := ?f (O' (tk_order c)), tk_order i := ?f (O' (tk_order i)))"
    using ci by (simp add: O2_def orders_cb_def callback_defs Let_def)
  have di: "tk_order x \<noteq> tk_order c" if "x \<in># M s" for x
    using agree_other(2) [OF A c(1), of x] that by simp
  have dc: "tk_order x \<noteq> tk_order i" if "x \<in># M (\<not> s)" for x
    using agree_other(2) [OF A i(1) that] .
  have "\<forall>x \<in># settle_tk i q (M s). tracks O2 x"
    by (rule settled_tracked [OF A i(1) q i(2), where other = "tk_order c" and c = "q * p"])
      (use ci di in \<open>auto simp: O2\<close>)
  moreover have "\<forall>x \<in># settle_tk c q (M (\<not> s)). tracks O2 x"
    by (rule settled_tracked [OF A c(1) q c(2), where other = "tk_order i" and c = "q * p"])
      (use ci dc in \<open>auto simp: O2\<close>)
  moreover have "entries (both s (settle_tk i q (M s)) (settle_tk c q (M (\<not> s)))) ord \<le> 1" for ord
  proof -
    have "entries M ord \<le> 1" using A by (simp add: agree_def)
    then show ?thesis
      using entries_settle [of i M s ord q, OF i(1)] entries_settle [of c M "\<not> s" ord q, OF c(1)]
      unfolding entries_sides [of _ ord s] both_simps by linarith
  qed
  moreover have "lives O' O2"
  proof -
    have t: "tracks O' i" "tracks O' c" using A i c by (auto simp: agree_def)
    have "lives O' (O'(tk_order c := ?f (O' (tk_order c))))"
      by (rule lives_step [where i = "tk_order c" and e = "E_filled q (q * p) 0"])
        (rule tracked_fill_step [OF t(2) q c(2)], simp)
    moreover have "lives (O'(tk_order c := ?f (O' (tk_order c)))) O2"
      unfolding O2
    proof (rule lives_step [where i = "tk_order i"])
      show "so_step ((O'(tk_order c := ?f (O' (tk_order c)))) (tk_order i)) (E_filled q (q * p) 0)
          (?f (O' (tk_order i)))"
        using tracked_fill_step [OF t(1) q i(2), of "q * p"] ci by simp
    qed simp
    ultimately show ?thesis by (rule lives_trans)
  qed
  ultimately show ?thesis by (cases s) (auto simp: agree_def both_def)
qed

lemma trades_agree:
  "trades M cbs M' \<Longrightarrow> agree M O' \<Longrightarrow> agree M' (orders_run cbs O') \<and> lives O' (orders_run cbs O')"
proof (induction rule: trades.induct)
  case (one M cbs M1 i s c q price)
  then show ?case
    using fill_agrees [of M1 "orders_run cbs O'" i s q c _ price "fill_flags_of i c q", OF _ _ _ _ _ _ refl]
      lives_trans by auto
qed simp


section \<open>Entering and leaving\<close>

lemma accept_agrees:
  assumes A: "agree M O'" and x: "so_state (O' ord) = os_new" "so_filled_qty (O' ord) = 0" "so_order_qty (O' ord) \<noteq> 0"
    and t: "tk_order t = ord" "tk_open_qty t = so_order_qty (O' ord)"
  shows "agree (both s (add_mset t (M s)) (M (\<not> s))) (O'(ord := so_accept (O' ord)))"
proof -
  let ?O = "O'(ord := so_accept (O' ord))"
  have other: "tk_order t' \<noteq> ord" if "t' \<in># M x" for t' x
    using A that x(1) by (auto simp: agree_def tracks_def Let_def)
  have "tracks ?O t'" if "t' \<in># M x" for t' x
    using A that other [OF that] by (simp add: agree_def tracks_def)
  moreover have "tracks ?O t"
    using x t by (auto simp: tracks_def Let_def so_accept_def so_open_qty_def so_ok_def so_sound_def word_gt_0)
  moreover have z: "entries M ord = 0"
    using other [of _ True] other [of _ False] by (auto simp: entries_def filter_mset_eq_conv)
  have "entries (both s (add_mset t (M s)) (M (\<not> s))) k \<le> 1" for k
  proof -
    have "entries (both s (add_mset t (M s)) (M (\<not> s))) k = (if k = ord then 1 else 0) + entries M k"
      using t(1) unfolding entries_sides [of _ k s] by simp
    moreover have "entries M k \<le> 1" using A by (simp add: agree_def)
    ultimately show ?thesis using z by simp
  qed
  ultimately show ?thesis by (cases s) (auto simp: agree_def both_def)
qed

lemma entering_trades:
  assumes "entering buy inb M c1 c2 inb' M'" "\<not> immediate_or_cancel inb'" "tk_open_qty inb \<noteq> 0"
  shows "trades (both buy (add_mset inb (M buy)) (M (\<not> buy))) (c1 @ c2) M'"
proof -
  obtain m X where m: "live_side m" "vals m = M (\<not> buy)" "fills inb m c1 inb' X"
    and rest: "if tk_open_qty inb' = 0 then c2 = [] \<and> M' = both buy (M buy) (vals X)
      else trades (both buy (add_mset inb' (M buy)) (vals X)) c2 M'"
    using assms(1,2) by (auto simp: entering_def)
  have "trades (both buy (add_mset inb (M buy)) (M (\<not> buy))) c1 (both buy (M buy + residual inb') (vals X))"
    using fills_trades [OF m(3,1), of buy "M buy"] assms(3) m(2) by (simp add: residual_def)
  then show ?thesis
    using rest by (cases "tk_open_qty inb' = 0") (auto simp: residual_def intro: trades_trans)
qed

lemma leave_agrees:
  assumes A: "agree M O'" and t: "t \<in># M s"
  shows "agree (both s (M s - {#t#}) (M (\<not> s))) (O'(tk_order t := so_cancel (O' (tk_order t))))"
proof -
  let ?O = "O'(tk_order t := so_cancel (O' (tk_order t)))"
  obtain T where T: "M s = add_mset t T" using t by (meson multi_member_split)
  have "tracks ?O t'" if "t' \<in># M s - {#t#}" for t'
    using A agree_other(1) [OF A t that] in_diffD [OF that] by (simp add: agree_def tracks_def)
  moreover have "tracks ?O t'" if "t' \<in># M (\<not> s)" for t'
    using A agree_other(2) [OF A t that] that by (simp add: agree_def tracks_def)
  moreover have "entries (both s (M s - {#t#}) (M (\<not> s))) k \<le> 1" for k
  proof -
    have "entries M k \<le> 1" using A by (simp add: agree_def)
    moreover have "size (filter_mset (\<lambda>x. tk_order x = k) (M s - {#t#})) \<le> size (filter_mset (\<lambda>x. tk_order x = k) (M s))"
      by (simp add: T)
    ultimately show ?thesis unfolding entries_sides [of _ k s] both_simps by linarith
  qed
  ultimately show ?thesis by (cases s) (auto simp: agree_def both_def)
qed

section \<open>The simple book performs it\<close>

lemma so_fill_any_id: "so_fill q c i x = so_fill q c 0 x"
  by (simp add: so_fill_def)

lemma simple_performs_orders:
  fixes s :: "'w simple_book_scheme system"
  assumes r: "depth_cb (orders_view (sys_world s)) cb (db_depth (sys_world s)) = (Inr (), d)"
    and p: "simple_perform no_client cb s = (e, s')"
  shows "sb_orders (sys_world s') = orders_cb cb (sb_orders (sys_world s))"
proof -
  let ?s1 = "s\<lparr>sys_world := (sys_world s)\<lparr>db_depth := d\<rparr>\<rparr>"
  have b: "perform_callback orders_view (depth_handler orders_view no_client) cb s = (None, ?s1)"
    using base_performs [of orders_view s cb d] r by (simp add: orders_view_def fun_eq_iff)
  note o = depth_cb_orders [OF r]
  show ?thesis
  proof (cases "cb_kind cb")
    case cb_order_fill
    then obtain i m where "cb_order cb = Some i" "cb_matched_order cb = Some m" using o by auto
    then show ?thesis
      using p b cb_order_fill so_fill_any_id [of _ _ "sb_fill_id (sys_world s) + 1"]
      by (auto simp: simple_perform_def eff_then_def next_fill_id_def update_filled_def on_order_def Let_def orders_cb_def)
  qed (use p b o in \<open>auto simp: simple_perform_def eff_then_def on_order_def eff_skip_def orders_cb_def\<close>)
qed

lemma runs_orders:
  fixes s :: "'w simple_book_scheme system"
  shows "depth_run (orders_view (sys_world s)) cbs (db_depth (sys_world s)) = (Inr (), d) \<Longrightarrow>
    sb_orders (sys_world (run_callbacks (simple_perform no_client) cbs s)) = orders_run cbs (sb_orders (sys_world s))"
proof (induction cbs arbitrary: s)
  case (Cons cb cbs)
  then obtain d1 where d1: "depth_cb (orders_view (sys_world s)) cb (db_depth (sys_world s)) = (Inr (), d1)"
    "depth_run (orders_view (sys_world s)) cbs d1 = (Inr (), d)"
    by (auto simp: then_depth_def split: prod.splits sum.splits)
  obtain s1 where s1: "simple_perform no_client cb s = (None, s1)" "db_depth (sys_world s1) = d1"
    "orders_view (sys_world s1) = orders_view (sys_world s)"
    using simple_sync.performs [OF d1(1)] by blast
  have "depth_run (orders_view (sys_world s1)) cbs (db_depth (sys_world s1)) = (Inr (), d)"
    using d1(2) s1 by simp
  from Cons.IH [OF this] show ?case
    using s1 simple_performs_orders [OF d1(1) s1(1)] by (simp add: perform_logged_def)
qed simp


section \<open>Sessions\<close>

text \<open>Only the orders on the two sides are touched by executions.\<close>

definition on_sides :: "sides \<Rightarrow> order_ptr set" where
  "on_sides M = tk_order ` set_mset (M True + M False)"

lemma on_sides_mem: "t \<in># M s \<Longrightarrow> tk_order t \<in> on_sides M"
  by (cases s) (auto simp: on_sides_def)

lemma on_sides_both: "on_sides (both s A B) = tk_order ` set_mset A \<union> tk_order ` set_mset B"
  by (cases s) (auto simp: on_sides_def both_def)

lemma trades_frame:
  "trades M cbs M' \<Longrightarrow> on_sides M' \<subseteq> on_sides M \<and> (\<forall>i. i \<notin> on_sides M \<longrightarrow> orders_run cbs O' i = O' i)"
proof (induction rule: trades.induct)
  case (one M cbs M1 i s c q price)
  have "tk_order i \<in> on_sides M1" "tk_order c \<in> on_sides M1"
    using on_sides_mem one(2,3) by blast+
  moreover have "on_sides (both s (settle_tk i q (M1 s)) (settle_tk c q (M1 (\<not> s)))) \<subseteq> on_sides M1"
    using one(2,3) settle_tk_mem [of _ i q "M1 s"] settle_tk_mem [of _ c q "M1 (\<not> s)"]
    unfolding on_sides_both by (fastforce dest: on_sides_mem)
  ultimately show ?case
    using one by (auto simp: orders_cb_def callback_defs Let_def)
qed auto

fun submitted :: "request list \<Rightarrow> order_ptr list" where
  "submitted [] = []"
| "submitted (R_add ord c # rs) = ord # submitted rs"
| "submitted (R_cancel ord # rs) = submitted rs"

lemma submitted_append [simp]: "submitted (a @ b) = submitted a @ submitted b"
  by (induction a rule: submitted.induct) auto

text \<open>Between calls: agreement, every order within its protocol, orders not yet submitted untouched.\<close>

definition orders_follow :: "orders \<Rightarrow> order_ptr set \<Rightarrow> 'w simple_book_scheme system \<Rightarrow> bool" where
  "orders_follow O0 seen s \<longleftrightarrow>
     (let M = sides_of (sys_book s); O' = sb_orders (sys_world s)
      in agree M O' \<and> lives O0 O' \<and> on_sides M \<subseteq> seen \<and> (\<forall>i. i \<notin> seen \<longrightarrow> O' i = O0 i))"

lemma runs_simple:
  fixes s :: "'w simple_book_scheme system"
  assumes "simple_sync.runs cbs s s'"
    "depth_run (orders_view (sys_world s)) cbs (db_depth (sys_world s)) = (Inr (), d)"
  shows "sb_orders (sys_world s') = orders_run cbs (sb_orders (sys_world s))"
proof -
  obtain b where b: "sys_world s' = sys_world (run_callbacks (simple_perform no_client) cbs (s\<lparr>sys_book := b\<rparr>))"
    using assms(1) by (auto simp: simple_sync.runs_def)
  have "depth_run (orders_view (sys_world (s\<lparr>sys_book := b\<rparr>))) cbs (db_depth (sys_world (s\<lparr>sys_book := b\<rparr>))) =
      (Inr (), d)" using assms(2) by simp
  from runs_orders [OF this] b show ?thesis by simp
qed

lemma add_orders_follow:
  fixes s :: "'w simple_book_scheme system"
  assumes F: "orders_follow O0 seen s" and I: "in_step orders_view s"
    and a: "admissible (orders_view (sys_world s)) (sys_book s) (R_add ord c)"
    and new: "ord \<notin> seen" "so_state (O0 ord) = os_new" "so_filled_qty (O0 ord) = 0"
    and v: "serve orders_view (simple_perform no_client) (R_add ord c) s = Some (Inr s')"
  shows "orders_follow O0 (insert ord seen) s'"
proof -
  let ?env = "orders_view (sys_world s)" and ?M = "sides_of (sys_book s)" and ?O = "sb_orders (sys_world s)"
  obtain matched c1 c2 inb' where R: "entering (o_is_buy (?env ord)) (OrderTracker ?env ord c) ?M c1 c2 inb'
      (sides_of (sys_book s'))" "\<not> immediate_or_cancel inb'"
    "simple_sync.runs ((Callback_accept ord)\<lparr>cb_quantity := o_order_qty (?env ord) - tk_open_qty inb'\<rparr> #
       c1 @ c2 @ [Callback_book_update]) s s'"
    "depth_run ?env ((Callback_accept ord)\<lparr>cb_quantity := o_order_qty (?env ord) - tk_open_qty inb'\<rparr> #
       c1 @ c2 @ [Callback_book_update]) (db_depth (sys_world s)) = (Inr (), db_depth (sys_world s'))"
  proof (rule simple_sync.add_runs [OF I, of ord c])
    fix matched s'' c1 c2 inb'
    assume "book_add orders_view (simple_perform no_client) ord c s = Some (Inr (matched, s''))"
    moreover from this have "s'' = s'" using v by (simp add: serve_def)
    moreover assume "entering (o_is_buy (?env ord)) (OrderTracker ?env ord c) ?M c1 c2 inb' (sides_of (sys_book s''))"
      "\<not> immediate_or_cancel inb'"
      "simple_sync.runs ((Callback_accept ord)\<lparr>cb_quantity := o_order_qty (?env ord) - tk_open_qty inb'\<rparr> #
         c1 @ c2 @ [Callback_book_update]) s s''"
      "depth_run ?env ((Callback_accept ord)\<lparr>cb_quantity := o_order_qty (?env ord) - tk_open_qty inb'\<rparr> #
         c1 @ c2 @ [Callback_book_update]) (db_depth (sys_world s)) = (Inr (), db_depth (sys_world s''))"
    ultimately show thesis by (intro that) simp_all
  qed (use a in \<open>auto simp: admissible_def\<close>)
  let ?t = "OrderTracker ?env ord c" and ?s = "o_is_buy (?env ord)"
  let ?O1 = "?O(ord := so_accept (?O ord))"
  have x: "?O ord = O0 ord" and A: "agree ?M ?O" and L: "lives O0 ?O" and sub: "on_sides ?M \<subseteq> seen"
    and fr: "\<And>i. i \<notin> seen \<Longrightarrow> ?O i = O0 i"
    using F new(1) by (auto simp: orders_follow_def Let_def)
  have q: "tk_open_qty ?t = so_order_qty (?O ord)" "so_order_qty (?O ord) \<noteq> 0"
    using a by (simp_all add: admissible_def orders_view_def simple_view_def)
  have T: "trades (both ?s (add_mset ?t (?M ?s)) (?M (\<not> ?s))) (c1 @ c2) (sides_of (sys_book s'))"
    using entering_trades [OF R(1,2)] q by simp
  have A1: "agree (both ?s (add_mset ?t (?M ?s)) (?M (\<not> ?s))) ?O1"
    by (rule accept_agrees [OF A]) (use x new q in simp_all)
  have O': "sb_orders (sys_world s') = orders_run (c1 @ c2) ?O1"
    using runs_simple [OF R(3,4)] by (simp add: orders_cb_def callback_defs)
  have "lives ?O ?O1" by (rule lives_step [where e = E_accepted]) simp_all
  moreover note trades_agree [OF T A1] trades_frame [OF T, of ?O1]
  moreover have "on_sides (both ?s (add_mset ?t (?M ?s)) (?M (\<not> ?s))) \<subseteq> insert ord seen"
    using sub on_sides_mem [of _ ?M ?s] on_sides_mem [of _ ?M "\<not> ?s"] by (auto simp: on_sides_both)
  ultimately have "agree (sides_of (sys_book s')) (orders_run (c1 @ c2) ?O1)"
    "lives O0 (orders_run (c1 @ c2) ?O1)" "on_sides (sides_of (sys_book s')) \<subseteq> insert ord seen"
    "\<And>i. i \<notin> insert ord seen \<Longrightarrow> orders_run (c1 @ c2) ?O1 i = ?O1 i"
    using lives_trans [OF L] lives_trans by blast+
  then show ?thesis using fr by (simp add: orders_follow_def O')
qed

lemma cancel_orders_follow:
  fixes s :: "'w simple_book_scheme system"
  assumes F: "orders_follow O0 seen s" and I: "in_step orders_view s"
    and v: "serve orders_view (simple_perform no_client) (R_cancel ord) s = Some (Inr s')"
  shows "orders_follow O0 seen s'"
proof -
  let ?M = "sides_of (sys_book s)" and ?O = "sb_orders (sys_world s)"
  obtain cbs where R: "cancels (orders_view (sys_world s)) ord ?M cbs (sides_of (sys_book s'))"
    "simple_sync.runs cbs s s'"
    "depth_run (orders_view (sys_world s)) cbs (db_depth (sys_world s)) = (Inr (), db_depth (sys_world s'))"
  proof (rule simple_sync.cancel_runs [OF I, of ord])
    fix s'' cbs
    assume "book_cancel orders_view (simple_perform no_client) ord s = Some (Inr ((), s''))"
    moreover from this have "s'' = s'" using v by (simp add: serve_def)
    moreover assume "cancels (orders_view (sys_world s)) ord ?M cbs (sides_of (sys_book s''))"
      "simple_sync.runs cbs s s''"
      "depth_run (orders_view (sys_world s)) cbs (db_depth (sys_world s)) = (Inr (), db_depth (sys_world s''))"
    ultimately show thesis by (intro that) simp_all
  qed
  have A: "agree ?M ?O" "lives O0 ?O" "on_sides ?M \<subseteq> seen" "\<And>i. i \<notin> seen \<Longrightarrow> ?O i = O0 i"
    using F by (auto simp: orders_follow_def Let_def)
  note O' = runs_simple [OF R(2,3)]
  from R(1) show ?thesis unfolding cancels_def
  proof (elim disjE exE conjE)
    fix x t
    assume t: "t \<in># ?M x" "cbs = [Callback_cancel (tk_order t) (tk_open_qty t), Callback_book_update]"
      "sides_of (sys_book s') = both x (?M x - {#t#}) (?M (\<not> x))"
    have e: "sb_orders (sys_world s') = ?O(tk_order t := so_cancel (?O (tk_order t)))"
      using O' by (simp add: t(2) orders_cb_def callback_defs)
    have "lives ?O (?O(tk_order t := so_cancel (?O (tk_order t))))" by (rule lives_step [where e = E_cancelled]) simp_all
    moreover have "on_sides (both x (?M x - {#t#}) (?M (\<not> x))) \<subseteq> on_sides ?M"
      using on_sides_mem [of _ ?M x] on_sides_mem [of _ ?M "\<not> x"] by (auto simp: on_sides_both dest: in_diffD)
    ultimately show ?thesis
      using leave_agrees [OF A(1), of t x] t(1) A lives_trans on_sides_mem [of t ?M x]
      unfolding orders_follow_def Let_def e t(3) by (auto split: if_splits)
  next
    assume "cbs = [Callback_cancel_reject ord ''not found'']" "sides_of (sys_book s') = ?M"
    then show ?thesis
      using A O' by (simp add: orders_follow_def Let_def orders_cb_def callback_defs)
  qed
qed


lemma session_orders_follow:
  fixes s :: "'w simple_book_scheme system"
  assumes "session orders_view (simple_perform no_client) s0 rs s" "in_step orders_view s0"
    "orders_follow O0 {} s0" "distinct (submitted rs)" "\<And>i. so_state (O0 i) = os_new \<and> so_filled_qty (O0 i) = 0"
  shows "orders_follow O0 (set (submitted rs)) s"
  using assms
proof (induction rule: session.induct)
  case (session_call rs s r s')
  have I: "in_step orders_view s" using simple_sync.session_in_step [OF session_call(1)] session_call.prems by simp
  have F: "orders_follow O0 (set (submitted rs)) s"
    using session_call.IH session_call.prems by simp
  show ?case
  proof (cases r)
    case (R_add ord c)
    have "ord \<notin> set (submitted rs)" using session_call.prems(3) R_add by simp
    with add_orders_follow [OF F I, of ord c s'] session_call R_add show ?thesis by simp
  next
    case (R_cancel ord)
    with cancel_orders_follow [OF F I, of ord s'] session_call show ?thesis by simp
  qed
qed simp

text \<open>
  C3. When no order is submitted twice, the orders agree with the book after every request: each
  order on the market is accepted and has open exactly what its tracker has open, and no order
  at all was filled beyond its quantity or completed while something was open.
\<close>

theorem orders_agree_with_the_book:
  assumes "session orders_view (simple_perform no_client) (fresh_system symbol (SimpleOrderBook SIZE orders)) rs s"
    "0 < SIZE" "distinct (submitted rs)"
    "\<And>i. so_state (orders i) = os_new \<and> so_filled_qty (orders i) = 0 \<and> so_order_qty (orders i) \<noteq> 0"
  shows "(\<forall>buy. \<forall>t \<in># sides_of (sys_book s) buy.
      so_state (sb_orders (sys_world s) (tk_order t)) = os_accepted \<and>
      so_open_qty (sb_orders (sys_world s) (tk_order t)) = tk_open_qty t) \<and>
    (\<forall>i. so_filled_qty (sb_orders (sys_world s) i) \<le> so_order_qty (sb_orders (sys_world s) i) \<and>
      (so_state (sb_orders (sys_world s) i) = os_complete \<longleftrightarrow> so_open_qty (sb_orders (sys_world s) i) = 0))"
proof -
  let ?s0 = "fresh_system symbol (SimpleOrderBook SIZE orders)"
  have "in_step orders_view ?s0"
    using assms(2) by (intro fresh_in_step) (simp_all add: SimpleOrderBook_def)
  moreover have "orders_follow orders {} ?s0"
    by (simp add: orders_follow_def fresh_system_def SimpleOrderBook_def OrderBook_def sides_of_def agree_def
        entries_def on_sides_def fun_eq_iff)
  ultimately have F: "orders_follow orders (set (submitted rs)) s"
    using session_orders_follow [OF assms(1) _ _ assms(3)] assms(4) by blast
  have ok: "so_ok (sb_orders (sys_world s) i)" for i
  proof -
    obtain es where "so_run (orders i) es (sb_orders (sys_world s) i)" "no_replace es"
      using F unfolding orders_follow_def Let_def lives_def by blast
    moreover have "so_ok (orders i)" using assms(4) [of i] by (simp add: so_ok_def so_sound_def)
    ultimately show ?thesis using so_run_ok by blast
  qed
  have "so_filled_qty x \<le> so_order_qty x \<and> (so_state x = os_complete \<longleftrightarrow> so_open_qty x = 0)" if "so_ok x" for x
  proof -
    have "so_open_qty x = 0 \<longleftrightarrow> so_filled_qty x = so_order_qty x"
      unfolding so_open_qty_ok [OF that] by auto
    then show ?thesis using that unfolding so_ok_def so_sound_def by blast
  qed
  then show ?thesis
    using F ok by (auto simp: orders_follow_def Let_def agree_def tracks_def)
qed

theorem orders_agree_with_the_book_witness:
  "\<exists>s. session orders_view (simple_perform no_client) sample_start [R_add 0 0, R_cancel 0] s \<and>
     so_filled_qty (sb_orders (sys_world s) 0) \<le> so_order_qty (sb_orders (sys_world s) 0)"
proof -
  obtain s where s: "session orders_view (simple_perform no_client) sample_start [R_add 0 0, R_cancel 0] s"
    by (rule sample_session)
  have "so_state (sample_orders i) = os_new \<and> so_filled_qty (sample_orders i) = 0 \<and> so_order_qty (sample_orders i) \<noteq> 0" for i
    by (simp add: sample_orders_def SimpleOrder_def)
  then show ?thesis using orders_agree_with_the_book [OF s] s by auto
qed

end
