(* ===== verification/Text.thy ===== *)
theory Text
  imports Prelude "HOL-Library.Char_ord"
begin

text \<open>
  The part of the C and C++ libraries the programs use on text: the output of integers in
  decimal, \<^verbatim>\<open>strtoul\<close> and \<^verbatim>\<open>strtol\<close> in base 10 on a platform with a 64-bit
  \<^verbatim>\<open>long\<close>, and the classification of characters in the C locale.
\<close>

section \<open>Characters\<close>

definition code :: "char \<Rightarrow> nat" where
  "code c = of_char c"

definition is_space :: "char \<Rightarrow> bool" where
  "is_space c \<longleftrightarrow> code c = 32 \<or> 9 \<le> code c \<and> code c \<le> 13"

definition is_digit :: "char \<Rightarrow> bool" where
  "is_digit c \<longleftrightarrow> 48 \<le> code c \<and> code c \<le> 57"

definition digit_value :: "char \<Rightarrow> nat" where
  "digit_value c = code c - 48"

definition to_upper :: "char \<Rightarrow> char" where
  "to_upper c = (if 97 \<le> code c \<and> code c \<le> 122 then char_of (code c - 32) else c)"

definition newline :: string where
  "newline = [char_of (10 :: nat)]"

definition tab :: string where
  "tab = [char_of (9 :: nat)]"

section \<open>Decimal output\<close>

definition digit :: "nat \<Rightarrow> char" where
  "digit n = char_of (48 + n)"

fun decimal :: "nat \<Rightarrow> string" where
  "decimal n = (if n < 10 then [digit n] else decimal (n div 10) @ [digit (n mod 10)])"

declare decimal.simps [simp del]

definition print_u32 :: "32 word \<Rightarrow> string" where
  "print_u32 w = decimal (unat w)"

definition print_i32 :: "int32 \<Rightarrow> string" where
  "print_i32 w = (if sint w < 0 then ''-'' @ decimal (nat (- sint w)) else decimal (nat (sint w)))"

section \<open>strtoul and strtol\<close>

text \<open>
  The value is read from an optional sign and digits behind leading space; the second
  component is the text the end pointer is set to. Without digits nothing is consumed. A
  string ends at its first null character.
\<close>

definition c_string :: "string \<Rightarrow> string" where
  "c_string s = takeWhile (\<lambda>c. code c \<noteq> 0) s"

definition number :: "string \<Rightarrow> nat" where
  "number ds = foldl (\<lambda>n c. 10 * n + digit_value c) 0 ds"

definition scan_number :: "string \<Rightarrow> bool \<times> nat \<times> string" where
  "scan_number s =
     (let s1 = dropWhile is_space s;
          neg = (s1 \<noteq> [] \<and> hd s1 = CHR ''-'');
          s2 = (if s1 \<noteq> [] \<and> (hd s1 = CHR ''-'' \<or> hd s1 = CHR ''+'') then tl s1 else s1);
          ds = takeWhile is_digit s2
      in if ds = [] then (False, 0, s) else (neg, number ds, dropWhile is_digit s2))"

definition strtoul :: "string \<Rightarrow> 64 word \<times> string" where
  "strtoul s =
     (case scan_number (c_string s) of (neg, n, rest) \<Rightarrow>
        (if 2 ^ 64 \<le> n then - 1
         else if neg then - word_of_nat n else word_of_nat n, rest))"

definition strtol :: "string \<Rightarrow> 64 word \<times> string" where
  "strtol s =
     (case scan_number (c_string s) of (neg, n, rest) \<Rightarrow>
        (if neg then word_of_int (max (- (2 ^ 63)) (- int n))
         else word_of_int (min (2 ^ 63 - 1) (int n)), rest))"

section \<open>Facts\<close>

text \<open>A \<^verbatim>\<open>long\<close> that is assigned to a 32-bit integer.\<close>

lemma ucast_word_of_int: "ucast (word_of_int k :: 64 word) = (word_of_int k :: 32 word)"
  by (rule bit_word_eqI) (simp add: bit_simps)

lemma code_digit [simp]: "n < 10 \<Longrightarrow> code (digit n) = 48 + n"
  by (simp add: code_def digit_def)

lemma digit_facts [simp]:
  assumes "n < 10"
  shows "is_digit (digit n)" "\<not> is_space (digit n)" "digit_value (digit n) = n"
    "digit n \<noteq> CHR ''-''" "digit n \<noteq> CHR ''+''" "code (digit n) \<noteq> 0"
proof -
  have c: "code (digit n) = 48 + n" using assms by simp
  show "is_digit (digit n)" "\<not> is_space (digit n)" "digit_value (digit n) = n" "code (digit n) \<noteq> 0"
    using c assms by (simp_all add: is_digit_def is_space_def digit_value_def)
  have "code CHR ''-'' = 45" "code CHR ''+'' = 43" by (simp_all add: code_def)
  then show "digit n \<noteq> CHR ''-''" "digit n \<noteq> CHR ''+''" using c by auto
qed

lemma number_append: "number (ds @ [c]) = 10 * number ds + digit_value c"
  by (simp add: number_def)

text \<open>What is printed is a number, and reads back as what was printed.\<close>

lemma decimal_digits: "decimal n \<noteq> [] \<and> (\<forall>c \<in> set (decimal n). \<exists>d < 10. c = digit d)"
proof (induction n rule: decimal.induct)
  case (1 n)
  have "\<exists>d < 10. digit (n mod 10) = digit d" by (rule exI [of _ "n mod 10"]) simp
  then show ?case
    using 1 by (cases "n < 10") (auto simp: decimal.simps [of n])
qed

lemma number_decimal [simp]: "number (decimal n) = n"
proof (induction n rule: decimal.induct)
  case (1 n)
  show ?case
  proof (cases "n < 10")
    case True
    then show ?thesis by (simp add: decimal.simps [of n] number_def)
  next
    case False
    have "n mod 10 < 10" by simp
    then have "digit_value (digit (n mod 10)) = n mod 10" by (rule digit_facts(3))
    then show ?thesis using 1 False by (simp add: decimal.simps [of n] number_append)
  qed
qed

lemma decimal_scan:
  "dropWhile is_space (decimal n) = decimal n" "takeWhile is_digit (decimal n) = decimal n"
  "dropWhile is_digit (decimal n) = []" "c_string (decimal n) = decimal n"
  "hd (decimal n) \<noteq> CHR ''-''" "hd (decimal n) \<noteq> CHR ''+''" "decimal n \<noteq> []"
proof -
  note d = decimal_digits [of n]
  have h: "\<exists>d < 10. hd (decimal n) = digit d" using d hd_in_set [of "decimal n"] by blast
  then show "hd (decimal n) \<noteq> CHR ''-''" "hd (decimal n) \<noteq> CHR ''+''"
    using digit_facts(4,5) by metis+
  show "decimal n \<noteq> []" using d by simp
  show "dropWhile is_space (decimal n) = decimal n"
    using h d by (cases "decimal n") auto
  show "takeWhile is_digit (decimal n) = decimal n"
    using d by (auto simp: takeWhile_eq_all_conv)
  show "dropWhile is_digit (decimal n) = []" using d by auto
  show "c_string (decimal n) = decimal n" using d by (auto simp: c_string_def takeWhile_eq_all_conv)
qed

lemma scan_decimal [simp]: "scan_number (decimal n) = (False, n, [])"
  by (simp add: scan_number_def decimal_scan)

lemma c_string_Cons [simp]: "c_string (c # s) = (if code c = 0 then [] else c # c_string s)"
  by (simp add: c_string_def)

lemma code_minus [simp]: "code CHR ''-'' = 45"
  by (simp add: code_def)

lemma scan_minus_decimal [simp]: "scan_number (CHR ''-'' # decimal n) = (True, n, [])"
  by (simp add: scan_number_def decimal_scan is_space_def)

lemma strtoul_decimal: "n < 2 ^ 64 \<Longrightarrow> strtoul (decimal n) = (word_of_nat n, [])"
  by (simp add: strtoul_def decimal_scan)

lemma strtol_decimal: "n < 2 ^ 63 \<Longrightarrow> strtol (decimal n) = (word_of_nat n, [])"
proof -
  assume n: "n < 2 ^ 63"
  then have "int n < 2 ^ 63" by simp
  then have "min (2 ^ 63 - 1) (int n) = int n" by simp
  then show ?thesis by (simp add: strtol_def decimal_scan)
qed

lemma strtol_minus_decimal: "n \<le> 2 ^ 63 \<Longrightarrow> strtol (CHR ''-'' # decimal n) = (- word_of_nat n, [])"
proof -
  assume n: "n \<le> 2 ^ 63"
  then have "int n \<le> 2 ^ 63" by simp
  then have "max (- (2 ^ 63)) (- int n) = - int n" by simp
  then show ?thesis by (simp add: strtol_def decimal_scan)
qed

end
