(* ===== verification/Entry_Util.thy ===== *)
theory Entry_Util
  imports Text
begin

text \<open>
  \<^verbatim>\<open>examples/mt_order_entry/Util.h\<close> and \<^verbatim>\<open>Util.cpp\<close>: tokens, numbers and
  prompts of the interactive order entry. The console is the lines still to be read and what
  was printed; reading beyond the last line gives an empty string.
\<close>

section \<open>Tokens\<close>

definition INVALID_UINT32 :: "32 word" where
  "INVALID_UINT32 = UINT32_MAX"

definition INVALID_INT32 :: int32 where
  "INVALID_INT32 = 2147483647"

function split_tokens :: "(char \<Rightarrow> bool) \<Rightarrow> string \<Rightarrow> string list" where
  "split_tokens is_delimiter [] = []"
| "split_tokens is_delimiter (c # cs) =
     takeWhile (\<lambda>x. \<not> is_delimiter x) (c # cs) #
     split_tokens is_delimiter (tl (dropWhile (\<lambda>x. \<not> is_delimiter x) (c # cs)))"
  by pat_completeness auto
termination
proof (relation "measure (\<lambda>(d, s). length s)")
  fix d c and cs :: string
  have "length (dropWhile (\<lambda>x. \<not> d x) (c # cs)) \<le> length (c # cs)" by (rule length_dropWhile_le)
  then show "((d, tl (dropWhile (\<lambda>x. \<not> d x) (c # cs))), d, c # cs) \<in> measure (\<lambda>(d, s). length s)"
    by (simp del: dropWhile.simps)
qed simp

definition nextToken :: "string list \<Rightarrow> nat \<Rightarrow> string \<times> nat" where
  "nextToken tokens pos = (if pos < length tokens then (tokens ! pos, pos + 1) else ('''', pos))"

section \<open>Numbers\<close>

definition toUint32 :: "string \<Rightarrow> 32 word" where
  "toUint32 input =
     (case strtoul input of (v, rest) \<Rightarrow> if rest \<noteq> [] then INVALID_UINT32 else ucast v)"

definition toInt32 :: "string \<Rightarrow> 32 word" where
  "toInt32 input =
     (case strtol input of (v, rest) \<Rightarrow> if rest \<noteq> [] then INVALID_INT32 else ucast v)"

definition stringToPrice :: "string \<Rightarrow> price" where
  "stringToPrice str = (if str = ''MARKET'' \<or> str = ''MKT'' then 0 else toUint32 str)"

section \<open>Prompts\<close>

record console =
  con_stdin :: "string list"
  con_stdout :: string

definition print_stdout :: "string \<Rightarrow> 'a console_scheme \<Rightarrow> 'a console_scheme" where
  "print_stdout s con = con\<lparr>con_stdout := con_stdout con @ s\<rparr>"

definition getline :: "'a console_scheme \<Rightarrow> string \<times> 'a console_scheme" where
  "getline con =
     (case con_stdin con of [] \<Rightarrow> ('''', con) | l # ls \<Rightarrow> (l, con\<lparr>con_stdin := ls\<rparr>))"

definition show_prompt :: "string \<Rightarrow> 'a console_scheme \<Rightarrow> 'a console_scheme" where
  "show_prompt prompt = print_stdout (newline @ prompt @ '': '')"

definition promptForString :: "string \<Rightarrow> bool \<Rightarrow> 'a console_scheme \<Rightarrow> string \<times> 'a console_scheme" where
  "promptForString prompt uppercase con =
     (case getline (show_prompt prompt con) of (input, con) \<Rightarrow>
        (if uppercase then map to_upper input else input, con))"

definition promptForPrice :: "string \<Rightarrow> 'a console_scheme \<Rightarrow> price \<times> 'a console_scheme" where
  "promptForPrice prompt con =
     (case promptForString prompt True con of (str, con) \<Rightarrow> (stringToPrice str, con))"

definition promptForUint32 :: "string \<Rightarrow> 'a console_scheme \<Rightarrow> 32 word \<times> 'a console_scheme" where
  "promptForUint32 prompt con =
     (case getline (show_prompt prompt con) of (input, con) \<Rightarrow> (toUint32 input, con))"

definition promptForInt32 :: "string \<Rightarrow> 'a console_scheme \<Rightarrow> int32 \<times> 'a console_scheme" where
  "promptForInt32 prompt con =
     (case getline (show_prompt prompt con) of (input, con) \<Rightarrow> (toInt32 input, con))"

text \<open>Without an answer among the remaining lines the loop does not end.\<close>

partial_function (option) promptForYesNo ::
  "string \<Rightarrow> 'a console_scheme \<Rightarrow> (bool \<times> 'a console_scheme) option" where
  "promptForYesNo prompt con =
     (case promptForString prompt True con of (input, con) \<Rightarrow>
        if input \<in> {''Y'', ''YES'', ''T'', ''TRUE''} then Some (True, con)
        else if input \<in> {''N'', ''NO'', ''F'', ''FALSE''} then Some (False, con)
        else promptForYesNo prompt con)"

section \<open>White space\<close>

definition ltrim :: "string \<Rightarrow> string" where
  "ltrim s = dropWhile is_space s"

definition rtrim :: "string \<Rightarrow> string" where
  "rtrim s = rev (dropWhile is_space (rev s))"

definition trim :: "string \<Rightarrow> string" where
  "trim s = ltrim (rtrim s)"

section \<open>Facts\<close>

text \<open>
  C9. A number that is printed reads back: every 32-bit value round trips through the decimal
  text, unsigned and signed, and so does every price, a market price through its name.
\<close>

theorem number_roundtrip:
  "toUint32 (print_u32 w) = w \<and> toInt32 (print_i32 w) = w \<and>
   stringToPrice (if w = 0 then ''MKT'' else print_u32 w) = w"
proof -
  have u: "unat w < 2 ^ 64" using unat_32_less [of w] by simp
  have 1: "toUint32 (print_u32 w) = w"
  proof -
    have "(word_of_nat (unat w) :: 64 word) = word_of_int (int (unat w))" by simp
    then have "ucast (word_of_nat (unat w) :: 64 word) = (word_of_int (int (unat w)) :: 32 word)"
      by (simp only: ucast_word_of_int)
    then show ?thesis using u by (simp add: toUint32_def print_u32_def strtoul_decimal)
  qed
  have 2: "toInt32 (print_i32 w) = w"
  proof (cases "sint w < 0")
    case True
    have b: "nat (- sint w) \<le> 2 ^ 63"
      using sint_greater_eq [of w] by simp
    have "ucast (- word_of_nat (nat (- sint w)) :: 64 word) = (w :: 32 word)"
    proof -
      have e: "(- word_of_nat (nat (- sint w)) :: 64 word) = word_of_int (sint w)"
        using True by simp
      show ?thesis unfolding e ucast_word_of_int by simp
    qed
    then show ?thesis using True b by (simp add: toInt32_def print_i32_def strtol_minus_decimal)
  next
    case False
    have b: "nat (sint w) < 2 ^ 63" using sint_less [of w] by simp
    have "ucast (word_of_nat (nat (sint w)) :: 64 word) = w"
    proof -
      have e: "(word_of_nat (nat (sint w)) :: 64 word) = word_of_int (sint w)" using False by simp
      show ?thesis unfolding e ucast_word_of_int by simp
    qed
    then show ?thesis using False b by (simp add: toInt32_def print_i32_def strtol_decimal)
  qed
  have "\<exists>c cs. print_u32 w = c # cs \<and> is_digit c"
  proof -
    obtain c cs where c: "print_u32 w = c # cs"
      using decimal_digits [of "unat w"] by (cases "print_u32 w") (auto simp: print_u32_def)
    then show ?thesis using decimal_digits [of "unat w"] by (auto simp: print_u32_def)
  qed
  then have 3: "print_u32 w \<noteq> ''MARKET''" "print_u32 w \<noteq> ''MKT''"
    by (auto simp: is_digit_def code_def)
  show ?thesis using 1 2 3 by (simp add: stringToPrice_def)
qed

text \<open>
  C10. Tokens that contain no delimiter, each followed by one, are what \<^verbatim>\<open>split\<close> finds
  in their concatenation, empty tokens included; the last one may lack its delimiter unless it
  is empty.
\<close>

theorem split_roundtrip:
  assumes "d c" "\<forall>t \<in> set (ts @ [u]). \<forall>x \<in> set t. \<not> d x"
  shows "split_tokens d (concat (map (\<lambda>t. t @ [c]) ts) @ u) = ts @ (if u = [] then [] else [u])"
  using assms(2)
proof (induction ts)
  case Nil
  then have tw: "takeWhile (\<lambda>x. \<not> d x) u = u" and dw: "dropWhile (\<lambda>x. \<not> d x) u = []"
    by (simp_all add: takeWhile_eq_all_conv)
  have "u \<noteq> [] \<Longrightarrow> split_tokens d u = [u]"
    using split_tokens.simps(2) [of d "hd u" "tl u"] by (simp add: tw dw del: split_tokens.simps(2))
  then show ?case by (cases u) simp_all
next
  case (Cons t ts)
  let ?r = "concat (map (\<lambda>t. t @ [c]) ts) @ u"
  have "takeWhile (\<lambda>x. \<not> d x) (t @ c # ?r) = t" "dropWhile (\<lambda>x. \<not> d x) (t @ c # ?r) = c # ?r"
    using Cons.prems assms(1) by (simp_all add: takeWhile_tail takeWhile_append dropWhile_append)
  moreover obtain x xs where "t @ c # ?r = x # xs" by (cases "t @ c # ?r") auto
  ultimately have "split_tokens d (t @ c # ?r) = t # split_tokens d ?r"
    by (metis list.sel(3) split_tokens.simps(2))
  then show ?case using Cons by simp
qed

theorem split_roundtrip_witness:
  "split_tokens (\<lambda>c. c = CHR '' '') ''BUY 100  ABC'' = [''BUY'', ''100'', '''', ''ABC'']"
  using split_roundtrip [of "\<lambda>c. c = CHR '' ''" "CHR '' ''" "[''BUY'', ''100'', '''']" "''ABC''"] by simp

lemma show_prompt_stdin [simp]: "con_stdin (show_prompt p con) = con_stdin con"
  by (simp add: show_prompt_def print_stdout_def)

definition yes_no :: "string \<Rightarrow> bool" where
  "yes_no l = (map to_upper l \<in> {''Y'', ''YES'', ''T'', ''TRUE'', ''N'', ''NO'', ''F'', ''FALSE''})"

lemma promptForString_upper:
  obtains "con_stdin con = []" "promptForString p True con = ('''', show_prompt p con)"
  | l ls where "con_stdin con = l # ls"
      "promptForString p True con = (map to_upper l, (show_prompt p con)\<lparr>con_stdin := ls\<rparr>)"
  by (cases "con_stdin con") (auto simp: promptForString_def getline_def)

lemma yes_no_answered:
  assumes "promptForYesNo p con = Some r"
  shows "\<exists>l \<in> set (con_stdin con). yes_no l"
proof (rule promptForYesNo.raw_induct [where P = "\<lambda>p con r. \<exists>l \<in> set (con_stdin con). yes_no l", OF _ assms])
  fix f :: "string \<Rightarrow> 'a console_scheme \<Rightarrow> (bool \<times> 'a console_scheme) option"
  fix p and con :: "'a console_scheme" and r
  assume IH: "\<And>p con r. f p con = Some r \<Longrightarrow> \<exists>l \<in> set (con_stdin con). yes_no l"
    and r: "(case promptForString p True con of (input, con) \<Rightarrow>
        if input \<in> {''Y'', ''YES'', ''T'', ''TRUE''} then Some (True, con)
        else if input \<in> {''N'', ''NO'', ''F'', ''FALSE''} then Some (False, con)
        else f p con) = Some r"
  show "\<exists>l \<in> set (con_stdin con). yes_no l"
  proof (rule promptForString_upper [of con p])
    assume "con_stdin con = []" "promptForString p True con = ('''', show_prompt p con)"
    then show ?thesis using r IH [of p "show_prompt p con" r] by simp
  next
    fix l ls
    assume l: "con_stdin con = l # ls"
      "promptForString p True con = (map to_upper l, (show_prompt p con)\<lparr>con_stdin := ls\<rparr>)"
    show ?thesis
    proof (cases "yes_no l")
      case True
      then show ?thesis using l by simp
    next
      case False
      then have "f p ((show_prompt p con)\<lparr>con_stdin := ls\<rparr>) = Some r"
        using r l(2) by (simp add: yes_no_def)
      then show ?thesis using IH l(1) by fastforce
    qed
  qed
qed

lemma yes_no_returns:
  "l \<in> set (con_stdin con) \<Longrightarrow> yes_no l \<Longrightarrow> \<exists>r. promptForYesNo p con = Some r"
proof (induction "con_stdin con" arbitrary: con)
  case Nil
  then show ?case by simp
next
  case (Cons m ms)
  let ?con = "(show_prompt p con)\<lparr>con_stdin := ms\<rparr>"
  have m: "promptForString p True con = (map to_upper m, ?con)"
    by (rule promptForString_upper [of con p]) (use Cons(2) in auto)
  show ?case
  proof (cases "yes_no m")
    case True
    then show ?thesis by (subst promptForYesNo.simps) (auto simp: m yes_no_def)
  next
    case False
    then have "promptForYesNo p con = promptForYesNo p ?con"
      by (subst promptForYesNo.simps) (auto simp: m yes_no_def)
    moreover have "l \<in> set ms" using Cons(2,3,4) False by (metis set_ConsD)
    ultimately show ?thesis using Cons(1) [of ?con] Cons(4) by simp
  qed
qed

text \<open>
  C11. \<^verbatim>\<open>promptForYesNo\<close> returns exactly when one of the lines still to be read is an
  answer it knows, in either case; at the end of the input it asks for ever.
\<close>

theorem yes_no_prompt_returns:
  "(\<exists>r. promptForYesNo p con = Some r) \<longleftrightarrow> (\<exists>l \<in> set (con_stdin con). yes_no l)"
  using yes_no_answered yes_no_returns by blast

end
