(* ===== verification/Entry_Order.thy ===== *)
theory Entry_Order
  imports Entry_Util Order_Tracker
begin

text \<open>
  \<^verbatim>\<open>examples/mt_order_entry/Order.h\<close> and \<^verbatim>\<open>Order.cpp\<close>: the order of the
  interactive order entry, with the history of its life cycle and its text.
\<close>

section \<open>The class\<close>

datatype entry_state =
    Submitted
  | Rejected
  | Accepted
  | ModifyRequested
  | ModifyRejected
  | Modified
  | PartialFilled
  | Filled
  | CancelRequested
  | CancelRejected
  | Cancelled
  | Unknown

record state_change =
  sc_state :: entry_state
  sc_description :: string

definition StateChange :: "entry_state \<Rightarrow> string \<Rightarrow> state_change" where
  "StateChange state description = \<lparr>sc_state = state, sc_description = description\<rparr>"

definition StateChange_default :: state_change where
  "StateChange_default = \<lparr>sc_state = Unknown, sc_description = ''''\<rparr>"

record entry_order =
  eo_id :: string
  eo_buy_side :: bool
  eo_symbol :: string
  eo_quantity :: quantity
  eo_price :: price
  eo_stopPrice :: price
  eo_aon :: bool
  eo_ioc :: bool
  eo_quantityFilled :: quantity
  eo_quantityOnMarket :: int32
  eo_fillCost :: "32 word"
  eo_history :: "state_change list"
  eo_verbose :: bool

definition EntryOrder ::
  "string \<Rightarrow> bool \<Rightarrow> quantity \<Rightarrow> string \<Rightarrow> price \<Rightarrow> price \<Rightarrow> bool \<Rightarrow> bool \<Rightarrow> entry_order" where
  "EntryOrder order_id buy_side quantity symbol price stopPrice aon ioc =
     \<lparr>eo_id = order_id, eo_buy_side = buy_side, eo_symbol = symbol, eo_quantity = quantity,
      eo_price = price, eo_stopPrice = stopPrice, eo_aon = aon, eo_ioc = ioc,
      eo_quantityFilled = 0, eo_quantityOnMarket = 0, eo_fillCost = 0, eo_history = [],
      eo_verbose = False\<rparr>"

definition eo_is_limit :: "entry_order \<Rightarrow> bool" where
  "eo_is_limit x = (eo_price x \<noteq> 0)"

text \<open>What the book sees of it.\<close>

definition entry_view :: "entry_order \<Rightarrow> order_view" where
  "entry_view x =
     \<lparr>o_is_buy = eo_buy_side x, o_price = eo_price x, o_stop_price = eo_stopPrice x,
      o_order_qty = eo_quantity x, o_all_or_none = eo_aon x, o_immediate_or_cancel = eo_ioc x\<rparr>"

text \<open>The last element of an empty history does not exist.\<close>

definition currentState :: "entry_order \<Rightarrow> state_change result" where
  "currentState x = (if eo_history x = [] then Inl Out_of_bounds else Inr (last (eo_history x)))"

definition set_verbose :: "bool \<Rightarrow> entry_order \<Rightarrow> entry_order" where
  "set_verbose v x = x\<lparr>eo_verbose := v\<rparr>"

section \<open>The life cycle\<close>

definition record_state :: "entry_state \<Rightarrow> string \<Rightarrow> entry_order \<Rightarrow> entry_order" where
  "record_state s msg x = x\<lparr>eo_history := eo_history x @ [StateChange s msg]\<rparr>"

definition onSubmitted :: "entry_order \<Rightarrow> entry_order" where
  "onSubmitted x =
     (let msg = (if eo_buy_side x then ''BUY '' else ''SELL '') @ print_u32 (eo_quantity x) @ '' '' @
            eo_symbol x @ '' @'' @ (if eo_price x = 0 then ''MKT'' else print_u32 (eo_price x))
      in record_state Submitted msg x)"

definition onAccepted :: "entry_order \<Rightarrow> entry_order" where
  "onAccepted x = record_state Accepted '''' (x\<lparr>eo_quantityOnMarket := eo_quantity x\<rparr>)"

definition onRejected :: "string \<Rightarrow> entry_order \<Rightarrow> entry_order" where
  "onRejected reason x = record_state Rejected reason x"

definition onFilled :: "quantity \<Rightarrow> cost \<Rightarrow> entry_order \<Rightarrow> entry_order" where
  "onFilled fill_qty fill_cost x =
     record_state Filled (print_u32 fill_qty @ '' for '' @ print_u32 fill_cost)
       (x\<lparr>eo_quantityOnMarket := eo_quantityOnMarket x - fill_qty,
          eo_fillCost := eo_fillCost x + fill_cost\<rparr>)"

definition onCancelRequested :: "entry_order \<Rightarrow> entry_order" where
  "onCancelRequested x = record_state CancelRequested '''' x"

definition onCancelled :: "entry_order \<Rightarrow> entry_order" where
  "onCancelled x = record_state Cancelled '''' (x\<lparr>eo_quantityOnMarket := 0\<rparr>)"

definition onCancelRejected :: "string \<Rightarrow> entry_order \<Rightarrow> entry_order" where
  "onCancelRejected reason x = record_state CancelRejected reason x"

definition replace_text :: "int32 \<Rightarrow> price \<Rightarrow> string" where
  "replace_text size_delta new_price =
     (if size_delta \<noteq> SIZE_UNCHANGED then ''Quantity change: '' @ print_i32 size_delta @ '' '' else '''') @
     (if new_price \<noteq> PRICE_UNCHANGED then ''New Price '' @ print_u32 new_price else '''')"

definition onReplaceRequested :: "int32 \<Rightarrow> price \<Rightarrow> entry_order \<Rightarrow> entry_order" where
  "onReplaceRequested size_delta new_price x =
     record_state ModifyRequested (replace_text size_delta new_price) x"

definition onReplaced :: "int32 \<Rightarrow> price \<Rightarrow> entry_order \<Rightarrow> entry_order" where
  "onReplaced size_delta new_price x =
     (let x1 = (if size_delta \<noteq> SIZE_UNCHANGED
                then x\<lparr>eo_quantity := eo_quantity x + size_delta,
                       eo_quantityOnMarket := eo_quantityOnMarket x + size_delta\<rparr> else x);
          x2 = (if new_price \<noteq> PRICE_UNCHANGED then x1\<lparr>eo_price := new_price\<rparr> else x1)
      in record_state Modified (replace_text size_delta new_price) x2)"

definition onReplaceRejected :: "string \<Rightarrow> entry_order \<Rightarrow> entry_order" where
  "onReplaceRejected reason x = record_state ModifyRejected reason x"

section \<open>Text\<close>

definition state_text :: "entry_state \<Rightarrow> string" where
  "state_text s =
     (case s of
        Submitted \<Rightarrow> ''Submitted '' | Rejected \<Rightarrow> ''Rejected '' | Accepted \<Rightarrow> ''Accepted ''
      | ModifyRequested \<Rightarrow> ''ModifyRequested '' | ModifyRejected \<Rightarrow> ''ModifyRejected ''
      | Modified \<Rightarrow> ''Modified '' | PartialFilled \<Rightarrow> ''PartialFilled '' | Filled \<Rightarrow> ''Filled ''
      | CancelRequested \<Rightarrow> ''CancelRequested '' | CancelRejected \<Rightarrow> ''CancelRejected ''
      | Cancelled \<Rightarrow> ''Cancelled '' | Unknown \<Rightarrow> ''Unknown '')"

definition show_state_change :: "state_change \<Rightarrow> string" where
  "show_state_change event = ''{'' @ state_text (sc_state event) @ sc_description event @ ''}''"

definition show_order :: "entry_order \<Rightarrow> string result" where
  "show_order x =
     (let head = ''[#'' @ eo_id x @ '' '' @ (if eo_buy_side x then ''BUY'' else ''SELL'') @ '' '' @
            print_u32 (eo_quantity x) @ '' '' @ eo_symbol x @
            (if eo_price x = 0 then '' MKT'' else '' $'' @ print_u32 (eo_price x)) @
            (if eo_stopPrice x \<noteq> 0 then '' STOP '' @ print_u32 (eo_stopPrice x) else '''') @
            (if eo_aon x then '' AON'' else '''') @ (if eo_ioc x then '' IOC'' else '''');
          onMarket = eo_quantityOnMarket x;
          filled = eo_quantityFilled x;
          cost = eo_fillCost x;
          quantities = (if onMarket \<noteq> 0 then '' Open: '' @ print_u32 onMarket else '''') @
            (if filled \<noteq> 0 then '' Filled: '' @ print_u32 filled else '''') @
            (if cost \<noteq> 0 then '' Cost: '' @ print_u32 cost else '''')
      in rbind
           (if eo_verbose x
            then Inr (concat (map (\<lambda>event. newline @ tab @ show_state_change event) (eo_history x)))
            else rbind (currentState x) (\<lambda>event. Inr ('' Last Event:'' @ show_state_change event)))
           (\<lambda>events. Inr (head @ quantities @ events @ '']'')))"

section \<open>The events of an order\<close>

datatype entry_event =
    Ev_submitted
  | Ev_accepted
  | Ev_rejected string
  | Ev_filled quantity cost
  | Ev_cancel_requested
  | Ev_cancelled
  | Ev_cancel_rejected string
  | Ev_replace_requested int32 price
  | Ev_replaced int32 price
  | Ev_replace_rejected string

fun apply_event :: "entry_event \<Rightarrow> entry_order \<Rightarrow> entry_order" where
  "apply_event Ev_submitted = onSubmitted"
| "apply_event Ev_accepted = onAccepted"
| "apply_event (Ev_rejected r) = onRejected r"
| "apply_event (Ev_filled q c) = onFilled q c"
| "apply_event Ev_cancel_requested = onCancelRequested"
| "apply_event Ev_cancelled = onCancelled"
| "apply_event (Ev_cancel_rejected r) = onCancelRejected r"
| "apply_event (Ev_replace_requested d p) = onReplaceRequested d p"
| "apply_event (Ev_replaced d p) = onReplaced d p"
| "apply_event (Ev_replace_rejected r) = onReplaceRejected r"

lemmas entry_event_defs = onSubmitted_def onAccepted_def onRejected_def onFilled_def
  onCancelRequested_def onCancelled_def onCancelRejected_def onReplaceRequested_def
  onReplaced_def onReplaceRejected_def record_state_def StateChange_def

fun recorded_state :: "entry_event \<Rightarrow> entry_state" where
  "recorded_state Ev_submitted = Submitted"
| "recorded_state Ev_accepted = Accepted"
| "recorded_state (Ev_rejected r) = Rejected"
| "recorded_state (Ev_filled q c) = Filled"
| "recorded_state Ev_cancel_requested = CancelRequested"
| "recorded_state Ev_cancelled = Cancelled"
| "recorded_state (Ev_cancel_rejected r) = CancelRejected"
| "recorded_state (Ev_replace_requested d p) = ModifyRequested"
| "recorded_state (Ev_replaced d p) = Modified"
| "recorded_state (Ev_replace_rejected r) = ModifyRejected"

definition after :: "entry_event list \<Rightarrow> entry_order \<Rightarrow> entry_order" where
  "after es x = fold apply_event es x"

lemma after_simps [simp]:
  "after [] x = x" "after (e # es) x = after es (apply_event e x)"
  "after (es @ es') x = after es' (after es x)"
  by (simp_all add: after_def)

lemma apply_event_frame:
  "eo_quantityFilled (apply_event e x) = eo_quantityFilled x" "eo_id (apply_event e x) = eo_id x"
  "eo_symbol (apply_event e x) = eo_symbol x" "eo_buy_side (apply_event e x) = eo_buy_side x"
  "eo_verbose (apply_event e x) = eo_verbose x"
  "map sc_state (eo_history (apply_event e x)) = map sc_state (eo_history x) @ [recorded_state e]"
  by (cases e; simp add: entry_event_defs Let_def)+

lemma after_frame:
  "eo_quantityFilled (after es x) = eo_quantityFilled x"
  "map sc_state (eo_history (after es x)) = map sc_state (eo_history x) @ map recorded_state es"
  by (induction es arbitrary: x) (simp_all add: apply_event_frame)

text \<open>The quantity that fills and cancels of an accepted order account for.\<close>

definition trade_events :: "entry_event list \<Rightarrow> bool" where
  "trade_events es \<longleftrightarrow> (\<forall>e \<in> set es. \<exists>q c. e = Ev_filled q c)"

definition filled_sum :: "entry_event list \<Rightarrow> 32 word" where
  "filled_sum es = (\<Sum>e \<leftarrow> es. case e of Ev_filled q c \<Rightarrow> q | _ \<Rightarrow> 0)"

definition cost_sum :: "entry_event list \<Rightarrow> 32 word" where
  "cost_sum es = (\<Sum>e \<leftarrow> es. case e of Ev_filled q c \<Rightarrow> c | _ \<Rightarrow> 0)"

lemma after_fills:
  "trade_events es \<Longrightarrow> eo_quantityOnMarket (after es x) = eo_quantityOnMarket x - filled_sum es \<and>
     eo_fillCost (after es x) = eo_fillCost x + cost_sum es"
  by (induction es arbitrary: x)
    (auto simp: trade_events_def filled_sum_def cost_sum_def entry_event_defs)

lemma after_verbose: "eo_verbose (after es x) = eo_verbose x"
  by (induction es arbitrary: x) (simp_all add: apply_event_frame)

text \<open>Between two acceptances or cancels the open quantity and the fills make up the quantity.\<close>

lemma after_account:
  "\<forall>e \<in> set es. e \<noteq> Ev_accepted \<and> e \<noteq> Ev_cancelled \<Longrightarrow>
     eo_quantityOnMarket (after es x) + filled_sum es + eo_quantity x =
       eo_quantityOnMarket x + eo_quantity (after es x) \<and>
     eo_fillCost (after es x) = eo_fillCost x + cost_sum es"
proof (induction es arbitrary: x)
  case (Cons e es)
  then have "eo_quantityOnMarket (after es (apply_event e x)) + filled_sum es + eo_quantity (apply_event e x) =
      eo_quantityOnMarket (apply_event e x) + eo_quantity (after es (apply_event e x)) \<and>
    eo_fillCost (after es (apply_event e x)) = eo_fillCost (apply_event e x) + cost_sum es" by simp
  then show ?case
    using Cons.prems
    by (cases e) (auto simp: entry_event_defs Let_def filled_sum_def cost_sum_def algebra_simps)
qed (simp add: filled_sum_def cost_sum_def)

section \<open>Properties\<close>

text \<open>
  C12. Whatever happens to an order, its history is the sequence of its events. Its text ends
  with every event of the history in verbose mode, else with the last one; the text of an
  order that is not verbose and has no history does not exist. Since it was last accepted,
  its open quantity and its fills make up its quantity, unless it was cancelled. But the
  filled quantity of the class is never updated: it reports nothing as filled.
\<close>

theorem entry_order_history:
  fixes order_id symbol buy q p stop aon ioc v
  defines "x \<equiv> set_verbose v (EntryOrder order_id buy q symbol p stop aon ioc)"
  shows "map sc_state (eo_history (after es x)) = map recorded_state es \<and>
    (if es = [] \<and> \<not> v then show_order (after es x) = Inl Out_of_bounds
     else \<exists>text. show_order (after es x) = Inr (text @
       (if v then concat (map (\<lambda>event. newline @ tab @ show_state_change event) (eo_history (after es x)))
        else '' Last Event:'' @ show_state_change (last (eo_history (after es x)))) @ '']'')) \<and>
    (\<forall>es1 es2. es = es1 @ Ev_accepted # es2 \<longrightarrow> (\<forall>e \<in> set es2. e \<noteq> Ev_accepted \<and> e \<noteq> Ev_cancelled) \<longrightarrow>
       eo_quantityOnMarket (after es x) + filled_sum es2 = eo_quantity (after es x)) \<and>
    eo_quantityFilled (after es x) = 0"
proof (intro conjI allI impI)
  have v: "eo_verbose (after es x) = v" by (simp add: after_verbose x_def set_verbose_def)
  show h: "map sc_state (eo_history (after es x)) = map recorded_state es"
    by (simp add: after_frame x_def EntryOrder_def set_verbose_def)
  then have n: "eo_history (after es x) = [] \<longleftrightarrow> es = []" by (metis map_is_Nil_conv)
  show "if es = [] \<and> \<not> v then show_order (after es x) = Inl Out_of_bounds
     else \<exists>text. show_order (after es x) = Inr (text @
       (if v then concat (map (\<lambda>event. newline @ tab @ show_state_change event) (eo_history (after es x)))
        else '' Last Event:'' @ show_state_change (last (eo_history (after es x)))) @ '']'')"
    using v n by (auto simp: show_order_def currentState_def Let_def simp flip: append_assoc)
  show "eo_quantityFilled (after es x) = 0"
    by (simp add: after_frame x_def EntryOrder_def set_verbose_def)
  fix es1 es2
  assume e: "es = es1 @ Ev_accepted # es2" and f: "\<forall>e \<in> set es2. e \<noteq> Ev_accepted \<and> e \<noteq> Ev_cancelled"
  have "eo_quantityOnMarket (onAccepted (after es1 x)) = eo_quantity (onAccepted (after es1 x))"
    by (simp add: entry_event_defs)
  then show "eo_quantityOnMarket (after es x) + filled_sum es2 = eo_quantity (after es x)"
    using after_account [OF f, of "onAccepted (after es1 x)"] by (simp add: e)
qed

theorem entry_order_history_witness:
  "let y = after [Ev_submitted, Ev_accepted, Ev_filled 60 600, Ev_replaced (- 10) 0, Ev_filled 20 200]
       (set_verbose True (EntryOrder ''1'' True 100 ''ABC'' 10 0 False False))
   in (\<exists>text. show_order y = Inr text) \<and> eo_quantityOnMarket y + (60 + 20) = eo_quantity y"
proof -
  let ?x = "set_verbose True (EntryOrder ''1'' True 100 ''ABC'' 10 0 False False)"
  let ?rest = "[Ev_filled 60 600, Ev_replaced (- 10) 0, Ev_filled 20 200]"
  let ?es = "[Ev_submitted] @ Ev_accepted # ?rest"
  note L = entry_order_history [of ?es True "''1''" True 100 "''ABC''" 10 0 False False]
  have "\<exists>text. show_order (after ?es ?x) = Inr text" using L by auto
  moreover have "\<forall>e \<in> set ?rest. e \<noteq> Ev_accepted \<and> e \<noteq> Ev_cancelled" by simp
  then have "eo_quantityOnMarket (after ?es ?x) + filled_sum ?rest = eo_quantity (after ?es ?x)"
    using L by blast
  ultimately show ?thesis by (simp add: filled_sum_def Let_def)
qed

text \<open>
  While an accepted order is only filled, its quantity on the market is what is left of its
  quantity, and its cost the sum of the costs; a cancel takes the rest off the market.
\<close>

theorem entry_order_on_market:
  assumes "trade_events es"
  shows "eo_quantityOnMarket (after es (onAccepted x)) = eo_quantity x - filled_sum es \<and>
    eo_fillCost (after es (onAccepted x)) = eo_fillCost x + cost_sum es \<and>
    eo_quantityOnMarket (after (es @ [Ev_cancelled]) (onAccepted x)) = 0"
  using after_fills [OF assms, of "onAccepted x"] by (simp add: entry_event_defs)

theorem entry_order_on_market_witness:
  "eo_quantityOnMarket (after [Ev_filled 60 600, Ev_filled 30 300]
     (onAccepted (EntryOrder ''1'' True 100 ''ABC'' 10 0 False False))) = 10"
  using entry_order_on_market [of "[Ev_filled 60 600, Ev_filled 30 300]"
      "EntryOrder ''1'' True 100 ''ABC'' 10 0 False False"]
  by (simp add: trade_events_def filled_sum_def EntryOrder_def)

end
