(* ===== verification/Book_Text.thy ===== *)
theory Book_Text
  imports Text Callback_Run
begin

text \<open>
  The text of a book: the stream output of \<^verbatim>\<open>ComparablePrice\<close> and
  \<^verbatim>\<open>OrderBook::log\<close>, and the read accessors of the two classes.
\<close>

definition price_of :: "comparable_price \<Rightarrow> price" where
  "price_of k = cp_price k"

definition isBuy :: "comparable_price \<Rightarrow> bool" where
  "isBuy k = cp_buySide k"

definition symbol_of :: "order_book \<Rightarrow> string" where
  "symbol_of b = ob_symbol b"

definition show_comparable_price :: "comparable_price \<Rightarrow> string" where
  "show_comparable_price key =
     (if isBuy key then ''Buy at '' else ''Sell at '') @
     (if isMarket key then ''Market'' else print_u32 (price_of key))"

definition log_line :: "string \<Rightarrow> tracker_node \<Rightarrow> string" where
  "log_line side n =
     side @ print_u32 (open_qty (nd_val n)) @ '' @ '' @ show_comparable_price (nd_key n) @ newline"

definition book_log :: "order_book \<Rightarrow> string" where
  "book_log b =
     concat (map (log_line ''  Ask '') (rev (ob_asks b))) @ concat (map (log_line ''  Bid '') (ob_bids b))"

end
