(* ===== verification/Entry_Market.thy ===== *)
theory Entry_Market
  imports Entry_Order Depth_Order_Book Book_Text "HOL-Library.List_Lexorder"
begin

text \<open>
  \<^verbatim>\<open>examples/mt_order_entry/Market.h\<close> and \<^verbatim>\<open>Market.cpp\<close>: the commands of the
  interactive order entry, the books they act on, and the listener that keeps the orders up to
  date and logs what happens.
\<close>

section \<open>The state\<close>

text \<open>
  A shared pointer to an order is a number, its object the value of \<open>mk_store\<close> there. The
  maps are ordered by \<open><\<close> on strings. The log stream is what the listener prints to.
\<close>

datatype market_book =
    Plain_Book order_book
  | Depth_Book order_book depth_book

record market = console +
  mk_log :: string
  mk_cerr :: "exn list"
  mk_orderIdSeed :: "32 word"
  mk_store :: "order_ptr \<Rightarrow> entry_order"
  mk_next :: order_ptr
  mk_orders :: "(string, order_ptr) omap"
  mk_books :: "(string, market_book) omap"

definition Market :: "string list \<Rightarrow> market" where
  "Market input =
     \<lparr>con_stdin = input, con_stdout = '''', mk_log = '''', mk_cerr = [], mk_orderIdSeed = 0,
      mk_store = (\<lambda>_. EntryOrder '''' False 0 '''' 0 0 False False), mk_next = 0, mk_orders = [],
      mk_books = []\<rparr>"

definition out :: "string \<Rightarrow> market \<Rightarrow> market" where
  "out s m = m\<lparr>mk_log := mk_log m @ s\<rparr>"

text \<open>\<^verbatim>\<open>map[k] = v\<close>\<close>

definition om_assign :: "'k::linorder \<Rightarrow> 'v \<Rightarrow> ('k, 'v) omap \<Rightarrow> ('k, 'v) omap" where
  "om_assign k v m = om_put k v (om_insert (<) k v m)"

interpretation string_map: container_order "(<) :: string \<Rightarrow> string \<Rightarrow> bool" "\<lambda>_. True"
  by unfold_locales auto

lemma om_assign_lookup [simp]:
  assumes "om_sorted (<) m"
  shows "map_of (om_assign k v m) = (map_of m)(k \<mapsto> v)"
  using assms
proof (induction m)
  case Nil
  then show ?case by (simp add: om_assign_def om_put_def)
next
  case (Cons p m)
  obtain k' v' where p: "p = (k', v')" by fastforce
  have put: "map_of (om_put k v l) = map_of l" if "k \<notin> fst ` set l" for l :: "('a, 'b) omap"
    using that by (induction l) (auto simp: om_put_def)
  have less: "k \<notin> fst ` set m" if "\<not> k' < k"
    using that Cons.prems p by fastforce
  consider "k < k'" | "k' < k" | "k = k'" by (rule linorder_cases)
  then show ?case
  proof cases
    case 1
    then show ?thesis using put [OF less] p
      by (auto simp: om_assign_def om_put_def)
  next
    case 2
    then show ?thesis using Cons p by (auto simp: om_assign_def om_put_def fun_upd_twist)
  next
    case 3
    then show ?thesis using put [OF less] p by (auto simp: om_assign_def om_put_def)
  qed
qed

section \<open>The display of a depth\<close>

definition displayDepthLevel :: "depth_level \<Rightarrow> string" where
  "displayDepthLevel level =
     tab @ ''Price '' @ print_u32 (dl_price level) @ '' Count: '' @ print_u32 (dl_order_count level) @
     '' Quantity: '' @ print_u32 (dl_aggregate_qty level) @
     (if dl_is_excess level then '' EXCESS'' else '''') @
     '' Change id#: '' @ print_u32 (dl_last_change level) @ newline"

text \<open>One of the two loops; it stops when the position behind the one it is at is \<open>back\<close>.\<close>

function publish_side :: "depth \<Rightarrow> string \<Rightarrow> nat \<Rightarrow> nat \<Rightarrow> bool \<Rightarrow> string result" where
  "publish_side depth title pos back needTitle =
     (if length (dp_levels depth) \<le> pos then Inl Out_of_bounds
      else
        let level = dp_levels depth ! pos;
            shown = (dl_aggregate_qty level \<noteq> 0 \<and> dp_last_published_change depth < dl_last_change level);
            text = (if shown then (if needTitle then title else '''') @ displayDepthLevel level else '''')
        in if Suc pos = back then Inr text
           else rbind (publish_side depth title (Suc pos) back (needTitle \<and> \<not> shown)) (\<lambda>rest. Inr (text @ rest)))"
  by pat_completeness auto
termination
  by (relation "measure (\<lambda>(d, t, pos, b, n). length (dp_levels d) - pos)") auto

declare publish_side.simps [simp del]

definition publishDepth :: "depth \<Rightarrow> string result" where
  "publishDepth depth =
     rbind (publish_side depth (newline @ tab @ ''BIDS:'' @ newline) (bids depth) (last_bid_level depth) True)
       (\<lambda>b. rbind (publish_side depth (newline @ tab @ ''ASKS:'' @ newline) (asks depth) (last_ask_level depth) True)
         (\<lambda>a. Inr (b @ a)))"

section \<open>The listener\<close>

text \<open>
  While a book runs, the world is the market, and for a depth book the members of the derived
  class.
\<close>

record market_run = depth_book +
  mr_market :: market

definition market_env :: "market \<Rightarrow> order_env" where
  "market_env m i = entry_view (mk_store m i)"

definition run_env :: "market_run \<Rightarrow> order_env" where
  "run_env w = market_env (mr_market w)"

definition run_out :: "string \<Rightarrow> market_run system effect" where
  "run_out t s = (None, s\<lparr>sys_world := (sys_world s)\<lparr>mr_market := out t (mr_market (sys_world s))\<rparr>\<rparr>)"

definition run_order :: "order_ptr option \<Rightarrow> (entry_order \<Rightarrow> entry_order) \<Rightarrow> market_run system effect" where
  "run_order ord f s =
     (case ord of
        None \<Rightarrow> (Some Invalid_iterator, s)
      | Some i \<Rightarrow>
          let m = mr_market (sys_world s)
          in (None, s\<lparr>sys_world := (sys_world s)
                       \<lparr>mr_market := m\<lparr>mk_store := (mk_store m)(i := f (mk_store m i))\<rparr>\<rparr>\<rparr>))"

text \<open>Prints \<open>front\<close>, the order, \<open>rest\<close> and a line end; \<open>front\<close> may look at the order.\<close>

definition run_show ::
  "order_ptr option \<Rightarrow> (entry_order \<Rightarrow> string) \<Rightarrow> string \<Rightarrow> market_run system effect" where
  "run_show ord front rest s =
     (case ord of
        None \<Rightarrow> (Some Invalid_iterator, s)
      | Some i \<Rightarrow>
          let x = mk_store (mr_market (sys_world s)) i
          in (case show_order x of
                Inl e \<Rightarrow> (Some e, s)
              | Inr t \<Rightarrow> run_out (front x @ t @ rest @ newline) s))"

definition text_of :: "string option \<Rightarrow> string" where
  "text_of r = (case r of None \<Rightarrow> '''' | Some t \<Rightarrow> t)"

definition market_on_accept :: "order_ptr option \<Rightarrow> market_run system effect" where
  "market_on_accept ord =
     eff_then (run_order ord onAccepted) (run_show ord (\<lambda>_. tab @ ''Accepted: '') '''')"

definition market_on_reject :: "order_ptr option \<Rightarrow> string option \<Rightarrow> market_run system effect" where
  "market_on_reject ord reason =
     eff_then (run_order ord (onRejected (text_of reason)))
       (run_show ord (\<lambda>_. tab @ ''Rejected: '') ('' '' @ text_of reason))"

definition fill_text :: "quantity \<Rightarrow> cost \<Rightarrow> entry_order \<Rightarrow> string" where
  "fill_text fill_qty fill_cost x =
     tab @ (if eo_buy_side x then ''Bought: '' else ''Sold: '') @ print_u32 fill_qty @ '' Shares for '' @
     print_u32 fill_cost @ '' ''"

definition market_on_fill ::
  "order_ptr option \<Rightarrow> order_ptr option \<Rightarrow> quantity \<Rightarrow> cost \<Rightarrow> market_run system effect" where
  "market_on_fill ord matched_order fill_qty fill_cost =
     eff_then (run_order ord (onFilled fill_qty fill_cost))
    (eff_then (run_order matched_order (onFilled fill_qty fill_cost))
    (eff_then (run_show ord (fill_text fill_qty fill_cost) '''')
       (run_show matched_order (fill_text fill_qty fill_cost) '''')))"

definition market_on_cancel :: "order_ptr option \<Rightarrow> market_run system effect" where
  "market_on_cancel ord =
     eff_then (run_order ord onCancelled) (run_show ord (\<lambda>_. tab @ ''Canceled: '') '''')"

definition market_on_cancel_reject :: "order_ptr option \<Rightarrow> string option \<Rightarrow> market_run system effect" where
  "market_on_cancel_reject ord reason =
     eff_then (run_order ord (onCancelRejected (text_of reason)))
       (run_show ord (\<lambda>_. tab @ ''Cancel Reject: '') ('' '' @ text_of reason))"

definition modify_text :: "int32 \<Rightarrow> price \<Rightarrow> string" where
  "modify_text size_delta new_price =
     (if size_delta \<noteq> SIZE_UNCHANGED then '' QUANTITY  += '' @ print_i32 size_delta else '''') @
     (if new_price \<noteq> PRICE_UNCHANGED then '' PRICE '' @ print_u32 new_price else '''')"

definition market_on_replace :: "order_ptr option \<Rightarrow> int32 \<Rightarrow> price \<Rightarrow> market_run system effect" where
  "market_on_replace ord size_delta new_price =
     eff_then (run_order ord (onReplaced size_delta new_price))
       (run_show ord (\<lambda>_. tab @ ''Modify '' @ modify_text size_delta new_price) '''')"

definition market_on_replace_reject :: "order_ptr option \<Rightarrow> string option \<Rightarrow> market_run system effect" where
  "market_on_replace_reject ord reason =
     eff_then (run_order ord (onReplaceRejected (text_of reason)))
       (run_show ord (\<lambda>_. tab @ ''Replace Reject: '') ('' '' @ text_of reason))"

definition market_on_trade :: "quantity \<Rightarrow> cost \<Rightarrow> market_run system effect" where
  "market_on_trade qty cost s =
     run_out (tab @ ''Trade: '' @ print_u32 qty @ '' '' @ symbol_of (sys_book s) @ '' Cost '' @
              print_u32 cost @ newline) s"

definition market_on_order_book_change :: "market_run system effect" where
  "market_on_order_book_change s =
     run_out (tab @ ''Book Change:  '' @ symbol_of (sys_book s) @ newline) s"

definition change_text :: "depth \<Rightarrow> string" where
  "change_text depth =
     (if changed depth then '' Changed'' else '' Unchanged'') @ '' Change Id: '' @
     print_u32 (dp_last_change depth) @ '' Published: '' @ print_u32 (dp_last_published_change depth)"

definition market_on_bbo_change :: "market_run system effect" where
  "market_on_bbo_change s =
     run_out (tab @ ''BBO Change:  '' @ symbol_of (sys_book s) @ change_text (db_depth (sys_world s)) @
              newline) s"

definition market_on_depth_change :: "market_run system effect" where
  "market_on_depth_change s =
     (let depth = db_depth (sys_world s)
      in eff_then (run_out (tab @ ''Depth Change:  '' @ symbol_of (sys_book s) @ change_text depth))
           (\<lambda>s. case publishDepth depth of
                  Inl e \<Rightarrow> (Some e, s)
                | Inr t \<Rightarrow> run_out (t @ newline) s) s)"

definition market_listener :: "market_run handler" where
  "market_listener c =
     (case c of
        L_on_accept l ord \<Rightarrow> market_on_accept ord
      | L_on_reject l ord r \<Rightarrow> market_on_reject ord r
      | L_on_fill l ord matched q x \<Rightarrow> market_on_fill ord matched q x
      | L_on_cancel l ord \<Rightarrow> market_on_cancel ord
      | L_on_cancel_reject l ord r \<Rightarrow> market_on_cancel_reject ord r
      | L_on_replace l ord d p \<Rightarrow> market_on_replace ord d p
      | L_on_replace_reject l ord r \<Rightarrow> market_on_replace_reject ord r
      | L_on_trade l q x \<Rightarrow> market_on_trade q x
      | L_on_order_book_change l \<Rightarrow> market_on_order_book_change
      | L_on_depth_change l \<Rightarrow> market_on_depth_change
      | L_on_bbo_change l \<Rightarrow> market_on_bbo_change
      | _ \<Rightarrow> eff_skip)"

definition plain_perform :: "callback \<Rightarrow> market_run system effect" where
  "plain_perform = perform_callback run_env (base_handler market_listener)"

definition depth_perform :: "callback \<Rightarrow> market_run system effect" where
  "depth_perform = perform_callback run_env (depth_handler run_env market_listener)"

end
