(* ===== verification/Entry_Commands.thy ===== *)
theory Entry_Commands
  imports Entry_Market
begin

text \<open>
  The commands of \<^verbatim>\<open>examples/mt_order_entry/Market.cpp\<close>. A command that asks the
  console for ever is \<open>None\<close>; one left by an exception is \<open>Inl\<close>; otherwise it returns its
  boolean and the market.
\<close>

type_synonym command = "market \<Rightarrow> (bool \<times> market) result option"

text \<open>A step that reads arguments: its value, or none when the command is refused.\<close>

type_synonym 'a reading = "('a option \<times> market) option"

definition reading ::
  "'a reading \<Rightarrow> ('a \<Rightarrow> command) \<Rightarrow> (bool \<times> market) result option" where
  "reading r f = Option.bind r (\<lambda>(v, m). case v of None \<Rightarrow> Some (Inr (False, m)) | Some x \<Rightarrow> f x m)"

definition out_line :: "string \<Rightarrow> market \<Rightarrow> market" where
  "out_line s = out (s @ newline)"

section \<open>Books\<close>

definition findBook :: "string \<Rightarrow> market \<Rightarrow> market_book option" where
  "findBook symbol m = map_of (mk_books m) symbol"

definition symbolIsDefined :: "string \<Rightarrow> market \<Rightarrow> bool" where
  "symbolIsDefined symbol m = (map_of (mk_books m) symbol \<noteq> None)"

text \<open>The market is the listener 0; \<^verbatim>\<open>DepthOrderBook\<close> has its default size.\<close>

definition listened_book :: "string \<Rightarrow> order_book" where
  "listened_book symbol =
     set_order_book_listener (Some 0) (set_trade_listener (Some 0)
       (set_order_listener (Some 0) (OrderBook symbol)))"

definition addBook :: "string \<Rightarrow> bool \<Rightarrow> market \<Rightarrow> market" where
  "addBook symbol useDepthBook m =
     (let (text, book) =
            (if useDepthBook then
               (''Create new depth order book for '',
                Depth_Book (listened_book symbol)
                  (set_depth_listener (Some 0) (set_bbo_listener (Some 0) (DepthOrderBook 5))))
             else (''Create new order book for '', Plain_Book (listened_book symbol)))
      in (out_line (text @ symbol) m)\<lparr>mk_books := om_assign symbol book (mk_books m)\<rparr>)"

definition book_of :: "market_book \<Rightarrow> order_book" where
  "book_of mb = (case mb of Plain_Book b \<Rightarrow> b | Depth_Book b d \<Rightarrow> b)"

definition start_run :: "order_book \<Rightarrow> depth_book \<Rightarrow> market \<Rightarrow> market_run system" where
  "start_run b d m =
     \<lparr>sys_book = b, sys_world = \<lparr>db_depth = db_depth d, db_bbo_listener = db_bbo_listener d,
        db_depth_listener = db_depth_listener d, mr_market = m\<rparr>, sys_log = []\<rparr>"

definition end_run :: "string \<Rightarrow> market_book \<Rightarrow> market_run system \<Rightarrow> market" where
  "end_run symbol mb s =
     (let m = mr_market (sys_world s)
      in m\<lparr>mk_books := om_put symbol mb (mk_books m),
           mk_cerr := mk_cerr m @ map (\<lambda>(l, t, e). e) (sys_log s)\<rparr>)"

text \<open>A call of a book through its shared pointer, with the class's \<^verbatim>\<open>perform_callback\<close>.\<close>

definition run_book ::
  "string \<Rightarrow> ((callback \<Rightarrow> market_run system effect) \<Rightarrow> market_run system
     \<Rightarrow> ('a \<times> market_run system) result option) \<Rightarrow> market \<Rightarrow> ('a \<times> market) result option" where
  "run_book symbol call m =
     (case findBook symbol m of
        None \<Rightarrow> Some (Inl Invalid_iterator)
      | Some (Plain_Book b) \<Rightarrow>
          map_option (\<lambda>r. rbind r (\<lambda>(v, s). Inr (v, end_run symbol (Plain_Book (sys_book s)) s)))
            (call plain_perform (start_run b (DepthOrderBook 0) m))
      | Some (Depth_Book b d) \<Rightarrow>
          map_option (\<lambda>r. rbind r (\<lambda>(v, s). Inr (v, end_run symbol
              (Depth_Book (sys_book s) \<lparr>db_depth = db_depth (sys_world s),
                 db_bbo_listener = db_bbo_listener (sys_world s),
                 db_depth_listener = db_depth_listener (sys_world s)\<rparr>) s)))
            (call depth_perform (start_run b d m)))"

section \<open>BUY and SELL\<close>

definition add_quantity :: "string list \<Rightarrow> nat \<Rightarrow> market \<Rightarrow> (quantity \<times> nat) reading" where
  "add_quantity tokens pos m =
     (let (qtyStr, pos) = nextToken tokens pos;
          (quantity, m) = (if qtyStr \<noteq> [] then (toUint32 qtyStr, m) else promptForUint32 ''Quantity'' m)
      in if quantity = 0 \<or> 1000000000 < quantity
         then Some (None, out_line ''--Expecting quantity'' m)
         else Some (Some (quantity, pos), m))"

partial_function (option) ask_book_type :: "string \<Rightarrow> market \<Rightarrow> (string \<times> market) option" where
  "ask_book_type symbol m =
     (case promptForString (''New Symbol '' @ symbol @ ''. '' @ newline @
              ''Add [S]imple book, or [D]epth book, or '' @ [char_of (39 :: nat)] @ ''N'' @
              [char_of (39 :: nat)] @ '' to cancel request.'' @ newline @ ''[SDN}'') True m of
        (bookType, m) \<Rightarrow>
          if bookType \<in> {''S'', ''D'', ''N''} then Some (bookType, m) else ask_book_type symbol m)"

definition add_symbol :: "string list \<Rightarrow> nat \<Rightarrow> market \<Rightarrow> (string \<times> nat) reading" where
  "add_symbol tokens pos m =
     (let (symbol, pos) = nextToken tokens pos;
          (symbol, m) = (if symbol = [] then promptForString ''Symbol'' True m else (symbol, m))
      in if symbolIsDefined symbol m then Some (Some (symbol, pos), m)
         else if symbol \<noteq> [] \<and> (hd symbol = CHR ''+'' \<or> hd symbol = CHR ''!'') then
           (let useDepth = (hd symbol = CHR ''!'');
                symbol = tl symbol
            in Some (Some (symbol, pos),
                 if symbolIsDefined symbol m then m else addBook symbol useDepth m))
         else
           Option.bind (ask_book_type symbol m) (\<lambda>(bookType, m).
             if bookType = ''N'' then Some (None, out_line ''Request ignored'' m)
             else Some (Some (symbol, pos), addBook symbol (bookType = ''D'') m)))"

definition add_price :: "string list \<Rightarrow> nat \<Rightarrow> market \<Rightarrow> (price \<times> nat) reading" where
  "add_price tokens pos m =
     (let (priceStr, pos) = nextToken tokens pos;
          (price, m) = (if priceStr \<noteq> [] then (stringToPrice priceStr, m)
                        else promptForPrice ''Limit Price or MKT'' m)
      in if 10000000 < price then Some (None, out_line ''--Expecting price or MARKET'' m)
         else Some (Some (price, pos), m))"

text \<open>The flags \<open>aon\<close>, \<open>ioc\<close> and the stop price collected so far are passed on.\<close>

partial_function (option) add_options ::
  "string list \<Rightarrow> nat \<Rightarrow> bool \<Rightarrow> bool \<Rightarrow> price \<Rightarrow> market
     \<Rightarrow> ((bool \<times> bool \<times> price) option \<times> market) option" where
  "add_options tokens pos aon ioc stopPrice m =
     (let (option, pos) = nextToken tokens pos;
          prompted = (option = []);
          (option, m) = (if prompted then promptForString ''AON, or IOC, or STOP, or END'' True m
                         else (option, m))
      in if option \<in> {'';'', ''E'', ''END''} then Some (Some (aon, ioc, stopPrice), m)
         else if option \<in> {''A'', ''AON''} then add_options tokens pos True ioc stopPrice m
         else if option \<in> {''I'', ''IOC''} then add_options tokens pos aon True stopPrice m
         else
           let (ok, prompted, stopPrice, pos, m) =
                 (if option \<in> {''S'', ''STOP''} then
                    (let (stopstr, pos) = nextToken tokens pos
                     in if stopstr \<noteq> []
                        then (stringToPrice stopstr \<le> 10000000, prompted, stringToPrice stopstr, pos, m)
                        else (let (stopPrice, m) = promptForUint32 ''Stop Price'' m
                              in (stopPrice \<le> 10000000, True, stopPrice, pos, m)))
                  else (False, prompted, stopPrice, pos, m))
           in if ok then add_options tokens pos aon ioc stopPrice m
              else
                let m = out_line (''Unknown option '' @ option) m
                in if prompted then add_options tokens pos aon ioc stopPrice m
                   else Some (None, out_line ''--Expecting AON IOC STOP or END'' m))"

definition entry_conditions :: "bool \<Rightarrow> bool \<Rightarrow> order_conditions" where
  "entry_conditions aon ioc =
     (if aon then oc_all_or_none else oc_no_conditions) OR
     (if ioc then oc_immediate_or_cancel else oc_no_conditions)"

definition submit_entry ::
  "string \<Rightarrow> quantity \<Rightarrow> string \<Rightarrow> price \<Rightarrow> bool \<times> bool \<times> price \<Rightarrow> command" where
  "submit_entry side quantity symbol price options m =
     (case options of (aon, ioc, stopPrice) \<Rightarrow>
      let seed = mk_orderIdSeed m + 1;
          orderId = print_u32 seed;
          ord = mk_next m;
          x = EntryOrder orderId (side = ''BUY'') quantity symbol price stopPrice aon ioc;
          m = m\<lparr>mk_orderIdSeed := seed\<rparr>
      in case findBook symbol m of
           None \<Rightarrow> Some (Inr (False, out_line (''--No order book for symbol'' @ symbol) m))
         | Some book \<Rightarrow>
             let x = onSubmitted x
             in (case show_order x of
                   Inl e \<Rightarrow> Some (Inl e)
                 | Inr t \<Rightarrow>
                     let m = out_line (''ADDING order:  '' @ t) m;
                         m = m\<lparr>mk_store := (mk_store m)(ord := x), mk_next := Suc ord,
                               mk_orders := om_assign orderId ord (mk_orders m)\<rparr>
                     in map_option (\<lambda>r. rbind r (\<lambda>(matched, m). Inr (True, m)))
                          (run_book symbol (\<lambda>perform. book_add run_env perform ord (entry_conditions aon ioc)) m)))"

definition doAdd :: "string \<Rightarrow> string list \<Rightarrow> nat \<Rightarrow> command" where
  "doAdd side tokens pos m =
     reading (add_quantity tokens pos m) (\<lambda>(quantity, pos) m.
     reading (add_symbol tokens pos m) (\<lambda>(symbol, pos) m.
     reading (add_price tokens pos m) (\<lambda>(price, pos) m.
     reading (add_options tokens pos False False 0 m) (\<lambda>options m.
       submit_entry side quantity symbol price options m))))"

section \<open>Finding an order\<close>

text \<open>The order and the symbol of its book; none when it was refused.\<close>

definition findOrderById :: "string \<Rightarrow> market \<Rightarrow> (order_ptr \<times> string) option \<times> market" where
  "findOrderById orderId m =
     (case map_of (mk_orders m) orderId of
        None \<Rightarrow> (None, out_line (''--Can'' @ [char_of (39 :: nat)] @ ''t find OrderID #'' @ orderId) m)
      | Some ord \<Rightarrow>
          let symbol = eo_symbol (mk_store m ord)
          in case findBook symbol m of
               None \<Rightarrow> (None, out_line (''--No order book for symbol'' @ symbol) m)
             | Some book \<Rightarrow> (Some (ord, symbol), m))"

definition findExistingOrder ::
  "string list \<Rightarrow> nat \<Rightarrow> market \<Rightarrow> ((order_ptr \<times> string) option \<times> nat) \<times> market" where
  "findExistingOrder tokens position m =
     (let (orderId, position) = nextToken tokens position;
          orderId = trim orderId;
          (orderId, m) = (if orderId = []
             then (case promptForString ''Order Id#'' True m of (s, m) \<Rightarrow> (trim s, m)) else (orderId, m));
          hash = (orderId \<noteq> [] \<and> hd orderId = CHR ''#'');
          orderId = (if hash then trim (tl orderId) else orderId)
      in if hash \<and> orderId = [] then ((None, position), out_line ''--Expecting #orderID'' m)
         else
           let relative = (orderId \<noteq> [] \<and> hd orderId = CHR ''-'');
               orderOffset = toInt32 orderId
           in if relative \<and> orderOffset = INVALID_INT32
              then ((None, position), out_line ''--Expecting orderID or offset'' m)
              else
                let orderId = (if relative then print_u32 (mk_orderIdSeed m + 1 + orderOffset) else orderId);
                    (found, m) = findOrderById orderId m
                in ((found, position), m))"

definition with_existing ::
  "string list \<Rightarrow> nat \<Rightarrow> (order_ptr \<Rightarrow> string \<Rightarrow> nat \<Rightarrow> command) \<Rightarrow> command" where
  "with_existing tokens position f m =
     (case findExistingOrder tokens position m of
        ((None, position), m) \<Rightarrow> Some (Inr (False, m))
      | ((Some (ord, symbol), position), m) \<Rightarrow> f ord symbol position m)"

section \<open>CANCEL\<close>

definition doCancel :: "string list \<Rightarrow> nat \<Rightarrow> command" where
  "doCancel tokens position =
     with_existing tokens position (\<lambda>ord symbol position m.
       case show_order (mk_store m ord) of
         Inl e \<Rightarrow> Some (Inl e)
       | Inr t \<Rightarrow>
           map_option (\<lambda>r. rbind r (\<lambda>(u, m). Inr (True, m)))
             (run_book symbol (\<lambda>perform. book_cancel run_env perform ord)
                (out_line (''Requesting Cancel: '' @ t) m)))"

section \<open>MODIFY\<close>

definition modify_price :: "string list \<Rightarrow> nat \<Rightarrow> market \<Rightarrow> price option \<times> nat \<times> market" where
  "modify_price tokens position m =
     (let (priceStr, position) = nextToken tokens position;
          (newPrice, m) = (if priceStr = [] then promptForUint32 ''New Price'' m
                           else (toUint32 priceStr, m))
      in if 0 < newPrice \<and> newPrice \<noteq> INVALID_UINT32 then (Some newPrice, position, m)
         else (None, position, out_line ''Invalid price'' m))"

definition modify_quantity :: "string list \<Rightarrow> nat \<Rightarrow> market \<Rightarrow> int32 option \<times> nat \<times> market" where
  "modify_quantity tokens position m =
     (let (qtyStr, position) = nextToken tokens position;
          (qty, m) = (if qtyStr = [] then promptForInt32 ''Change in quantity'' m
                      else (toInt32 qtyStr, m))
      in if qty \<noteq> INVALID_INT32 then (Some qty, position, m)
         else (None, position, out_line ''Invalid quantity change.'' m))"

partial_function (option) modify_options ::
  "string list \<Rightarrow> nat \<Rightarrow> int32 \<Rightarrow> price \<Rightarrow> market \<Rightarrow> ((int32 \<times> price) option \<times> market) option" where
  "modify_options tokens position quantityChange price m =
     (let (option, position) = nextToken tokens position;
          prompted = (option = []);
          (option, m) = (if prompted then promptForString ''PRICE, or QUANTITY, or END'' True m
                         else (option, m))
      in if option \<in> {'';'', ''E'', ''END''} then Some (Some (quantityChange, price), m)
         else
           let (ok, quantityChange, price, position, m) =
                 (if option \<in> {''P'', ''PRICE''} then
                    (case modify_price tokens position m of
                       (None, position, m) \<Rightarrow> (False, quantityChange, price, position, m)
                     | (Some p, position, m) \<Rightarrow> (True, quantityChange, p, position, m))
                  else if option \<in> {''Q'', ''QUANTITY''} then
                    (case modify_quantity tokens position m of
                       (None, position, m) \<Rightarrow> (False, quantityChange, price, position, m)
                     | (Some q, position, m) \<Rightarrow> (True, q, price, position, m))
                  else (False, quantityChange, price, position, m))
           in if ok then modify_options tokens position quantityChange price m
              else
                let m = out_line (''Unknown or invalid option '' @ option) m
                in if prompted then modify_options tokens position quantityChange price m
                   else Some (None, out_line ''--Expecting PRICE <price>, or QUANTITY <change>, or  END'' m))"

definition doModify :: "string list \<Rightarrow> nat \<Rightarrow> command" where
  "doModify tokens position =
     with_existing tokens position (\<lambda>ord symbol position m.
       reading (modify_options tokens position SIZE_UNCHANGED PRICE_UNCHANGED m)
         (\<lambda>(quantityChange, price) m.
           map_option (\<lambda>r. rbind r (\<lambda>(matched, m).
               Inr (True, out_line (''Requested Modify'' @ modify_text quantityChange price) m)))
             (run_book symbol (\<lambda>perform. book_replace run_env perform ord quantityChange price) m)))"

section \<open>DISPLAY\<close>

text \<open>An order is printed in the verbose form asked for, and left in the short form.\<close>

definition display_order :: "bool \<Rightarrow> order_ptr \<Rightarrow> market \<Rightarrow> market result" where
  "display_order verbose ord m =
     rbind (show_order (set_verbose verbose (mk_store m ord))) (\<lambda>t.
       Inr ((out_line t m)\<lparr>mk_store := (mk_store m)(ord := set_verbose False (mk_store m ord))\<rparr>))"

fun display_orders :: "bool \<Rightarrow> (order_ptr \<Rightarrow> bool) \<Rightarrow> order_ptr list \<Rightarrow> market \<Rightarrow> market result" where
  "display_orders verbose p [] m = Inr m"
| "display_orders verbose p (ord # ords) m =
     (if p ord then rbind (display_order verbose ord m) (display_orders verbose p ords)
      else display_orders verbose p ords m)"

definition display_symbol :: "bool \<Rightarrow> string \<Rightarrow> market \<Rightarrow> (bool \<times> market) result" where
  "display_symbol verbose symbol m =
     (if symbolIsDefined symbol m then
        rbind (display_orders verbose (\<lambda>i. eo_symbol (mk_store m i) = symbol) (map snd (mk_orders m)) m)
          (\<lambda>m. Inr (True, case findBook symbol m of
                      None \<Rightarrow> out_line (''--No order book for symbol'' @ symbol) m
                    | Some mb \<Rightarrow> out (book_log (book_of mb)) m))
      else if symbol = ''ALL'' then
        rbind (display_orders verbose (\<lambda>_. True) (map snd (mk_orders m)) m)
          (\<lambda>m. Inr (True, out (concat (map (\<lambda>(s, mb). ''Order book for '' @ s @ newline @ book_log (book_of mb))
                                          (mk_books m))) m))
      else Inr (False, out_line (''--Unknown symbol: '' @ symbol) m))"

text \<open>The parameter behind an optional \<^verbatim>\<open>+\<close>, and whether that was given.\<close>

definition display_parameter :: "string list \<Rightarrow> nat \<Rightarrow> market \<Rightarrow> (bool \<times> string) \<times> market" where
  "display_parameter tokens pos m =
     (let (parameter, pos1) = nextToken tokens pos;
          (parameter, pos, m) =
            (if parameter = [] then
               (case promptForString (''+ or #OrderId or -orderOffset or symbol or '' @
                   [char_of (34 :: nat)] @ ''ALL'' @ [char_of (34 :: nat)]) True m of (s, m) \<Rightarrow> (s, pos1, m))
             else (parameter, pos1 - 1, m));
          verbose = (parameter \<noteq> [] \<and> hd parameter = CHR ''+'')
      in if \<not> verbose then ((False, parameter), m)
         else if 1 < length parameter then ((True, tl parameter), m)
         else
           let (parameter, pos) = nextToken tokens (pos + 1)
           in if parameter = [] then
                (case promptForString (''#OrderId or -orderOffset or symbol or '' @
                   [char_of (34 :: nat)] @ ''ALL'' @ [char_of (34 :: nat)]) True m of (s, m) \<Rightarrow> ((True, s), m))
              else ((True, parameter), m))"

definition doDisplay :: "string list \<Rightarrow> nat \<Rightarrow> command" where
  "doDisplay tokens pos m =
     (case display_parameter tokens pos m of ((verbose, parameter), m) \<Rightarrow>
        if parameter \<noteq> [] \<and>
           (hd parameter = CHR ''#'' \<or> hd parameter = CHR ''-'' \<or> is_digit (hd parameter)) then
          (case findOrderById parameter m of
             (None, m) \<Rightarrow> Some (display_symbol verbose parameter m)
           | (Some (ord, symbol), m) \<Rightarrow>
               Some (rbind (show_order (mk_store m ord)) (\<lambda>t. Inr (True, out_line t m))))
        else Some (display_symbol verbose parameter m))"

section \<open>The dispatcher\<close>

definition apply_command :: "string list \<Rightarrow> command" where
  "apply_command tokens m =
     (if tokens = [] then Some (Inl Out_of_bounds)
      else
        let cmd = hd tokens
        in if cmd = ''BUY'' \<or> cmd = ''B'' then doAdd ''BUY'' tokens 1 m
           else if cmd = ''SELL'' \<or> cmd = ''S'' then doAdd ''SELL'' tokens 1 m
           else if cmd = ''CANCEL'' \<or> cmd = ''C'' then doCancel tokens 1 m
           else if cmd = ''MODIFY'' \<or> cmd = ''M'' then doModify tokens 1 m
           else if cmd = ''DISPLAY'' \<or> cmd = ''D'' then doDisplay tokens 1 m
           else Some (Inr (False, m)))"

end
