(* ===== verification/Entry_Main.thy ===== *)
theory Entry_Main
  imports Entry_Commands
begin

text \<open>
  \<^verbatim>\<open>examples/mt_order_entry/mt_order_entry_main.cpp\<close>: the loop that reads command
  lines from the console or a file, brings them into the form the commands expect, and applies
  them. The contents of the files is a parameter; the log and the standard output are kept
  apart also when they are the same stream.
\<close>

section \<open>Texts\<close>

definition market_prompt :: string where
  "market_prompt =
     tab @ ''(B)uy'' @ newline @ tab @ ''(S)ell'' @ newline @ tab @ ''(M)odify'' @ newline @
     tab @ ''(C)ancel'' @ newline @ tab @ ''(D)isplay'' @ newline"

definition market_help :: "string list" where
  "market_help =
     [''Buy: Create a new Buy order and add it to the book'',
      ''Sell: Create a new Sell order and add it to the book'',
      ''  Arguments for BUY or SELL'',
      ''     <Quantity>'',
      ''     <Symbol>'',
      ''     <Price> or MARKET'',
      ''     AON            (optional)'',
      ''     IOC            (optional)'',
      ''     STOP <Price>   (optional)'',
      ''     ;              end of order'',
      '''',
      ''Modify: Request Modify an existing order'',
      ''  Arguments:'',
      ''     <order#>'',
      ''     PRICE <new price>'',
      ''     QUANTITY <new initial quantity>'',
      ''     ;              end of modify requet'',
      '''',
      ''Cancel: Request cancel an existing order'',
      ''  Arguments:'',
      ''     <order#>'',
      ''     ;              end of cancel request (optional)'',
      '''',
      ''Display: Display status of an existing order'',
      ''  Arguments:'',
      ''     +       (enable verbose display)'',
      ''     <order#> or <symbol> or '' @ [char_of (34 :: nat)] @ ''all'' @ [char_of (34 :: nat)],
      '''']"

definition lines_text :: "string list \<Rightarrow> string" where
  "lines_text ls = concat (map (\<lambda>l. l @ newline) ls)"

section \<open>Files\<close>

text \<open>
  An input file stream. \<^verbatim>\<open>getline\<close> that meets the end of the file before a line end
  leaves the stream not good, also when it has read characters; \<^verbatim>\<open>open\<close> fails on a
  stream that is open.
\<close>

record file_stream =
  fs_is_open :: bool
  fs_good :: bool
  fs_rest :: string

definition closed_stream :: file_stream where
  "closed_stream = \<lparr>fs_is_open = False, fs_good = True, fs_rest = ''''\<rparr>"

definition open_file :: "(string \<Rightarrow> string option) \<Rightarrow> string \<Rightarrow> file_stream \<Rightarrow> file_stream" where
  "open_file files name f =
     (if fs_is_open f then f\<lparr>fs_good := False\<rparr>
      else case files name of
             None \<Rightarrow> f\<lparr>fs_good := False\<rparr>
           | Some text \<Rightarrow> \<lparr>fs_is_open = True, fs_good = True, fs_rest = text\<rparr>)"

definition read_line :: "file_stream \<Rightarrow> string \<times> file_stream" where
  "read_line f =
     (if \<not> fs_good f then ('''', f)
      else
        let is_end = (\<lambda>c. code c = 10);
            line = takeWhile (\<lambda>c. \<not> is_end c) (fs_rest f);
            rest = dropWhile (\<lambda>c. \<not> is_end c) (fs_rest f)
        in if rest = [] then (line, f\<lparr>fs_good := False, fs_rest := ''''\<rparr>)
           else (line, f\<lparr>fs_rest := tl rest\<rparr>))"

section \<open>A line of input\<close>

definition ends_with :: "char \<Rightarrow> string \<Rightarrow> bool" where
  "ends_with c s \<longleftrightarrow> s \<noteq> [] \<and> last s = c"

text \<open>A final semicolon becomes a token of its own.\<close>

definition separate_semicolon :: "string \<Rightarrow> string" where
  "separate_semicolon input =
     (if 1 < length input \<and> ends_with CHR '';'' input then
        (let s = butlast input;
             s = (if ends_with CHR '' '' s then butlast s else s)
         in s @ '' ;'')
      else input)"

definition word_delimiter :: "char \<Rightarrow> bool" where
  "word_delimiter c \<longleftrightarrow> code c \<in> {32, 9, 11, 10, 13}"

definition command_words :: "string \<Rightarrow> string list" where
  "command_words input = split_tokens word_delimiter (separate_semicolon input)"

section \<open>The loop\<close>

record entry_main =
  en_market :: market
  en_file :: file_stream
  en_fileActive :: bool
  en_interactive :: bool
  en_prompt :: bool
  en_log_is_cout :: bool
  en_err :: string

definition on_market :: "(market \<Rightarrow> market) \<Rightarrow> entry_main \<Rightarrow> entry_main" where
  "on_market f s = s\<lparr>en_market := f (en_market s)\<rparr>"

definition is_double_comment :: "string \<Rightarrow> bool" where
  "is_double_comment input \<longleftrightarrow> take 2 input = ''##''"

text \<open>Where the next line comes from; the first component tells that the loop is done.\<close>

definition next_input :: "entry_main \<Rightarrow> bool \<times> string \<times> entry_main" where
  "next_input s =
     (if en_fileActive s then
        let (input, f) = read_line (en_file s);
            s = s\<lparr>en_file := f\<rparr>;
            (finished, input, s) =
              (if fs_good f then (False, input, s)
               else if en_interactive s
               then (False, ''# Switching to console input.'', s\<lparr>en_fileActive := False\<rparr>)
               else (True, ''# end of command file.'', s));
            s = (if is_double_comment input then s else on_market (out_line input) s)
        in (finished, input, s)
      else
        let s = (if en_prompt s
                 then (on_market (print_stdout (''Action['' @ market_prompt @ tab @
                         ''(?)    help for more options and detail.'' @ newline @ tab @ ''(Quit) ]'' @ newline)) s)
                        \<lparr>en_prompt := False\<rparr>
                 else s);
            (input, m) = getline (print_stdout ''> '' (en_market s))
        in (False, input, s\<lparr>en_market := m\<rparr>))"

text \<open>A line that was read is applied; the first component again tells that the loop is done.\<close>

definition run_words ::
  "(string \<Rightarrow> string option) \<Rightarrow> string list \<Rightarrow> entry_main \<Rightarrow> (bool \<times> entry_main) result option" where
  "run_words files ws s =
     (if ws = [] then Some (Inr (False, s))
      else
        let command = hd ws
        in if command = ''QUIT'' then Some (Inr (True, s))
           else if command \<noteq> [] \<and> hd command = CHR ''#'' then Some (Inr (False, s))
           else if command = ''F'' \<or> command = ''FILE'' then
             (if en_fileActive s then
                Some (Inr (False, on_market (print_stdout
                  (''Only one input file at a time can be open.'' @ newline)) s))
              else
                let (filename, m) = getline (print_stdout ''Command file name: '' (en_market s));
                    f = open_file files filename (en_file s);
                    s = s\<lparr>en_market := m, en_file := f\<rparr>
                in if fs_good f then Some (Inr (False, s\<lparr>en_fileActive := True\<rparr>))
                   else Some (Inr (False, on_market (print_stdout
                          (''Cannot open '' @ filename @ newline)) s)))
           else if command = ''?'' \<or> command = ''HELP'' then
             Some (Inr (False, on_market (\<lambda>m. out
               (lines_text [''(F)ile  Open or Close a command input file'', tab @ ''Arguments'',
                  tab @ tab @ ''<FileName>  Required if no file is open. Must not appear if file is open.'',
                  ''QUIT  Exit from this program.''])
               (print_stdout (lines_text market_help) m)) s))
           else
             map_option (\<lambda>r. rbind r (\<lambda>(ok, m).
               Inr (False, if ok then s\<lparr>en_market := m\<rparr>
                           else s\<lparr>en_market := m,
                                  en_err := en_err s @ ''Cannot process command'' @
                                    concat (map (\<lambda>w. '' '' @ w) ws) @ newline\<rparr>)))
               (apply_command ws (en_market s)))"

definition main_step ::
  "(string \<Rightarrow> string option) \<Rightarrow> entry_main \<Rightarrow> (bool \<times> entry_main) result option" where
  "main_step files s =
     (case next_input s of (finished, input, s) \<Rightarrow>
        let input = map to_upper input;
            s = (if \<not> en_log_is_cout s \<and> \<not> en_fileActive s \<and> \<not> is_double_comment input
                 then on_market (out_line input) s else s)
        in map_option (\<lambda>r. rbind r (\<lambda>(quit, s). Inr (finished \<or> quit, s)))
             (run_words files (command_words input) s))"

partial_function (option) main_loop ::
  "(string \<Rightarrow> string option) \<Rightarrow> entry_main \<Rightarrow> entry_main result option" where
  "main_loop files s =
     (case main_step files s of
        None \<Rightarrow> None
      | Some (Inl e) \<Rightarrow> Some (Inl e)
      | Some (Inr (finished, s)) \<Rightarrow> if finished then Some (Inr s) else main_loop files s)"

text \<open>The arguments: a command file or \<^verbatim>\<open>-\<close>, and whether there is a log file.\<close>

definition main_start :: "(string \<Rightarrow> string option) \<Rightarrow> string option \<Rightarrow> bool \<Rightarrow> string list \<Rightarrow> entry_main option" where
  "main_start files arg1 log_file input =
     (let s = \<lparr>en_market = Market input, en_file = closed_stream, en_fileActive = False,
               en_interactive = True, en_prompt = True, en_log_is_cout = \<not> log_file, en_err = ''''\<rparr>
      in case arg1 of
           None \<Rightarrow> Some s
         | Some filename \<Rightarrow>
             if filename = ''-'' then Some s
             else
               let f = open_file files filename closed_stream
               in if fs_good f
                  then Some (s\<lparr>en_file := f, en_interactive := False, en_fileActive := True\<rparr>)
                  else None)"

end
