(* ===== verification/Feed_Message.thy ===== *)
theory Feed_Message
  imports Depth Text
begin

text \<open>
  The messages of the depth feed (\<^verbatim>\<open>src/examples/depth_feed_publisher\<close>): the field names of
  \<^verbatim>\<open>template_consumer.cpp\<close>, and what \<^verbatim>\<open>depth_feed_publisher.cpp\<close> puts into a trade and a
  depth message. The progress texts the publisher writes to the console are left out.
\<close>

section \<open>The interface of QuickFAST\<close>

text \<open>
  QuickFAST, the library that holds, encodes and decodes messages, is not part of the
  repository. It is a parameter: a record of the operations the program calls. A field set is an
  abstract value \<open>'fs\<close>; the fields added to it are integers, strings and sequences of field
  sets (with the name of the field for the length). Encoder and decoder keep a state from one
  message to the next. Encoding gives a list of bytes \<open>'b\<close>; decoding may throw.
\<close>

datatype 'fs field =
    FieldUInt32 "32 word"
  | FieldUInt16 "16 word"
  | FieldUInt8 "8 word"
  | FieldString string
  | FieldSequence string "'fs list"

record ('fs, 'enc, 'dec, 'b) quickfast =
  fs_empty :: 'fs
  fs_addField :: "string \<Rightarrow> 'fs field \<Rightarrow> 'fs \<Rightarrow> 'fs"
  fs_replaceField :: "string \<Rightarrow> 'fs field \<Rightarrow> 'fs \<Rightarrow> bool \<times> 'fs"
  fs_getUnsignedInteger :: "'fs \<Rightarrow> string \<Rightarrow> 64 word option"
  fs_getString :: "'fs \<Rightarrow> string \<Rightarrow> string option"
  fs_getSequenceLength :: "'fs \<Rightarrow> string \<Rightarrow> nat option"
  fs_getSequenceEntry :: "'fs \<Rightarrow> string \<Rightarrow> nat \<Rightarrow> 'fs option"
  qf_Encoder :: 'enc
  qf_Decoder :: 'dec
  qf_encodeMessage :: "'enc \<Rightarrow> nat \<Rightarrow> 'fs \<Rightarrow> 'b list \<times> 'enc"
  qf_decodeMessage :: "'dec \<Rightarrow> 'b list \<Rightarrow> ('fs \<times> 'dec) result"

section \<open>Names of fields and templates\<close>

definition id_seq_num :: string where "id_seq_num = ''SequenceNumber''"
definition id_msg_type :: string where "id_msg_type = ''MessageType''"
definition id_timestamp :: string where "id_timestamp = ''Timestamp''"
definition id_symbol :: string where "id_symbol = ''Symbol''"
definition id_bids :: string where "id_bids = ''Bids''"
definition id_bids_length :: string where "id_bids_length = ''BidsLength''"
definition id_asks :: string where "id_asks = ''Asks''"
definition id_asks_length :: string where "id_asks_length = ''AsksLength''"
definition id_level_num :: string where "id_level_num = ''LevelNum''"
definition id_order_count :: string where "id_order_count = ''OrderCount''"
definition id_size :: string where "id_size = ''AggregateQty''"
definition id_price :: string where "id_price = ''Price''"
definition id_qty :: string where "id_qty = ''Quantity''"
definition id_cost :: string where "id_cost = ''Cost''"

lemmas id_defs = id_seq_num_def id_msg_type_def id_timestamp_def id_symbol_def id_bids_def
  id_bids_length_def id_asks_def id_asks_length_def id_level_num_def id_order_count_def id_size_def
  id_price_def id_qty_def id_cost_def

definition TID_TRADE_MESSAGE :: nat where "TID_TRADE_MESSAGE = 1"
definition TID_DEPTH_MESSAGE :: nat where "TID_DEPTH_MESSAGE = 2"

section \<open>What the publisher builds\<close>

text \<open>The time of the publication, \<open>now\<close>, is read from the clock for every message.\<close>

definition build_trade_message ::
  "('fs, 'enc, 'dec, 'b) quickfast \<Rightarrow> 32 word \<Rightarrow> 'fs \<Rightarrow> string \<Rightarrow> quantity \<Rightarrow> cost \<Rightarrow> 'fs" where
  "build_trade_message Q now message symbol qty cost =
     (let m1 = fs_addField Q id_timestamp (FieldUInt32 now) message;
          m2 = fs_addField Q id_symbol (FieldString symbol) m1;
          m3 = fs_addField Q id_qty (FieldUInt32 qty) m2
      in fs_addField Q id_cost (FieldUInt32 cost) m3)"

definition build_depth_level ::
  "('fs, 'enc, 'dec, 'b) quickfast \<Rightarrow> 'fs list \<Rightarrow> depth_level \<Rightarrow> nat \<Rightarrow> 'fs list" where
  "build_depth_level Q level_seq level level_index =
     (let f1 = fs_addField Q id_level_num (FieldUInt8 (word_of_nat level_index)) (fs_empty Q);
          f2 = fs_addField Q id_order_count (FieldUInt32 (dl_order_count level)) f1;
          f3 = fs_addField Q id_price (FieldUInt32 (dl_price level)) f2;
          f4 = fs_addField Q id_size (FieldUInt32 (dl_aggregate_qty level)) f3
      in level_seq @ [f4])"

text \<open>The loop over the levels of a side, from its first to its last.\<close>

fun build_side ::
  "('fs, 'enc, 'dec, 'b) quickfast \<Rightarrow> bool \<Rightarrow> change_id \<Rightarrow> nat \<Rightarrow> depth_level list \<Rightarrow> 'fs list \<Rightarrow> 'fs list" where
  "build_side Q full_message last_published_change index [] seq = seq"
| "build_side Q full_message last_published_change index (level # levels) seq =
     build_side Q full_message last_published_change (Suc index) levels
       (if full_message \<or> level_changed_since last_published_change level
        then build_depth_level Q seq level index else seq)"

text \<open>The levels \<open>first\<close> to \<open>lst\<close> of the array, both included.\<close>

definition slots :: "nat \<Rightarrow> nat \<Rightarrow> depth \<Rightarrow> depth_level list" where
  "slots first lst d = drop first (take (Suc lst) (dp_levels d))"

definition build_depth_message ::
  "('fs, 'enc, 'dec, 'b) quickfast \<Rightarrow> 32 word \<Rightarrow> 'fs \<Rightarrow> string \<Rightarrow> depth \<Rightarrow> bool \<Rightarrow> 'fs" where
  "build_depth_message Q now message symbol tracker full_message =
     (let m1 = fs_addField Q id_timestamp (FieldUInt32 now) message;
          m2 = fs_addField Q id_symbol (FieldString symbol) m1;
          last_published_change = dp_last_published_change tracker;
          bid_seq = build_side Q full_message last_published_change 0
            (slots (bids tracker) (last_bid_level tracker) tracker) [];
          m3 = fs_addField Q id_bids (FieldSequence id_bids_length bid_seq) m2;
          ask_seq = build_side Q full_message last_published_change 0
            (slots (asks tracker) (last_ask_level tracker) tracker) []
      in fs_addField Q id_asks (FieldSequence id_asks_length ask_seq) m3)"

section \<open>What the program relies on\<close>

text \<open>
  \<open>view m\<close> is the content of the field set \<open>m\<close>: which fields it has, with their values. Adding a
  new field, replacing one that is present, and the accessors do what their names say.
\<close>

definition unsigned_value :: "'fs field option \<Rightarrow> 64 word option" where
  "unsigned_value v =
     (case v of
        Some (FieldUInt32 w) \<Rightarrow> Some (ucast w) | Some (FieldUInt16 w) \<Rightarrow> Some (ucast w)
      | Some (FieldUInt8 w) \<Rightarrow> Some (ucast w) | _ \<Rightarrow> None)"

definition fields_ok :: "('fs, 'enc, 'dec, 'b) quickfast \<Rightarrow> ('fs \<Rightarrow> string \<Rightarrow> 'fs field option) \<Rightarrow> bool" where
  "fields_ok Q view \<longleftrightarrow>
     view (fs_empty Q) = (\<lambda>_. None) \<and>
     (\<forall>f v m. view m f = None \<longrightarrow> view (fs_addField Q f v m) = (view m)(f := Some v)) \<and>
     (\<forall>f v m. fst (fs_replaceField Q f v m) = (view m f \<noteq> None) \<and>
        view (snd (fs_replaceField Q f v m)) = (if view m f \<noteq> None then (view m)(f \<mapsto> v) else view m)) \<and>
     (\<forall>m f. fs_getUnsignedInteger Q m f = unsigned_value (view m f)) \<and>
     (\<forall>m f. fs_getString Q m f = (case view m f of Some (FieldString s) \<Rightarrow> Some s | _ \<Rightarrow> None)) \<and>
     (\<forall>m f. fs_getSequenceLength Q m f =
        (case view m f of Some (FieldSequence l es) \<Rightarrow> Some (length es) | _ \<Rightarrow> None)) \<and>
     (\<forall>m f i. fs_getSequenceEntry Q m f i =
        (case view m f of Some (FieldSequence l es) \<Rightarrow> if i < length es then Some (es ! i) else None | _ \<Rightarrow> None))"

text \<open>
  The two templates of \<^verbatim>\<open>templates/depth.xml\<close>: the fields a message of either must have. A
  string of a template is ASCII and, so that it has an end, not empty and without a null.
\<close>

definition ascii :: "string \<Rightarrow> bool" where
  "ascii s \<longleftrightarrow> s \<noteq> [] \<and> (\<forall>c \<in> set s. 0 < code c \<and> code c < 128)"

definition level_entry :: "('fs \<Rightarrow> string \<Rightarrow> 'fs field option) \<Rightarrow> 'fs \<Rightarrow> bool" where
  "level_entry view e \<longleftrightarrow>
     (\<exists>n c p q. view e = [id_level_num \<mapsto> FieldUInt8 n, id_order_count \<mapsto> FieldUInt32 c,
        id_price \<mapsto> FieldUInt32 p, id_size \<mapsto> FieldUInt32 q])"

definition fits_template :: "('fs \<Rightarrow> string \<Rightarrow> 'fs field option) \<Rightarrow> nat \<Rightarrow> 'fs \<Rightarrow> bool" where
  "fits_template view t m \<longleftrightarrow>
     (\<exists>n now symbol. ascii symbol \<and>
        (t = TID_TRADE_MESSAGE \<and>
           (\<exists>q c. view m = [id_seq_num \<mapsto> FieldUInt32 n, id_timestamp \<mapsto> FieldUInt32 now,
              id_symbol \<mapsto> FieldString symbol, id_qty \<mapsto> FieldUInt32 q, id_cost \<mapsto> FieldUInt32 c]) \<or>
         t = TID_DEPTH_MESSAGE \<and>
           (\<exists>l bs k es. (\<forall>e \<in> set bs \<union> set es. level_entry view e) \<and>
              view m = [id_seq_num \<mapsto> FieldUInt32 n, id_timestamp \<mapsto> FieldUInt32 now,
                id_symbol \<mapsto> FieldString symbol, id_bids \<mapsto> FieldSequence l bs, id_asks \<mapsto> FieldSequence k es])))"

text \<open>Equal content, entry by entry; the name of a length field is not transmitted.\<close>

fun same_field :: "('fs \<Rightarrow> string \<Rightarrow> 'fs field option) \<Rightarrow> 'fs field option \<Rightarrow> 'fs field option \<Rightarrow> bool" where
  "same_field view (Some (FieldSequence l xs)) y =
     (case y of Some (FieldSequence k ys) \<Rightarrow> list_all2 (\<lambda>a b. view a = view b) xs ys | _ \<Rightarrow> False)"
| "same_field view x y = (x = y)"

text \<open>The constant that the template gives the field \<^verbatim>\<open>MessageType\<close>.\<close>

definition message_type :: "nat \<Rightarrow> 16 word" where
  "message_type t = (if t = TID_TRADE_MESSAGE then 22 else 11)"

text \<open>
  An encoder and a decoder that are in step stay in step, and the decoder gives the content that
  was encoded and the constant of the template.
\<close>

definition codec_ok ::
  "('fs, 'enc, 'dec, 'b) quickfast \<Rightarrow> ('fs \<Rightarrow> string \<Rightarrow> 'fs field option) \<Rightarrow> ('enc \<Rightarrow> 'dec \<Rightarrow> bool) \<Rightarrow> bool" where
  "codec_ok Q view sync \<longleftrightarrow>
     sync (qf_Encoder Q) (qf_Decoder Q) \<and>
     (\<forall>e d t m. sync e d \<and> fits_template view t m \<longrightarrow>
        (\<exists>m' d'. qf_decodeMessage Q d (fst (qf_encodeMessage Q e t m)) = Inr (m', d') \<and>
           sync (snd (qf_encodeMessage Q e t m)) d' \<and>
           view m' id_msg_type = Some (FieldUInt16 (message_type t)) \<and>
           (\<forall>f. f \<noteq> id_msg_type \<longrightarrow> same_field view (view m f) (view m' f))))"

end
