(* ===== verification/Feed_Subscriber.thy ===== *)
theory Feed_Subscriber
  imports Feed_Message
begin

text \<open>
  \<^verbatim>\<open>src/examples/depth_feed_publisher/depth_feed_subscriber.cpp\<close>: the subscriber decodes the
  messages, checks their sequence and keeps a depth for every symbol. Of what it writes to the
  console the table of a depth is modelled, the progress texts are not.
\<close>

section \<open>The state\<close>

definition MSG_TYPE_DEPTH :: "64 word" where "MSG_TYPE_DEPTH = 11"
definition MSG_TYPE_TRADE :: "64 word" where "MSG_TYPE_TRADE = 22"

record 'dec feed_subscriber =
  sb_decoder :: 'dec
  sb_depth_map :: "string \<rightharpoonup> depth"
  sb_expected_seq :: "64 word"
  sb_console :: string

definition DepthFeedSubscriber :: "('fs, 'enc, 'dec, 'b) quickfast \<Rightarrow> 'dec feed_subscriber" where
  "DepthFeedSubscriber Q =
     \<lparr>sb_decoder = qf_Decoder Q, sb_depth_map = Map.empty, sb_expected_seq = 1, sb_console = ''''\<rparr>"

definition handle_reset :: "'dec feed_subscriber \<Rightarrow> 'dec feed_subscriber" where
  "handle_reset s = s\<lparr>sb_expected_seq := 1\<rparr>"

section \<open>The table of a depth\<close>

definition pad :: "nat \<Rightarrow> string \<Rightarrow> string" where
  "pad n s = replicate (n - length s) (CHR '' '') @ s"

text \<open>The format \<^verbatim>\<open>%8.2f\<close> of a price in hundredths.\<close>

definition show_price :: "price \<Rightarrow> string" where
  "show_price p =
     pad 8 (decimal (unat p div 100) @ ''.'' @ (if unat p mod 100 < 10 then ''0'' else '''') @ decimal (unat p mod 100))"

definition show_level :: "depth_level \<Rightarrow> string" where
  "show_level l = show_price (dl_price l) @ '' '' @ pad 9 (print_i32 (dl_aggregate_qty l)) @
     '' ['' @ pad 2 (print_i32 (dl_order_count l)) @ '']''"

text \<open>
  The two pointers of the loop are the lists of the levels from them to the end of their side;
  the null pointer is the empty list. A side ends at its last level or at its first empty one.
\<close>

definition next_level :: "depth_level list \<Rightarrow> depth_level list" where
  "next_level ls = (case ls of [] \<Rightarrow> [] | l # rest \<Rightarrow> if dl_order_count l \<noteq> 0 then rest else [])"

definition log_bid :: "depth_level list \<Rightarrow> string" where
  "log_bid ls =
     (case ls of l # rest \<Rightarrow> if dl_order_count l \<noteq> 0 then show_level l else replicate 23 (CHR '' '')
      | [] \<Rightarrow> replicate 23 (CHR '' ''))"

definition log_ask :: "depth_level list \<Rightarrow> string" where
  "log_ask ls =
     (case ls of l # rest \<Rightarrow> if dl_order_count l \<noteq> 0 then ''    '' @ show_level l @ newline else newline
      | [] \<Rightarrow> newline)"

lemma next_level_length [termination_simp]:
  "length (next_level (b # bs)) < Suc (length bs)" "length (next_level bs) \<le> length bs"
  by (simp_all add: next_level_def split: list.split)

fun log_levels :: "depth_level list \<Rightarrow> depth_level list \<Rightarrow> string" where
  "log_levels [] [] = ''''"
| "log_levels (b # bs) as = log_bid (b # bs) @ log_ask as @ log_levels (next_level (b # bs)) (next_level as)"
| "log_levels [] (a # as) = log_bid [] @ log_ask (a # as) @ log_levels [] (next_level (a # as))"

definition log_depth :: "depth \<Rightarrow> string" where
  "log_depth d =
     ''----------BID----------    ----------ASK----------'' @ newline @
     log_levels (slots (bids d) (last_bid_level d) d) (slots (asks d) (last_ask_level d) d)"

section \<open>Messages\<close>

text \<open>
  The loop over the entries of a sequence, from the entry \<open>i\<close>; \<open>base\<close> is the slot of the side's
  first level. An entry that lacks a field, or cannot be had, ends the handler with false; what
  was set before stays. The level number is an index from the base, and is not checked.
\<close>

fun set_levels ::
  "('fs, 'enc, 'dec, 'b) quickfast \<Rightarrow> 'fs \<Rightarrow> string \<Rightarrow> nat \<Rightarrow> nat \<Rightarrow> nat \<Rightarrow> depth \<Rightarrow> (bool \<times> depth) result" where
  "set_levels Q msg side base i 0 d = Inr (True, d)"
| "set_levels Q msg side base i (Suc n) d =
     (case fs_getSequenceEntry Q msg side i of
        None \<Rightarrow> Inr (False, d)
      | Some accessor \<Rightarrow>
         (case fs_getUnsignedInteger Q accessor id_level_num of
            None \<Rightarrow> Inr (False, d)
          | Some level_num \<Rightarrow>
         (case fs_getUnsignedInteger Q accessor id_price of
            None \<Rightarrow> Inr (False, d)
          | Some price \<Rightarrow>
         (case fs_getUnsignedInteger Q accessor id_order_count of
            None \<Rightarrow> Inr (False, d)
          | Some order_count \<Rightarrow>
         (case fs_getUnsignedInteger Q accessor id_size of
            None \<Rightarrow> Inr (False, d)
          | Some aggregate_qty \<Rightarrow>
              let k = base + unat level_num
              in if k < length (dp_levels d) then
                   set_levels Q msg side base (Suc i) n
                     (set_slot k (level_set (ucast price) (ucast aggregate_qty) (ucast order_count) 0 (dp_levels d ! k)) d)
                 else Inl Out_of_bounds)))))"

definition set_side :: "('fs, 'enc, 'dec, 'b) quickfast \<Rightarrow> 'fs \<Rightarrow> string \<Rightarrow> nat \<Rightarrow> depth \<Rightarrow> (bool \<times> depth) result" where
  "set_side Q msg side base d =
     (case fs_getSequenceLength Q msg side of None \<Rightarrow> Inr (True, d) | Some n \<Rightarrow> set_levels Q msg side base 0 n d)"

definition put_depth :: "string \<Rightarrow> depth \<Rightarrow> 'dec feed_subscriber \<Rightarrow> 'dec feed_subscriber" where
  "put_depth symbol d s = s\<lparr>sb_depth_map := (sb_depth_map s)(symbol \<mapsto> d)\<rparr>"

definition handle_depth_message ::
  "('fs, 'enc, 'dec, 'b) quickfast \<Rightarrow> string \<Rightarrow> 'fs \<Rightarrow> 'dec feed_subscriber \<Rightarrow> (bool \<times> 'dec feed_subscriber) result" where
  "handle_depth_message Q symbol msg s =
     (let d = (case sb_depth_map s symbol of None \<Rightarrow> Depth 5 | Some d \<Rightarrow> d)
      in rbind (set_side Q msg id_bids (bids d) d) (\<lambda>(ok, d1).
           if \<not> ok then Inr (False, put_depth symbol d1 s)
           else rbind (set_side Q msg id_asks (asks d1) d1) (\<lambda>(ok, d2).
             if \<not> ok then Inr (False, put_depth symbol d2 s)
             else Inr (True, (put_depth symbol d2 s)\<lparr>sb_console := sb_console s @ log_depth d2\<rparr>))))"

definition handle_trade_message ::
  "('fs, 'enc, 'dec, 'b) quickfast \<Rightarrow> string \<Rightarrow> 'fs \<Rightarrow> 'dec feed_subscriber \<Rightarrow> bool \<times> 'dec feed_subscriber" where
  "handle_trade_message Q symbol msg s =
     (case fs_getUnsignedInteger Q msg id_qty of
        None \<Rightarrow> (False, s)
      | Some qty \<Rightarrow> (case fs_getUnsignedInteger Q msg id_cost of None \<Rightarrow> (False, s) | Some cost \<Rightarrow> (True, s)))"

definition handle_message ::
  "('fs, 'enc, 'dec, 'b) quickfast \<Rightarrow> 'b list \<Rightarrow> 'dec feed_subscriber \<Rightarrow> (bool \<times> 'dec feed_subscriber) result" where
  "handle_message Q bytes s0 =
     rbind (qf_decodeMessage Q (sb_decoder s0) bytes) (\<lambda>(msg, decoder).
       let s = s0\<lparr>sb_decoder := decoder\<rparr>
       in case fs_getUnsignedInteger Q msg id_seq_num of
            None \<Rightarrow> Inr (False, s)
          | Some seq_num \<Rightarrow>
              if seq_num \<noteq> sb_expected_seq s then Inr (False, s)
              else
                (case fs_getUnsignedInteger Q msg id_msg_type of
                   None \<Rightarrow> Inr (False, s)
                 | Some msg_type \<Rightarrow>
                (case fs_getString Q msg id_symbol of
                   None \<Rightarrow> Inr (False, s)
                 | Some symbol \<Rightarrow>
                (case fs_getUnsignedInteger Q msg id_timestamp of
                   None \<Rightarrow> Inr (False, s)
                 | Some timestamp \<Rightarrow>
                     rbind
                       (if msg_type = MSG_TYPE_DEPTH then
                          rbind (handle_depth_message Q symbol msg s) (\<lambda>(ok, s1). Inr (Some ok, s1))
                        else if msg_type = MSG_TYPE_TRADE then
                          (case handle_trade_message Q symbol msg s of (ok, s1) \<Rightarrow> Inr (Some ok, s1))
                        else Inr (None, s))
                       (\<lambda>(handled, s1).
                          case handled of
                            None \<Rightarrow> Inr (False, s1)
                          | Some ok \<Rightarrow> Inr (ok, s1\<lparr>sb_expected_seq := sb_expected_seq s1 + 1\<rparr>))))))"

end
