(* ===== verification/Feed_Connection.thy ===== *)
theory Feed_Connection
  imports Feed_Message
begin

text \<open>
  \<^verbatim>\<open>src/examples/depth_feed_publisher/depth_feed_connection.cpp\<close>: the sessions between the
  publisher and its subscribers, the buffers their messages are sent from, the connection that
  holds them, its subscriber's end, and the publisher's two callbacks that send through it. The
  network (boost::asio) appears as the requests made of it and the completions it reports.
\<close>

section \<open>The state\<close>

record 'enc feed_session =
  ss_connected :: bool
  ss_seq_num :: "32 word"
  ss_encoder :: 'enc
  ss_sent_symbols :: "string set"

text \<open>
  Sessions and buffers are objects with an address. A session lives from its construction in
  \<^verbatim>\<open>accept\<close> until the last shared pointer to it is gone; \<open>cn_live\<close> says which do. A send that was
  started and has not completed is a session and a buffer: the handler of its completion is
  bound to both, to the session by a raw pointer.
\<close>

type_synonym session_ptr = nat
type_synonym buffer_ptr = nat

record ('enc, 'b) feed_connection =
  cn_sessions :: "session_ptr list"
  cn_objects :: "session_ptr \<Rightarrow> 'enc feed_session"
  cn_live :: "session_ptr \<Rightarrow> bool"
  cn_next_session :: session_ptr
  cn_accepting :: "session_ptr option"
  cn_unused_send_buffers :: "buffer_ptr list"
  cn_memory :: "buffer_ptr \<Rightarrow> 'b list"
  cn_next_buffer :: buffer_ptr
  cn_sends :: "(session_ptr \<times> buffer_ptr) list"

definition DepthFeedSession :: "('fs, 'enc, 'dec, 'b) quickfast \<Rightarrow> 'enc feed_session" where
  "DepthFeedSession Q =
     \<lparr>ss_connected = False, ss_seq_num = 0, ss_encoder = qf_Encoder Q, ss_sent_symbols = {}\<rparr>"

definition DepthFeedConnection :: "('fs, 'enc, 'dec, 'b) quickfast \<Rightarrow> ('enc, 'b) feed_connection" where
  "DepthFeedConnection Q =
     \<lparr>cn_sessions = [], cn_objects = (\<lambda>_. DepthFeedSession Q), cn_live = (\<lambda>_. False), cn_next_session = 0,
      cn_accepting = None, cn_unused_send_buffers = [], cn_memory = (\<lambda>_. []), cn_next_buffer = 0, cn_sends = []\<rparr>"

definition put_session :: "session_ptr \<Rightarrow> 'enc feed_session \<Rightarrow> ('enc, 'b) feed_connection \<Rightarrow> ('enc, 'b) feed_connection" where
  "put_session p s c = c\<lparr>cn_objects := (cn_objects c)(p := s)\<rparr>"

text \<open>The vector of sessions held the last pointer: erasing it destroys the session.\<close>

definition destroy_session :: "session_ptr \<Rightarrow> ('enc, 'b) feed_connection \<Rightarrow> ('enc, 'b) feed_connection" where
  "destroy_session p c = c\<lparr>cn_live := (cn_live c)(p := False)\<rparr>"

section \<open>Buffers\<close>

definition reserve_send_buffer :: "('enc, 'b) feed_connection \<Rightarrow> buffer_ptr \<times> ('enc, 'b) feed_connection" where
  "reserve_send_buffer c =
     (case cn_unused_send_buffers c of
        [] \<Rightarrow> (cn_next_buffer c, c\<lparr>cn_next_buffer := cn_next_buffer c + 1\<rparr>)
      | wb # rest \<Rightarrow> (wb, c\<lparr>cn_unused_send_buffers := rest\<rparr>))"

definition connection_on_send :: "buffer_ptr \<Rightarrow> ('enc, 'b) feed_connection \<Rightarrow> ('enc, 'b) feed_connection" where
  "connection_on_send wb c = c\<lparr>cn_unused_send_buffers := cn_unused_send_buffers c @ [wb]\<rparr>"

section \<open>A session\<close>

definition set_sequence_num ::
  "('fs, 'enc, 'dec, 'b) quickfast \<Rightarrow> 'fs \<Rightarrow> 'enc feed_session \<Rightarrow> 'fs \<times> 'enc feed_session" where
  "set_sequence_num Q message s =
     (let s1 = s\<lparr>ss_seq_num := ss_seq_num s + 1\<rparr>;
          val = FieldUInt32 (ss_seq_num s1);
          (found, m1) = fs_replaceField Q id_seq_num val message
      in (if \<not> found then fs_addField Q id_seq_num val m1 else m1, s1))"

text \<open>Encode the message into a buffer of the connection and start the send.\<close>

definition encode_and_send ::
  "('fs, 'enc, 'dec, 'b) quickfast \<Rightarrow> nat \<Rightarrow> 'fs \<Rightarrow> session_ptr \<Rightarrow> 'enc feed_session
     \<Rightarrow> ('enc, 'b) feed_connection \<Rightarrow> ('enc, 'b) feed_connection" where
  "encode_and_send Q tid message p s c =
     (let (bytes, enc) = qf_encodeMessage Q (ss_encoder s) tid message;
          (wb, c1) = reserve_send_buffer c;
          c2 = c1\<lparr>cn_memory := (cn_memory c1)(wb := bytes)\<rparr>
      in (put_session p (s\<lparr>ss_encoder := enc\<rparr>) c2)\<lparr>cn_sends := cn_sends c2 @ [(p, wb)]\<rparr>)"

definition session_send_trade ::
  "('fs, 'enc, 'dec, 'b) quickfast \<Rightarrow> session_ptr \<Rightarrow> 'fs \<Rightarrow> ('enc, 'b) feed_connection \<Rightarrow> 'fs \<times> ('enc, 'b) feed_connection" where
  "session_send_trade Q p message c =
     (let (m1, s1) = set_sequence_num Q message (cn_objects c p)
      in (m1, encode_and_send Q TID_TRADE_MESSAGE m1 p s1 c))"

definition session_send_incr_update ::
  "('fs, 'enc, 'dec, 'b) quickfast \<Rightarrow> session_ptr \<Rightarrow> string \<Rightarrow> 'fs \<Rightarrow> ('enc, 'b) feed_connection
     \<Rightarrow> bool \<times> 'fs \<times> ('enc, 'b) feed_connection" where
  "session_send_incr_update Q p symbol message c =
     (if symbol \<in> ss_sent_symbols (cn_objects c p) then
        let (m1, s1) = set_sequence_num Q message (cn_objects c p)
        in (True, m1, encode_and_send Q TID_DEPTH_MESSAGE m1 p s1 c)
      else (False, message, c))"

definition session_send_full_update ::
  "('fs, 'enc, 'dec, 'b) quickfast \<Rightarrow> session_ptr \<Rightarrow> string \<Rightarrow> 'fs \<Rightarrow> ('enc, 'b) feed_connection
     \<Rightarrow> 'fs \<times> ('enc, 'b) feed_connection" where
  "session_send_full_update Q p symbol message c =
     (let s = cn_objects c p;
          inserted = symbol \<notin> ss_sent_symbols s;
          s1 = s\<lparr>ss_sent_symbols := insert symbol (ss_sent_symbols s)\<rparr>
      in if inserted then
           let (m1, s2) = set_sequence_num Q message s1
           in (m1, encode_and_send Q TID_DEPTH_MESSAGE m1 p s2 c)
         else (message, put_session p s1 c))"

text \<open>The handler of a completed send. It is bound to the session by a raw pointer.\<close>

definition session_on_send ::
  "session_ptr \<Rightarrow> buffer_ptr \<Rightarrow> bool \<Rightarrow> ('enc, 'b) feed_connection \<Rightarrow> ('enc, 'b) feed_connection result" where
  "session_on_send p wb error c =
     (if \<not> cn_live c p then Inl Invalid_iterator
      else
        let c1 = (if error then put_session p ((cn_objects c p)\<lparr>ss_connected := False\<rparr>) c else c)
        in Inr (connection_on_send wb c1))"

section \<open>The connection, publisher's end\<close>

text \<open>Each loop passes over the sessions; it erases those that are no longer connected.\<close>

fun send_trade_loop ::
  "('fs, 'enc, 'dec, 'b) quickfast \<Rightarrow> session_ptr list \<Rightarrow> 'fs \<Rightarrow> ('enc, 'b) feed_connection
     \<Rightarrow> session_ptr list \<times> ('enc, 'b) feed_connection" where
  "send_trade_loop Q [] message c = ([], c)"
| "send_trade_loop Q (p # ps) message c =
     (if ss_connected (cn_objects c p) then
        let (m1, c1) = session_send_trade Q p message c;
            (kept, c2) = send_trade_loop Q ps m1 c1
        in (p # kept, c2)
      else send_trade_loop Q ps message (destroy_session p c))"

definition connection_send_trade ::
  "('fs, 'enc, 'dec, 'b) quickfast \<Rightarrow> 'fs \<Rightarrow> ('enc, 'b) feed_connection \<Rightarrow> ('enc, 'b) feed_connection" where
  "connection_send_trade Q message c =
     (let (kept, c1) = send_trade_loop Q (cn_sessions c) message c in c1\<lparr>cn_sessions := kept\<rparr>)"

fun send_incr_loop ::
  "('fs, 'enc, 'dec, 'b) quickfast \<Rightarrow> string \<Rightarrow> session_ptr list \<Rightarrow> bool \<Rightarrow> 'fs \<Rightarrow> ('enc, 'b) feed_connection
     \<Rightarrow> session_ptr list \<times> bool \<times> ('enc, 'b) feed_connection" where
  "send_incr_loop Q symbol [] none_new message c = ([], none_new, c)"
| "send_incr_loop Q symbol (p # ps) none_new message c =
     (if ss_connected (cn_objects c p) then
        let (sent, m1, c1) = session_send_incr_update Q p symbol message c;
            (kept, none_new2, c2) = send_incr_loop Q symbol ps (if \<not> sent then False else none_new) m1 c1
        in (p # kept, none_new2, c2)
      else send_incr_loop Q symbol ps none_new message (destroy_session p c))"

definition connection_send_incr_update ::
  "('fs, 'enc, 'dec, 'b) quickfast \<Rightarrow> string \<Rightarrow> 'fs \<Rightarrow> ('enc, 'b) feed_connection \<Rightarrow> bool \<times> ('enc, 'b) feed_connection" where
  "connection_send_incr_update Q symbol message c =
     (let (kept, none_new, c1) = send_incr_loop Q symbol (cn_sessions c) True message c
      in (none_new, c1\<lparr>cn_sessions := kept\<rparr>))"

fun send_full_loop ::
  "('fs, 'enc, 'dec, 'b) quickfast \<Rightarrow> string \<Rightarrow> session_ptr list \<Rightarrow> 'fs \<Rightarrow> ('enc, 'b) feed_connection
     \<Rightarrow> session_ptr list \<times> ('enc, 'b) feed_connection" where
  "send_full_loop Q symbol [] message c = ([], c)"
| "send_full_loop Q symbol (p # ps) message c =
     (if ss_connected (cn_objects c p) then
        let (m1, c1) = session_send_full_update Q p symbol message c;
            (kept, c2) = send_full_loop Q symbol ps m1 c1
        in (p # kept, c2)
      else send_full_loop Q symbol ps message (destroy_session p c))"

definition connection_send_full_update ::
  "('fs, 'enc, 'dec, 'b) quickfast \<Rightarrow> string \<Rightarrow> 'fs \<Rightarrow> ('enc, 'b) feed_connection \<Rightarrow> ('enc, 'b) feed_connection" where
  "connection_send_full_update Q symbol message c =
     (let (kept, c1) = send_full_loop Q symbol (cn_sessions c) message c in c1\<lparr>cn_sessions := kept\<rparr>)"

text \<open>A new session waits for a subscriber; the socket of the acceptor is left out.\<close>

definition accept :: "('fs, 'enc, 'dec, 'b) quickfast \<Rightarrow> ('enc, 'b) feed_connection \<Rightarrow> ('enc, 'b) feed_connection" where
  "accept Q c =
     (let p = cn_next_session c
      in (put_session p (DepthFeedSession Q) c)
           \<lparr>cn_next_session := p + 1, cn_live := (cn_live c)(p := True), cn_accepting := Some p\<rparr>)"

definition on_accept ::
  "('fs, 'enc, 'dec, 'b) quickfast \<Rightarrow> session_ptr \<Rightarrow> bool \<Rightarrow> ('enc, 'b) feed_connection \<Rightarrow> ('enc, 'b) feed_connection" where
  "on_accept Q p error c =
     (let c1 = (if \<not> error then
                  put_session p ((cn_objects c p)\<lparr>ss_connected := True\<rparr>) (c\<lparr>cn_sessions := cn_sessions c @ [p]\<rparr>)
                else destroy_session p c)
      in accept Q c1)"

section \<open>The publisher\<close>

definition publisher_on_trade ::
  "('fs, 'enc, 'dec, 'b) quickfast \<Rightarrow> 32 word \<Rightarrow> string \<Rightarrow> quantity \<Rightarrow> cost
     \<Rightarrow> ('enc, 'b) feed_connection \<Rightarrow> ('enc, 'b) feed_connection" where
  "publisher_on_trade Q now symbol qty cost c =
     connection_send_trade Q (build_trade_message Q now (fs_empty Q) symbol qty cost) c"

definition publisher_on_depth_change ::
  "('fs, 'enc, 'dec, 'b) quickfast \<Rightarrow> 32 word \<Rightarrow> 32 word \<Rightarrow> string \<Rightarrow> depth
     \<Rightarrow> ('enc, 'b) feed_connection \<Rightarrow> ('enc, 'b) feed_connection" where
  "publisher_on_depth_change Q now later symbol tracker c =
     (let message = build_depth_message Q now (fs_empty Q) symbol tracker False;
          (none_new, c1) = connection_send_incr_update Q symbol message c
      in if \<not> none_new then
           connection_send_full_update Q symbol (build_depth_message Q later (fs_empty Q) symbol tracker True) c1
         else c1)"

section \<open>The connection, subscriber's end\<close>

text \<open>
  What the connection asks of the network: to connect, to receive into a buffer, to close the
  socket, and to wait some seconds.
\<close>

datatype net_request = Async_connect | Async_receive buffer_ptr | Close | Sleep nat

record feed_receiver =
  rc_unused_recv_buffers :: "buffer_ptr list"
  rc_next_buffer :: buffer_ptr
  rc_requests :: "net_request list"

definition ask :: "net_request list \<Rightarrow> feed_receiver \<Rightarrow> feed_receiver" where
  "ask rs r = r\<lparr>rc_requests := rc_requests r @ rs\<rparr>"

definition reserve_recv_buffer :: "feed_receiver \<Rightarrow> buffer_ptr \<times> feed_receiver" where
  "reserve_recv_buffer r =
     (case rc_unused_recv_buffers r of
        [] \<Rightarrow> (rc_next_buffer r, r\<lparr>rc_next_buffer := rc_next_buffer r + 1\<rparr>)
      | bp # rest \<Rightarrow> (bp, r\<lparr>rc_unused_recv_buffers := rest\<rparr>))"

definition issue_read :: "feed_receiver \<Rightarrow> feed_receiver" where
  "issue_read r = (let (bp, r1) = reserve_recv_buffer r in ask [Async_receive bp] r1)"

definition connect :: "feed_receiver \<Rightarrow> feed_receiver" where
  "connect r = ask [Async_connect] r"

definition on_connect :: "('s \<Rightarrow> 's) \<Rightarrow> bool \<Rightarrow> feed_receiver \<times> 's \<Rightarrow> feed_receiver \<times> 's" where
  "on_connect reset_handler error =
     (\<lambda>(r, s). if \<not> error then (issue_read r, reset_handler s)
               else (connect (ask [Close, Sleep 3] r), s))"

text \<open>
  \<open>bytes\<close> is what the network wrote into the buffer. When the handler throws, the exception leaves
  the loop of the network and the program.
\<close>

definition on_receive ::
  "('b list \<Rightarrow> 's \<Rightarrow> (bool \<times> 's) result) \<Rightarrow> buffer_ptr \<Rightarrow> bool \<Rightarrow> 'b list \<Rightarrow> feed_receiver \<times> 's
     \<Rightarrow> (feed_receiver \<times> 's) result" where
  "on_receive msg_handler bp error bytes =
     (\<lambda>(r, s).
        rbind
          (if \<not> error then
             let r1 = issue_read r
             in rbind (msg_handler bytes s) (\<lambda>(ok, s1). Inr (if \<not> ok then ask [Close] r1 else r1, s1))
           else Inr (connect (ask [Close, Sleep 3] r), s))
          (\<lambda>(r2, s2). Inr (r2\<lparr>rc_unused_recv_buffers := rc_unused_recv_buffers r2 @ [bp]\<rparr>, s2)))"

section \<open>The command line\<close>

fun template_from :: "bool \<Rightarrow> string list \<Rightarrow> string" where
  "template_from next_is_name [] = ''./templates/depth.xml''"
| "template_from next_is_name (a # as) =
     (if next_is_name then a else if a = ''-t'' then template_from True as else template_from next_is_name as)"

definition template_file_from_args :: "string list \<Rightarrow> string" where
  "template_file_from_args argv = template_from False argv"

fun host_from :: "bool \<Rightarrow> string list \<Rightarrow> string" where
  "host_from next_is_host [] = ''127.0.0.1''"
| "host_from next_is_host (a # as) =
     (if next_is_host then a else if a = ''-h'' then host_from True as else host_from next_is_host as)"

definition host_from_args :: "string list \<Rightarrow> string" where
  "host_from_args argv = host_from False argv"

text \<open>\<^verbatim>\<open>atoi\<close> is \<^verbatim>\<open>strtol\<close> cut down to an \<^verbatim>\<open>int\<close>.\<close>

fun port_from :: "bool \<Rightarrow> string list \<Rightarrow> int32" where
  "port_from next_is_port [] = 10003"
| "port_from next_is_port (a # as) =
     (if next_is_port then ucast (fst (strtol a))
      else if a = ''-p'' then port_from True as else port_from next_is_port as)"

definition port_from_args :: "string list \<Rightarrow> int32" where
  "port_from_args argv = port_from False argv"

end
