(* ===== verification/Depth_Stamps.thy ===== *)
theory Depth_Stamps
  imports Depth_Facts
begin

text \<open>
  The change ids of the depth (\<^verbatim>\<open>last_change_\<close> of \<^verbatim>\<open>src/book/depth.h\<close> and of its levels): an
  operation stamps every visible level it changes with an id later than all before it. What a
  publisher sends of the levels changed since its last publication is therefore all there is.
\<close>

section \<open>Stamps\<close>

definition slot_marked :: "change_id \<Rightarrow> change_id \<Rightarrow> depth_level \<Rightarrow> depth_level \<Rightarrow> bool" where
  "slot_marked lo hi l l' \<longleftrightarrow>
     level_core l' = level_core l \<and> dl_last_change l' = dl_last_change l \<or>
     lo < dl_last_change l' \<and> dl_last_change l' \<le> hi"

definition marked :: "change_id \<Rightarrow> change_id \<Rightarrow> depth_level list \<Rightarrow> depth_level list \<Rightarrow> bool" where
  "marked lo hi ls ls' \<longleftrightarrow>
     length ls' = length ls \<and> (\<forall>i < length ls. slot_marked lo hi (ls ! i) (ls' ! i))"

text \<open>From \<open>d\<close> to \<open>d'\<close> at most \<open>n\<close> ids were given, and every changed level bears one of them.\<close>

definition stamped :: "nat \<Rightarrow> depth \<Rightarrow> depth \<Rightarrow> bool" where
  "stamped n d d' \<longleftrightarrow>
     dp_last_change d \<le> dp_last_change d' \<and> unat (dp_last_change d') \<le> unat (dp_last_change d) + n \<and>
     dp_last_published_change d' = dp_last_published_change d \<and> dp_SIZE d' = dp_SIZE d \<and>
     marked (dp_last_change d) (dp_last_change d') (dp_levels d) (dp_levels d')"

text \<open>The next id, as long as there is one.\<close>

definition ids_left :: "nat \<Rightarrow> depth \<Rightarrow> bool" where
  "ids_left n d \<longleftrightarrow> unat (dp_last_change d) + n < 2 ^ 32"

lemma next_id:
  assumes "ids_left n d" "0 < n"
  shows "dp_last_change d < dp_last_change d + 1" "unat (dp_last_change d + 1) = unat (dp_last_change d) + 1"
proof -
  show u: "unat (dp_last_change d + 1) = unat (dp_last_change d) + 1"
    using assms by (simp add: ids_left_def unat_add_no_wrap)
  show "dp_last_change d < dp_last_change d + 1" unfolding word_less_nat_alt u by simp
qed

lemma slot_marked_refl [simp]: "slot_marked lo hi l l"
  by (simp add: slot_marked_def)

lemma slot_marked_trans:
  "slot_marked a b x y \<Longrightarrow> slot_marked b c y z \<Longrightarrow> a \<le> b \<Longrightarrow> b \<le> c \<Longrightarrow> slot_marked a c x z"
  unfolding slot_marked_def by auto

lemma marked_refl [simp]: "marked lo hi ls ls"
  by (simp add: marked_def)

lemma marked_update: "marked lo hi ls ls' \<Longrightarrow> lo < dl_last_change l \<Longrightarrow> dl_last_change l \<le> hi \<Longrightarrow>
    marked lo hi ls (ls'[i := l])"
proof -
  assume m: "marked lo hi ls ls'" "lo < dl_last_change l" "dl_last_change l \<le> hi"
  have "slot_marked lo hi (ls ! j) (ls'[i := l] ! j)" if "j < length ls" for j
    using m that by (cases "i = j") (simp_all add: marked_def slot_marked_def)
  then show ?thesis using m(1) by (simp add: marked_def)
qed

lemma marked_trans: "marked a b x y \<Longrightarrow> marked b c y z \<Longrightarrow> a \<le> b \<Longrightarrow> b \<le> c \<Longrightarrow> marked a c x z"
  unfolding marked_def by (metis slot_marked_trans)

lemma stamped_refl [simp]: "stamped n d d"
  by (simp add: stamped_def)

lemma stamped_trans:
  assumes "stamped n a b" "stamped m b c"
  shows "stamped (n + m) a c"
  using assms marked_trans [of "dp_last_change a" "dp_last_change b" "dp_levels a" "dp_levels b"]
  unfolding stamped_def by fastforce

lemma stamped_mono: "stamped n d d' \<Longrightarrow> n \<le> m \<Longrightarrow> stamped m d d'"
  by (auto simp: stamped_def)

lemma stamped_fields [simp]:
  "stamped n d (d'\<lparr>dp_ignore_bid_fill_qty := x\<rparr>) = stamped n d d'"
  "stamped n d (d'\<lparr>dp_ignore_ask_fill_qty := x\<rparr>) = stamped n d d'"
  "stamped n d (set_excess s m d') = stamped n d d'"
  by (simp_all add: stamped_def set_excess_def)

section \<open>Moving levels\<close>

lemma shift_down_nth:
  "k < length ls \<Longrightarrow> i < length ls \<Longrightarrow> shift_down ch lv k ls ! i =
     (if lv < i \<and> i \<le> k then
        let l = level_assign (ls ! i) (ls ! (i - 1))
        in if dl_price (ls ! (i - 1)) \<noteq> INVALID_LEVEL_PRICE then level_last_change ch l else l
      else ls ! i)"
proof (induction ch lv k ls rule: shift_down.induct)
  case (2 ch lv k ls)
  show ?case
  proof (cases "lv \<le> k")
    case True
    define l where "l = (if dl_price (ls ! k) \<noteq> INVALID_LEVEL_PRICE
      then level_last_change ch (level_assign (ls ! Suc k) (ls ! k)) else level_assign (ls ! Suc k) (ls ! k))"
    have "shift_down ch lv (Suc k) ls ! i = shift_down ch lv k (ls[Suc k := l]) ! i"
      using True by (simp add: l_def Let_def)
    also have "\<dots> = (if lv < i \<and> i \<le> k then
        let x = level_assign (ls[Suc k := l] ! i) (ls[Suc k := l] ! (i - 1))
        in if dl_price (ls[Suc k := l] ! (i - 1)) \<noteq> INVALID_LEVEL_PRICE then level_last_change ch x else x
      else ls[Suc k := l] ! i)"
      using 2 True unfolding l_def by (intro "2.IH") simp_all
    also have "\<dots> = (if lv < i \<and> i \<le> Suc k then
        let x = level_assign (ls ! i) (ls ! (i - 1))
        in if dl_price (ls ! (i - 1)) \<noteq> INVALID_LEVEL_PRICE then level_last_change ch x else x
      else ls ! i)"
      using 2(2,3) True by (cases "i = Suc k") (auto simp: l_def Let_def)
    finally show ?thesis .
  qed (use 2 in \<open>auto simp: Let_def\<close>)
qed auto

lemma shift_up_nth:
  "cur + n < length ls \<Longrightarrow> i < length ls \<Longrightarrow> shift_up ch lv cur n ls ! i =
     (if cur \<le> i \<and> i < cur + n \<and> (dl_price (ls ! i) \<noteq> INVALID_LEVEL_PRICE \<or> i = lv)
      then level_last_change ch (level_assign (ls ! i) (ls ! Suc i)) else ls ! i)"
proof (induction ch lv cur n ls rule: shift_up.induct)
  case (2 ch lv cur n ls)
  define ls1 where "ls1 = (if dl_price (ls ! cur) \<noteq> INVALID_LEVEL_PRICE \<or> cur = lv
        then ls[cur := level_last_change ch (level_assign (ls ! cur) (ls ! Suc cur))] else ls)"
  have "shift_up ch lv cur (Suc n) ls ! i = shift_up ch lv (Suc cur) n ls1 ! i"
    by (simp add: ls1_def)
  also have "\<dots> = (if Suc cur \<le> i \<and> i < Suc cur + n \<and> (dl_price (ls1 ! i) \<noteq> INVALID_LEVEL_PRICE \<or> i = lv)
      then level_last_change ch (level_assign (ls1 ! i) (ls1 ! Suc i)) else ls1 ! i)"
    using 2(2,3) unfolding ls1_def by (intro "2.IH") simp_all
  also have "\<dots> = (if cur \<le> i \<and> i < cur + Suc n \<and> (dl_price (ls ! i) \<noteq> INVALID_LEVEL_PRICE \<or> i = lv)
      then level_last_change ch (level_assign (ls ! i) (ls ! Suc i)) else ls ! i)"
    using 2(2,3) by (cases "i = cur") (auto simp: ls1_def)
  finally show ?case .
qed auto

lemma level_assign_stamp [simp]:
  "dl_last_change (level_last_change c l) = c"
  "dl_price r = INVALID_LEVEL_PRICE \<Longrightarrow> dl_last_change (level_assign l r) = dl_last_change l"
  "dl_last_change (level_init p e l) = dl_last_change l"
  "dl_last_change (level_add_order q l) = dl_last_change l"
  by (simp_all add: level_defs Let_def)

lemma shift_up_marked:
  "cur + n < length ls \<Longrightarrow> lo < ch \<Longrightarrow> ch \<le> hi \<Longrightarrow> marked lo hi ls (shift_up ch lv cur n ls)"
  by (auto simp: marked_def shift_up_nth slot_marked_def)


section \<open>Finding and creating a level\<close>

text \<open>Every level but one, which the caller is going to stamp.\<close>

definition marked_but :: "nat \<Rightarrow> change_id \<Rightarrow> change_id \<Rightarrow> depth_level list \<Rightarrow> depth_level list \<Rightarrow> bool" where
  "marked_but k lo hi ls ls' \<longleftrightarrow>
     length ls' = length ls \<and> (\<forall>i < length ls. i \<noteq> k \<longrightarrow> slot_marked lo hi (ls ! i) (ls' ! i))"

lemma marked_but_refl [simp]: "marked_but k lo hi ls ls" "marked_but k lo hi ls (ls[k := l])"
  by (simp_all add: marked_but_def)

lemma marked_but_put:
  assumes "marked_but k lo hi ls ls'" "lo < dl_last_change l" "dl_last_change l \<le> hi"
  shows "marked lo hi ls (ls'[k := l])"
proof -
  have "slot_marked lo hi (ls ! j) (ls'[k := l] ! j)" if "j < length ls" for j
    using assms that by (cases "j = k") (simp_all add: marked_but_def slot_marked_def)
  then show ?thesis using assms(1) by (simp add: marked_def marked_but_def)
qed

lemma window_blank:
  assumes W: "window s d pre L post m" and "Suc i < dp_SIZE d"
    and "dl_price (dp_levels d ! (length pre + i)) = INVALID_LEVEL_PRICE"
  shows "level_core (dp_levels d ! Suc (length pre + i)) = level_core (dp_levels d ! (length pre + i))"
proof -
  have "\<not> i < length L"
  proof
    assume l: "i < length L"
    then have "agg_price (L ! i) \<noteq> INVALID_LEVEL_PRICE"
      using windowD(6) [OF W] nth_mem [OF l] by (simp add: levels_ok_def)
    then show False using window_slot(3) [OF W, of i] assms(2,3) l by simp
  qed
  then show ?thesis using window_slot(2) [OF W, of i] window_slot(2) [OF W, of "Suc i"] assms(2) by simp
qed

lemma insert_marked:
  assumes W: "window s d pre L post m" and i: "i < dp_SIZE d" and ids: "ids_left 1 d"
    and d'_def: "d' = insert_level_before (length pre + i) s p d"
  shows "marked_but (length pre + i) (dp_last_change d) (dp_last_change d + 1) (dp_levels d) (dp_levels d')"
    "dp_last_change d' = dp_last_change d + 1" "dp_last_published_change d' = dp_last_published_change d"
    "dp_SIZE d' = dp_SIZE d" "\<not> dl_is_excess (dp_levels d' ! (length pre + i))"
proof -
  let ?last = "length pre + (dp_SIZE d - 1)" and ?ch = "dp_last_change d + 1" and ?ls = "dp_levels d"
  have last: "(if s then last_bid_level d else last_ask_level d) = ?last"
    using windowD(1,3) [OF W] by (auto simp: last_bid_level_def last_ask_level_def)
  have len: "?last < length ?ls" using window_length [OF W] windowD(1,3) [OF W] by (auto split: if_splits)
  have x: "dp_levels d' = (shift_down ?ch (length pre + i) ?last ?ls)[length pre + i :=
      level_init p False (shift_down ?ch (length pre + i) ?last ?ls ! (length pre + i))]"
    unfolding d'_def insert_level_before_def last Let_def
    by (cases "dl_price (?ls ! ?last) = INVALID_LEVEL_PRICE") simp_all
  show "dp_last_change d' = dp_last_change d + 1" "dp_last_published_change d' = dp_last_published_change d"
    "dp_SIZE d' = dp_SIZE d"
    unfolding d'_def insert_level_before_def Let_def by (simp_all add: set_slot_def set_excess_def)
  show "\<not> dl_is_excess (dp_levels d' ! (length pre + i))"
    using window_slot(1) [OF W i] unfolding x by simp
  have "slot_marked (dp_last_change d) ?ch (?ls ! j) (dp_levels d' ! j)"
    if j: "j < length ?ls" "j \<noteq> length pre + i" for j
  proof (cases "length pre + i < j \<and> j \<le> ?last")
    case True
    then obtain k where k: "j = Suc (length pre + k)" "Suc k < dp_SIZE d"
      by (intro that [of "j - 1 - length pre"]) auto
    show ?thesis
      using True j len window_blank [OF W k(2)] next_id(1) [OF ids] k(1)
      by (auto simp: x shift_down_nth slot_marked_def Let_def)
  qed (use j len in \<open>auto simp: x shift_down_nth\<close>)
  then show "marked_but (length pre + i) (dp_last_change d) ?ch ?ls (dp_levels d')"
    by (simp add: marked_but_def x)
qed

text \<open>The search creates at most one level, in a slot of the side.\<close>

lemma find_visible_marked:
  assumes W: "window s d pre L post m" and ids: "ids_left 1 d"
  shows "i + n = dp_SIZE d \<Longrightarrow> find_visible p s create (length pre + i) n d = (level, d1) \<Longrightarrow>
     level = length pre + dp_SIZE d \<and> d1 = d \<or>
     (\<exists>j < dp_SIZE d. level = length pre + j \<and> \<not> dl_is_excess (dp_levels d1 ! level)) \<and>
     marked_but level (dp_last_change d) (dp_last_change d + 1) (dp_levels d) (dp_levels d1) \<and>
     dp_last_published_change d1 = dp_last_published_change d \<and> dp_SIZE d1 = dp_SIZE d"
proof (induction n arbitrary: i)
  case (Suc n)
  then have i: "i < dp_SIZE d" by simp
  note M = insert_marked [OF W i ids refl, of p]
  let ?l = "dp_levels d ! (length pre + i)"
  let ?new = "set_slot (length pre + i) (level_init p False ?l) d"
  have new: "\<not> dl_is_excess (dp_levels ?new ! (length pre + i))" "dp_SIZE ?new = dp_SIZE d"
    "marked_but (length pre + i) (dp_last_change d) (dp_last_change d + 1) (dp_levels d) (dp_levels ?new)"
    "dp_last_published_change ?new = dp_last_published_change d"
    using window_slot(1) [OF W i] by (simp_all add: set_slot_def)
  consider (found) "level = length pre + i" "d1 = d" | (blank) "level = length pre + i" "d1 = ?new"
    | (insert) "level = length pre + i" "d1 = insert_level_before (length pre + i) s p d"
    | (later) "find_visible p s create (length pre + Suc i) n d = (level, d1)"
  proof -
    have "(level, d1) \<in> {(length pre + i, d), (length pre + i, ?new),
        (length pre + i, insert_level_before (length pre + i) s p d), find_visible p s create (length pre + Suc i) n d}"
      unfolding Suc.prems(2) [symmetric] find_visible.simps Let_def by (simp split: if_split)
    then show thesis using found blank insert later by (auto simp del: find_visible.simps)
  qed
  then show ?case
  proof cases
    case found
    then show ?thesis using i window_slot(4) [OF W i] by auto
  next
    case blank
    then show ?thesis using i new by auto
  next
    case insert
    then show ?thesis using i M by auto
  next
    case later
    then show ?thesis using Suc.IH [of "Suc i"] Suc.prems(1) by simp
  qed
qed auto

lemma find_level_marked:
  assumes W: "window s d pre L post m" and ids: "ids_left 1 d" and f: "find_level p s True d = (r, d1)"
  shows "dp_last_published_change d1 = dp_last_published_change d" "dp_SIZE d1 = dp_SIZE d"
    "case r of
       Excess p' \<Rightarrow> dp_levels d1 = dp_levels d \<and> dp_last_change d1 = dp_last_change d
     | Slot k \<Rightarrow> \<not> dl_is_excess (dp_levels d1 ! k) \<and>
         marked_but k (dp_last_change d) (dp_last_change d + 1) (dp_levels d) (dp_levels d1)"
proof -
  obtain level d0 where v: "find_visible p s True (length pre) (dp_SIZE d) d = (level, d0)" by fastforce
  have "level = length pre + dp_SIZE d \<and> d0 = d \<or>
     (\<exists>j < dp_SIZE d. level = length pre + j \<and> \<not> dl_is_excess (dp_levels d0 ! level)) \<and>
     marked_but level (dp_last_change d) (dp_last_change d + 1) (dp_levels d) (dp_levels d0) \<and>
     dp_last_published_change d0 = dp_last_published_change d \<and> dp_SIZE d0 = dp_SIZE d"
    using find_visible_marked [OF W ids, of 0 "dp_SIZE d" p True level d0] v by simp
  then show "dp_last_published_change d1 = dp_last_published_change d" "dp_SIZE d1 = dp_SIZE d"
    "case r of
       Excess p' \<Rightarrow> dp_levels d1 = dp_levels d \<and> dp_last_change d1 = dp_last_change d
     | Slot k \<Rightarrow> \<not> dl_is_excess (dp_levels d1 ! k) \<and>
         marked_but k (dp_last_change d) (dp_last_change d + 1) (dp_levels d) (dp_levels d1)"
    using f unfolding find_level_unfold [OF W] v
    by (auto simp: set_excess_def split: if_splits option.splits)
qed

section \<open>The operations\<close>

lemma put_level_fields [simp]:
  "dp_last_change (put_level s r l d) = dp_last_change d"
  "dp_last_published_change (put_level s r l d) = dp_last_published_change d"
  "dp_levels (put_level s r l d) = (case r of Slot i \<Rightarrow> (dp_levels d)[i := l] | Excess p \<Rightarrow> dp_levels d)"
  by (simp_all add: put_level_def set_slot_def set_excess_def split: level_ref.split)

lemma add_stamped:
  assumes W: "window s d pre L post m" and ids: "ids_left 1 d"
    and a: "depth_add_order p q s d = (Inr (), d')"
  shows "stamped 1 d d'"
proof -
  obtain r d1 where f: "find_level p s True d = (r, d1)" by fastforce
  note M = find_level_marked [OF W ids f]
  obtain l where l: "get_level s r d1 = Inr l"
    using a f by (auto simp: depth_add_order_def Let_def split: sum.splits)
  let ?l = "level_last_change (dp_last_change d + 1) (level_add_order q l)"
  note n = next_id [OF ids]
  show ?thesis
  proof (cases r)
    case (Slot k)
    then have d': "d' = put_level s r ?l (d1\<lparr>dp_last_change := dp_last_change d + 1\<rparr>)"
      using a f l M(3) by (auto simp: depth_add_order_def Let_def get_level_def split: if_splits)
    have "marked (dp_last_change d) (dp_last_change d + 1) (dp_levels d) ((dp_levels d1)[k := ?l])"
      using M(3) Slot n by (intro marked_but_put) auto
    then show ?thesis using M(1,2) n Slot by (simp add: stamped_def d')
  next
    case (Excess p')
    then show ?thesis
      using a f l M n by (auto simp: depth_add_order_def Let_def stamped_def split: if_splits)
  qed
qed

lemma find_visible_same: "find_visible p s False i n d = (level, d1) \<Longrightarrow> d1 = d"
  by (induction p s False i n d rule: find_visible.induct) (auto simp: Let_def split: if_splits)

lemma find_level_same: "find_level p s False d = (r, d1) \<Longrightarrow> d1 = d"
  by (auto simp: find_level_def Let_def split: prod.splits if_splits option.splits dest!: find_visible_same)

lemma change_stamped:
  assumes ids: "ids_left 1 d" and c: "change_qty_order p delta s d = (Inr (), d')"
  shows "stamped 1 d d'"
proof -
  obtain r where f: "find_level p s False d = (r, d)"
    using find_level_same by (metis prod.exhaust)
  note n = next_id [OF ids]
  show ?thesis
  proof (cases "delta = 0")
    case False
    then obtain l where d': "d' = put_level s r (level_last_change (dp_last_change d + 1) l)
        (d\<lparr>dp_last_change := dp_last_change d + 1\<rparr>)"
      using c f by (auto simp: change_qty_order_def Let_def split: sum.splits)
    have "marked (dp_last_change d) (dp_last_change d + 1) (dp_levels d) (dp_levels d')"
      unfolding d' using n by (cases r) (auto intro: marked_update)
    then show ?thesis using n by (simp add: stamped_def d')
  qed (use c f in \<open>simp add: change_qty_order_def\<close>)
qed

lemma restore_last_fields:
  assumes "k < length (dp_levels d)"
  shows "\<exists>l. dp_levels (restore_last s k d) = (dp_levels d)[k := l] \<and> dl_last_change l = dp_last_change d"
    "dp_last_change (restore_last s k d) = dp_last_change d"
    "dp_last_published_change (restore_last s k d) = dp_last_published_change d"
    "dp_SIZE (restore_last s k d) = dp_SIZE d"
  using assms
  by (auto simp: restore_last_def Let_def set_slot_def set_excess_def
      intro!: exI [of _ "level_last_change (dp_last_change d) x" for x] split: list.split prod.split)


lemma erase_slot_stamped:
  assumes e: "erase_level (Slot i) s d2 = Inr d3" and d2: "dp_levels d2 = (dp_levels d)[i := l]"
      "dp_last_change d2 = dp_last_change d" "dp_last_published_change d2 = dp_last_published_change d"
      "dp_SIZE d2 = dp_SIZE d"
    and l: "\<not> dl_is_excess l" and ids: "ids_left 1 d"
    and i: "i \<le> (if s then last_bid_level d else last_ask_level d)"
      "(if s then last_bid_level d else last_ask_level d) < length (dp_levels d)"
  shows "stamped 1 d d3"
proof -
  define k where "k = (if s then last_bid_level d else last_ask_level d)"
  have k: "i \<le> k" "k < length (dp_levels d)" "(if s then last_bid_level d2 else last_ask_level d2) = k"
    using i d2(4) by (simp_all add: k_def last_bid_level_def last_ask_level_def)
  note n = next_id [OF ids]
  define ls where "ls = shift_up (dp_last_change d + 1) i i (k - i) (dp_levels d2)"
  let ?d2 = "d2\<lparr>dp_last_change := dp_last_change d + 1, dp_levels := ls\<rparr>"
  have "erase_level (Slot i) s d2 = Inr (if i = k \<or> dl_price (ls ! k) \<noteq> INVALID_LEVEL_PRICE
      then restore_last s k ?d2 else ?d2)"
    using k l unfolding erase_level_def
    by (simp add: get_level_def d2(1,2) Let_def ls_def last_bid_level_def last_ask_level_def
        cong: if_cong split del: if_split)
  then have d3: "d3 = (if i = k \<or> dl_price (ls ! k) \<noteq> INVALID_LEVEL_PRICE then restore_last s k ?d2 else ?d2)"
    using e by simp
  have len: "length ls = length (dp_levels d)" by (simp add: ls_def d2(1))
  have up: "ls ! j = (if i \<le> j \<and> j < k \<and> (dl_price (dp_levels d2 ! j) \<noteq> INVALID_LEVEL_PRICE \<or> j = i)
      then level_last_change (dp_last_change d + 1) (level_assign (dp_levels d2 ! j) (dp_levels d2 ! Suc j))
      else dp_levels d2 ! j)" if "j < length (dp_levels d)" for j
    using shift_up_nth [of i "k - i" "dp_levels d2" j] k that by (simp add: ls_def d2(1))
  have ls: "slot_marked (dp_last_change d) (dp_last_change d + 1) (dp_levels d ! j) (ls ! j)"
    if "j < length (dp_levels d)" "j \<noteq> i \<or> i < k" for j
    using up [OF that(1)] that k n by (auto simp: d2(1) slot_marked_def)
  have "marked (dp_last_change d) (dp_last_change d + 1) (dp_levels d) (dp_levels d3)"
  proof (cases "i = k \<or> dl_price (ls ! k) \<noteq> INVALID_LEVEL_PRICE")
    case True
    obtain l' where l': "dp_levels (restore_last s k ?d2) = ls[k := l']" "dl_last_change l' = dp_last_change d + 1"
      using restore_last_fields(1) [of k ?d2 s] k len by auto
    have "marked_but k (dp_last_change d) (dp_last_change d + 1) (dp_levels d) ls"
      using ls len k by (auto simp: marked_but_def)
    then show ?thesis using marked_but_put [of k "dp_last_change d" _ "dp_levels d" ls l'] l' n True by (simp add: d3)
  next
    case False
    then have "i < k" using k by simp
    then show ?thesis using False ls len by (simp add: d3 marked_def)
  qed
  moreover have "dp_last_change d3 = dp_last_change d + 1" "dp_SIZE d3 = dp_SIZE d"
    "dp_last_published_change d3 = dp_last_published_change d"
    using restore_last_fields(2-4) [of k ?d2 s] k len d2(3,4) by (simp_all add: d3)
  ultimately show ?thesis using n by (simp add: stamped_def)
qed

lemma erase_excess_stamped: "erase_level (Excess p) s d = Inr d' \<Longrightarrow> stamped n d d'"
  by (auto simp: erase_level_def split: if_splits sum.splits)

lemma close_stamped:
  assumes W: "window s d pre L post m" and ids: "ids_left 1 d" and p: "p \<in> agg_price ` set L"
    and c: "depth_close_order p q s d = (Inr e, d')"
  shows "stamped 1 d d'"
proof -
  obtain n a where na: "(p, n, a) \<in> set L" using p by auto
  then obtain A B where L: "L = A @ (p, n, a) # B" by (meson split_list)
  let ?r = "ref_at (dp_SIZE d) pre p (length A)"
  have W': "window s d pre (A @ (p, n, a) # B) post m" using W L by simp
  have f: "find_level p s False d = (?r, d)" using find_existing [OF W', of False] by simp
  obtain l where l: "get_level s ?r d = Inr l" "dl_is_excess l = (dp_SIZE d \<le> length A)"
    using get_ref [OF W'] by auto
  obtain r' l1 where l1: "level_close_order q l = (r', l1)" by fastforce
  then have l1x: "dl_is_excess l1 = dl_is_excess l" by (rule level_close_order_frame(2))
  note n = next_id [OF ids]
  consider (erase) "r' = Inr True" "erase_level ?r s (put_level s ?r l1 d) = Inr d'"
    | (keep) "r' = Inr False" "d' = put_level s ?r (level_last_change (dp_last_change d + 1) l1)
        (d\<lparr>dp_last_change := dp_last_change d + 1\<rparr>)"
    using c f l(1) l1 by (auto simp: depth_close_order_def Let_def split: sum.splits bool.splits)
  then show ?thesis
  proof cases
    case keep
    have "marked (dp_last_change d) (dp_last_change d + 1) (dp_levels d) (dp_levels d')"
      unfolding keep using n by (cases ?r) (auto intro: marked_update)
    then show ?thesis using n by (simp add: stamped_def keep(2))
  next
    case erase
    show ?thesis
    proof (cases "length A < dp_SIZE d")
      case True
      then have r: "?r = Slot (length pre + length A)" by (simp add: ref_at_def)
      have "length pre + length A \<le> (if s then last_bid_level d else last_ask_level d)"
        "(if s then last_bid_level d else last_ask_level d) < length (dp_levels d)"
        using True windowD(1,3) [OF W] window_length [OF W]
        by (auto simp: last_bid_level_def last_ask_level_def)
      then show ?thesis
        using True l(2) l1x erase_slot_stamped [OF erase(2) [unfolded r], of d l1] ids by simp
    next
      case False
      then have r: "?r = Excess p" by (simp add: ref_at_def)
      have "stamped 1 d (put_level s ?r l1 d)" by (simp add: r put_level_def)
      moreover have "stamped 0 (put_level s ?r l1 d) d'" using erase(2) unfolding r by (rule erase_excess_stamped)
      ultimately show ?thesis using stamped_trans by fastforce
    qed
  qed
qed

lemma close_prices: "can_close p q L \<Longrightarrow> p \<in> agg_price ` set L"
  by (force simp: can_close_def)


lemma forget_Inr: "forget r = (Inr (), d) \<longleftrightarrow> (\<exists>x. r = (Inr x, d))"
  by (auto simp: forget_def split: prod.splits sum.splits)

section \<open>Steps of the depth\<close>

text \<open>
  What a book tells its depth: an order added, closed, filled, an immediate fill to ignore and
  the fills ignored, an order replaced at its price or at another. The sides are what the depth
  stands for.
\<close>

inductive depth_step :: "depth \<times> two_sides \<Rightarrow> depth \<times> two_sides \<Rightarrow> bool" where
  add: "p \<noteq> INVALID_LEVEL_PRICE \<Longrightarrow> depth_add_order p q s d = (Inr (), d') \<Longrightarrow>
    depth_step (d, f) (d', f(s := add_level s p q (f s)))"
| close: "can_close p q (f s) \<Longrightarrow> depth_close_order p q s d = (Inr e, d') \<Longrightarrow>
    depth_step (d, f) (d', f(s := close_level p q (f s)))"
| fill: "can_close p q (f s) \<Longrightarrow> ignored_fill_qty s d = 0 \<Longrightarrow> fill_order p q filled s d = (Inr (), d') \<Longrightarrow>
    depth_step (d, f) (d', f(s := fill_level p q filled (f s)))"
| fill_ignored: "ignored_fill_qty s d \<noteq> 0 \<Longrightarrow> fill_order p q filled s d = (Inr (), d') \<Longrightarrow>
    depth_step (d, f) (d', f)"
| ignore: "ignore_fill_qty q s d = (Inr (), d') \<Longrightarrow> depth_step (d, f) (d', f)"
| change: "p \<in> agg_price ` set (f s) \<Longrightarrow> replace_order p p q q' s d = (Inr e, d') \<Longrightarrow>
    depth_step (d, f) (d', f(s := change_level p (q' - q) (f s)))"
| move: "can_close p q (f s) \<Longrightarrow> p' \<noteq> p \<Longrightarrow> p' \<noteq> INVALID_LEVEL_PRICE \<Longrightarrow>
    replace_order p p' q q' s d = (Inr e, d') \<Longrightarrow>
    depth_step (d, f) (d', f(s := close_level p q (add_level s p' q' (f s))))"

lemma add_repr_stamped:
  assumes R: "depth_repr d f" and p: "p \<noteq> INVALID_LEVEL_PRICE" and i: "ids_left 1 d"
    and a: "depth_add_order p q s d = (Inr (), d')"
  shows "depth_repr d' (f(s := add_level s p q (f s))) \<and> stamped 1 d d'"
proof -
  obtain d1 where "depth_add_order p q s d = (Inr (), d1)" "depth_repr d1 (f(s := add_level s p q (f s)))"
    by (rule depth_add_repr [OF R p])
  then show ?thesis using a add_stamped [OF repr_window [OF R] i a] by simp
qed

lemma close_repr_stamped:
  assumes R: "depth_repr d f" and c: "can_close p q (f s)" and i: "ids_left 1 d"
    and a: "depth_close_order p q s d = (Inr e, d')"
  shows "depth_repr d' (f(s := close_level p q (f s))) \<and> stamped 1 d d'"
proof -
  obtain e1 d1 where "depth_close_order p q s d = (Inr e1, d1)"
    "depth_repr d1 (f(s := close_level p q (f s)))" by (rule depth_close_repr [OF R c])
  then show ?thesis using a close_stamped [OF repr_window [OF R] i close_prices [OF c] a] by simp
qed

lemma stamped_two: "stamped 1 d d' \<Longrightarrow> stamped 2 d d'"
  by (rule stamped_mono [of 1]) simp_all

lemma step_repr_stamped:
  assumes "depth_step x y" "depth_repr (fst x) (snd x)" "ids_left 2 (fst x)"
  shows "depth_repr (fst y) (snd y) \<and> stamped 2 (fst x) (fst y)"
  using assms
proof (induction rule: depth_step.induct)
  case (add p q s d d' f)
  then have i: "ids_left 1 d" by (simp add: ids_left_def)
  show ?case
    using add_repr_stamped [of d f p q s d'] add i unfolding fst_conv snd_conv by (blast intro: stamped_two)
next
  case (close p q f s d e d')
  then have i: "ids_left 1 d" by (simp add: ids_left_def)
  show ?case
    using close_repr_stamped [of d f p q s e d'] close i unfolding fst_conv snd_conv by (blast intro: stamped_two)
next
  case (fill p q f s d filled d')
  then have i: "ids_left 1 d" by (simp add: ids_left_def)
  have "stamped 1 d d'"
  proof (cases filled)
    case True
    then obtain e where "depth_close_order p q s d = (Inr e, d')"
      using fill by (cases s) (auto simp: fill_order_def ignored_fill_qty_def forget_Inr)
    then show ?thesis using close_repr_stamped [of d f p q s e d'] fill i by simp
  next
    case False
    then have "change_qty_order p (- q) s d = (Inr (), d')"
      using fill by (cases s) (auto simp: fill_order_def ignored_fill_qty_def)
    then show ?thesis by (rule change_stamped [OF i])
  qed
  moreover have R: "depth_repr d f" using fill by simp
  obtain d1 where "fill_order p q filled s d = (Inr (), d1)" "depth_repr d1 (f(s := fill_level p q filled (f s)))"
    by (rule depth_fill_repr [OF R fill(1,2)])
  ultimately show ?case using fill(3) stamped_two by (simp del: fun_upd_apply)
next
  case (fill_ignored s d p q filled d' f)
  then show ?case
    using depth_fill_ignored [of s d f p q filled]
    by (cases s) (auto simp: fill_order_def ignored_fill_qty_def)
next
  case (ignore q s d d' f)
  then show ?case by (auto simp: ignore_fill_qty_def split: if_splits)
next
  case (change p f s q q' d e d')
  then have i: "ids_left 1 d" by (simp add: ids_left_def)
  have "change_qty_order p (q' - q) s d = (Inr (), d')"
    using change by (auto simp: replace_order_def split: prod.splits sum.splits)
  then have "stamped 1 d d'" by (rule change_stamped [OF i])
  moreover have R: "depth_repr d f" using change by simp
  obtain d1 where "replace_order p p q q' s d = (Inr False, d1)" "depth_repr d1 (f(s := change_level p (q' - q) (f s)))"
    by (rule depth_replace_same_repr [OF R change(1)])
  ultimately show ?case using change(2) stamped_two by (simp del: fun_upd_apply)
next
  case (move p q f s p' q' d e d')
  then have i: "ids_left 1 d" by (simp add: ids_left_def)
  obtain d1 where d1: "depth_add_order p' q' s d = (Inr (), d1)" "depth_close_order p q s d1 = (Inr e, d')"
    using move by (auto simp: replace_order_def split: prod.splits sum.splits if_splits)
  have R: "depth_repr d f" using move by simp
  have s1: "stamped 1 d d1" and R1: "depth_repr d1 (f(s := add_level s p' q' (f s)))"
    using add_repr_stamped [OF R move(3) i d1(1)] by auto
  then have i1: "ids_left 1 d1" using move(6) by (simp add: stamped_def ids_left_def)
  have "can_close p q ((f(s := add_level s p' q' (f s))) s)"
    using move(1,2) by (auto simp: can_close_def add_level_keeps)
  then have "stamped 1 d1 d'" using close_repr_stamped [OF R1 _ i1 d1(2)] by blast
  then have "stamped 2 d d'" using stamped_trans [OF s1, of 1 d'] by (simp add: numeral_2_eq_2)
  moreover obtain e1 d2 where "replace_order p p' q q' s d = (Inr e1, d2)"
    "depth_repr d2 (f(s := close_level p q (add_level s p' q' (f s))))"
    by (rule depth_replace_move_repr [OF R move(1-3)])
  ultimately show ?case using move(4) by (simp del: fun_upd_apply)
qed

text \<open>Several steps.\<close>

inductive depth_steps :: "nat \<Rightarrow> depth \<times> two_sides \<Rightarrow> depth \<times> two_sides \<Rightarrow> bool" where
  none: "depth_steps 0 x x"
| more: "depth_steps n x y \<Longrightarrow> depth_step y z \<Longrightarrow> depth_steps (Suc n) x z"

lemma steps_repr_stamped:
  "depth_steps n x y \<Longrightarrow> depth_repr (fst x) (snd x) \<Longrightarrow> ids_left (2 * n) (fst x) \<Longrightarrow>
     depth_repr (fst y) (snd y) \<and> stamped (2 * n) (fst x) (fst y)"
proof (induction rule: depth_steps.induct)
  case (more n x y z)
  then have y: "depth_repr (fst y) (snd y)" "stamped (2 * n) (fst x) (fst y)"
    by (simp_all add: ids_left_def)
  then have "ids_left 2 (fst y)" using more.prems(2) by (simp add: stamped_def ids_left_def)
  from step_repr_stamped [OF more(2) y(1) this] stamped_trans [OF y(2), of 2 "fst z"]
  show ?case by (simp add: add.commute)
qed simp


section \<open>Since the last publication\<close>

text \<open>
  A reader who was told the levels \<open>C\<close> at the last publication: what differs now bears an id
  later than the published one.
\<close>

definition told :: "levels \<Rightarrow> depth \<Rightarrow> bool" where
  "told C d \<longleftrightarrow>
     length C = length (dp_levels d) \<and> dp_last_published_change d \<le> dp_last_change d \<and>
     (\<forall>i < length C. level_core (dp_levels d ! i) = C ! i \<or>
        level_changed_since (dp_last_published_change d) (dp_levels d ! i))"

lemma told_published: "told (cores (dp_levels d)) (published d)"
  by (simp add: told_def published_def)

lemma told_stamped:
  assumes "told C d" "stamped n d d'"
  shows "told C d'"
proof -
  have "level_core (dp_levels d' ! i) = C ! i \<or>
      level_changed_since (dp_last_published_change d') (dp_levels d' ! i)" if "i < length C" for i
  proof -
    have "slot_marked (dp_last_change d) (dp_last_change d') (dp_levels d ! i) (dp_levels d' ! i)"
      "dp_last_published_change d' = dp_last_published_change d"
      "dp_last_published_change d \<le> dp_last_change d"
      using assms that by (simp_all add: told_def stamped_def marked_def)
    moreover have "level_core (dp_levels d ! i) = C ! i \<or>
      level_changed_since (dp_last_published_change d) (dp_levels d ! i)"
      using assms(1) that by (simp add: told_def)
    ultimately show ?thesis by (auto simp: slot_marked_def level_changed_since_def)
  qed
  then show ?thesis using assms by (auto simp: told_def stamped_def marked_def)
qed

text \<open>
  C37. Between two publications nothing is missed: whatever orders are added, closed, filled and
  replaced after a publication, every visible level either says what was published or has
  changed since, and when the depth as a whole has not changed every level is the published one.
\<close>

theorem changes_are_stamped:
  assumes "depth_repr d f" "depth_steps n (published d, f) (d', f')" "ids_left (2 * n) d"
  shows "depth_repr d' f' \<and>
    (\<forall>i < length (dp_levels d). level_core (dp_levels d' ! i) = level_core (dp_levels d ! i) \<or>
      level_changed_since (dp_last_published_change d') (dp_levels d' ! i)) \<and>
    (\<not> changed d' \<longrightarrow> cores (dp_levels d') = cores (dp_levels d))"
proof -
  have S: "depth_repr d' f' \<and> stamped (2 * n) (published d) d'"
    using steps_repr_stamped [OF assms(2)] assms(1,3) by (simp add: published_def ids_left_def)
  have T: "told (cores (dp_levels d)) d'" using told_stamped [OF told_published] S by blast
  have "cores (dp_levels d') = cores (dp_levels d)" if "\<not> changed d'"
  proof (rule nth_equalityI)
    show l: "length (cores (dp_levels d')) = length (cores (dp_levels d))" using T by (simp add: told_def)
    fix i assume i: "i < length (cores (dp_levels d'))"
    then have "slot_marked (dp_last_change d) (dp_last_change d') (dp_levels d ! i) (dp_levels d' ! i)"
      "dp_last_change d' \<le> dp_last_change d"
      using S l that by (auto simp: stamped_def marked_def changed_def published_def)
    then show "cores (dp_levels d') ! i = cores (dp_levels d) ! i"
      using i l by (auto simp: slot_marked_def)
  qed
  then show ?thesis using S T by (auto simp: told_def)
qed

theorem changes_are_stamped_witness:
  "\<exists>d. depth_add_order 100 5 True (published (Depth 1)) = (Inr (), d) \<and>
     (level_core (dp_levels d ! 0) = level_core (dp_levels (Depth 1) ! 0) \<or>
      level_changed_since (dp_last_published_change d) (dp_levels d ! 0))"
proof -
  have R: "depth_repr (Depth 1) (\<lambda>_. [])" by (rule depth_repr_Depth) simp
  then have "depth_repr (published (Depth 1)) (\<lambda>_. [])" by (simp add: published_def)
  then obtain d where d: "depth_add_order 100 5 True (published (Depth 1)) = (Inr (), d)"
    by (rule depth_add_repr [of _ _ 100 5 True]) (simp_all add: INVALID_LEVEL_PRICE_def)
  then have "depth_step (published (Depth 1), \<lambda>_. []) (d, (\<lambda>_. [])(True := add_level True 100 5 []))"
    by (intro depth_step.add) (simp_all add: INVALID_LEVEL_PRICE_def)
  then have "depth_steps (Suc 0) (published (Depth 1), \<lambda>_. []) (d, (\<lambda>_. [])(True := add_level True 100 5 []))"
    by (rule depth_steps.more [OF depth_steps.none])
  from changes_are_stamped [OF R this] d show ?thesis
    by (simp add: ids_left_def Depth_def)
qed

end
