(* ===== verification/Feed_Content.thy ===== *)
theory Feed_Content
  imports Feed_Subscriber Feed_Connection Depth_Stamps
begin

text \<open>
  What the messages of the publisher contain, and what the subscriber makes of them: the depth it
  keeps gets the levels of the message.
\<close>

section \<open>The content of the messages\<close>

lemma view_rules:
  assumes "fields_ok Q view"
  shows "view (fs_empty Q) = Map.empty"
    "view m f = None \<Longrightarrow> view (fs_addField Q f v m) = (view m)(f \<mapsto> v)"
    "fs_getUnsignedInteger Q m f = unsigned_value (view m f)"
    "fs_getString Q m f = (case view m f of Some (FieldString s) \<Rightarrow> Some s | _ \<Rightarrow> None)"
    "fs_getSequenceLength Q m f =
       (case view m f of Some (FieldSequence l es) \<Rightarrow> Some (length es) | _ \<Rightarrow> None)"
    "fs_getSequenceEntry Q m f i =
       (case view m f of Some (FieldSequence l es) \<Rightarrow> if i < length es then Some (es ! i) else None | _ \<Rightarrow> None)"
    "fst (fs_replaceField Q f v m) = (view m f \<noteq> None)"
    "view (snd (fs_replaceField Q f v m)) = (if view m f \<noteq> None then (view m)(f \<mapsto> v) else view m)"
  using assms unfolding fields_ok_def by (blast | simp)+

lemma view_trade:
  assumes "fields_ok Q view"
  shows "view (build_trade_message Q now (fs_empty Q) symbol qty cost) =
    [id_timestamp \<mapsto> FieldUInt32 now, id_symbol \<mapsto> FieldString symbol, id_qty \<mapsto> FieldUInt32 qty,
     id_cost \<mapsto> FieldUInt32 cost]"
  by (simp add: build_trade_message_def Let_def view_rules [OF assms] id_defs)

text \<open>The levels of a side a message tells, with their index.\<close>

definition chosen :: "bool \<Rightarrow> change_id \<Rightarrow> nat \<Rightarrow> depth_level list \<Rightarrow> (nat \<times> depth_level) list" where
  "chosen full lp i ls = filter (\<lambda>(k, l). full \<or> level_changed_since lp l) (enumerate i ls)"

definition level_fields :: "nat \<times> depth_level \<Rightarrow> string \<Rightarrow> 'fs field option" where
  "level_fields = (\<lambda>(k, l). [id_level_num \<mapsto> FieldUInt8 (word_of_nat k), id_order_count \<mapsto> FieldUInt32 (dl_order_count l),
     id_price \<mapsto> FieldUInt32 (dl_price l), id_size \<mapsto> FieldUInt32 (dl_aggregate_qty l)])"

definition tells :: "('fs \<Rightarrow> string \<Rightarrow> 'fs field option) \<Rightarrow> 'fs list \<Rightarrow> (nat \<times> depth_level) list \<Rightarrow> bool" where
  "tells view es cs \<longleftrightarrow> list_all2 (\<lambda>e c. view e = level_fields c) es cs"

lemma build_side_tells:
  assumes "fields_ok Q view"
  shows "tells view seq cs \<Longrightarrow> tells view (build_side Q full lp i ls seq) (cs @ chosen full lp i ls)"
proof (induction ls arbitrary: i seq cs)
  case (Cons l ls)
  have "view (build_depth_level Q [] l i ! 0) = level_fields (i, l)"
    by (simp add: build_depth_level_def Let_def view_rules [OF assms] id_defs level_fields_def)
  moreover have "build_depth_level Q seq l i = seq @ [build_depth_level Q [] l i ! 0]"
    by (simp add: build_depth_level_def Let_def)
  ultimately have "tells view (build_depth_level Q seq l i) (cs @ [(i, l)])"
    using Cons.prems by (simp add: tells_def list_all2_appendI)
  then show ?case
    using Cons.IH [of "build_depth_level Q seq l i" "cs @ [(i, l)]" "Suc i"] Cons.IH [OF Cons.prems, of "Suc i"]
    by (cases "full \<or> level_changed_since lp l") (auto simp: chosen_def)
qed (simp add: chosen_def)

lemma level_entry_fields: "view e = level_fields c \<Longrightarrow> level_entry view e"
  by (cases c) (simp add: level_entry_def level_fields_def, blast)

lemma tells_entries: "tells view es cs \<Longrightarrow> \<forall>e \<in> set es. level_entry view e"
  unfolding tells_def by (induction rule: list_all2_induct) (auto intro: level_entry_fields)

text \<open>A feed shows five levels a side.\<close>

definition five_levels :: "depth \<Rightarrow> bool" where
  "five_levels d \<longleftrightarrow> dp_SIZE d = 5 \<and> length (dp_levels d) = 10"

lemma view_depth:
  assumes "fields_ok Q view"
  obtains bs es where
    "view (build_depth_message Q now (fs_empty Q) symbol d full) =
       [id_timestamp \<mapsto> FieldUInt32 now, id_symbol \<mapsto> FieldString symbol, id_bids \<mapsto> FieldSequence id_bids_length bs,
        id_asks \<mapsto> FieldSequence id_asks_length es]"
    "tells view bs (chosen full (dp_last_published_change d) 0 (slots (bids d) (last_bid_level d) d))"
    "tells view es (chosen full (dp_last_published_change d) 0 (slots (asks d) (last_ask_level d) d))"
proof -
  have "tells view (build_side Q full lp 0 ls []) (chosen full lp 0 ls)" for lp ls
    using build_side_tells [OF assms, of "[]" "[]"] by (simp add: tells_def)
  then show thesis
    by (intro that) (simp_all add: build_depth_message_def Let_def view_rules [OF assms] id_defs)
qed

lemma view_numbered:
  assumes "fields_ok Q view" "set_sequence_num Q m s = (m1, s1)"
  shows "view m1 = (view m)(id_seq_num \<mapsto> FieldUInt32 (ss_seq_num s + 1))"
    "s1 = s\<lparr>ss_seq_num := ss_seq_num s + 1\<rparr>"
proof -
  let ?v = "FieldUInt32 (ss_seq_num s + 1)"
  obtain found m' where r: "fs_replaceField Q id_seq_num ?v m = (found, m')" by fastforce
  then have m': "found = (view m id_seq_num \<noteq> None)" "view m' = (if found then (view m)(id_seq_num \<mapsto> ?v) else view m)"
    using view_rules(7,8) [OF assms(1), of id_seq_num ?v m] by simp_all
  have e: "m1 = (if \<not> found then fs_addField Q id_seq_num ?v m' else m')" "s1 = s\<lparr>ss_seq_num := ss_seq_num s + 1\<rparr>"
    using assms(2) r by (auto simp: set_sequence_num_def Let_def)
  show "view m1 = (view m)(id_seq_num \<mapsto> ?v)"
    using m' view_rules(2) [OF assms(1), of m' id_seq_num ?v] by (cases found) (auto simp: e(1))
  show "s1 = s\<lparr>ss_seq_num := ss_seq_num s + 1\<rparr>" by (rule e(2))
qed


section \<open>Setting the levels\<close>

fun write_levels :: "nat \<Rightarrow> (nat \<times> depth_level) list \<Rightarrow> depth \<Rightarrow> depth" where
  "write_levels base [] d = d"
| "write_levels base ((k, l) # cs) d =
     write_levels base cs
       (set_slot (base + k) (level_set (dl_price l) (dl_aggregate_qty l) (dl_order_count l) 0 (dp_levels d ! (base + k))) d)"

lemma level_set_core [simp]: "level_core (level_set p q n c l) = (p, n, q)"
  by (simp add: level_core_def level_set_def)

lemma ucast_back: "ucast (ucast (w :: 32 word) :: 64 word) = w"
  by (auto simp: bit_eq_iff bit_simps)

lemma unat_level_num: "k < 256 \<Longrightarrow> unat (ucast (word_of_nat k :: 8 word) :: 64 word) = k"
  by (simp add: unsigned_ucast_eq unsigned_of_nat take_bit_nat_eq_self)

lemma unsigned_value_simps [simp]:
  "unsigned_value (Some (FieldUInt32 w)) = Some (ucast w)" "unsigned_value (Some (FieldUInt16 w16)) = Some (ucast w16)"
  "unsigned_value (Some (FieldUInt8 w8)) = Some (ucast w8)"
  by (simp_all add: unsigned_value_def)

lemma level_fields_read:
  assumes "fields_ok Q view" "view e = level_fields (k, l)"
  shows "fs_getUnsignedInteger Q e id_level_num = Some (ucast (word_of_nat k :: 8 word))"
    "fs_getUnsignedInteger Q e id_price = Some (ucast (dl_price l))"
    "fs_getUnsignedInteger Q e id_order_count = Some (ucast (dl_order_count l))"
    "fs_getUnsignedInteger Q e id_size = Some (ucast (dl_aggregate_qty l))"
  using assms(2) by (simp_all add: view_rules [OF assms(1)] level_fields_def) (simp_all add: id_defs)

lemma set_levels_writes:
  assumes F: "fields_ok Q view" and t: "tells view es cs" and m: "view m side = Some (FieldSequence len es)"
  shows "i + n = length es \<Longrightarrow> \<forall>(k, l) \<in> set cs. k < 256 \<and> base + k < length (dp_levels d) \<Longrightarrow>
    set_levels Q m side base i n d = Inr (True, write_levels base (drop i cs) d)"
proof (induction n arbitrary: i d)
  case 0
  then show ?case using t by (auto simp: tells_def dest: list_all2_lengthD)
next
  case (Suc n)
  then have i: "i < length es" by simp
  have len: "length es = length cs" using t by (simp add: tells_def list_all2_lengthD)
  obtain k l where c: "cs ! i = (k, l)" by fastforce
  have v: "view (es ! i) = level_fields (k, l)"
    using list_all2_nthD [OF t [unfolded tells_def] i] c by simp
  have kl: "k < 256" "base + k < length (dp_levels d)"
    using Suc.prems(2) c nth_mem [of i cs] i len by fastforce+
  note r = level_fields_read [OF F v]
  let ?d = "set_slot (base + k) (level_set (dl_price l) (dl_aggregate_qty l) (dl_order_count l) 0 (dp_levels d ! (base + k))) d"
  have "set_levels Q m side base (Suc i) n ?d = Inr (True, write_levels base (drop (Suc i) cs) ?d)"
    using Suc.prems by (intro Suc.IH) (auto simp: set_slot_def)
  moreover have "drop i cs = (k, l) # drop (Suc i) cs"
    using i c len Cons_nth_drop_Suc [of i cs] by simp
  moreover have "fs_getSequenceEntry Q m side i = Some (es ! i)"
    using i by (simp add: view_rules(6) [OF F] m)
  ultimately show ?case
    using kl by (simp add: r unat_level_num [OF kl(1)] ucast_back Let_def)
qed

lemma write_levels_fields [simp]:
  "dp_SIZE (write_levels base cs d) = dp_SIZE d" "length (dp_levels (write_levels base cs d)) = length (dp_levels d)"
  by (induction base cs d rule: write_levels.induct) (simp_all add: set_slot_def)

text \<open>The levels of a side that were chosen, written over the levels from \<open>base\<close>.\<close>

lemma write_chosen_nth:
  assumes "j < length (dp_levels d)" "base + i + length ls \<le> length (dp_levels d)"
  shows "level_core (dp_levels (write_levels base (chosen full lp i ls) d) ! j) =
    (if base + i \<le> j \<and> j < base + i + length ls \<and> (full \<or> level_changed_since lp (ls ! (j - (base + i))))
     then level_core (ls ! (j - (base + i))) else level_core (dp_levels d ! j))"
  using assms
proof (induction ls arbitrary: i d)
  case Nil
  then show ?case by (auto simp: chosen_def)
next
  case (Cons l ls)
  let ?w = "\<lambda>d. set_slot (base + i) (level_set (dl_price l) (dl_aggregate_qty l) (dl_order_count l) 0 (dp_levels d ! (base + i))) d"
  let ?d = "if full \<or> level_changed_since lp l then ?w d else d"
  have step: "write_levels base (chosen full lp i (l # ls)) d = write_levels base (chosen full lp (Suc i) ls) ?d"
    by (simp add: chosen_def)
  have IH: "level_core (dp_levels (write_levels base (chosen full lp (Suc i) ls) ?d) ! j) =
    (if base + Suc i \<le> j \<and> j < base + Suc i + length ls \<and> (full \<or> level_changed_since lp (ls ! (j - (base + Suc i))))
     then level_core (ls ! (j - (base + Suc i))) else level_core (dp_levels ?d ! j))"
    using Cons.prems by (intro Cons.IH) (simp_all add: set_slot_def)
  have d: "level_core (dp_levels ?d ! j) =
      (if j = base + i \<and> (full \<or> level_changed_since lp l) then level_core l else level_core (dp_levels d ! j))"
    using Cons.prems by (auto simp: set_slot_def level_core_def level_set_def)
  consider "j < base + i" | "j = base + i" | x where "j = base + Suc i + x"
    by (metis add_Suc_right less_iff_Suc_add linorder_neqE_nat add_Suc)
  then show ?case
    unfolding step IH d by cases auto
qed


section \<open>A message arrives\<close>

definition arrives :: "('fs \<Rightarrow> string \<Rightarrow> 'fs field option) \<Rightarrow> nat \<Rightarrow> 'fs \<Rightarrow> 'fs \<Rightarrow> bool" where
  "arrives view t m m' \<longleftrightarrow>
     view m' id_msg_type = Some (FieldUInt16 (message_type t)) \<and>
     (\<forall>f. f \<noteq> id_msg_type \<longrightarrow> same_field view (view m f) (view m' f))"

lemma arrives_simple:
  "arrives view t m m' \<Longrightarrow> f \<noteq> id_msg_type \<Longrightarrow> view m f = Some (FieldUInt32 w) \<Longrightarrow> view m' f = Some (FieldUInt32 w)"
  "arrives view t m m' \<Longrightarrow> f \<noteq> id_msg_type \<Longrightarrow> view m f = Some (FieldString s) \<Longrightarrow> view m' f = Some (FieldString s)"
  by (metis arrives_def same_field.simps)+

lemma arrives_sequence:
  assumes "arrives view t m m'" "f \<noteq> id_msg_type" "view m f = Some (FieldSequence l es)" "tells view es cs"
  obtains k es' where "view m' f = Some (FieldSequence k es')" "tells view es' cs"
proof -
  have "same_field view (Some (FieldSequence l es)) (view m' f)"
    using assms(1-3) unfolding arrives_def by metis
  then obtain k es' where es': "view m' f = Some (FieldSequence k es')" "list_all2 (\<lambda>a b. view a = view b) es es'"
    by (auto split: option.splits field.splits)
  have "tells view es' cs"
    using es'(2) assms(4) by (auto simp: tells_def list_all2_conv_all_nth)
  then show thesis using that es'(1) by blast
qed

lemma chosen_index: "(k, l) \<in> set (chosen full lp i ls) \<Longrightarrow> k < i + length ls"
  by (auto simp: chosen_def in_set_enumerate_eq)

lemma set_side_writes:
  assumes F: "fields_ok Q view" and m: "view m side = Some (FieldSequence len es)"
    and t: "tells view es (chosen full lp 0 ls)" and l: "length ls \<le> 256" "base + length ls \<le> length (dp_levels d)"
  shows "set_side Q m side base d = Inr (True, write_levels base (chosen full lp 0 ls) d)"
proof -
  have "\<forall>(k, l) \<in> set (chosen full lp 0 ls). k < 256 \<and> base + k < length (dp_levels d)"
    using l by (auto dest!: chosen_index)
  from set_levels_writes [OF F t m _ this, of 0 "length es"] show ?thesis
    by (simp add: set_side_def view_rules(5) [OF F] m)
qed

text \<open>Both sides of the depth of the publisher, written over the one of the subscriber.\<close>

definition told_depth :: "bool \<Rightarrow> depth \<Rightarrow> depth \<Rightarrow> depth" where
  "told_depth full d x =
     (let lp = dp_last_published_change d
      in write_levels 5 (chosen full lp 0 (drop 5 (dp_levels d))) (write_levels 0 (chosen full lp 0 (take 5 (dp_levels d))) x))"

lemma told_depth_cores:
  assumes d: "five_levels d" "five_levels x" and t: "full \<or> told (cores (dp_levels x)) d"
  shows "cores (dp_levels (told_depth full d x)) = cores (dp_levels d)" "five_levels (told_depth full d x)"
proof -
  let ?y = "write_levels 0 (chosen full (dp_last_published_change d) 0 (take 5 (dp_levels d))) x"
  have len: "length (dp_levels d) = 10" "length (dp_levels x) = 10" using d by (simp_all add: five_levels_def)
  show "five_levels (told_depth full d x)" using d by (simp add: five_levels_def told_depth_def Let_def)
  have "level_core (dp_levels (told_depth full d x) ! j) = level_core (dp_levels d ! j)" if j: "j < 10" for j
  proof -
    have "level_core (dp_levels ?y ! j) =
        (if j < 5 \<and> (full \<or> level_changed_since (dp_last_published_change d) (dp_levels d ! j))
         then level_core (dp_levels d ! j) else level_core (dp_levels x ! j))"
      using write_chosen_nth [of j x 0 0 "take 5 (dp_levels d)" full "dp_last_published_change d"] j len by auto
    moreover have "level_core (dp_levels (told_depth full d x) ! j) =
        (if 5 \<le> j \<and> (full \<or> level_changed_since (dp_last_published_change d) (dp_levels d ! j))
         then level_core (dp_levels d ! j) else level_core (dp_levels ?y ! j))"
      using write_chosen_nth [of j ?y 5 0 "drop 5 (dp_levels d)" full "dp_last_published_change d"] j len
      by (auto simp: told_depth_def Let_def)
    moreover have "full \<or> level_core (dp_levels d ! j) = level_core (dp_levels x ! j) \<or>
        level_changed_since (dp_last_published_change d) (dp_levels d ! j)"
      using t j len by (auto simp: told_def)
    ultimately show ?thesis by auto
  qed
  then show "cores (dp_levels (told_depth full d x)) = cores (dp_levels d)"
    using len by (intro nth_equalityI) (simp_all add: told_depth_def Let_def)
qed

lemma five_slots:
  assumes "five_levels d"
  shows "slots (bids d) (last_bid_level d) d = take 5 (dp_levels d)"
    "slots (asks d) (last_ask_level d) d = drop 5 (dp_levels d)" "bids d = 0" "asks d = 5"
  using assms by (simp_all add: five_levels_def slots_def bids_def asks_def last_bid_level_def last_ask_level_def)

definition numbered :: "('fs \<Rightarrow> string \<Rightarrow> 'fs field option) \<Rightarrow> 'fs \<Rightarrow> 32 word \<Rightarrow> 'fs \<Rightarrow> bool" where
  "numbered view m n m1 \<longleftrightarrow> view m1 = (view m)(id_seq_num \<mapsto> FieldUInt32 n)"

text \<open>The depth the subscriber keeps for a symbol; a new one is empty.\<close>

definition kept_depth :: "'dec feed_subscriber \<Rightarrow> string \<Rightarrow> depth" where
  "kept_depth s symbol = (case sb_depth_map s symbol of None \<Rightarrow> Depth 5 | Some d \<Rightarrow> d)"

lemma depth_message_handled:
  assumes F: "fields_ok Q view"
    and n: "numbered view (build_depth_message Q now (fs_empty Q) symbol d full) n m"
    and a: "arrives view TID_DEPTH_MESSAGE m m'" and dec: "qf_decodeMessage Q (sb_decoder s) bytes = Inr (m', dec')"
    and e: "sb_expected_seq s = ucast n" and d: "five_levels d" "five_levels (kept_depth s symbol)"
  shows "\<exists>s'. handle_message Q bytes s = Inr (True, s') \<and>
    sb_depth_map s' = (sb_depth_map s)(symbol \<mapsto> told_depth full d (kept_depth s symbol)) \<and>
    sb_expected_seq s' = ucast n + 1 \<and> sb_decoder s' = dec'"
proof -
  let ?lp = "dp_last_published_change d" and ?x = "kept_depth s symbol"
  obtain bs es where v:
    "view (build_depth_message Q now (fs_empty Q) symbol d full) =
       [id_timestamp \<mapsto> FieldUInt32 now, id_symbol \<mapsto> FieldString symbol, id_bids \<mapsto> FieldSequence id_bids_length bs,
        id_asks \<mapsto> FieldSequence id_asks_length es]"
    and t: "tells view bs (chosen full ?lp 0 (take 5 (dp_levels d)))"
      "tells view es (chosen full ?lp 0 (drop 5 (dp_levels d)))"
    using view_depth [OF F, of now symbol d full] five_slots [OF d(1)] by metis
  have m: "view m id_seq_num = Some (FieldUInt32 n)" "view m id_timestamp = Some (FieldUInt32 now)"
    "view m id_symbol = Some (FieldString symbol)" "view m id_bids = Some (FieldSequence id_bids_length bs)"
    "view m id_asks = Some (FieldSequence id_asks_length es)"
    using n unfolding numbered_def v by (simp_all add: id_defs)
  have ne: "id_seq_num \<noteq> id_msg_type" "id_timestamp \<noteq> id_msg_type" "id_symbol \<noteq> id_msg_type"
    "id_bids \<noteq> id_msg_type" "id_asks \<noteq> id_msg_type" by (simp_all add: id_defs)
  obtain k bs' where b: "view m' id_bids = Some (FieldSequence k bs')" "tells view bs' (chosen full ?lp 0 (take 5 (dp_levels d)))"
    by (rule arrives_sequence [OF a ne(4) m(4) t(1)])
  obtain k' es' where b': "view m' id_asks = Some (FieldSequence k' es')" "tells view es' (chosen full ?lp 0 (drop 5 (dp_levels d)))"
    by (rule arrives_sequence [OF a ne(5) m(5) t(2)])
  note m' = arrives_simple(1) [OF a ne(1) m(1)] arrives_simple(1) [OF a ne(2) m(2)] arrives_simple(2) [OF a ne(3) m(3)]
  have ty: "view m' id_msg_type = Some (FieldUInt16 11)"
    using a by (simp add: arrives_def message_type_def TID_DEPTH_MESSAGE_def TID_TRADE_MESSAGE_def)
  have len: "length (dp_levels d) = 10" "length (dp_levels ?x) = 10" using d by (simp_all add: five_levels_def)
  let ?y = "write_levels 0 (chosen full ?lp 0 (take 5 (dp_levels d))) ?x"
  have y: "five_levels ?y" using d by (simp add: five_levels_def)
  have "set_side Q m' id_bids 0 ?x = Inr (True, ?y)"
    using len by (intro set_side_writes [OF F b]) simp_all
  moreover have "set_side Q m' id_asks 5 ?y = Inr (True, told_depth full d ?x)"
    unfolding told_depth_def Let_def using len by (intro set_side_writes [OF F b']) simp_all
  ultimately have "handle_depth_message Q symbol m' (s\<lparr>sb_decoder := dec'\<rparr>) =
      Inr (True, (put_depth symbol (told_depth full d ?x) (s\<lparr>sb_decoder := dec'\<rparr>))
        \<lparr>sb_console := sb_console s @ log_depth (told_depth full d ?x)\<rparr>)"
    using five_slots(3) [OF d(2)] five_slots(4) [OF y]
    by (simp add: handle_depth_message_def kept_depth_def Let_def)
  then show ?thesis
    using e by (simp add: handle_message_def dec view_rules(3,4) [OF F] m' ty Let_def MSG_TYPE_DEPTH_def put_depth_def)
qed

lemma trade_message_handled:
  assumes F: "fields_ok Q view"
    and n: "numbered view (build_trade_message Q now (fs_empty Q) symbol qty cost) n m"
    and a: "arrives view TID_TRADE_MESSAGE m m'" and dec: "qf_decodeMessage Q (sb_decoder s) bytes = Inr (m', dec')"
    and e: "sb_expected_seq s = ucast n"
  shows "\<exists>s'. handle_message Q bytes s = Inr (True, s') \<and> sb_depth_map s' = sb_depth_map s \<and>
    sb_expected_seq s' = ucast n + 1 \<and> sb_decoder s' = dec'"
proof -
  have m: "view m id_seq_num = Some (FieldUInt32 n)" "view m id_timestamp = Some (FieldUInt32 now)"
    "view m id_symbol = Some (FieldString symbol)" "view m id_qty = Some (FieldUInt32 qty)"
    "view m id_cost = Some (FieldUInt32 cost)"
    using n unfolding numbered_def view_trade [OF F] by (simp_all add: id_defs)
  have ne: "id_seq_num \<noteq> id_msg_type" "id_timestamp \<noteq> id_msg_type" "id_symbol \<noteq> id_msg_type"
    "id_qty \<noteq> id_msg_type" "id_cost \<noteq> id_msg_type" by (simp_all add: id_defs)
  note m' = arrives_simple(1) [OF a ne(1) m(1)] arrives_simple(1) [OF a ne(2) m(2)] arrives_simple(2) [OF a ne(3) m(3)]
    arrives_simple(1) [OF a ne(4) m(4)] arrives_simple(1) [OF a ne(5) m(5)]
  have ty: "view m' id_msg_type = Some (FieldUInt16 22)"
    using a by (simp add: arrives_def message_type_def TID_TRADE_MESSAGE_def)
  show ?thesis
    using e by (simp add: handle_message_def handle_trade_message_def dec view_rules(3,4) [OF F] m' ty Let_def
        MSG_TYPE_DEPTH_def MSG_TYPE_TRADE_def)
qed

end
