(* ===== verification/Feed_Sessions.thy ===== *)
theory Feed_Sessions
  imports Feed_Content
begin

text \<open>
  The sessions of a connection: a buffer that is being sent is not reused before its send has
  completed, and a publication adds to every session what it would have sent alone.
\<close>

section \<open>Buffers and what is on its way\<close>

definition buffers_ok :: "('enc, 'b) feed_connection \<Rightarrow> bool" where
  "buffers_ok c \<longleftrightarrow>
     distinct (map snd (cn_sends c) @ cn_unused_send_buffers c) \<and>
     (\<forall>wb \<in> snd ` set (cn_sends c) \<union> set (cn_unused_send_buffers c). wb < cn_next_buffer c)"

text \<open>The messages of a session that are on their way, in order.\<close>

definition wire :: "('enc, 'b) feed_connection \<Rightarrow> session_ptr \<Rightarrow> 'b list list" where
  "wire c p = map (\<lambda>(q, wb). cn_memory c wb) (filter (\<lambda>(q, wb). q = p) (cn_sends c))"

text \<open>What a session is, seen from outside.\<close>

definition face :: "('enc, 'b) feed_connection \<Rightarrow> session_ptr \<Rightarrow> 'enc feed_session \<times> 'b list list" where
  "face c p = (cn_objects c p, wire c p)"

text \<open>A step that is the session \<open>p\<close>'s own.\<close>

definition own_step :: "session_ptr \<Rightarrow> ('enc, 'b) feed_connection \<Rightarrow> ('enc, 'b) feed_connection \<Rightarrow> bool" where
  "own_step p c c' \<longleftrightarrow>
     buffers_ok c' \<and> (\<forall>q. q \<noteq> p \<longrightarrow> face c' q = face c q) \<and>
     ss_connected (cn_objects c' p) = ss_connected (cn_objects c p) \<and>
     cn_sessions c' = cn_sessions c \<and> cn_live c' = cn_live c \<and>
     cn_next_session c' = cn_next_session c \<and> cn_accepting c' = cn_accepting c \<and>
     (\<exists>bs. cn_sends c' = cn_sends c @ map (Pair p) bs) \<and>
     (\<forall>wb \<in> snd ` set (cn_sends c). cn_memory c' wb = cn_memory c wb)"

lemma reserve_ok:
  assumes "buffers_ok c" "reserve_send_buffer c = (wb, c1)"
  shows "wb \<notin> snd ` set (cn_sends c)" "wb < cn_next_buffer c1" "distinct (map snd (cn_sends c) @ wb # cn_unused_send_buffers c1)"
    "\<forall>b \<in> snd ` set (cn_sends c) \<union> set (cn_unused_send_buffers c1). b < cn_next_buffer c1"
    "\<exists>n u. c1 = c\<lparr>cn_next_buffer := n, cn_unused_send_buffers := u\<rparr>"
proof -
  have "(\<exists>rest. cn_unused_send_buffers c = wb # rest \<and> c1 = c\<lparr>cn_unused_send_buffers := rest\<rparr>) \<or>
      cn_unused_send_buffers c = [] \<and> wb = cn_next_buffer c \<and> c1 = c\<lparr>cn_next_buffer := cn_next_buffer c + 1\<rparr>"
    using assms(2) by (auto simp: reserve_send_buffer_def split: list.splits)
  moreover define S where "S = map snd (cn_sends c)"
  moreover have im: "snd ` set (cn_sends c) = set S" by (simp add: S_def)
  ultimately show "wb \<notin> snd ` set (cn_sends c)" "wb < cn_next_buffer c1" "distinct (map snd (cn_sends c) @ wb # cn_unused_send_buffers c1)"
    "\<forall>b \<in> snd ` set (cn_sends c) \<union> set (cn_unused_send_buffers c1). b < cn_next_buffer c1"
    using assms(1) unfolding buffers_ok_def im S_def [symmetric] by fastforce+
  show "\<exists>n u. c1 = c\<lparr>cn_next_buffer := n, cn_unused_send_buffers := u\<rparr>"
  proof (cases "cn_unused_send_buffers c")
    case Nil
    then have "c1 = c\<lparr>cn_next_buffer := wb + 1, cn_unused_send_buffers := []\<rparr>"
      using assms(2) by (cases c) (auto simp: reserve_send_buffer_def)
    then show ?thesis by blast
  next
    case (Cons b rest)
    then have "c1 = c\<lparr>cn_next_buffer := cn_next_buffer c, cn_unused_send_buffers := rest\<rparr>"
      using assms(2) by (cases c) (auto simp: reserve_send_buffer_def)
    then show ?thesis by blast
  qed
qed

lemma encode_and_send_ok:
  assumes B: "buffers_ok c" and s: "ss_connected s = ss_connected (cn_objects c p)"
    and enc: "qf_encodeMessage Q (ss_encoder s) tid m = (bytes, enc)"
  shows "own_step p c (encode_and_send Q tid m p s c)"
    "face (encode_and_send Q tid m p s c) p = (s\<lparr>ss_encoder := enc\<rparr>, wire c p @ [bytes])"
proof -
  obtain wb c1 where r: "reserve_send_buffer c = (wb, c1)" by fastforce
  note R = reserve_ok [OF B r]
  obtain n u where c1: "c1 = c\<lparr>cn_next_buffer := n, cn_unused_send_buffers := u\<rparr>" using R(5) by blast
  let ?c = "encode_and_send Q tid m p s c"
  have e: "cn_sends ?c = cn_sends c @ [(p, wb)]" "cn_memory ?c = (cn_memory c)(wb := bytes)"
    "cn_objects ?c = (cn_objects c)(p := s\<lparr>ss_encoder := enc\<rparr>)" "cn_sessions ?c = cn_sessions c"
    "cn_live ?c = cn_live c" "cn_next_session ?c = cn_next_session c" "cn_accepting ?c = cn_accepting c"
    "cn_unused_send_buffers ?c = u" "cn_next_buffer ?c = n"
    by (simp_all add: encode_and_send_def enc r c1 put_session_def)
  have mem: "cn_memory ?c b = cn_memory c b" if "b \<in> snd ` set (cn_sends c)" for b
    using that R(1) e(2) by auto
  have old: "map (\<lambda>(q, b). cn_memory ?c b) (filter (\<lambda>(q, b). q = r) (cn_sends c)) = wire c r" for r
    unfolding wire_def using mem by (intro map_cong) force+
  have w: "wire ?c q = (if q = p then wire c p @ [bytes] else wire c q)" for q
    using old [of q] by (simp add: wire_def e(1)) (simp add: e(2))
  show "face ?c p = (s\<lparr>ss_encoder := enc\<rparr>, wire c p @ [bytes])" by (simp add: face_def w e(3))
  have "buffers_ok ?c" using R c1 by (auto simp: buffers_ok_def e)
  moreover have "\<exists>bs. cn_sends ?c = cn_sends c @ map (Pair p) bs" by (rule exI [of _ "[wb]"]) (simp add: e)
  ultimately show "own_step p c ?c" using s mem by (simp add: own_step_def e face_def w)
qed

section \<open>Passing over the sessions\<close>

text \<open>The loop of the three sends of a connection.\<close>

fun session_loop ::
  "(session_ptr \<Rightarrow> 'm \<Rightarrow> ('enc, 'b) feed_connection \<Rightarrow> 'm \<times> ('enc, 'b) feed_connection) \<Rightarrow> session_ptr list \<Rightarrow> 'm
     \<Rightarrow> ('enc, 'b) feed_connection \<Rightarrow> session_ptr list \<times> 'm \<times> ('enc, 'b) feed_connection" where
  "session_loop send [] m c = ([], m, c)"
| "session_loop send (p # ps) m c =
     (if ss_connected (cn_objects c p) then
        let (m1, c1) = send p m c; (kept, m2, c2) = session_loop send ps m1 c1 in (p # kept, m2, c2)
      else session_loop send ps m (destroy_session p c))"

text \<open>What it leaves: the connected sessions, changed one by one; the others are destroyed.\<close>

definition swept :: "session_ptr list \<Rightarrow> ('enc, 'b) feed_connection \<Rightarrow> ('enc, 'b) feed_connection \<Rightarrow> bool" where
  "swept ps c c' \<longleftrightarrow>
     buffers_ok c' \<and>
     (\<forall>q. q \<notin> set ps \<or> \<not> ss_connected (cn_objects c q) \<longrightarrow> face c' q = face c q) \<and>
     (\<forall>q. ss_connected (cn_objects c' q) = ss_connected (cn_objects c q)) \<and>
     (\<forall>q. cn_live c' q \<longleftrightarrow> cn_live c q \<and> (q \<in> set ps \<longrightarrow> ss_connected (cn_objects c q))) \<and>
     cn_sessions c' = cn_sessions c \<and>
     cn_next_session c' = cn_next_session c \<and> cn_accepting c' = cn_accepting c \<and>
     (\<exists>more. cn_sends c' = cn_sends c @ more \<and> (\<forall>q \<in> fst ` set more. q \<in> set ps \<and> ss_connected (cn_objects c q))) \<and>
     (\<forall>wb \<in> snd ` set (cn_sends c). cn_memory c' wb = cn_memory c wb)"

lemma own_step_sends: "own_step p c c' \<Longrightarrow> \<exists>bs. cn_sends c' = cn_sends c @ map (Pair p) bs"
  by (simp add: own_step_def)

lemma swept_sends:
  "swept ps c c' \<Longrightarrow> \<exists>more. cn_sends c' = cn_sends c @ more \<and>
     (\<forall>q \<in> fst ` set more. q \<in> set ps \<and> ss_connected (cn_objects c q))"
  by (simp add: swept_def)

locale session_sender =
  fixes send :: "session_ptr \<Rightarrow> 'm \<Rightarrow> ('enc, 'b) feed_connection \<Rightarrow> 'm \<times> ('enc, 'b) feed_connection"
    and good :: "'m \<Rightarrow> bool"
    and post :: "'enc feed_session \<times> 'b list list \<Rightarrow> 'enc feed_session \<times> 'b list list \<Rightarrow> bool"
    and flag :: "'m \<Rightarrow> bool"
    and fine :: "'enc feed_session \<Rightarrow> bool"
  assumes step: "good m \<Longrightarrow> buffers_ok c \<Longrightarrow> send p m c = (m', c') \<Longrightarrow>
    good m' \<and> own_step p c c' \<and> post (face c p) (face c' p) \<and> flag m' = (flag m \<and> fine (cn_objects c p))"
begin

lemma loop_sweeps:
  assumes "good m" "buffers_ok c" "distinct ps" "session_loop send ps m c = (kept, m', c')"
  shows "swept ps c c' \<and> kept = filter (\<lambda>p. ss_connected (cn_objects c p)) ps \<and> good m' \<and>
    (\<forall>p \<in> set ps. ss_connected (cn_objects c p) \<longrightarrow> post (face c p) (face c' p)) \<and>
    flag m' = (flag m \<and> (\<forall>p \<in> set ps. ss_connected (cn_objects c p) \<longrightarrow> fine (cn_objects c p)))"
  using assms
proof (induction ps arbitrary: m c kept m' c')
  case Nil
  then show ?case by (auto simp: swept_def)
next
  case (Cons p ps)
  show ?case
  proof (cases "ss_connected (cn_objects c p)")
    case False
    let ?c = "destroy_session p c"
    have "buffers_ok ?c" using Cons.prems(2) by (simp add: buffers_ok_def destroy_session_def)
    then have IH: "swept ps ?c c' \<and> kept = filter (\<lambda>p. ss_connected (cn_objects ?c p)) ps \<and> good m' \<and>
      (\<forall>p \<in> set ps. ss_connected (cn_objects ?c p) \<longrightarrow> post (face ?c p) (face c' p)) \<and>
      flag m' = (flag m \<and> (\<forall>p \<in> set ps. ss_connected (cn_objects ?c p) \<longrightarrow> fine (cn_objects ?c p)))"
      using Cons.prems False by (intro Cons.IH) simp_all
    have e: "cn_objects ?c = cn_objects c" "face ?c = face c" "cn_sends ?c = cn_sends c" "cn_memory ?c = cn_memory c"
      "cn_live ?c = (cn_live c)(p := False)" "cn_sessions ?c = cn_sessions c" "cn_next_session ?c = cn_next_session c"
      "cn_accepting ?c = cn_accepting c"
      by (simp_all add: destroy_session_def face_def wire_def fun_eq_iff)
    show ?thesis using IH False unfolding swept_def e by auto
  next
    case True
    obtain m1 c1 where s: "send p m c = (m1, c1)" by fastforce
    obtain kept1 m2 c2 where l: "session_loop send ps m1 c1 = (kept1, m2, c2)" by (metis prod_cases3)
    have k: "kept = p # kept1" "m' = m2" "c' = c2" using Cons.prems(4) True s l by auto
    have S: "good m1" "own_step p c c1" "post (face c p) (face c1 p)" "flag m1 = (flag m \<and> fine (cn_objects c p))"
      using step [OF Cons.prems(1,2) s] by auto
    have B1: "buffers_ok c1" using S(2) by (simp add: own_step_def)
    have IH: "swept ps c1 c2" "kept1 = filter (\<lambda>p. ss_connected (cn_objects c1 p)) ps" "good m2"
      "\<forall>p \<in> set ps. ss_connected (cn_objects c1 p) \<longrightarrow> post (face c1 p) (face c2 p)"
      "flag m2 = (flag m1 \<and> (\<forall>p \<in> set ps. ss_connected (cn_objects c1 p) \<longrightarrow> fine (cn_objects c1 p)))"
      using Cons.IH [OF S(1) B1 _ l] Cons.prems(3) by auto
    have fq: "face c1 q = face c q" "cn_objects c1 q = cn_objects c q" if "q \<noteq> p" for q
      using S(2) that by (auto simp: own_step_def face_def)
    have con: "ss_connected (cn_objects c1 q) = ss_connected (cn_objects c q)" for q
      using S(2) fq by (cases "q = p") (auto simp: own_step_def)
    have p: "p \<notin> set ps" "face c2 p = face c1 p" using Cons.prems(3) IH(1) by (auto simp: swept_def)
    have other: "q \<noteq> p" if "q \<in> set ps" for q using that p(1) by blast
    obtain bs where bs: "cn_sends c1 = cn_sends c @ map (Pair p) bs" using own_step_sends [OF S(2)] by blast
    obtain more where more: "cn_sends c2 = cn_sends c1 @ more"
      "\<forall>q \<in> fst ` set more. q \<in> set ps \<and> ss_connected (cn_objects c1 q)"
      using swept_sends [OF IH(1)] by blast
    note sends = bs more
    have "swept (p # ps) c c2"
      unfolding swept_def
    proof (intro conjI allI impI ballI)
      show "\<exists>more. cn_sends c2 = cn_sends c @ more \<and>
          (\<forall>q\<in>fst ` set more. q \<in> set (p # ps) \<and> ss_connected (cn_objects c q))"
        using sends True con by (intro exI [of _ "map (Pair p) bs @ more"]) auto
      show "cn_memory c2 wb = cn_memory c wb" if "wb \<in> snd ` set (cn_sends c)" for wb
      proof -
        have "wb \<in> snd ` set (cn_sends c1)" using that sends(1) by auto
        then have "cn_memory c2 wb = cn_memory c1 wb" using IH(1) unfolding swept_def by blast
        also have "\<dots> = cn_memory c wb" using S(2) that unfolding own_step_def by blast
        finally show ?thesis .
      qed
      show "face c2 q = face c q" if "q \<notin> set (p # ps) \<or> \<not> ss_connected (cn_objects c q)" for q
      proof -
        have "q \<noteq> p" using that True by auto
        moreover have "face c2 q = face c1 q" using that IH(1) con by (auto simp: swept_def)
        ultimately show ?thesis by (simp add: fq(1))
      qed
    qed (use S(2) IH(1) con True in \<open>auto simp: own_step_def swept_def\<close>)
    moreover have "kept = filter (\<lambda>p. ss_connected (cn_objects c p)) (p # ps)"
      using True con IH(2) by (simp add: k)
    moreover have "post (face c q) (face c2 q)" if "q \<in> set (p # ps)" "ss_connected (cn_objects c q)" for q
      using that S(3) p(2) IH(4) con fq other by (cases "q = p") (auto simp: fq)
    moreover have "flag m2 = (flag m \<and> (\<forall>q \<in> set (p # ps). ss_connected (cn_objects c q) \<longrightarrow> fine (cn_objects c q)))"
      unfolding IH(5) S(4) using con fq(2) other True by auto
    ultimately show ?thesis using IH(3) k by simp
  qed
qed

end


section \<open>The three sends\<close>

text \<open>
  A message whose content is \<open>body\<close>, whatever number it bears, and the effect of sending it: it goes
  out under the next number of the session. \<open>syms\<close> are the symbols the session then has sent.
\<close>

definition bears ::
  "('fs, 'enc, 'dec, 'b) quickfast \<Rightarrow> ('fs \<Rightarrow> string \<Rightarrow> 'fs field option) \<Rightarrow> (string \<Rightarrow> 'fs field option) \<Rightarrow> 'fs \<Rightarrow> bool" where
  "bears Q view body m \<longleftrightarrow> fields_ok Q view \<and> (view m)(id_seq_num := None) = body"

definition posts ::
  "('fs, 'enc, 'dec, 'b) quickfast \<Rightarrow> ('fs \<Rightarrow> string \<Rightarrow> 'fs field option) \<Rightarrow> nat \<Rightarrow> (string \<Rightarrow> 'fs field option) \<Rightarrow> string set
     \<Rightarrow> 'enc feed_session \<times> 'b list list \<Rightarrow> 'enc feed_session \<times> 'b list list \<Rightarrow> bool" where
  "posts Q view tid body syms x y \<longleftrightarrow>
     (case x of (s, w) \<Rightarrow>
        \<exists>m. view m = body(id_seq_num \<mapsto> FieldUInt32 (ss_seq_num s + 1)) \<and>
          y = (s\<lparr>ss_seq_num := ss_seq_num s + 1, ss_encoder := snd (qf_encodeMessage Q (ss_encoder s) tid m),
                 ss_sent_symbols := syms\<rparr>, w @ [fst (qf_encodeMessage Q (ss_encoder s) tid m)]))"

definition posts_trade where
  "posts_trade Q view body x y \<longleftrightarrow> posts Q view TID_TRADE_MESSAGE body (ss_sent_symbols (fst x)) x y"

definition posts_incr where
  "posts_incr Q view symbol body x y \<longleftrightarrow>
     (if symbol \<in> ss_sent_symbols (fst x) then posts Q view TID_DEPTH_MESSAGE body (ss_sent_symbols (fst x)) x y else y = x)"

definition posts_full where
  "posts_full Q view symbol body x y \<longleftrightarrow>
     (if symbol \<notin> ss_sent_symbols (fst x)
      then posts Q view TID_DEPTH_MESSAGE body (insert symbol (ss_sent_symbols (fst x))) x y else y = x)"

lemma numbered_and_sent:
  assumes b: "bears Q view body m" and B: "buffers_ok c" and n: "set_sequence_num Q m s = (m1, s1)"
    and s: "s = (cn_objects c p)\<lparr>ss_sent_symbols := syms\<rparr>"
  shows "bears Q view body m1" "own_step p c (encode_and_send Q tid m1 p s1 c)"
    "posts Q view tid body syms (face c p) (face (encode_and_send Q tid m1 p s1 c) p)"
proof -
  have F: "fields_ok Q view" and body: "(view m)(id_seq_num := None) = body" using b by (simp_all add: bears_def)
  note v = view_numbered [OF F n]
  show "bears Q view body m1" using F body by (simp add: bears_def v(1))
  obtain bytes enc where e: "qf_encodeMessage Q (ss_encoder s1) tid m1 = (bytes, enc)" by fastforce
  have c: "ss_connected s1 = ss_connected (cn_objects c p)" by (simp add: v(2) s)
  show "own_step p c (encode_and_send Q tid m1 p s1 c)" by (rule encode_and_send_ok(1) [OF B c e])
  have "view m1 = body(id_seq_num \<mapsto> FieldUInt32 (ss_seq_num (cn_objects c p) + 1))"
    using body by (auto simp: v(1) s)
  then show "posts Q view tid body syms (face c p) (face (encode_and_send Q tid m1 p s1 c) p)"
    using e unfolding encode_and_send_ok(2) [OF B c e] by (auto simp: posts_def face_def v(2) s intro!: exI [of _ m1])
qed

lemma own_step_refl: "buffers_ok c \<Longrightarrow> own_step p c c"
  by (simp add: own_step_def)

definition incr_sender where
  "incr_sender Q symbol p m c =
     (let (sent, m1, c1) = session_send_incr_update Q p symbol (snd m) c in ((if \<not> sent then False else fst m, m1), c1))"

interpretation trades:
  session_sender "session_send_trade Q" "bears Q view body" "posts_trade Q view body" "\<lambda>_. True" "\<lambda>_. True"
  for Q :: "('fs, 'enc, 'dec, 'b) quickfast" and view body
proof unfold_locales
  fix m c p m' c'
  assume b: "bears Q view body m" "buffers_ok c" and s: "session_send_trade Q p m c = (m', c')"
  obtain m1 s1 where n: "set_sequence_num Q m (cn_objects c p) = (m1, s1)" by fastforce
  have "cn_objects c p = (cn_objects c p)\<lparr>ss_sent_symbols := ss_sent_symbols (cn_objects c p)\<rparr>" by simp
  from numbered_and_sent [OF b n this] s n
  show "bears Q view body m' \<and> own_step p c c' \<and> posts_trade Q view body (face c p) (face c' p) \<and> True = (True \<and> True)"
    by (auto simp: session_send_trade_def posts_trade_def face_def)
qed

interpretation increments:
  session_sender "incr_sender Q symbol" "\<lambda>m. bears Q view body (snd m)" "posts_incr Q view symbol body" fst
    "\<lambda>s. symbol \<in> ss_sent_symbols s"
  for Q :: "('fs, 'enc, 'dec, 'b) quickfast" and symbol view body
proof unfold_locales
  fix m c p m' c'
  assume b: "bears Q view body (snd m)" "buffers_ok c" and s: "incr_sender Q symbol p m c = (m', c')"
  obtain m1 s1 where n: "set_sequence_num Q (snd m) (cn_objects c p) = (m1, s1)" by fastforce
  have "cn_objects c p = (cn_objects c p)\<lparr>ss_sent_symbols := ss_sent_symbols (cn_objects c p)\<rparr>" by simp
  from numbered_and_sent [OF b n this] s n b own_step_refl [OF b(2), of p]
  show "bears Q view body (snd m') \<and> own_step p c c' \<and> posts_incr Q view symbol body (face c p) (face c' p) \<and>
      fst m' = (fst m \<and> symbol \<in> ss_sent_symbols (cn_objects c p))"
    by (auto simp: incr_sender_def session_send_incr_update_def posts_incr_def face_def split: if_splits)
qed

interpretation full_updates:
  session_sender "\<lambda>p. session_send_full_update Q p symbol" "bears Q view body" "posts_full Q view symbol body"
    "\<lambda>_. True" "\<lambda>_. True"
  for Q :: "('fs, 'enc, 'dec, 'b) quickfast" and symbol view body
proof unfold_locales
  fix m c p m' c'
  assume b: "bears Q view body m" "buffers_ok c" and s: "session_send_full_update Q p symbol m c = (m', c')"
  let ?s = "(cn_objects c p)\<lparr>ss_sent_symbols := insert symbol (ss_sent_symbols (cn_objects c p))\<rparr>"
  have same: "put_session p ?s c = c" if "symbol \<in> ss_sent_symbols (cn_objects c p)"
    using that by (simp add: put_session_def insert_absorb)
  obtain m1 s1 where n: "set_sequence_num Q m ?s = (m1, s1)" by fastforce
  from numbered_and_sent [OF b n refl] s n b own_step_refl [OF b(2), of p]
  show "bears Q view body m' \<and> own_step p c c' \<and> posts_full Q view symbol body (face c p) (face c' p) \<and> True = (True \<and> True)"
    by (auto simp: session_send_full_update_def posts_full_def face_def same Let_def split: if_splits)
qed

text \<open>The loops of the code are this loop.\<close>

lemma send_trade_loop_eq:
  "send_trade_loop Q ps m c = (case session_loop (session_send_trade Q) ps m c of (kept, m', c') \<Rightarrow> (kept, c'))"
  by (induction Q ps m c rule: send_trade_loop.induct) (simp_all split: prod.split)

lemma send_incr_loop_eq:
  "send_incr_loop Q symbol ps none_new m c =
     (case session_loop (incr_sender Q symbol) ps (none_new, m) c of (kept, m', c') \<Rightarrow> (kept, fst m', c'))"
  by (induction Q symbol ps none_new m c rule: send_incr_loop.induct)
    (simp_all add: incr_sender_def split: prod.split)

lemma send_full_loop_eq:
  "send_full_loop Q symbol ps m c =
     (case session_loop (\<lambda>p. session_send_full_update Q p symbol) ps m c of (kept, m', c') \<Rightarrow> (kept, c'))"
  by (induction Q symbol ps m c rule: send_full_loop.induct) (simp_all split: prod.split)

end
