(* ===== verification/Feed_World.thy ===== *)
theory Feed_World
  imports Feed_Sessions
begin

text \<open>
  The depth feed as a whole: the depths of the publisher change, are published and become messages
  of the sessions; sessions come, fail and go; sends complete. A subscriber that has handled what
  its session sent knows every published level.
\<close>

section \<open>The system\<close>

text \<open>
  Beside the connection: what the network has delivered to the subscriber of each session, and the
  depth of every symbol with the levels it stands for.
\<close>

record ('enc, 'b) feed_world =
  fw_connection :: "('enc, 'b) feed_connection"
  fw_received :: "session_ptr \<Rightarrow> 'b list list"
  fw_books :: "string \<Rightarrow> depth \<times> two_sides"

text \<open>
  The sends of a session complete in the order in which they were started. A send that succeeds
  delivers what the buffer then holds.
\<close>

inductive feed_step ::
  "('fs, 'enc, 'dec, 'b) quickfast \<Rightarrow> ('enc, 'b) feed_world \<Rightarrow> ('enc, 'b) feed_world \<Rightarrow> bool" for Q where
  order: "depth_step (fw_books W symbol) x \<Longrightarrow> ids_left 2 (fst (fw_books W symbol)) \<Longrightarrow>
    feed_step Q W (W\<lparr>fw_books := (fw_books W)(symbol := x)\<rparr>)"
| publish: "ascii symbol \<Longrightarrow> fw_books W symbol = (d, f) \<Longrightarrow> changed d \<Longrightarrow>
    feed_step Q W (W\<lparr>fw_connection := publisher_on_depth_change Q now later symbol d (fw_connection W),
      fw_books := (fw_books W)(symbol := (published d, f))\<rparr>)"
| trade: "ascii symbol \<Longrightarrow>
    feed_step Q W (W\<lparr>fw_connection := publisher_on_trade Q now symbol qty cost (fw_connection W)\<rparr>)"
| accepted: "cn_accepting (fw_connection W) = Some p \<Longrightarrow>
    feed_step Q W (W\<lparr>fw_connection := on_accept Q p error (fw_connection W)\<rparr>)"
| sent: "cn_sends (fw_connection W) = xs @ (p, wb) # ys \<Longrightarrow> p \<notin> fst ` set xs \<Longrightarrow>
    session_on_send p wb False ((fw_connection W)\<lparr>cn_sends := xs @ ys\<rparr>) = Inr c \<Longrightarrow>
    feed_step Q W (W\<lparr>fw_connection := c,
      fw_received := (fw_received W)(p := fw_received W p @ [cn_memory (fw_connection W) wb])\<rparr>)"
| failed: "cn_sends (fw_connection W) = xs @ (p, wb) # ys \<Longrightarrow> p \<notin> fst ` set xs \<Longrightarrow>
    session_on_send p wb True ((fw_connection W)\<lparr>cn_sends := xs @ ys\<rparr>) = Inr c \<Longrightarrow>
    feed_step Q W (W\<lparr>fw_connection := c\<rparr>)"

definition feed_start :: "('fs, 'enc, 'dec, 'b) quickfast \<Rightarrow> ('enc, 'b) feed_world" where
  "feed_start Q =
     \<lparr>fw_connection = accept Q (DepthFeedConnection Q), fw_received = (\<lambda>_. []),
      fw_books = (\<lambda>_. (Depth 5, \<lambda>_. []))\<rparr>"

inductive feed_run :: "('fs, 'enc, 'dec, 'b) quickfast \<Rightarrow> ('enc, 'b) feed_world \<Rightarrow> bool" for Q where
  start: "feed_run Q (feed_start Q)"
| step: "feed_run Q W \<Longrightarrow> feed_step Q W W' \<Longrightarrow> feed_run Q W'"

text \<open>Everything a session sent: what has arrived and what is on its way.\<close>

definition stream :: "('enc, 'b) feed_world \<Rightarrow> session_ptr \<Rightarrow> 'b list list" where
  "stream W p = fw_received W p @ wire (fw_connection W) p"

text \<open>A subscriber that handles messages one by one, as long as it does not refuse one.\<close>

fun receive_all ::
  "('fs, 'enc, 'dec, 'b) quickfast \<Rightarrow> 'b list list \<Rightarrow> 'dec feed_subscriber \<Rightarrow> 'dec feed_subscriber option" where
  "receive_all Q [] s = Some s"
| "receive_all Q (m # ms) s =
     (case handle_message Q m s of Inr (True, s') \<Rightarrow> receive_all Q ms s' | _ \<Rightarrow> None)"

lemma receive_all_snoc:
  "receive_all Q (ms @ [m]) s =
     (case receive_all Q ms s of None \<Rightarrow> None
      | Some s1 \<Rightarrow> (case handle_message Q m s1 of Inr (True, s') \<Rightarrow> Some s' | _ \<Rightarrow> None))"
  by (induction Q ms s rule: receive_all.induct) (simp_all split: sum.split prod.split bool.split)

section \<open>In touch\<close>

text \<open>
  A session is in touch when a subscriber that starts with it, whatever depths it kept from
  before, handles all the session sent, and then differs from a symbol's depth only in levels
  that have changed since their last publication.
\<close>

definition ready :: "('fs, 'enc, 'dec, 'b) quickfast \<Rightarrow> ('enc \<Rightarrow> 'dec \<Rightarrow> bool) \<Rightarrow> 'dec feed_subscriber \<Rightarrow> bool" where
  "ready Q sync s0 \<longleftrightarrow>
     sync (qf_Encoder Q) (sb_decoder s0) \<and> sb_expected_seq s0 = 1 \<and> (\<forall>symbol. five_levels (kept_depth s0 symbol))"

definition abreast ::
  "('enc \<Rightarrow> 'dec \<Rightarrow> bool) \<Rightarrow> (string \<Rightarrow> depth) \<Rightarrow> 'enc feed_session \<Rightarrow> 'dec feed_subscriber \<Rightarrow> bool" where
  "abreast sync B s r \<longleftrightarrow>
     sync (ss_encoder s) (sb_decoder r) \<and> sb_expected_seq r = ucast (ss_seq_num s) + 1 \<and>
     (\<forall>symbol. five_levels (kept_depth r symbol)) \<and>
     (\<forall>symbol \<in> ss_sent_symbols s. told (cores (dp_levels (kept_depth r symbol))) (B symbol))"

definition in_touch ::
  "('fs, 'enc, 'dec, 'b) quickfast \<Rightarrow> ('enc \<Rightarrow> 'dec \<Rightarrow> bool) \<Rightarrow> (string \<Rightarrow> depth)
     \<Rightarrow> 'enc feed_session \<times> 'b list list \<Rightarrow> bool" where
  "in_touch Q sync B x \<longleftrightarrow>
     (length (snd x) < 2 ^ 32 \<longrightarrow>
        unat (ss_seq_num (fst x)) = length (snd x) \<and>
        (\<forall>s0. ready Q sync s0 \<longrightarrow> (\<exists>r. receive_all Q (snd x) s0 = Some r \<and> abreast sync B (fst x) r)))"

lemma in_touch_books:
  assumes "in_touch Q sync B x" "\<And>symbol C. told C (B symbol) \<Longrightarrow> told C (B' symbol)"
  shows "in_touch Q sync B' x"
  using assms unfolding in_touch_def abreast_def by meson

lemma next_number:
  assumes "unat n + 1 < 2 ^ 32"
  shows "unat (n + 1) = unat n + 1" "ucast (n + 1) = (ucast (n :: 32 word) + 1 :: 64 word)"
proof -
  show u: "unat (n + 1) = unat n + 1" using assms by (simp add: unat_add_no_wrap)
  have e: "unat (ucast w :: 64 word) = unat w" for w :: "32 word"
    using unat_32_less [of w] by (simp add: unsigned_ucast_eq take_bit_nat_eq_self)
  have "unat (ucast n + 1 :: 64 word) = unat n + 1"
    using assms e [of n] by (simp add: unat_add_no_wrap)
  then have "unat (ucast (n + 1) :: 64 word) = unat (ucast n + 1 :: 64 word)" by (simp add: e u)
  then show "ucast (n + 1) = (ucast n + 1 :: 64 word)" by (simp only: unsigned_word_eqI word_unat_eq_iff)
qed

text \<open>Sending one message the subscriber can handle keeps a session in touch.\<close>

lemma posts_in_touch:
  assumes C: "codec_ok Q view sync" and t: "in_touch Q sync B (s, st)"
    and p: "posts Q view tid body syms (s, w) (s', w')"
    and fits: "\<And>m n. view m = body(id_seq_num \<mapsto> FieldUInt32 n) \<Longrightarrow> fits_template view tid m"
    and handled: "\<And>r m m' bytes dec' n. view m = body(id_seq_num \<mapsto> FieldUInt32 n) \<Longrightarrow> arrives view tid m m' \<Longrightarrow>
      qf_decodeMessage Q (sb_decoder r) bytes = Inr (m', dec') \<Longrightarrow> sb_expected_seq r = ucast n \<Longrightarrow> abreast sync B s r \<Longrightarrow>
      \<exists>r'. handle_message Q bytes r = Inr (True, r') \<and> sb_expected_seq r' = ucast n + 1 \<and> sb_decoder r' = dec' \<and>
        (\<forall>symbol. five_levels (kept_depth r' symbol)) \<and>
        (\<forall>symbol \<in> syms. told (cores (dp_levels (kept_depth r' symbol))) (B' symbol))"
  obtains x where "w' = w @ [x]" "ss_connected s' = ss_connected s" "ss_sent_symbols s' = syms"
    "in_touch Q sync B' (s', st @ [x])"
proof -
  obtain m where m: "view m = body(id_seq_num \<mapsto> FieldUInt32 (ss_seq_num s + 1))"
    "s' = s\<lparr>ss_seq_num := ss_seq_num s + 1, ss_encoder := snd (qf_encodeMessage Q (ss_encoder s) tid m), ss_sent_symbols := syms\<rparr>"
    "w' = w @ [fst (qf_encodeMessage Q (ss_encoder s) tid m)]" using p by (auto simp: posts_def)
  let ?x = "fst (qf_encodeMessage Q (ss_encoder s) tid m)"
  have "in_touch Q sync B' (s', st @ [?x])"
    unfolding in_touch_def fst_conv snd_conv
  proof (intro impI conjI allI)
    assume "length (st @ [?x]) < 2 ^ 32"
    then have l: "length st < 2 ^ 32" "unat (ss_seq_num s) + 1 < 2 ^ 32" and u: "unat (ss_seq_num s) = length st"
      using t by (simp_all add: in_touch_def)
    note n = next_number [OF l(2)]
    show "unat (ss_seq_num s') = length (st @ [?x])" using u n(1) by (simp add: m(2))
    fix s0 :: "'c feed_subscriber" assume "ready Q sync s0"
    then obtain r where r: "receive_all Q st s0 = Some r" "abreast sync B s r"
      using t l(1) by (auto simp: in_touch_def)
    then have y: "sync (ss_encoder s) (sb_decoder r)" "sb_expected_seq r = ucast (ss_seq_num s + 1)"
      by (simp_all add: abreast_def n(2))
    obtain m' dec' where d: "qf_decodeMessage Q (sb_decoder r) ?x = Inr (m', dec')"
      "sync (snd (qf_encodeMessage Q (ss_encoder s) tid m)) dec'" "arrives view tid m m'"
      using C y(1) fits [OF m(1)] unfolding codec_ok_def arrives_def by blast
    obtain r' where "handle_message Q ?x r = Inr (True, r')" "sb_expected_seq r' = ucast (ss_seq_num s + 1) + 1"
      "sb_decoder r' = dec'" "\<forall>symbol. five_levels (kept_depth r' symbol)"
      "\<forall>symbol \<in> syms. told (cores (dp_levels (kept_depth r' symbol))) (B' symbol)"
      using handled [OF m(1) d(3,1) y(2) r(2)] by blast
    then show "\<exists>r. receive_all Q (st @ [?x]) s0 = Some r \<and> abreast sync B' s' r"
      using r(1) d(2) by (auto simp: receive_all_snoc abreast_def m(2))
  qed
  then show thesis using that m by simp
qed


section \<open>A trade, a publication\<close>

lemma fits_trade:
  assumes "ascii symbol" "view m = [id_timestamp \<mapsto> FieldUInt32 now, id_symbol \<mapsto> FieldString symbol,
      id_qty \<mapsto> FieldUInt32 q, id_cost \<mapsto> FieldUInt32 c](id_seq_num \<mapsto> FieldUInt32 n)"
  shows "fits_template view TID_TRADE_MESSAGE m"
proof -
  have "view m = [id_seq_num \<mapsto> FieldUInt32 n, id_timestamp \<mapsto> FieldUInt32 now, id_symbol \<mapsto> FieldString symbol,
      id_qty \<mapsto> FieldUInt32 q, id_cost \<mapsto> FieldUInt32 c]"
    unfolding assms(2) by (simp add: fun_eq_iff id_defs)
  then show ?thesis using assms(1) unfolding fits_template_def by blast
qed

lemma fits_depth:
  assumes "ascii symbol" "\<forall>e \<in> set bs \<union> set es. level_entry view e"
    "view m = [id_timestamp \<mapsto> FieldUInt32 now, id_symbol \<mapsto> FieldString symbol, id_bids \<mapsto> FieldSequence l bs,
      id_asks \<mapsto> FieldSequence k es](id_seq_num \<mapsto> FieldUInt32 n)"
  shows "fits_template view TID_DEPTH_MESSAGE m"
proof -
  have "view m = [id_seq_num \<mapsto> FieldUInt32 n, id_timestamp \<mapsto> FieldUInt32 now, id_symbol \<mapsto> FieldString symbol,
      id_bids \<mapsto> FieldSequence l bs, id_asks \<mapsto> FieldSequence k es]"
    unfolding assms(3) by (simp add: fun_eq_iff id_defs)
  then show ?thesis using assms(1,2) unfolding fits_template_def by blast
qed

lemma trade_in_touch:
  assumes F: "fields_ok Q view" and C: "codec_ok Q view sync" and t: "in_touch Q sync B (s, st)" and a: "ascii symbol"
    and p: "posts_trade Q view (view (build_trade_message Q now (fs_empty Q) symbol qty cost)) (s, w) (s', w')"
  obtains x where "w' = w @ [x]" "ss_sent_symbols s' = ss_sent_symbols s" "in_touch Q sync B (s', st @ [x])"
proof -
  let ?base = "build_trade_message Q now (fs_empty Q) symbol qty cost"
  have p': "posts Q view TID_TRADE_MESSAGE (view ?base) (ss_sent_symbols s) (s, w) (s', w')"
    using p by (simp add: posts_trade_def)
  have handled: "\<exists>r'. handle_message Q bytes r = Inr (True, r') \<and> sb_expected_seq r' = ucast n + 1 \<and> sb_decoder r' = dec' \<and>
        (\<forall>symbol. five_levels (kept_depth r' symbol)) \<and>
        (\<forall>symbol \<in> ss_sent_symbols s. told (cores (dp_levels (kept_depth r' symbol))) (B symbol))"
    if "view m = (view ?base)(id_seq_num \<mapsto> FieldUInt32 n)" "arrives view TID_TRADE_MESSAGE m m'"
      "qf_decodeMessage Q (sb_decoder r) bytes = Inr (m', dec')" "sb_expected_seq r = ucast n" "abreast sync B s r"
    for r m m' bytes dec' n
  proof -
    note h = that
    have "numbered view ?base n m" using h(1) by (simp add: numbered_def)
    from trade_message_handled [OF F this h(2-4)] obtain r' where
      "handle_message Q bytes r = Inr (True, r')" "sb_depth_map r' = sb_depth_map r"
      "sb_expected_seq r' = ucast n + 1" "sb_decoder r' = dec'" by blast
    then show ?thesis using h(5) by (intro exI [of _ r']) (simp add: abreast_def kept_depth_def)
  qed
  have fits: "fits_template view TID_TRADE_MESSAGE m" if "view m = (view ?base)(id_seq_num \<mapsto> FieldUInt32 n)" for m n
    by (rule fits_trade [where view = view and m = m, OF a that [unfolded view_trade [OF F]]])
  obtain x where "w' = w @ [x]" "ss_connected s' = ss_connected s" "ss_sent_symbols s' = ss_sent_symbols s"
    "in_touch Q sync B (s', st @ [x])"
    by (rule posts_in_touch [OF C t p', where B' = B, OF fits handled])
  then show thesis using that by blast
qed

text \<open>
  The message tells the symbol's depth, all of it or, to a session that has sent the symbol
  before, what has changed; afterwards the depth counts as published.
\<close>

lemma depth_in_touch:
  assumes F: "fields_ok Q view" and C: "codec_ok Q view sync" and t: "in_touch Q sync B (s, st)" and a: "ascii symbol"
    and p: "posts Q view TID_DEPTH_MESSAGE (view (build_depth_message Q now (fs_empty Q) symbol (B symbol) full))
      (insert symbol (ss_sent_symbols s)) (s, w) (s', w')"
    and d: "five_levels (B symbol)" and known: "full \<or> symbol \<in> ss_sent_symbols s"
  obtains x where "w' = w @ [x]" "ss_sent_symbols s' = insert symbol (ss_sent_symbols s)"
    "in_touch Q sync (B(symbol := published (B symbol))) (s', st @ [x])"
proof -
  let ?base = "build_depth_message Q now (fs_empty Q) symbol (B symbol) full"
  obtain bs es where v: "view ?base =
       [id_timestamp \<mapsto> FieldUInt32 now, id_symbol \<mapsto> FieldString symbol, id_bids \<mapsto> FieldSequence id_bids_length bs,
        id_asks \<mapsto> FieldSequence id_asks_length es]"
    "tells view bs (chosen full (dp_last_published_change (B symbol)) 0 (slots (bids (B symbol)) (last_bid_level (B symbol)) (B symbol)))"
    "tells view es (chosen full (dp_last_published_change (B symbol)) 0 (slots (asks (B symbol)) (last_ask_level (B symbol)) (B symbol)))"
    by (rule view_depth [OF F])
  have entries: "\<forall>e \<in> set bs \<union> set es. level_entry view e"
    using tells_entries [OF v(2)] tells_entries [OF v(3)] by blast
  have fits: "fits_template view TID_DEPTH_MESSAGE m" if "view m = (view ?base)(id_seq_num \<mapsto> FieldUInt32 n)" for m n
    by (rule fits_depth [where view = view and m = m, OF a entries that [unfolded v(1)]])
  have handled: "\<exists>r'. handle_message Q bytes r = Inr (True, r') \<and> sb_expected_seq r' = ucast n + 1 \<and> sb_decoder r' = dec' \<and>
        (\<forall>symbol. five_levels (kept_depth r' symbol)) \<and>
        (\<forall>other \<in> insert symbol (ss_sent_symbols s).
           told (cores (dp_levels (kept_depth r' other))) ((B(symbol := published (B symbol))) other))"
    if "view m = (view ?base)(id_seq_num \<mapsto> FieldUInt32 n)" "arrives view TID_DEPTH_MESSAGE m m'"
      "qf_decodeMessage Q (sb_decoder r) bytes = Inr (m', dec')" "sb_expected_seq r = ucast n" "abreast sync B s r"
    for r m m' bytes dec' n
  proof -
    note h = that
    have num: "numbered view ?base n m" using h(1) by (simp add: numbered_def)
    have five: "\<forall>symbol. five_levels (kept_depth r symbol)" using that(5) by (simp add: abreast_def)
    obtain r' where r': "handle_message Q bytes r = Inr (True, r')"
      "sb_depth_map r' = (sb_depth_map r)(symbol \<mapsto> told_depth full (B symbol) (kept_depth r symbol))"
      "sb_expected_seq r' = ucast n + 1" "sb_decoder r' = dec'"
      using depth_message_handled [OF F num h(2-4) d] five by blast
    have "full \<or> told (cores (dp_levels (kept_depth r symbol))) (B symbol)"
      using known that(5) by (auto simp: abreast_def)
    note T = told_depth_cores [OF d _ this] five
    have k: "kept_depth r' other = (if other = symbol then told_depth full (B symbol) (kept_depth r symbol) else kept_depth r other)"
      for other by (simp add: kept_depth_def r'(2))
    show ?thesis
      using r' T told_published [of "B symbol"] h(5) by (intro exI [of _ r']) (auto simp: abreast_def k)
  qed
  obtain x where "w' = w @ [x]" "ss_connected s' = ss_connected s" "ss_sent_symbols s' = insert symbol (ss_sent_symbols s)"
    "in_touch Q sync (B(symbol := published (B symbol))) (s', st @ [x])"
    by (rule posts_in_touch [OF C t p, where B' = "B(symbol := published (B symbol))", OF fits handled])
  then show thesis using that by blast
qed


section \<open>What a publication does to the connection\<close>

lemma face_sessions [simp]: "face (c\<lparr>cn_sessions := ps\<rparr>) = face c"
  by (simp add: fun_eq_iff face_def wire_def)

lemma buffers_sessions [simp]: "buffers_ok (c\<lparr>cn_sessions := ps\<rparr>) = buffers_ok c"
  by (simp add: buffers_ok_def)

abbreviation linked :: "('enc, 'b) feed_connection \<Rightarrow> session_ptr \<Rightarrow> bool" where
  "linked c p \<equiv> ss_connected (cn_objects c p)"

lemma swept_memory:
  "swept ps c c' \<Longrightarrow> wb \<in> snd ` set (cn_sends c) \<Longrightarrow> cn_memory c' wb = cn_memory c wb"
  unfolding swept_def by blast

lemma swept_trans:
  assumes a: "swept ps c c1" and b: "swept kept (c1\<lparr>cn_sessions := kept\<rparr>) c2" and k: "kept = filter (linked c) ps"
  shows "swept ps c (c2\<lparr>cn_sessions := cn_sessions c\<rparr>)"
proof -
  have con: "linked c1 q = linked c q" "linked c2 q = linked c q" for q
    using a b by (simp_all add: swept_def)
  have live: "cn_live c2 q = cn_live c1 q" for q
    using b con k by (auto simp: swept_def)
  obtain m1 where m1: "cn_sends c1 = cn_sends c @ m1" "\<forall>q \<in> fst ` set m1. q \<in> set ps \<and> linked c q"
    using swept_sends [OF a] by blast
  obtain m2 where m2: "cn_sends c2 = cn_sends c1 @ m2" "\<forall>q \<in> fst ` set m2. q \<in> set kept \<and> linked c q"
    using swept_sends [OF b] con by auto
  have "\<exists>more. cn_sends c2 = cn_sends c @ more \<and> (\<forall>q \<in> fst ` set more. q \<in> set ps \<and> linked c q)"
    using m1 m2 k by (intro exI [of _ "m1 @ m2"]) auto
  moreover have "cn_memory c2 wb = cn_memory c wb" if "wb \<in> snd ` set (cn_sends c)" for wb
  proof -
    have "wb \<in> snd ` set (cn_sends c1)" using that m1(1) by auto
    then have "cn_memory c2 wb = cn_memory c1 wb" by (rule swept_memory [OF b, simplified])
    then show ?thesis using swept_memory [OF a that] by simp
  qed
  moreover have "face c2 q = face c q" if "q \<notin> set ps \<or> \<not> linked c q" for q
  proof -
    have "face c1 q = face c q" using a that by (simp add: swept_def)
    moreover have "face c2 q = face c1 q" using b that con k by (auto simp: swept_def)
    ultimately show ?thesis by simp
  qed
  ultimately show ?thesis
    using a b con live by (simp add: swept_def)
qed

lemma trade_effect:
  assumes F: "fields_ok Q view" and B: "buffers_ok c" "distinct (cn_sessions c)"
  obtains c1 where "publisher_on_trade Q now symbol qty cost c = c1\<lparr>cn_sessions := filter (linked c) (cn_sessions c)\<rparr>"
    "swept (cn_sessions c) c c1"
    "\<forall>p \<in> set (cn_sessions c). linked c p \<longrightarrow>
       posts_trade Q view (view (build_trade_message Q now (fs_empty Q) symbol qty cost)) (face c p) (face c1 p)"
proof -
  let ?m = "build_trade_message Q now (fs_empty Q) symbol qty cost"
  have b: "bears Q view (view ?m) ?m"
    using F by (simp add: bears_def view_trade [OF F] fun_eq_iff) (simp add: id_defs)
  obtain kept m' c1 where l: "session_loop (session_send_trade Q) (cn_sessions c) ?m c = (kept, m', c1)"
    by (metis prod_cases3)
  from trades.loop_sweeps [OF b B l] show thesis
    by (intro that [of c1])
      (simp_all add: publisher_on_trade_def connection_send_trade_def send_trade_loop_eq l)
qed

lemma depth_unnumbered:
  assumes F: "fields_ok Q view"
  shows "bears Q view (view (build_depth_message Q now (fs_empty Q) symbol d full))
    (build_depth_message Q now (fs_empty Q) symbol d full)"
proof -
  obtain bs es where "view (build_depth_message Q now (fs_empty Q) symbol d full) =
       [id_timestamp \<mapsto> FieldUInt32 now, id_symbol \<mapsto> FieldString symbol, id_bids \<mapsto> FieldSequence id_bids_length bs,
        id_asks \<mapsto> FieldSequence id_asks_length es]" by (rule view_depth [OF F])
  then have "view (build_depth_message Q now (fs_empty Q) symbol d full) id_seq_num = None"
    by (simp add: id_defs)
  then show ?thesis using F by (simp add: bears_def fun_upd_idem)
qed

text \<open>Every connected session sends one message: the changes, or the whole depth when it is its first.\<close>

definition posts_depth ::
  "('fs, 'enc, 'dec, 'b) quickfast \<Rightarrow> ('fs \<Rightarrow> string \<Rightarrow> 'fs field option) \<Rightarrow> string \<Rightarrow> depth
     \<Rightarrow> 'enc feed_session \<times> 'b list list \<Rightarrow> 'enc feed_session \<times> 'b list list \<Rightarrow> bool" where
  "posts_depth Q view symbol d x y \<longleftrightarrow>
     (\<exists>now full. (full \<or> symbol \<in> ss_sent_symbols (fst x)) \<and>
        posts Q view TID_DEPTH_MESSAGE (view (build_depth_message Q now (fs_empty Q) symbol d full))
          (insert symbol (ss_sent_symbols (fst x))) x y)"

lemma depth_effect:
  assumes F: "fields_ok Q view" and B: "buffers_ok c" "distinct (cn_sessions c)"
  obtains c1 where
    "publisher_on_depth_change Q now later symbol d c = c1\<lparr>cn_sessions := filter (linked c) (cn_sessions c)\<rparr>"
    "swept (cn_sessions c) c c1"
    "\<forall>p \<in> set (cn_sessions c). linked c p \<longrightarrow> posts_depth Q view symbol d (face c p) (face c1 p)"
proof -
  let ?m = "build_depth_message Q now (fs_empty Q) symbol d False"
  let ?f = "build_depth_message Q later (fs_empty Q) symbol d True"
  let ?kept = "filter (linked c) (cn_sessions c)"
  obtain kept m' c1 where l: "session_loop (incr_sender Q symbol) (cn_sessions c) (True, ?m) c = (kept, m', c1)"
    by (metis prod_cases3)
  have b: "bears Q view (view ?m) (snd (True, ?m))" using depth_unnumbered [OF F] by simp
  have S: "swept (cn_sessions c) c c1" "kept = ?kept"
    "\<forall>p \<in> set (cn_sessions c). linked c p \<longrightarrow> posts_incr Q view symbol (view ?m) (face c p) (face c1 p)"
    "fst m' = (\<forall>p \<in> set (cn_sessions c). linked c p \<longrightarrow> symbol \<in> ss_sent_symbols (cn_objects c p))"
    using increments.loop_sweeps [OF b B l] by simp_all
  have incr: "connection_send_incr_update Q symbol ?m c = (fst m', c1\<lparr>cn_sessions := ?kept\<rparr>)"
    using S(2) by (simp add: connection_send_incr_update_def send_incr_loop_eq l)
  have pub: "publisher_on_depth_change Q now later symbol d c =
      (if \<not> fst m' then connection_send_full_update Q symbol ?f (c1\<lparr>cn_sessions := ?kept\<rparr>) else c1\<lparr>cn_sessions := ?kept\<rparr>)"
    by (simp add: publisher_on_depth_change_def incr)
  have known: "posts_depth Q view symbol d (face c p) (face c1 p)"
    if "p \<in> set (cn_sessions c)" "linked c p" "symbol \<in> ss_sent_symbols (cn_objects c p)" for p
  proof -
    have "posts_incr Q view symbol (view ?m) (face c p) (face c1 p)" using S(3) that by blast
    then show ?thesis
      using that(3) unfolding posts_incr_def posts_depth_def
      by (intro exI [of _ now] exI [of _ False]) (simp add: face_def insert_absorb)
  qed
  show thesis
  proof (cases "fst m'")
    case True
    then show thesis using S(1,4) known pub by (intro that [of c1]) auto
  next
    case False
    let ?c = "c1\<lparr>cn_sessions := ?kept\<rparr>"
    have B1: "buffers_ok ?c" using S(1) by (simp add: swept_def)
    have con: "linked ?c q = linked c q" for q using S(1) by (simp add: swept_def)
    obtain kept2 m2 c2 where l2: "session_loop (\<lambda>p. session_send_full_update Q p symbol) ?kept ?f ?c = (kept2, m2, c2)"
      by (metis prod_cases3)
    have S2: "swept ?kept ?c c2" "kept2 = ?kept"
      "\<forall>p \<in> set ?kept. linked c p \<longrightarrow> posts_full Q view symbol (view ?f) (face c1 p) (face c2 p)"
      using full_updates.loop_sweeps [OF depth_unnumbered [OF F, of later symbol d True] B1 _ l2] B(2) con by simp_all
    have "publisher_on_depth_change Q now later symbol d c = (c2\<lparr>cn_sessions := cn_sessions c\<rparr>)\<lparr>cn_sessions := ?kept\<rparr>"
      using False S2(2) by (simp add: pub connection_send_full_update_def send_full_loop_eq l2)
    moreover have "swept (cn_sessions c) c (c2\<lparr>cn_sessions := cn_sessions c\<rparr>)"
      by (rule swept_trans [OF S(1) S2(1) refl])
    moreover have "posts_depth Q view symbol d (face c p) (face c2 p)"
      if p: "p \<in> set (cn_sessions c)" "linked c p" for p
    proof -
      have full: "posts_full Q view symbol (view ?f) (face c1 p) (face c2 p)" using S2(3) p by simp
      show ?thesis
      proof (cases "symbol \<in> ss_sent_symbols (cn_objects c p)")
        case True
        have "posts_incr Q view symbol (view ?m) (face c p) (face c1 p)" using S(3) p by blast
        then have "symbol \<in> ss_sent_symbols (fst (face c1 p))"
          using True by (auto simp: posts_incr_def posts_def face_def)
        then have "face c2 p = face c1 p" using full by (simp add: posts_full_def)
        then show ?thesis using known [OF p True] by simp
      next
        case False
        then have e: "face c1 p = face c p" using S(3) p by (auto simp: posts_incr_def face_def)
        show ?thesis
          using full False unfolding e posts_full_def posts_depth_def by (auto simp: face_def)
      qed
    qed
    ultimately show thesis by (intro that [of "c2\<lparr>cn_sessions := cn_sessions c\<rparr>"]) simp_all
  qed
qed


section \<open>The invariant\<close>

definition sessions_ok ::
  "('fs, 'enc, 'dec, 'b) quickfast \<Rightarrow> (session_ptr \<Rightarrow> 'b list list) \<Rightarrow> ('enc, 'b) feed_connection \<Rightarrow> bool" where
  "sessions_ok Q received c \<longleftrightarrow>
     distinct (cn_sessions c) \<and> (\<forall>p \<in> set (cn_sessions c). cn_live c p \<and> p < cn_next_session c) \<and>
     (\<forall>p. cn_accepting c = Some p \<longrightarrow>
        p < cn_next_session c \<and> p \<notin> set (cn_sessions c) \<and> cn_live c p \<and> cn_objects c p = DepthFeedSession Q) \<and>
     (\<forall>p. cn_next_session c \<le> p \<or> cn_accepting c = Some p \<longrightarrow> received p = [] \<and> wire c p = [])"

definition books_ok :: "(string \<Rightarrow> depth \<times> two_sides) \<Rightarrow> bool" where
  "books_ok B \<longleftrightarrow>
     (\<forall>symbol. five_levels (fst (B symbol)) \<and> depth_repr (fst (B symbol)) (snd (B symbol)) \<and>
        (\<forall>i < 10. dl_last_change (dp_levels (fst (B symbol)) ! i) \<le> dp_last_change (fst (B symbol))))"

definition depths :: "('enc, 'b) feed_world \<Rightarrow> string \<Rightarrow> depth" where
  "depths W symbol = fst (fw_books W symbol)"

definition feed_inv :: "('fs, 'enc, 'dec, 'b) quickfast \<Rightarrow> ('enc \<Rightarrow> 'dec \<Rightarrow> bool) \<Rightarrow> ('enc, 'b) feed_world \<Rightarrow> bool" where
  "feed_inv Q sync W \<longleftrightarrow>
     buffers_ok (fw_connection W) \<and> sessions_ok Q (fw_received W) (fw_connection W) \<and> books_ok (fw_books W) \<and>
     (\<forall>p \<in> set (cn_sessions (fw_connection W)). linked (fw_connection W) p \<longrightarrow>
        in_touch Q sync (depths W) (cn_objects (fw_connection W) p, stream W p))"

lemma feed_invD:
  assumes "feed_inv Q sync W"
  shows "buffers_ok (fw_connection W)" "sessions_ok Q (fw_received W) (fw_connection W)" "books_ok (fw_books W)"
    "p \<in> set (cn_sessions (fw_connection W)) \<Longrightarrow> linked (fw_connection W) p \<Longrightarrow>
       in_touch Q sync (depths W) (cn_objects (fw_connection W) p, stream W p)"
  using assms by (simp_all add: feed_inv_def)

lemma swept_sessions_ok:
  assumes S: "swept (cn_sessions c) c c1" and ok: "sessions_ok Q received c"
  shows "sessions_ok Q received (c1\<lparr>cn_sessions := filter (linked c) (cn_sessions c)\<rparr>)"
proof -
  have keep: "cn_objects c1 q = cn_objects c q" "wire c1 q = wire c q" if "q \<notin> set (cn_sessions c)" for q
    using S that by (auto simp: swept_def face_def)
  have new: "q \<notin> set (cn_sessions c)" if "cn_next_session c \<le> q \<or> cn_accepting c = Some q" for q
    using ok that by (fastforce simp: sessions_ok_def)
  have w: "wire (c1\<lparr>cn_sessions := ps\<rparr>) = wire c1" for ps by (simp add: wire_def fun_eq_iff)
  show ?thesis
    unfolding sessions_ok_def w using S ok keep new by (auto simp: sessions_ok_def swept_def)
qed

text \<open>A publication, from what it does to each session.\<close>

lemma inv_publication:
  assumes I: "feed_inv Q sync W" and S: "swept (cn_sessions (fw_connection W)) (fw_connection W) c1"
    and B: "books_ok B"
    and p: "\<And>p x. p \<in> set (cn_sessions (fw_connection W)) \<Longrightarrow> linked (fw_connection W) p \<Longrightarrow>
      in_touch Q sync (depths W) (cn_objects (fw_connection W) p, stream W p) \<Longrightarrow>
      \<exists>x. wire c1 p = wire (fw_connection W) p @ [x] \<and>
        in_touch Q sync (\<lambda>symbol. fst (B symbol)) (cn_objects c1 p, stream W p @ [x])"
  shows "feed_inv Q sync (W\<lparr>fw_connection := c1\<lparr>cn_sessions := filter (linked (fw_connection W)) (cn_sessions (fw_connection W))\<rparr>,
      fw_books := B\<rparr>)"
proof -
  let ?c = "fw_connection W"
  let ?W = "W\<lparr>fw_connection := c1\<lparr>cn_sessions := filter (linked ?c) (cn_sessions ?c)\<rparr>, fw_books := B\<rparr>"
  have w: "stream ?W q = fw_received W q @ wire c1 q" for q by (simp add: stream_def wire_def)
  have d: "depths ?W = (\<lambda>symbol. fst (B symbol))" by (simp add: depths_def fun_eq_iff)
  have "in_touch Q sync (depths ?W) (cn_objects c1 q, stream ?W q)" if q: "q \<in> set (cn_sessions ?c)" "linked ?c q" for q
  proof -
    obtain x where "wire c1 q = wire ?c q @ [x]"
      "in_touch Q sync (\<lambda>symbol. fst (B symbol)) (cn_objects c1 q, stream W q @ [x])"
      using p [OF q feed_invD(4) [OF I q]] by blast
    then show ?thesis unfolding w d by (simp add: stream_def)
  qed
  moreover have "buffers_ok c1" using S by (simp add: swept_def)
  moreover have "sessions_ok Q (fw_received W) (c1\<lparr>cn_sessions := filter (linked ?c) (cn_sessions ?c)\<rparr>)"
    by (rule swept_sessions_ok [OF S feed_invD(2) [OF I]])
  ultimately show ?thesis using B by (simp add: feed_inv_def)
qed

lemma posts_prefix: "posts Q view tid body syms (s, w) (s', w') \<Longrightarrow> posts Q view tid body syms (s, v @ w) (s', v @ w')"
  by (auto simp: posts_def)

lemma inv_trade:
  assumes F: "fields_ok Q view" and C: "codec_ok Q view sync" and I: "feed_inv Q sync W" and a: "ascii symbol"
  shows "feed_inv Q sync (W\<lparr>fw_connection := publisher_on_trade Q now symbol qty cost (fw_connection W)\<rparr>)"
proof -
  let ?c = "fw_connection W"
  have dist: "distinct (cn_sessions ?c)" using feed_invD(2) [OF I] by (simp add: sessions_ok_def)
  obtain c1 where c1: "publisher_on_trade Q now symbol qty cost ?c = c1\<lparr>cn_sessions := filter (linked ?c) (cn_sessions ?c)\<rparr>"
    "swept (cn_sessions ?c) ?c c1"
    "\<forall>p \<in> set (cn_sessions ?c). linked ?c p \<longrightarrow>
       posts_trade Q view (view (build_trade_message Q now (fs_empty Q) symbol qty cost)) (face ?c p) (face c1 p)"
    by (rule trade_effect [OF F feed_invD(1) [OF I] dist])
  have "feed_inv Q sync (W\<lparr>fw_connection := c1\<lparr>cn_sessions := filter (linked ?c) (cn_sessions ?c)\<rparr>, fw_books := fw_books W\<rparr>)"
  proof (rule inv_publication [OF I c1(2) feed_invD(3) [OF I]])
    fix p
    assume p: "p \<in> set (cn_sessions ?c)" "linked ?c p" and t: "in_touch Q sync (depths W) (cn_objects ?c p, stream W p)"
    have "posts_trade Q view (view (build_trade_message Q now (fs_empty Q) symbol qty cost))
        (cn_objects ?c p, wire ?c p) (cn_objects c1 p, wire c1 p)"
      using c1(3) p by (simp add: face_def)
    then obtain x where "wire c1 p = wire ?c p @ [x]" "in_touch Q sync (depths W) (cn_objects c1 p, stream W p @ [x])"
      by (rule trade_in_touch [OF F C t a])
    moreover have "(\<lambda>sym'. fst (fw_books W sym')) = depths W" by (simp add: fun_eq_iff depths_def)
    ultimately show "\<exists>x. wire c1 p = wire ?c p @ [x] \<and>
        in_touch Q sync (\<lambda>sym'. fst (fw_books W sym')) (cn_objects c1 p, stream W p @ [x])"
      by auto
  qed
  then show ?thesis by (simp add: c1(1))
qed

lemma books_published: "books_ok B \<Longrightarrow> B symbol = (d, f) \<Longrightarrow> books_ok (B(symbol := (published d, f)))"
proof -
  assume ok: "books_ok B" and B: "B symbol = (d, f)"
  have "five_levels d \<and> depth_repr d f \<and> (\<forall>i < 10. dl_last_change (dp_levels d ! i) \<le> dp_last_change d)"
    using ok [unfolded books_ok_def, rule_format, of symbol] by (simp add: B)
  then show ?thesis using ok by (simp add: books_ok_def published_def five_levels_def)
qed

lemma inv_publish:
  assumes F: "fields_ok Q view" and C: "codec_ok Q view sync" and I: "feed_inv Q sync W" and a: "ascii symbol"
    and d: "fw_books W symbol = (d, f)"
  shows "feed_inv Q sync (W\<lparr>fw_connection := publisher_on_depth_change Q now later symbol d (fw_connection W),
      fw_books := (fw_books W)(symbol := (published d, f))\<rparr>)"
proof -
  let ?c = "fw_connection W" and ?B = "(fw_books W)(symbol := (published d, f))"
  have dist: "distinct (cn_sessions ?c)" using feed_invD(2) [OF I] by (simp add: sessions_ok_def)
  have dd: "depths W symbol = d" using d by (simp add: depths_def)
  have five: "five_levels (depths W symbol)" using feed_invD(3) [OF I] by (simp add: books_ok_def depths_def)
  have pub: "(\<lambda>sym'. fst (?B sym')) = (depths W)(symbol := published (depths W symbol))"
    by (simp add: fun_eq_iff depths_def d)
  obtain c1 where c1:
    "publisher_on_depth_change Q now later symbol d ?c = c1\<lparr>cn_sessions := filter (linked ?c) (cn_sessions ?c)\<rparr>"
    "swept (cn_sessions ?c) ?c c1"
    "\<forall>p \<in> set (cn_sessions ?c). linked ?c p \<longrightarrow> posts_depth Q view symbol d (face ?c p) (face c1 p)"
    by (rule depth_effect [OF F feed_invD(1) [OF I] dist])
  have "feed_inv Q sync (W\<lparr>fw_connection := c1\<lparr>cn_sessions := filter (linked ?c) (cn_sessions ?c)\<rparr>, fw_books := ?B\<rparr>)"
  proof (rule inv_publication [OF I c1(2) books_published [OF feed_invD(3) [OF I] d]])
    fix p
    assume p: "p \<in> set (cn_sessions ?c)" "linked ?c p" and t: "in_touch Q sync (depths W) (cn_objects ?c p, stream W p)"
    have "posts_depth Q view symbol d (face ?c p) (face c1 p)" using c1(3) p by blast
    then obtain at full where k: "full \<or> symbol \<in> ss_sent_symbols (cn_objects ?c p)"
      "posts Q view TID_DEPTH_MESSAGE (view (build_depth_message Q at (fs_empty Q) symbol (depths W symbol) full))
          (insert symbol (ss_sent_symbols (cn_objects ?c p))) (cn_objects ?c p, wire ?c p) (cn_objects c1 p, wire c1 p)"
      by (auto simp: posts_depth_def face_def dd)
    obtain x where "wire c1 p = wire ?c p @ [x]"
      "in_touch Q sync ((depths W)(symbol := published (depths W symbol))) (cn_objects c1 p, stream W p @ [x])"
      by (rule depth_in_touch [OF F C t a k(2) five k(1)])
    then show "\<exists>x. wire c1 p = wire ?c p @ [x] \<and>
        in_touch Q sync (\<lambda>sym'. fst (?B sym')) (cn_objects c1 p, stream W p @ [x])"
      unfolding pub by blast
  qed
  then show ?thesis by (simp add: c1(1))
qed


lemma inv_order:
  assumes I: "feed_inv Q sync W" and s: "depth_step (fw_books W symbol) x" and ids: "ids_left 2 (fst (fw_books W symbol))"
  shows "feed_inv Q sync (W\<lparr>fw_books := (fw_books W)(symbol := x)\<rparr>)"
proof -
  let ?d = "fst (fw_books W symbol)" and ?d' = "fst x"
  have B: "five_levels ?d" "depth_repr ?d (snd (fw_books W symbol))"
    "\<forall>i < 10. dl_last_change (dp_levels ?d ! i) \<le> dp_last_change ?d"
    using feed_invD(3) [OF I] by (simp_all add: books_ok_def)
  have S: "depth_repr ?d' (snd x)" "stamped 2 ?d ?d'"
    using step_repr_stamped [OF s B(2) ids] by simp_all
  have five: "five_levels ?d'" using S(2) B(1) by (simp add: five_levels_def stamped_def marked_def)
  have "dl_last_change (dp_levels ?d' ! i) \<le> dp_last_change ?d'" if "i < 10" for i
  proof -
    have "slot_marked (dp_last_change ?d) (dp_last_change ?d') (dp_levels ?d ! i) (dp_levels ?d' ! i)"
      "dp_last_change ?d \<le> dp_last_change ?d'"
      using S(2) that B(1) by (auto simp: five_levels_def stamped_def marked_def)
    then show ?thesis using B(3) that by (auto simp: slot_marked_def)
  qed
  then have "books_ok ((fw_books W)(symbol := x))"
    using feed_invD(3) [OF I] five S(1) by (simp add: books_ok_def)
  moreover have "in_touch Q sync (depths (W\<lparr>fw_books := (fw_books W)(symbol := x)\<rparr>)) y"
    if "in_touch Q sync (depths W) y" for y
    by (rule in_touch_books [OF that]) (use told_stamped [OF _ S(2)] in \<open>auto simp: depths_def\<close>)
  ultimately show ?thesis
    using I by (auto simp: feed_inv_def stream_def)
qed

lemma in_touch_fresh: "in_touch Q sync B ((DepthFeedSession Q)\<lparr>ss_connected := b\<rparr>, [])"
  by (auto simp: in_touch_def ready_def abreast_def DepthFeedSession_def)

lemma inv_accepted:
  assumes I: "feed_inv Q sync W" and p: "cn_accepting (fw_connection W) = Some p"
  shows "feed_inv Q sync (W\<lparr>fw_connection := on_accept Q p error (fw_connection W)\<rparr>)"
proof -
  let ?c = "fw_connection W"
  let ?c' = "on_accept Q p error ?c" and ?new = "cn_next_session ?c"
  have ok: "p < ?new" "p \<notin> set (cn_sessions ?c)" "cn_live ?c p" "cn_objects ?c p = DepthFeedSession Q"
    "fw_received W p = []" "wire ?c p = []" "distinct (cn_sessions ?c)"
    "\<forall>q \<in> set (cn_sessions ?c). cn_live ?c q \<and> q < ?new" "\<forall>q. ?new \<le> q \<longrightarrow> fw_received W q = [] \<and> wire ?c q = []"
    using feed_invD(2) [OF I] p by (auto simp: sessions_ok_def)
  have e: "cn_sends ?c' = cn_sends ?c" "cn_memory ?c' = cn_memory ?c" "cn_next_session ?c' = ?new + 1"
    "cn_unused_send_buffers ?c' = cn_unused_send_buffers ?c" "cn_next_buffer ?c' = cn_next_buffer ?c"
    "cn_accepting ?c' = Some ?new" "cn_sessions ?c' = (if error then cn_sessions ?c else cn_sessions ?c @ [p])"
    "cn_live ?c' = (if error then (cn_live ?c)(p := False, ?new := True) else (cn_live ?c)(?new := True))"
    "cn_objects ?c' = (if error then (cn_objects ?c)(?new := DepthFeedSession Q)
       else (cn_objects ?c)(p := (DepthFeedSession Q)\<lparr>ss_connected := True\<rparr>, ?new := DepthFeedSession Q))"
    using ok(4) by (simp_all add: on_accept_def accept_def put_session_def destroy_session_def Let_def)
  have w: "wire ?c' = wire ?c" by (simp add: wire_def fun_eq_iff e)
  let ?W = "W\<lparr>fw_connection := ?c'\<rparr>"
  have st: "stream ?W = stream W" "depths ?W = depths W" by (simp_all add: stream_def fun_eq_iff w depths_def)
  have "buffers_ok ?c'" using feed_invD(1) [OF I] by (simp add: buffers_ok_def e)
  moreover have "sessions_ok Q (fw_received W) ?c'"
    unfolding sessions_ok_def w using ok by (auto simp: e)
  moreover have "in_touch Q sync (depths W) (cn_objects ?c' q, stream W q)"
    if q: "q \<in> set (cn_sessions ?c')" "linked ?c' q" for q
  proof (cases "q = p")
    case True
    then have "cn_objects ?c' q = (DepthFeedSession Q)\<lparr>ss_connected := True\<rparr>" "stream W q = []"
      using ok(1,2,5,6) q(1) by (auto simp: e stream_def split: if_splits)
    then show ?thesis using in_touch_fresh by simp
  next
    case False
    then have old: "q \<in> set (cn_sessions ?c)" using q(1) by (auto simp: e split: if_splits)
    then have "cn_objects ?c' q = cn_objects ?c q" using ok(8) False by (auto simp: e)
    then show ?thesis using feed_invD(4) [OF I old] q(2) by simp
  qed
  ultimately show ?thesis using feed_invD(3) [OF I] by (simp add: feed_inv_def st)
qed

text \<open>A send completes: the session's first one on its way.\<close>

lemma inv_completed:
  assumes I: "feed_inv Q sync W" and s: "cn_sends (fw_connection W) = xs @ (p, wb) # ys" "p \<notin> fst ` set xs"
    and c: "session_on_send p wb error ((fw_connection W)\<lparr>cn_sends := xs @ ys\<rparr>) = Inr c"
    and r: "r = (if error then fw_received W
      else (fw_received W)(p := fw_received W p @ [cn_memory (fw_connection W) wb]))"
  shows "feed_inv Q sync (W\<lparr>fw_connection := c, fw_received := r\<rparr>)"
proof -
  let ?c = "fw_connection W" and ?W = "W\<lparr>fw_connection := c, fw_received := r\<rparr>"
  have e: "cn_sends c = xs @ ys" "cn_memory c = cn_memory ?c" "cn_next_session c = cn_next_session ?c"
    "cn_unused_send_buffers c = cn_unused_send_buffers ?c @ [wb]" "cn_next_buffer c = cn_next_buffer ?c"
    "cn_accepting c = cn_accepting ?c" "cn_sessions c = cn_sessions ?c" "cn_live c = cn_live ?c"
    "cn_objects c = (if error then (cn_objects ?c)(p := (cn_objects ?c p)\<lparr>ss_connected := False\<rparr>) else cn_objects ?c)"
    using c by (auto simp: session_on_send_def connection_on_send_def put_session_def Let_def split: if_splits)
  have "filter (\<lambda>(q, wb). q = p) xs = []" using s(2) by (force simp: filter_empty_conv)
  then have wp: "wire ?c p = cn_memory ?c wb # wire c p" and wq: "\<And>q. q \<noteq> p \<Longrightarrow> wire c q = wire ?c q"
    by (simp_all add: wire_def s(1) e)
  have np: "p < cn_next_session ?c" "cn_accepting ?c \<noteq> Some p"
    using feed_invD(2) [OF I] wp by (auto simp: sessions_ok_def not_le [symmetric])
  have "buffers_ok c"
    using feed_invD(1) [OF I] by (auto simp: buffers_ok_def e s(1))
  moreover have "sessions_ok Q r c"
    using feed_invD(2) [OF I] np by (auto simp: sessions_ok_def e r wq)
  moreover have "in_touch Q sync (depths W) (cn_objects c q, stream ?W q)"
    if q: "q \<in> set (cn_sessions c)" "linked c q" for q
  proof -
    have "cn_objects c q = cn_objects ?c q" using q(2) by (auto simp: e split: if_splits)
    moreover have "stream ?W q = stream W q"
    proof (cases "q = p")
      case True
      then have "\<not> error" using q(2) by (auto simp: e)
      then show ?thesis using True wp by (simp add: stream_def r)
    qed (simp add: stream_def r wq)
    ultimately show ?thesis using feed_invD(4) [OF I, of q] q by (simp add: e)
  qed
  moreover have "depths ?W = depths W" by (simp add: depths_def fun_eq_iff)
  ultimately show ?thesis using feed_invD(3) [OF I] by (simp add: feed_inv_def)
qed

lemma inv_start: "feed_inv Q sync (feed_start Q)"
proof -
  have "depth_repr (Depth 5) (\<lambda>_. [])" by (rule depth_repr_Depth) simp
  then have "books_ok (\<lambda>_. (Depth 5, \<lambda>_. []))" by (simp add: books_ok_def five_levels_def Depth_def)
  then show ?thesis
    by (simp add: feed_inv_def feed_start_def accept_def put_session_def DepthFeedConnection_def buffers_ok_def
        sessions_ok_def wire_def)
qed

lemma run_inv:
  assumes F: "fields_ok Q view" and C: "codec_ok Q view sync"
  shows "feed_run Q W \<Longrightarrow> feed_inv Q sync W"
proof (induction rule: feed_run.induct)
  case start
  show ?case by (rule inv_start)
next
  case (step W W')
  from step(2) step(3) show ?case
  proof (cases rule: feed_step.cases)
    case (sent xs p wb ys c)
    show ?thesis unfolding sent(1) by (rule inv_completed [OF step(3) sent(2-4)]) simp
  next
    case (failed xs p wb ys c)
    have "feed_inv Q sync (W\<lparr>fw_connection := c, fw_received := fw_received W\<rparr>)"
      by (rule inv_completed [OF step(3) failed(2-4)]) simp
    then show ?thesis unfolding failed(1) by simp
  qed (simp_all add: inv_order inv_publish [OF F C] inv_trade [OF F C] inv_accepted)
qed

end
