(* ===== verification/Feed_Properties.thy ===== *)
theory Feed_Properties
  imports Feed_World
begin

text \<open>The properties of the depth feed, and a small QuickFAST to apply them to.\<close>

section \<open>A concrete message library\<close>

datatype fieldset = Fields "(string \<times> fieldset field) list"

fun field_list :: "fieldset \<Rightarrow> (string \<times> fieldset field) list" where
  "field_list (Fields l) = l"

definition field_view :: "fieldset \<Rightarrow> string \<Rightarrow> fieldset field option" where
  "field_view m = map_of (field_list m)"

text \<open>It transmits a template's number and the fields as one unit.\<close>

definition small_fast :: "(fieldset, unit, unit, nat \<times> fieldset) quickfast" where
  "small_fast =
     \<lparr>fs_empty = Fields [],
      fs_addField = (\<lambda>f v m. Fields ((f, v) # field_list m)),
      fs_replaceField = (\<lambda>f v m. if field_view m f = None then (False, m) else (True, Fields ((f, v) # field_list m))),
      fs_getUnsignedInteger = (\<lambda>m f. unsigned_value (field_view m f)),
      fs_getString = (\<lambda>m f. case field_view m f of Some (FieldString s) \<Rightarrow> Some s | _ \<Rightarrow> None),
      fs_getSequenceLength = (\<lambda>m f. case field_view m f of Some (FieldSequence l es) \<Rightarrow> Some (length es) | _ \<Rightarrow> None),
      fs_getSequenceEntry = (\<lambda>m f i. case field_view m f of
         Some (FieldSequence l es) \<Rightarrow> if i < length es then Some (es ! i) else None | _ \<Rightarrow> None),
      qf_Encoder = (), qf_Decoder = (),
      qf_encodeMessage = (\<lambda>e t m. ([(t, m)], ())),
      qf_decodeMessage = (\<lambda>d bs. case bs of
         [(t, m)] \<Rightarrow> Inr (Fields ((id_msg_type, FieldUInt16 (message_type t)) # field_list m), ())
       | _ \<Rightarrow> Inl (Runtime_error ''decode''))\<rparr>"

lemma small_fast_ok: "fields_ok small_fast field_view" "codec_ok small_fast field_view (\<lambda>_ _. True)"
proof -
  have v: "field_view (Fields l) = map_of l" for l by (simp add: field_view_def)
  show "fields_ok small_fast field_view"
    by (auto simp: fields_ok_def small_fast_def field_view_def)
  have "same_field field_view x x" for x
  proof (cases x)
    case (Some y)
    then show ?thesis by (cases y) (simp_all add: list_all2_same)
  qed simp
  then show "codec_ok small_fast field_view (\<lambda>_ _. True)"
    by (auto simp: codec_ok_def small_fast_def v) (simp add: field_view_def)
qed

section \<open>What a subscriber knows\<close>

lemma not_changed_levels:
  assumes "told C d" "\<forall>i < length (dp_levels d). dl_last_change (dp_levels d ! i) \<le> dp_last_change d" "\<not> changed d"
  shows "cores (dp_levels d) = C"
proof (rule nth_equalityI)
  show l: "length (cores (dp_levels d)) = length C" using assms(1) by (simp add: told_def)
  fix i assume i: "i < length (cores (dp_levels d))"
  then have "\<not> level_changed_since (dp_last_published_change d) (dp_levels d ! i)"
    using assms(2,3) by (simp add: level_changed_since_def changed_def not_less) (meson order_trans)
  then show "cores (dp_levels d) ! i = C ! i" using assms(1) i l by (auto simp: told_def)
qed

text \<open>
  C36. A subscriber follows the publisher: in every reachable state of the feed, a subscriber that
  starts afresh with a connected session handles every message the session sent, in order, and
  refuses none. For every symbol the session has sent, its depth then differs from the
  publisher's at most in levels changed since the last publication; when nothing has changed
  since, it shows the same levels. This holds from whatever depths it kept from an earlier
  session, as long as the session has sent fewer than 2^32 messages.
\<close>

theorem subscriber_follows:
  assumes F: "fields_ok Q view" and C: "codec_ok Q view sync" and W: "feed_run Q W"
    and p: "p \<in> set (cn_sessions (fw_connection W))" "ss_connected (cn_objects (fw_connection W) p)"
    and n: "length (stream W p) < 2 ^ 32"
    and s0: "sync (qf_Encoder Q) (sb_decoder s0)" "\<forall>symbol. five_levels (kept_depth s0 symbol)"
  shows "\<exists>r. receive_all Q (stream W p) (handle_reset s0) = Some r \<and>
    (\<forall>symbol \<in> ss_sent_symbols (cn_objects (fw_connection W) p).
       let d = fst (fw_books W symbol); k = kept_depth r symbol
       in (\<forall>i < 10. level_core (dp_levels k ! i) = level_core (dp_levels d ! i) \<or>
             level_changed_since (dp_last_published_change d) (dp_levels d ! i)) \<and>
          (\<not> changed d \<longrightarrow> cores (dp_levels k) = cores (dp_levels d)))"
proof -
  have I: "feed_inv Q sync W" by (rule run_inv [OF F C W])
  have "ready Q sync (handle_reset s0)"
    using s0 by (simp add: ready_def handle_reset_def kept_depth_def)
  then obtain r where r: "receive_all Q (stream W p) (handle_reset s0) = Some r"
    "abreast sync (depths W) (cn_objects (fw_connection W) p) r"
    using feed_invD(4) [OF I p] n by (auto simp: in_touch_def)
  have "let d = fst (fw_books W symbol); k = kept_depth r symbol
       in (\<forall>i < 10. level_core (dp_levels k ! i) = level_core (dp_levels d ! i) \<or>
             level_changed_since (dp_last_published_change d) (dp_levels d ! i)) \<and>
          (\<not> changed d \<longrightarrow> cores (dp_levels k) = cores (dp_levels d))"
    if "symbol \<in> ss_sent_symbols (cn_objects (fw_connection W) p)" for symbol
  proof -
    let ?d = "fst (fw_books W symbol)" and ?k = "kept_depth r symbol"
    have t: "told (cores (dp_levels ?k)) ?d" using r(2) that by (simp add: abreast_def depths_def)
    have k: "length (dp_levels ?k) = 10" using r(2) by (simp add: abreast_def five_levels_def)
    have d: "length (dp_levels ?d) = 10" "\<forall>i < 10. dl_last_change (dp_levels ?d ! i) \<le> dp_last_change ?d"
      using feed_invD(3) [OF I] by (simp_all add: books_ok_def five_levels_def)
    show ?thesis
      using t k d not_changed_levels [OF t] by (auto simp: Let_def told_def)
  qed
  then show ?thesis using r(1) by blast
qed

text \<open>
  C38. A publication reaches every connected session with one message, after which the session has
  sent the symbol; the sessions that have lost their connection are removed, and only they.
\<close>

theorem publication_reaches_all:
  assumes F: "fields_ok Q view" and C: "codec_ok Q view sync" and W: "feed_run Q W"
  shows "let c = fw_connection W; c' = publisher_on_depth_change Q now later symbol d c
    in cn_sessions c' = filter (\<lambda>p. ss_connected (cn_objects c p)) (cn_sessions c) \<and>
       (\<forall>p \<in> set (cn_sessions c'). symbol \<in> ss_sent_symbols (cn_objects c' p) \<and>
          ss_sent_symbols (cn_objects c' p) = insert symbol (ss_sent_symbols (cn_objects c p)) \<and>
          (\<exists>message. wire c' p = wire c p @ [message]))"
proof -
  let ?c = "fw_connection W"
  have I: "feed_inv Q sync W" by (rule run_inv [OF F C W])
  have dist: "distinct (cn_sessions ?c)" using feed_invD(2) [OF I] by (simp add: sessions_ok_def)
  obtain c1 where c1:
    "publisher_on_depth_change Q now later symbol d ?c = c1\<lparr>cn_sessions := filter (linked ?c) (cn_sessions ?c)\<rparr>"
    "swept (cn_sessions ?c) ?c c1"
    "\<forall>p \<in> set (cn_sessions ?c). linked ?c p \<longrightarrow> posts_depth Q view symbol d (face ?c p) (face c1 p)"
    by (rule depth_effect [OF F feed_invD(1) [OF I] dist])
  have w: "wire (c1\<lparr>cn_sessions := ps\<rparr>) = wire c1" for ps by (simp add: wire_def fun_eq_iff)
  show ?thesis
    using c1(3) by (auto simp: Let_def c1(1) posts_depth_def posts_def face_def w)
qed

section \<open>Sessions and buffers\<close>

lemma step_keeps_memory:
  assumes F: "fields_ok Q view" and I: "feed_inv Q sync W" and s: "feed_step Q W W'"
    and wb: "wb \<in> snd ` set (cn_sends (fw_connection W))"
  shows "cn_memory (fw_connection W') wb = cn_memory (fw_connection W) wb"
proof -
  let ?c = "fw_connection W"
  have dist: "distinct (cn_sessions ?c)" using feed_invD(2) [OF I] by (simp add: sessions_ok_def)
  have pub: "cn_memory c' wb = cn_memory ?c wb"
    if "c' = c1\<lparr>cn_sessions := ps\<rparr>" "swept (cn_sessions ?c) ?c c1" for c' c1 ps
    using swept_memory [OF that(2) wb] that(1) by simp
  from s show ?thesis
  proof (cases rule: feed_step.cases)
    case (publish symbol d f now later)
    obtain c1 where "publisher_on_depth_change Q now later symbol d ?c = c1\<lparr>cn_sessions := filter (linked ?c) (cn_sessions ?c)\<rparr>"
      "swept (cn_sessions ?c) ?c c1" by (rule depth_effect [OF F feed_invD(1) [OF I] dist])
    then show ?thesis using pub by (simp add: publish(1))
  next
    case (trade symbol now qty cost)
    obtain c1 where "publisher_on_trade Q now symbol qty cost ?c = c1\<lparr>cn_sessions := filter (linked ?c) (cn_sessions ?c)\<rparr>"
      "swept (cn_sessions ?c) ?c c1" by (rule trade_effect [OF F feed_invD(1) [OF I] dist])
    then show ?thesis using pub by (simp add: trade(1))
  next
    case (accepted p error)
    then show ?thesis by (simp add: on_accept_def accept_def put_session_def destroy_session_def Let_def)
  next
    case (sent xs p b ys c)
    then show ?thesis by (auto simp: session_on_send_def connection_on_send_def Let_def split: if_splits)
  next
    case (failed xs p b ys c)
    then show ?thesis by (auto simp: session_on_send_def connection_on_send_def put_session_def Let_def split: if_splits)
  qed simp
qed

text \<open>
  C39. Every reachable connection is well-formed: the sessions it holds are different and alive, no
  buffer is sent from twice or waits for reuse while it is being sent from, and a step of the
  feed does not change the content of a buffer whose send has not completed. A step is atomic
  here; the program publishes and completes sends on two threads without a lock.
\<close>

theorem connection_well_formed:
  assumes F: "fields_ok Q view" and C: "codec_ok Q view sync" and W: "feed_run Q W"
  shows "let c = fw_connection W
    in distinct (cn_sessions c) \<and> (\<forall>p \<in> set (cn_sessions c). cn_live c p) \<and>
       distinct (map snd (cn_sends c) @ cn_unused_send_buffers c) \<and>
       (\<forall>W' wb. feed_step Q W W' \<longrightarrow> wb \<in> snd ` set (cn_sends c) \<longrightarrow>
          cn_memory (fw_connection W') wb = cn_memory c wb)"
proof -
  have I: "feed_inv Q sync W" by (rule run_inv [OF F C W])
  show ?thesis
    using feed_invD(1,2) [OF I] step_keeps_memory [OF F I]
    by (auto simp: Let_def buffers_ok_def sessions_ok_def)
qed

text \<open>
  C40. A session is destroyed too early: when one of its sends fails while another has not
  completed, the next publication removes the session and frees it, and the completion of the
  other send is then delivered to an object that is gone.
\<close>

theorem completion_after_destruction:
  assumes F: "fields_ok Q view" and C: "codec_ok Q view sync" and W: "feed_run Q W"
    and c: "c = fw_connection W" and p: "p \<in> set (cn_sessions c)"
    and sends: "cn_sends c = xs @ (p, wb) # ys" "p \<notin> fst ` set xs" "(p, wb2) \<in> set ys"
    and failed: "session_on_send p wb True (c\<lparr>cn_sends := xs @ ys\<rparr>) = Inr c1"
  shows "let c2 = publisher_on_trade Q now symbol qty cost c1
    in p \<notin> set (cn_sessions c2) \<and> (p, wb2) \<in> set (cn_sends c2) \<and> session_on_send p wb2 error c2 = Inl Invalid_iterator"
proof -
  have c1: "cn_sessions c1 = cn_sessions c" "cn_sends c1 = xs @ ys" "\<not> linked c1 p"
    using failed by (auto simp: session_on_send_def connection_on_send_def put_session_def Let_def split: if_splits)
  have "feed_inv Q sync (W\<lparr>fw_connection := c1, fw_received := fw_received W\<rparr>)"
    by (rule inv_completed [OF run_inv [OF F C W] sends(1,2) [unfolded c] failed [unfolded c]]) simp
  then have B: "buffers_ok c1" "distinct (cn_sessions c1)" using feed_invD(1,2) by (fastforce simp: sessions_ok_def)+
  obtain c3 where c3: "publisher_on_trade Q now symbol qty cost c1 = c3\<lparr>cn_sessions := filter (linked c1) (cn_sessions c1)\<rparr>"
    "swept (cn_sessions c1) c1 c3"
    by (rule trade_effect [OF F B])
  have "\<not> cn_live c3 p" "(p, wb2) \<in> set (cn_sends c3)"
    using c3(2) p sends(3) c1 by (auto simp: swept_def)
  then show ?thesis using c1(3) by (simp add: Let_def c3(1) session_on_send_def)
qed

section \<open>A feed to apply the properties to\<close>

text \<open>A session is accepted, then an order comes in and its depth is published.\<close>

definition feed_accepted :: "(unit, nat \<times> fieldset) feed_world" where
  "feed_accepted = (feed_start small_fast)
     \<lparr>fw_connection := on_accept small_fast 0 False (fw_connection (feed_start small_fast))\<rparr>"

lemma feed_accepted_simps [simp]:
  "cn_sessions (fw_connection feed_accepted) = [0]" "linked (fw_connection feed_accepted) 0"
  "cn_unused_send_buffers (fw_connection feed_accepted) = []" "cn_sends (fw_connection feed_accepted) = []"
  "cn_next_buffer (fw_connection feed_accepted) = 0" "cn_live (fw_connection feed_accepted) 0"
  "fw_received feed_accepted 0 = []" "fw_books feed_accepted symbol = (Depth 5, \<lambda>_. [])"
  by (simp_all add: feed_accepted_def feed_start_def accept_def on_accept_def put_session_def DepthFeedConnection_def Let_def)

lemma feed_accepted_run: "feed_run small_fast feed_accepted"
  unfolding feed_accepted_def
  by (rule feed_run.step [OF feed_run.start feed_step.accepted])
    (simp add: feed_start_def accept_def DepthFeedConnection_def Let_def)

definition sample_depth :: depth where
  "sample_depth = snd (depth_add_order 100 5 True (Depth 5))"

definition sample_sides :: two_sides where
  "sample_sides = (\<lambda>_. [])(True := add_level True 100 5 [])"

lemma sample_depth_facts:
  "depth_add_order 100 5 True (Depth 5) = (Inr (), sample_depth)" "changed sample_depth"
  "level_core (dp_levels sample_depth ! 0) = (100, 1, 5)"
proof -
  have "case depth_add_order 100 5 True (Depth 5) of (r, d) \<Rightarrow>
      r = Inr () \<and> changed d \<and> level_core (dp_levels d ! 0) = (100, 1, 5)"
    by code_simp
  then show "depth_add_order 100 5 True (Depth 5) = (Inr (), sample_depth)" "changed sample_depth"
    "level_core (dp_levels sample_depth ! 0) = (100, 1, 5)"
    by (simp_all add: sample_depth_def split: prod.splits)
qed

definition feed_ordered :: "(unit, nat \<times> fieldset) feed_world" where
  "feed_ordered = feed_accepted\<lparr>fw_books := (fw_books feed_accepted)(''ETH'' := (sample_depth, sample_sides))\<rparr>"

lemma feed_ordered_run: "feed_run small_fast feed_ordered"
  unfolding feed_ordered_def
proof (rule feed_run.step [OF feed_accepted_run feed_step.order])
  show "depth_step (fw_books feed_accepted ''ETH'') (sample_depth, sample_sides)"
    unfolding sample_sides_def feed_accepted_simps
    by (rule depth_step.add [where f = "\<lambda>_. []" and s = True, OF _ sample_depth_facts(1)]) (simp add: INVALID_LEVEL_PRICE_def)
  show "ids_left 2 (fst (fw_books feed_accepted ''ETH''))" by (simp add: ids_left_def Depth_def)
qed

definition feed_published :: "(unit, nat \<times> fieldset) feed_world" where
  "feed_published = feed_ordered
     \<lparr>fw_connection := publisher_on_depth_change small_fast 0 0 ''ETH'' sample_depth (fw_connection feed_ordered),
      fw_books := (fw_books feed_ordered)(''ETH'' := (published sample_depth, sample_sides))\<rparr>"

lemma feed_published_run: "feed_run small_fast feed_published"
  unfolding feed_published_def
  by (rule feed_run.step [OF feed_ordered_run feed_step.publish])
    (simp_all add: feed_ordered_def sample_depth_facts ascii_def code_def)

lemma feed_published_facts:
  "cn_sessions (fw_connection feed_published) = [0]" "linked (fw_connection feed_published) 0"
  "''ETH'' \<in> ss_sent_symbols (cn_objects (fw_connection feed_published) 0)" "length (stream feed_published 0) = 1"
proof -
  let ?c = "fw_connection feed_ordered"
  have c: "cn_sessions ?c = [0]" "linked ?c 0" "wire ?c 0 = []" by (simp_all add: feed_ordered_def wire_def)
  have B: "buffers_ok ?c" by (simp add: feed_ordered_def buffers_ok_def)
  obtain c1 where c1: "publisher_on_depth_change small_fast 0 0 ''ETH'' sample_depth ?c =
      c1\<lparr>cn_sessions := filter (linked ?c) (cn_sessions ?c)\<rparr>" "swept (cn_sessions ?c) ?c c1"
    "\<forall>p \<in> set (cn_sessions ?c). linked ?c p \<longrightarrow> posts_depth small_fast field_view ''ETH'' sample_depth (face ?c p) (face c1 p)"
    by (rule depth_effect [OF small_fast_ok(1) B]) (simp add: c)
  have w: "wire (c1\<lparr>cn_sessions := ps\<rparr>) = wire c1" for ps by (simp add: wire_def fun_eq_iff)
  have p: "posts_depth small_fast field_view ''ETH'' sample_depth (cn_objects ?c 0, []) (cn_objects c1 0, wire c1 0)"
    using c1(3) c by (simp add: face_def)
  show "cn_sessions (fw_connection feed_published) = [0]" "linked (fw_connection feed_published) 0"
    using c1(2) c by (simp_all add: feed_published_def c1(1) swept_def)
  show "''ETH'' \<in> ss_sent_symbols (cn_objects (fw_connection feed_published) 0)"
    using p by (auto simp: feed_published_def c1(1) posts_depth_def posts_def)
  show "length (stream feed_published 0) = 1"
  proof -
    have "length (wire c1 0) = 1" using p by (auto simp: posts_depth_def posts_def)
    moreover have "stream feed_published 0 = fw_received feed_ordered 0 @ wire c1 0"
      by (simp add: stream_def feed_published_def c1(1) w)
    ultimately show ?thesis by (simp add: feed_ordered_def)
  qed
qed

lemma new_subscriber: "five_levels (kept_depth (DepthFeedSubscriber Q) symbol)"
  by (simp add: kept_depth_def DepthFeedSubscriber_def five_levels_def Depth_def)

theorem subscriber_follows_witness:
  "\<exists>r. receive_all small_fast (stream feed_published 0) (handle_reset (DepthFeedSubscriber small_fast)) = Some r \<and>
     cores (dp_levels (kept_depth r ''ETH'')) = cores (dp_levels (published sample_depth))"
proof -
  have p: "0 \<in> set (cn_sessions (fw_connection feed_published))" "length (stream feed_published 0) < 2 ^ 32"
    using feed_published_facts(1,4) by simp_all
  have five: "\<forall>symbol. five_levels (kept_depth (DepthFeedSubscriber small_fast) symbol)" using new_subscriber by blast
  have n: "\<not> changed (published sample_depth)" by (simp add: changed_def published_def)
  have d: "fst (fw_books feed_published ''ETH'') = published sample_depth" by (simp add: feed_published_def)
  show ?thesis
    using subscriber_follows [OF small_fast_ok feed_published_run p(1) feed_published_facts(2) p(2) TrueI five]
      feed_published_facts(3) n unfolding Let_def by (metis d)
qed

theorem publication_reaches_all_witness:
  "let c = publisher_on_depth_change small_fast 0 0 ''ETH'' sample_depth (fw_connection feed_ordered)
   in cn_sessions c = [0] \<and> ''ETH'' \<in> ss_sent_symbols (cn_objects c 0) \<and> (\<exists>message. wire c 0 = [message])"
proof -
  have c: "cn_sessions (fw_connection feed_ordered) = [0]" "linked (fw_connection feed_ordered) 0"
    "wire (fw_connection feed_ordered) 0 = []" by (simp_all add: feed_ordered_def wire_def)
  show ?thesis
    using publication_reaches_all [OF small_fast_ok feed_ordered_run, of 0 0 "''ETH''" sample_depth] c
    by (auto simp: Let_def)
qed

theorem connection_well_formed_witness:
  "distinct (map snd (cn_sends (fw_connection feed_published)) @ cn_unused_send_buffers (fw_connection feed_published))"
  using connection_well_formed [OF small_fast_ok feed_published_run] by (simp add: Let_def)

text \<open>Two trades go out to the session before either send has completed.\<close>

lemma one_session_trade:
  assumes "cn_sessions c = [p]" "linked c p" "cn_unused_send_buffers c = []"
  shows "cn_sessions (publisher_on_trade Q now symbol qty cost c) = [p]"
    "linked (publisher_on_trade Q now symbol qty cost c) p"
    "cn_unused_send_buffers (publisher_on_trade Q now symbol qty cost c) = []"
    "cn_next_buffer (publisher_on_trade Q now symbol qty cost c) = cn_next_buffer c + 1"
    "cn_sends (publisher_on_trade Q now symbol qty cost c) = cn_sends c @ [(p, cn_next_buffer c)]"
    "cn_live (publisher_on_trade Q now symbol qty cost c) = cn_live c"
  using assms
  by (auto simp: publisher_on_trade_def connection_send_trade_def session_send_trade_def set_sequence_num_def
      encode_and_send_def reserve_send_buffer_def put_session_def Let_def split: prod.splits)

definition feed_traded :: "(unit, nat \<times> fieldset) feed_world \<Rightarrow> (unit, nat \<times> fieldset) feed_world" where
  "feed_traded W = W\<lparr>fw_connection := publisher_on_trade small_fast 0 ''ETH'' 5 500 (fw_connection W)\<rparr>"

lemma feed_traded_run: "feed_run small_fast W \<Longrightarrow> feed_run small_fast (feed_traded W)"
  unfolding feed_traded_def
  by (erule feed_run.step [OF _ feed_step.trade]) (simp add: ascii_def code_def)

theorem completion_after_destruction_witness:
  "\<exists>c1. session_on_send 0 0 True ((fw_connection (feed_traded (feed_traded feed_accepted)))\<lparr>cn_sends := [(0, 1)]\<rparr>) = Inr c1 \<and>
     session_on_send 0 1 True (publisher_on_trade small_fast 0 ''ETH'' 5 500 c1) = Inl Invalid_iterator"
proof -
  let ?W = "feed_traded (feed_traded feed_accepted)"
  have c: "cn_sessions (fw_connection ?W) = [0]" "cn_live (fw_connection ?W) 0"
    "cn_sends (fw_connection ?W) = [] @ (0, 0) # [(0, 1)]"
    by (simp_all add: feed_traded_def one_session_trade)
  obtain c1 where c1: "session_on_send 0 0 True ((fw_connection ?W)\<lparr>cn_sends := [(0, 1)]\<rparr>) = Inr c1"
    using c(2) by (simp add: session_on_send_def Let_def)
  have "session_on_send 0 0 True ((fw_connection ?W)\<lparr>cn_sends := [] @ [(0, 1)]\<rparr>) = Inr c1" using c1 by simp
  from completion_after_destruction [OF small_fast_ok feed_traded_run [OF feed_traded_run [OF feed_accepted_run]] refl _ c(3) _ _ this,
      of 1 0 "''ETH''" 5 500 True]
  show ?thesis using c1 c(1) by (simp add: Let_def)
qed

end
