(* ===== verification/Feed_Order.thy ===== *)
theory Feed_Order
  imports Text Order_Tracker
begin

text \<open>
  \<^verbatim>\<open>examples/depth_feed_publisher/order.h\<close> and \<^verbatim>\<open>order.cpp\<close>: the order of the exchange
  behind the depth feed. It reports its status to the outside world with a signal, and its
  price is a \<^verbatim>\<open>double\<close>.
\<close>

section \<open>Double\<close>

text \<open>
  What the program does with a \<^verbatim>\<open>double\<close>: \<^verbatim>\<open>Price(x * 100)\<close>, the conversions from a price and
  to a quantity, the comparison with zero, and the stream output. The type and the operations are
  parameters. A conversion to an unsigned 32-bit integer is undefined for a value that is negative
  or too large: it is \<open>None\<close>.
\<close>

record 'd double_ops =
  dbl_scaled :: "'d \<Rightarrow> price option"
  dbl_of_price :: "price \<Rightarrow> 'd"
  dbl_to_quantity :: "'d \<Rightarrow> quantity option"
  dbl_is_zero :: "'d \<Rightarrow> bool"
  dbl_print :: "'d \<Rightarrow> string"

section \<open>The class\<close>

datatype feed_state =
    Submitted
  | Rejected
  | Accepted
  | ModifyRequested
  | ModifyRejected
  | Modified
  | PartialFilled
  | Filled
  | CancelRequested
  | CancelRejected
  | Cancelled
  | Unknown

record feed_change =
  fc_state :: feed_state
  fc_description :: string

definition FeedChange :: "feed_state \<Rightarrow> string \<Rightarrow> feed_change" where
  "FeedChange state description = \<lparr>fc_state = state, fc_description = description\<rparr>"

definition FeedChange_default :: feed_change where
  "FeedChange_default = \<lparr>fc_state = Unknown, fc_description = ''''\<rparr>"

text \<open>
  The members. The constructor leaves \<^verbatim>\<open>verbose_\<close> uninitialised; its value is an argument.
\<close>

record 'd feed_order =
  fo_is_buy :: bool
  fo_price :: 'd
  fo_qty :: quantity
  fo_ClOrdID :: string
  fo_status :: string
  fo_history :: "feed_change list"
  fo_verbose :: bool
  fo_quantityFilled :: quantity
  fo_quantityOnMarket :: int32
  fo_fillCost :: "32 word"

definition FeedOrder ::
  "bool \<Rightarrow> bool \<Rightarrow> 'd \<Rightarrow> quantity \<Rightarrow> string \<Rightarrow> string \<Rightarrow> 'd feed_order" where
  "FeedOrder verbose buy price qty ClOrdID status =
     \<lparr>fo_is_buy = buy, fo_price = price, fo_qty = qty, fo_ClOrdID = ClOrdID, fo_status = status,
      fo_history = [], fo_verbose = verbose, fo_quantityFilled = 0, fo_quantityOnMarket = 0,
      fo_fillCost = 0\<rparr>"

text \<open>
  \<^verbatim>\<open>Order::price\<close>. The engine converts the price of an order whenever it looks at it, and the
  price of an order of the exchange never changes: \<open>exchange_add_order\<close> fails if the price has no
  conversion, before any look at it, and the \<open>0\<close> here stands for nothing.
\<close>

definition fo_book_price :: "'d double_ops \<Rightarrow> 'd feed_order \<Rightarrow> price" where
  "fo_book_price D x = (case dbl_scaled D (fo_price x) of Some p \<Rightarrow> p | None \<Rightarrow> 0)"

text \<open>What the book sees of it; the other members of the interface keep their defaults.\<close>

definition feed_view :: "'d double_ops \<Rightarrow> 'd feed_order \<Rightarrow> order_view" where
  "feed_view D x =
     \<lparr>o_is_buy = fo_is_buy x, o_price = fo_book_price D x, o_stop_price = Order_default_stop_price,
      o_order_qty = fo_qty x, o_all_or_none = Order_default_all_or_none,
      o_immediate_or_cancel = Order_default_immediate_or_cancel\<rparr>"

text \<open>The last element of an empty history does not exist.\<close>

definition fo_currentState :: "'d feed_order \<Rightarrow> feed_change result" where
  "fo_currentState x = (if fo_history x = [] then Inl Out_of_bounds else Inr (last (fo_history x)))"

definition fo_set_verbose :: "bool \<Rightarrow> 'd feed_order \<Rightarrow> 'd feed_order" where
  "fo_set_verbose v x = x\<lparr>fo_verbose := v\<rparr>"

section \<open>The life cycle\<close>

text \<open>
  What an event writes: text to the error stream, and the signal \<^verbatim>\<open>signalOrderChanged\<close> with the
  order's id, its quantity on the market, its price and the status code.
\<close>

datatype 'd order_output =
    Cerr string
  | Order_Changed string int32 'd int

type_synonym 'd outcome = "'d feed_order \<times> 'd order_output list"

definition status_code :: "feed_state \<Rightarrow> int" where
  "status_code s =
     (case s of Accepted \<Rightarrow> 0 | PartialFilled \<Rightarrow> 1 | Filled \<Rightarrow> 2 | Cancelled \<Rightarrow> 4 | _ \<Rightarrow> 99999)"

definition sendStatusToSocket :: "'d feed_order \<Rightarrow> 'd order_output list result" where
  "sendStatusToSocket x =
     rbind (fo_currentState x) (\<lambda>state.
       Inr [Order_Changed (fo_ClOrdID x) (fo_quantityOnMarket x) (fo_price x) (status_code (fc_state state))])"

definition fo_record :: "feed_state \<Rightarrow> string \<Rightarrow> 'd feed_order \<Rightarrow> 'd feed_order" where
  "fo_record s msg x = x\<lparr>fo_history := fo_history x @ [FeedChange s msg]\<rparr>"

definition and_send :: "'d order_output list \<Rightarrow> 'd feed_order \<Rightarrow> 'd outcome result" where
  "and_send os x = rbind (sendStatusToSocket x) (\<lambda>sent. Inr (x, os @ sent))"

definition fo_onSubmitted :: "'d double_ops \<Rightarrow> 'd feed_order \<Rightarrow> 'd outcome" where
  "fo_onSubmitted D x =
     (let msg = (if fo_is_buy x then ''BUY '' else ''SELL '') @ print_u32 (fo_qty x) @
            (if dbl_is_zero D (fo_price x) then ''MKT'' else dbl_print D (fo_price x))
      in (fo_record Submitted msg x, [Cerr ''onSubmitted '']))"

definition fo_onAccepted :: "'d feed_order \<Rightarrow> 'd outcome result" where
  "fo_onAccepted x =
     (let x1 = x\<lparr>fo_quantityOnMarket := fo_qty x\<rparr>
      in if fo_status x1 = '''' then
           and_send [Cerr (fo_ClOrdID x1 @ '' onAccepted'' @ newline)] (fo_record Accepted '''' x1)
         else
           let (x2, o2) = (if fo_status x1 = ''Processing''
                           then (fo_record PartialFilled '''' x1, [Cerr (fo_ClOrdID x1 @ '' onFilled from DB'' @ newline)])
                           else (x1, []));
               (x3, o3) = (if fo_status x2 = ''Pending''
                           then (fo_record Accepted '''' x2, [Cerr (fo_ClOrdID x2 @ '' onAccepted from DB'' @ newline)])
                           else (x2, []))
           in Inr (x3, o2 @ o3))"

definition fo_onRejected :: "string \<Rightarrow> 'd feed_order \<Rightarrow> 'd feed_order" where
  "fo_onRejected reason x = fo_record Rejected reason x"

definition fo_onFilled :: "quantity \<Rightarrow> cost \<Rightarrow> 'd feed_order \<Rightarrow> 'd outcome result" where
  "fo_onFilled fill_qty fill_cost x =
     (let x1 = x\<lparr>fo_quantityOnMarket := fo_quantityOnMarket x - fill_qty, fo_fillCost := fo_fillCost x + fill_cost\<rparr>;
          msg = print_u32 fill_qty @ '' for '' @ print_u32 fill_cost
      in and_send [Cerr ''onFilled ''] (fo_record (if 0 < sint (fo_quantityOnMarket x1) then PartialFilled else Filled) msg x1))"

definition fo_onCancelRequested :: "'d feed_order \<Rightarrow> 'd feed_order" where
  "fo_onCancelRequested x = fo_record CancelRequested '''' x"

definition fo_onCancelled :: "'d feed_order \<Rightarrow> 'd outcome result" where
  "fo_onCancelled x = and_send [] (fo_record Cancelled '''' (x\<lparr>fo_quantityOnMarket := 0\<rparr>))"

definition fo_onCancelRejected :: "string \<Rightarrow> 'd feed_order \<Rightarrow> 'd feed_order" where
  "fo_onCancelRejected reason x = fo_record CancelRejected reason x"

definition feed_replace_text :: "int32 \<Rightarrow> price \<Rightarrow> string" where
  "feed_replace_text size_delta new_price =
     (if size_delta \<noteq> SIZE_UNCHANGED then ''Quantity change: '' @ print_i32 size_delta @ '' '' else '''') @
     (if new_price \<noteq> PRICE_UNCHANGED then ''New Price '' @ print_u32 new_price else '''')"

definition fo_onReplaceRequested :: "int32 \<Rightarrow> price \<Rightarrow> 'd feed_order \<Rightarrow> 'd feed_order" where
  "fo_onReplaceRequested size_delta new_price x =
     fo_record ModifyRequested (feed_replace_text size_delta new_price) x"

definition fo_onReplaced :: "'d double_ops \<Rightarrow> int32 \<Rightarrow> price \<Rightarrow> 'd feed_order \<Rightarrow> 'd feed_order" where
  "fo_onReplaced D size_delta new_price x =
     (let x1 = (if size_delta \<noteq> SIZE_UNCHANGED
                then x\<lparr>fo_qty := fo_qty x + size_delta,
                       fo_quantityOnMarket := fo_quantityOnMarket x + size_delta\<rparr> else x);
          x2 = (if new_price \<noteq> PRICE_UNCHANGED then x1\<lparr>fo_price := dbl_of_price D new_price\<rparr> else x1)
      in fo_record Modified (feed_replace_text size_delta new_price) x2)"

definition fo_onReplaceRejected :: "string \<Rightarrow> 'd feed_order \<Rightarrow> 'd feed_order" where
  "fo_onReplaceRejected reason x = fo_record ModifyRejected reason x"

section \<open>Text\<close>

definition state_name :: "feed_state \<Rightarrow> string" where
  "state_name s =
     (case s of
        Submitted \<Rightarrow> ''Submitted'' | Rejected \<Rightarrow> ''Rejected'' | Accepted \<Rightarrow> ''Accepted''
      | ModifyRequested \<Rightarrow> ''ModifyRequested'' | ModifyRejected \<Rightarrow> ''ModifyRejected''
      | Modified \<Rightarrow> ''Modified'' | PartialFilled \<Rightarrow> ''PartialFilled'' | Filled \<Rightarrow> ''Filled''
      | CancelRequested \<Rightarrow> ''CancelRequested'' | CancelRejected \<Rightarrow> ''CancelRejected''
      | Cancelled \<Rightarrow> ''Cancelled'' | Unknown \<Rightarrow> ''Unknown'')"

definition getStringState :: "'d feed_order \<Rightarrow> string result" where
  "getStringState x = rbind (fo_currentState x) (\<lambda>state. Inr (state_name (fc_state state)))"

definition feed_state_text :: "feed_state \<Rightarrow> string" where
  "feed_state_text s =
     (case s of
        Submitted \<Rightarrow> ''Submitted'' | Rejected \<Rightarrow> ''Rejected'' | Accepted \<Rightarrow> ''Accepted''
      | ModifyRequested \<Rightarrow> ''ModifyRequested'' | ModifyRejected \<Rightarrow> ''ModifyRejected''
      | Modified \<Rightarrow> ''Modified'' | PartialFilled \<Rightarrow> ''PartialFilled '' | Filled \<Rightarrow> ''Filled ''
      | CancelRequested \<Rightarrow> ''CancelRequested '' | CancelRejected \<Rightarrow> ''CancelRejected ''
      | Cancelled \<Rightarrow> ''Cancelled '' | Unknown \<Rightarrow> ''Unknown '')"

definition show_feed_change :: "feed_change \<Rightarrow> string" where
  "show_feed_change event = ''{'' @ feed_state_text (fc_state event) @ fc_description event @ ''}''"

definition show_feed_order :: "'d double_ops \<Rightarrow> 'd feed_order \<Rightarrow> string result" where
  "show_feed_order D x =
     (if dbl_scaled D (fo_price x) = None then Inl Bad_conversion else
      let v = feed_view D x;
          head = ''[#'' @ fo_ClOrdID x @ '' '' @ (if o_is_buy v then ''BUY'' else ''SELL'') @ '' '' @
            print_u32 (o_order_qty v) @
            (if o_price v = 0 then '' MKT'' else '' $'' @ print_u32 (o_price v)) @
            (if o_stop_price v \<noteq> 0 then '' STOP '' @ print_u32 (o_stop_price v) else '''') @
            (if o_all_or_none v then '' AON'' else '''') @ (if o_immediate_or_cancel v then '' IOC'' else '''');
          onMarket = fo_quantityOnMarket x;
          filled = fo_quantityFilled x;
          cost = fo_fillCost x;
          quantities = (if onMarket \<noteq> 0 then '' Open: '' @ print_u32 onMarket else '''') @
            (if filled \<noteq> 0 then '' Filled: '' @ print_u32 filled else '''') @
            (if cost \<noteq> 0 then '' Cost: '' @ print_u32 cost else '''')
      in rbind
           (if fo_verbose x
            then Inr (concat (map (\<lambda>event. newline @ tab @ show_feed_change event) (fo_history x)))
            else rbind (fo_currentState x) (\<lambda>event. Inr ('' Last Event:'' @ show_feed_change event)))
           (\<lambda>events. Inr (head @ quantities @ events @ '']'')))"


section \<open>What it reports\<close>

text \<open>The quantities on the market and the status codes of the signals, in order.\<close>

fun reports :: "'d order_output list \<Rightarrow> (int \<times> int) list" where
  "reports [] = []"
| "reports (Cerr t # os) = reports os"
| "reports (Order_Changed i m p s # os) = (sint m, s) # reports os"

lemma reports_append [simp]: "reports (a @ b) = reports a @ reports b"
  by (induction a rule: reports.induct) auto

fun fo_fill_all :: "(quantity \<times> cost) list \<Rightarrow> 'd feed_order \<Rightarrow> 'd outcome result" where
  "fo_fill_all [] x = Inr (x, [])"
| "fo_fill_all ((q, c) # fs) x =
     rbind (fo_onFilled q c x) (\<lambda>(x1, o1). rbind (fo_fill_all fs x1) (\<lambda>(x2, o2). Inr (x2, o1 @ o2)))"

text \<open>What the world should hear: the remaining quantity, and whether it is all filled.\<close>

fun remaining_reports :: "int \<Rightarrow> (quantity \<times> cost) list \<Rightarrow> (int \<times> int) list" where
  "remaining_reports r [] = []"
| "remaining_reports r ((q, c) # fs) =
     (r - uint q, if r = uint q then 2 else 1) # remaining_reports (r - uint q) fs"

lemma and_send_record:
  "and_send os (fo_record s msg x) =
     Inr (fo_record s msg x, os @ [Order_Changed (fo_ClOrdID x) (fo_quantityOnMarket x) (fo_price x) (status_code s)])"
  by (simp add: and_send_def sendStatusToSocket_def fo_currentState_def fo_record_def FeedChange_def)

lemma sint_uint_small: "uint (w :: 32 word) < 2 ^ 31 \<Longrightarrow> sint w = uint w"
  using signed_take_bit_int_eq_self [of 31 "uint w"] uint_ge_0 [of w] by (simp add: sint_uint)

lemma unat_below_half: "unat w < 2 ^ 31 \<longleftrightarrow> uint w < 2 ^ 31" for w :: "32 word"
  using nat_less_eq_zless [OF uint_ge_0, of w "2 ^ 31"] by simp

lemma sint_positive: "0 < sint (w :: 32 word) \<longleftrightarrow> w \<noteq> 0 \<and> unat w < 2 ^ 31"
proof -
  have z: "0 < uint w \<longleftrightarrow> w \<noteq> 0" using uint_ge_0 [of w] uint_0_iff [of w] by linarith
  note u = unat_below_half [of w]
  have "0 < sint w \<Longrightarrow> uint w < 2 ^ 31"
    using uint_sint [of w] take_bit_int_eq_self [of "sint w" 32] sint_lt [of w] by simp
  then show ?thesis using z u sint_uint_small [of w] by auto
qed

lemma fill_all_reports:
  "sint (fo_quantityOnMarket x) = r \<Longrightarrow> (\<Sum>(q, c) \<leftarrow> fs. uint q) \<le> r \<Longrightarrow>
     \<exists>y os. fo_fill_all fs x = Inr (y, os) \<and> reports os = remaining_reports r fs \<and>
       sint (fo_quantityOnMarket y) = r - (\<Sum>(q, c) \<leftarrow> fs. uint q) \<and>
       fo_fillCost y = fo_fillCost x + (\<Sum>(q, c) \<leftarrow> fs. c)"
proof (induction fs arbitrary: x r)
  case (Cons f fs)
  obtain q c where f: "f = (q, c)" by fastforce
  let ?m = "fo_quantityOnMarket x"
  have nonneg: "0 \<le> (\<Sum>(q, c) \<leftarrow> fs. uint q)" by (intro sum_list_nonneg) auto
  then have le: "uint q \<le> r" using Cons.prems(2) f by simp
  have r: "r < 2 ^ 31" using sint_lt [of ?m] Cons.prems(1) by simp
  have sq: "sint q = uint q" using le r by (intro sint_uint_small) simp
  have m: "sint (?m - q) = r - uint q"
  proof -
    have "sint (?m - q) = signed_take_bit 31 (sint ?m - sint q)"
      by (simp add: sint_word_ariths)
    also have "\<dots> = r - uint q"
    proof -
      have "- (2 ^ 31) \<le> r - uint q" "r - uint q < 2 ^ 31" using le r uint_ge_0 [of q] by linarith+
      then show ?thesis using Cons.prems(1) sq signed_take_bit_int_eq_self [of 31 "r - uint q"] by simp
    qed
    finally show ?thesis .
  qed
  obtain x1 where x1: "fo_onFilled q c x = Inr (x1,
      [Cerr ''onFilled '', Order_Changed (fo_ClOrdID x) (?m - q) (fo_price x) (if 0 < sint (?m - q) then 1 else 2)])"
    "fo_quantityOnMarket x1 = ?m - q" "fo_fillCost x1 = fo_fillCost x + c"
    by (auto simp: fo_onFilled_def Let_def and_send_record status_code_def)
      (simp_all add: fo_record_def)
  obtain y os where y: "fo_fill_all fs x1 = Inr (y, os)" "reports os = remaining_reports (r - uint q) fs"
    "sint (fo_quantityOnMarket y) = r - uint q - (\<Sum>(q, c) \<leftarrow> fs. uint q)"
    "fo_fillCost y = fo_fillCost x1 + (\<Sum>(q, c) \<leftarrow> fs. c)"
    using Cons.IH [of x1 "r - uint q"] x1(2) m Cons.prems(2) f by auto
  show ?case
    using x1 y m le f by (auto simp: algebra_simps)
qed simp

lemma accepted_quantity:
  "\<exists>y os. fo_onAccepted x = Inr (y, os) \<and> fo_quantityOnMarket y = fo_qty x \<and> fo_fillCost y = fo_fillCost x \<and>
     reports os = (if fo_status x = '''' then [(sint (fo_qty x), 0)] else [])"
  by (auto simp: fo_onAccepted_def and_send_record Let_def status_code_def) (simp_all add: fo_record_def)

text \<open>
  C32. What the outside world hears of an order below 2^31. When a new order is accepted (its
  status is empty): its quantity and status 0. When an order read back from the database is
  accepted (its status is not empty): nothing. At each fill of either: the quantity that is left
  and status 1, or 2 exactly when nothing is left.
\<close>

theorem status_follows_the_fills:
  assumes "uint (fo_qty x) < 2 ^ 31" "(\<Sum>(q, c) \<leftarrow> fs. uint q) \<le> uint (fo_qty x)"
  shows "\<exists>x1 o1 y os. fo_onAccepted x = Inr (x1, o1) \<and> fo_fill_all fs x1 = Inr (y, os) \<and>
    reports o1 = (if fo_status x = '''' then [(uint (fo_qty x), 0)] else []) \<and>
    reports os = remaining_reports (uint (fo_qty x)) fs \<and>
    fo_fillCost y = fo_fillCost x + (\<Sum>(q, c) \<leftarrow> fs. c)"
proof -
  have s: "sint (fo_qty x) = uint (fo_qty x)" by (rule sint_uint_small [OF assms(1)])
  obtain x1 o1 where x1: "fo_onAccepted x = Inr (x1, o1)" "fo_quantityOnMarket x1 = fo_qty x"
    "fo_fillCost x1 = fo_fillCost x" "reports o1 = (if fo_status x = '''' then [(uint (fo_qty x), 0)] else [])"
    using accepted_quantity [of x] s by auto
  obtain y os where "fo_fill_all fs x1 = Inr (y, os)" "reports os = remaining_reports (uint (fo_qty x)) fs"
    "fo_fillCost y = fo_fillCost x1 + (\<Sum>(q, c) \<leftarrow> fs. c)"
    using fill_all_reports [of x1 "uint (fo_qty x)" fs] x1(2) s assms(2) by auto
  then show ?thesis using x1 by auto
qed

theorem status_follows_the_fills_witness:
  "(\<exists>x1 o1 y os. fo_onAccepted (FeedOrder False True (10 :: int) 100 ''7'' '''') = Inr (x1, o1) \<and>
     fo_fill_all [(60, 600), (40, 400)] x1 = Inr (y, os) \<and>
     reports o1 = [(100, 0)] \<and> reports os = [(40, 1), (0, 2)] \<and> fo_fillCost y = 1000) \<and>
   (\<exists>x1 o1 y os. fo_onAccepted (FeedOrder False True (10 :: int) 100 ''7'' ''Pending'') = Inr (x1, o1) \<and>
     fo_fill_all [(60, 600), (40, 400)] x1 = Inr (y, os) \<and> reports o1 = [] \<and> reports os = [(40, 1), (0, 2)])"
  using status_follows_the_fills [of "FeedOrder False True (10 :: int) 100 ''7'' ''''" "[(60, 600), (40, 400)]"]
    status_follows_the_fills [of "FeedOrder False True (10 :: int) 100 ''7'' ''Pending''" "[(60, 600), (40, 400)]"]
  by (auto simp: FeedOrder_def)

text \<open>
  C33. The quantity on the market is a signed 32-bit integer: a first fill of a new order that
  leaves 2^31 or more open is reported as a complete fill, and in general a first fill within the
  order is reported as partial exactly when what it leaves is positive and below 2^31.
\<close>

theorem fill_report_bound:
  assumes "fo_status x = ''''" "q \<le> fo_qty x"
  shows "\<exists>x1 o1 y os m. fo_onAccepted x = Inr (x1, o1) \<and> fo_onFilled q c x1 = Inr (y, os) \<and>
    reports os = [(m, if q < fo_qty x \<and> unat (fo_qty x) - unat q < 2 ^ 31 then 1 else 2)]"
proof -
  let ?x1 = "fo_record Accepted '''' (x\<lparr>fo_quantityOnMarket := fo_qty x\<rparr>)"
  let ?m = "fo_qty x - q"
  have u: "unat ?m = unat (fo_qty x) - unat q" using assms(2) by (rule unat_sub_le)
  have "(0 < sint ?m) = (?m \<noteq> 0 \<and> unat ?m < 2 ^ 31)" by (rule sint_positive)
  moreover have "(?m \<noteq> 0) = (q < fo_qty x)" using assms(2) by auto
  ultimately have status: "0 < sint ?m \<longleftrightarrow> q < fo_qty x \<and> unat (fo_qty x) - unat q < 2 ^ 31"
    using u by simp
  have "fo_onAccepted x = Inr (?x1, [Cerr (fo_ClOrdID x @ '' onAccepted'' @ newline),
      Order_Changed (fo_ClOrdID x) (fo_qty x) (fo_price x) 0])"
    using assms(1) by (simp add: fo_onAccepted_def and_send_record status_code_def)
  moreover have "fo_quantityOnMarket ?x1 = fo_qty x" by (simp add: fo_record_def)
  ultimately show ?thesis
    unfolding fo_onFilled_def Let_def and_send_record
    by (simp add: status status_code_def del: power_Suc)
qed


theorem fill_report_bound_witness:
  "\<exists>x1 o1 y os m. fo_onAccepted (FeedOrder False True (10 :: int) 4000000000 ''7'' '''') = Inr (x1, o1) \<and>
     fo_onFilled 1000000000 500 x1 = Inr (y, os) \<and> reports os = [(m, 2)]"
  using fill_report_bound [of "FeedOrder False True (10 :: int) 4000000000 ''7'' ''''" 1000000000 500]
  by (simp add: FeedOrder_def)

text \<open>
  The state of an order read back from the database as neither pending nor in process is
  unknown to the class: accepted, it has no state, and asking for the state is undefined.
\<close>

theorem restored_order_without_state:
  assumes "fo_history x = []"
  shows "\<exists>y os. fo_onAccepted x = Inr (y, os) \<and>
    (fo_status x \<in> {'''', ''Processing'', ''Pending''} \<longleftrightarrow> (\<exists>s. getStringState y = Inr s))"
proof -
  have "getStringState (fo_record s msg y) = Inr (state_name s)" for s msg and y :: "'a feed_order"
    by (simp add: getStringState_def fo_currentState_def fo_record_def FeedChange_def)
  moreover have "getStringState (x\<lparr>fo_quantityOnMarket := fo_qty x\<rparr>) = Inl Out_of_bounds"
    using assms by (simp add: getStringState_def fo_currentState_def)
  ultimately show ?thesis
    by (auto simp: fo_onAccepted_def and_send_record Let_def)
qed

theorem restored_order_without_state_witness:
  "\<exists>y os. fo_onAccepted (FeedOrder False True (10 :: int) 5 ''7'' ''Completed'') = Inr (y, os) \<and>
     \<not> (\<exists>s. getStringState y = Inr s)"
  using restored_order_without_state [of "FeedOrder False True (10 :: int) 5 ''7'' ''Completed''"]
  by (auto simp: FeedOrder_def)

end
