(* ===== verification/Feed_Exchange.thy ===== *)
theory Feed_Exchange
  imports Feed_Order Depth_Order_Book "HOL-Library.List_Lexorder"
begin

text \<open>
  \<^verbatim>\<open>examples/depth_feed_publisher/example_order_book.h\<close>, \<^verbatim>\<open>example_order_book.cpp\<close>,
  \<^verbatim>\<open>exchange.h\<close> and \<^verbatim>\<open>exchange.cpp\<close>: the depth book over the orders of the exchange, which
  overrides the callbacks of the depth book, and the exchange, a book per symbol.
\<close>

section \<open>ExampleOrderBook\<close>

text \<open>
  A shared pointer to an order is a number, its object the value of the store there. The store
  and the output are shared by the books; \<open>xc_cerr\<close> holds the exceptions the books caught and logged. \<open>xw_listener\<close> is the state of the listeners.
\<close>

record ('d, 'l) example_world = depth_book +
  xw_store :: "order_ptr \<Rightarrow> 'd feed_order"
  xw_out :: "'d order_output list"
  xw_listener :: 'l

record example_book =
  xb_book :: order_book
  xb_depth :: depth_book
  xb_symbol :: string
  xb_orders :: "(string, order_ptr) omap"

text \<open>The symbol is not passed on to the base class, whose default is \<^verbatim>\<open>unknown\<close>.\<close>

definition ExampleOrderBook :: "string \<Rightarrow> example_book" where
  "ExampleOrderBook symbol =
     \<lparr>xb_book = OrderBook ''unknown'', xb_depth = DepthOrderBook 5, xb_symbol = symbol, xb_orders = []\<rparr>"

definition example_env :: "'d double_ops \<Rightarrow> ('d, 'l) example_world \<Rightarrow> order_env" where
  "example_env D w i = feed_view D (xw_store w i)"

text \<open>An event of an order behind a pointer that may be null.\<close>

definition example_event ::
  "order_ptr option \<Rightarrow> ('d feed_order \<Rightarrow> 'd outcome result) \<Rightarrow> ('d, 'l) example_world system effect" where
  "example_event ord f s =
     (case ord of
        None \<Rightarrow> (Some Invalid_iterator, s)
      | Some i \<Rightarrow>
          (case f (xw_store (sys_world s) i) of
             Inl e \<Rightarrow> (Some e, s)
           | Inr (x, os) \<Rightarrow>
               (None, s\<lparr>sys_world := (sys_world s)
                  \<lparr>xw_store := (xw_store (sys_world s))(i := x), xw_out := xw_out (sys_world s) @ os\<rparr>\<rparr>)))"

definition example_on_accept :: "order_ptr option \<Rightarrow> ('d, 'l) example_world system effect" where
  "example_on_accept ord = example_event ord fo_onAccepted"

definition example_on_fill ::
  "order_ptr option \<Rightarrow> order_ptr option \<Rightarrow> quantity \<Rightarrow> cost \<Rightarrow> ('d, 'l) example_world system effect" where
  "example_on_fill ord matched_order fill_qty fill_cost =
     eff_then (example_event ord (fo_onFilled fill_qty fill_cost))
       (example_event matched_order (fo_onFilled fill_qty fill_cost))"

definition example_on_cancel :: "order_ptr option \<Rightarrow> ('d, 'l) example_world system effect" where
  "example_on_cancel ord = example_event ord fo_onCancelled"

definition example_on_replace ::
  "'d double_ops \<Rightarrow> order_ptr option \<Rightarrow> quantity \<Rightarrow> quantity \<Rightarrow> price \<Rightarrow> ('d, 'l) example_world system effect" where
  "example_on_replace D ord current_qty new_qty new_price =
     example_event ord (\<lambda>x. Inr (fo_onReplaced D (new_qty - current_qty) new_price x, []))"

text \<open>The five overrides; none calls the depth book's version.\<close>

definition example_handler ::
  "'d double_ops \<Rightarrow> ('d, 'l) example_world handler \<Rightarrow> ('d, 'l) example_world handler" where
  "example_handler D client c =
     (case c of
        V_on_accept ord q \<Rightarrow> example_on_accept ord
      | V_on_fill ord m q x i f \<Rightarrow> example_on_fill ord m q x
      | V_on_cancel ord q \<Rightarrow> example_on_cancel ord
      | V_on_replace ord cur new x \<Rightarrow> example_on_replace D ord cur new x
      | V_on_order_book_change \<Rightarrow> eff_skip
      | _ \<Rightarrow> base_handler client c)"

definition example_perform ::
  "'d double_ops \<Rightarrow> ('d, 'l) example_world handler \<Rightarrow> callback \<Rightarrow> ('d, 'l) example_world system effect" where
  "example_perform D client = perform_callback (example_env D) (example_handler D client)"

text \<open>The order found, and what is written when there is none.\<close>

definition find_existing_order :: "string \<Rightarrow> example_book \<Rightarrow> order_ptr option \<times> 'd order_output list" where
  "find_existing_order orderId xb =
     (case map_of (xb_orders xb) orderId of
        None \<Rightarrow> (None, [Cerr (''Orderbook: Can'' @ [char_of (39 :: nat)] @ ''t find OrderID #'' @ orderId @ newline)])
      | Some p \<Rightarrow> (Some p, []))"

section \<open>Exchange\<close>

record ('d, 'l) exchange =
  xc_store :: "order_ptr \<Rightarrow> 'd feed_order"
  xc_next :: order_ptr
  xc_out :: "'d order_output list"
  xc_cerr :: "exn list"
  xc_listener :: 'l
  xc_books :: "(string, example_book) omap"
  xc_depth_listener :: "listener option"
  xc_trade_listener :: "listener option"

definition Exchange ::
  "(order_ptr \<Rightarrow> 'd feed_order) \<Rightarrow> 'l \<Rightarrow> listener option \<Rightarrow> listener option \<Rightarrow> ('d, 'l) exchange" where
  "Exchange store l depth_listener trade_listener =
     \<lparr>xc_store = store, xc_next = 0, xc_out = [], xc_cerr = [], xc_listener = l, xc_books = [],
      xc_depth_listener = depth_listener, xc_trade_listener = trade_listener\<rparr>"

text \<open>A call of a method of the book of a symbol.\<close>

definition run_example ::
  "(('d, 'l) example_world system \<Rightarrow> ('a \<times> ('d, 'l) example_world system) result option) \<Rightarrow>
   string \<Rightarrow> example_book \<Rightarrow> ('d, 'l) exchange \<Rightarrow> ('a \<times> ('d, 'l) exchange) result option" where
  "run_example call symbol xb X =
     map_option (map_sum id (\<lambda>(r, s).
         (r, X\<lparr>xc_store := xw_store (sys_world s), xc_out := xw_out (sys_world s),
               xc_cerr := xc_cerr X @ map (\<lambda>(l, t, e). e) (sys_log s), xc_listener := xw_listener (sys_world s),
               xc_books := om_put symbol
                 (xb\<lparr>xb_book := sys_book s, xb_depth := depth_book.truncate (sys_world s)\<rparr>) (xc_books X)\<rparr>)))
       (call \<lparr>sys_book = xb_book xb,
              sys_world = depth_book.extend (xb_depth xb)
                (example_world.fields (xc_store X) (xc_out X) (xc_listener X)), sys_log = []\<rparr>)"

text \<open>The symbol's book is the one there was, if there was one; its listeners are set again.\<close>

definition add_order_book :: "string \<Rightarrow> ('d, 'l) exchange \<Rightarrow> ('d, 'l) exchange" where
  "add_order_book symbol X =
     (let books = om_insert (<) symbol (ExampleOrderBook symbol) (xc_books X);
          xb = the (map_of books symbol);
          xb1 = xb\<lparr>xb_depth := set_depth_listener (xc_depth_listener X) (xb_depth xb),
                   xb_book := set_trade_listener (xc_trade_listener X) (xb_book xb)\<rparr>
      in X\<lparr>xc_books := om_put symbol xb1 books\<rparr>)"

text \<open>
  For a symbol without a book the function ends without returning a value, which is undefined.
  The book rejects an order without a quantity before it looks at its price; it converts the
  price of every other order.
\<close>

definition exchange_add_order ::
  "'d double_ops \<Rightarrow> ('d, 'l) example_world handler \<Rightarrow> string \<Rightarrow> order_ptr \<Rightarrow> ('d, 'l) exchange
     \<Rightarrow> (bool \<times> ('d, 'l) exchange) result option" where
  "exchange_add_order D client symbol ord X =
     (case map_of (xc_books X) symbol of
        None \<Rightarrow> Some (Inl Invalid_iterator)
      | Some xb \<Rightarrow>
          let ClOrdID = fo_ClOrdID (xc_store X ord)
          in (case map_of (xb_orders xb) ClOrdID of
                None \<Rightarrow>
                  if fo_qty (xc_store X ord) \<noteq> 0 \<and> dbl_scaled D (fo_price (xc_store X ord)) = None
                  then Some (Inl Bad_conversion)
                  else map_option (map_sum id (\<lambda>(matched, X1).
                      (True, X1\<lparr>xc_books := om_put symbol
                         ((the (map_of (xc_books X1) symbol))\<lparr>xb_orders :=
                            om_insert (<) (fo_ClOrdID (xc_store X1 ord)) ord (xb_orders xb)\<rparr>) (xc_books X1)\<rparr>)))
                    (run_example (book_add (example_env D) (example_perform D client) ord oc_no_conditions) symbol xb X)
              | Some p \<Rightarrow> Some (Inr (False, X))))"

definition cancel_order_by_ClOrdID ::
  "'d double_ops \<Rightarrow> ('d, 'l) example_world handler \<Rightarrow> string \<Rightarrow> string \<Rightarrow> ('d, 'l) exchange
     \<Rightarrow> (string \<times> ('d, 'l) exchange) result option" where
  "cancel_order_by_ClOrdID D client symbol ClOrdID X =
     (case map_of (xc_books X) symbol of
        None \<Rightarrow> Some (Inl Invalid_iterator)
      | Some xb \<Rightarrow>
          (case find_existing_order ClOrdID xb of
             (None, os) \<Rightarrow>
               Some (Inr (''--Can'' @ [char_of (39 :: nat)] @ ''t find OrderID #'' @ ClOrdID @ newline,
                          X\<lparr>xc_out := xc_out X @ os\<rparr>))
           | (Some ord, os) \<Rightarrow>
               map_option (map_sum id (\<lambda>(u, X1).
                   (''Exchange: Requesting Cancel: OrderID #'' @ ClOrdID @ newline, X1)))
                 (run_example (book_cancel (example_env D) (example_perform D client) ord) symbol xb X)))"

text \<open>
  The answer for an order that is not there has its quantity set to \<open>-1\<close> and nothing else. An
  order that is there had its price converted when it was added, or it was rejected then and has
  no state to read.
\<close>

datatype 'd order_struct =
    No_order string
  | Order_struct string int 'd bool string

definition getStatusOrder ::
  "'d double_ops \<Rightarrow> string \<Rightarrow> string \<Rightarrow> ('d, 'l) exchange \<Rightarrow> ('d order_struct \<times> ('d, 'l) exchange) result" where
  "getStatusOrder D symbol ClOrdID X =
     (case map_of (xc_books X) symbol of
        None \<Rightarrow> Inl Invalid_iterator
      | Some xb \<Rightarrow>
          (case find_existing_order ClOrdID xb of
             (None, os) \<Rightarrow> Inr (No_order ClOrdID, X\<lparr>xc_out := xc_out X @ os\<rparr>)
           | (Some ord, os) \<Rightarrow>
               let x = xc_store X ord
               in rbind (getStringState x) (\<lambda>status.
                    Inr (Order_struct ClOrdID (sint (fo_quantityOnMarket x)) (dbl_of_price D (fo_book_price D x))
                           (fo_is_buy x) status, X))))"

end
