(* ===== verification/Feed_Gateway.thy ===== *)
theory Feed_Gateway
  imports Feed_Exchange
begin

text \<open>
  \<^verbatim>\<open>examples/depth_feed_publisher/publisher_main.cpp\<close> and the FIX 4.4 handlers of
  \<^verbatim>\<open>Application.cpp\<close>: how requests from outside reach the exchange, and what is answered to
  them and written to the database. Of quickfix the fields of a message by their tags, the
  conversion of fields to numbers and the look-up of a session are used.
\<close>

section \<open>The database\<close>

text \<open>
  What a change of an order makes of the database: the statements \<^verbatim>\<open>sendJSONtoSocket\<close> executes.
  It is connected to the signal of every order, so the statements of a run are those of its
  output; an exception of the database is caught and logged.
\<close>

definition quoted :: "string \<Rightarrow> string" where
  "quoted s = [char_of (39 :: nat)] @ s @ [char_of (39 :: nat)]"

definition sendJSONtoSocket :: "string \<Rightarrow> int32 \<Rightarrow> 'd \<Rightarrow> int \<Rightarrow> string list" where
  "sendJSONtoSocket ClOrdID quantityOnMarket price status =
     (if status = 1 then
        [''UPDATE zozocoinex_orders SET status='' @ quoted ''Processing'' @ '', market_amount='' @
         print_i32 quantityOnMarket @ ''  WHERE unique_order_id='' @ ClOrdID]
      else if status = 2 then
        [''UPDATE zozocoinex_orders SET status='' @ quoted ''Completed'' @ '' WHERE unique_order_id='' @ ClOrdID]
      else if status = 4 then
        [''UPDATE zozocoinex_orders SET status='' @ quoted ''Cancelled'' @ '' WHERE unique_order_id='' @ ClOrdID]
      else [])"

fun statements :: "'d order_output list \<Rightarrow> string list" where
  "statements [] = []"
| "statements (Cerr t # os) = statements os"
| "statements (Order_Changed i m p s # os) = sendJSONtoSocket i m p s @ statements os"

section \<open>The program\<close>

record 'd security_info =
  si_symbol :: string
  si_ref_price :: 'd

text \<open>The global variables \<^verbatim>\<open>exchange1\<close> and \<^verbatim>\<open>securities1\<close>.\<close>

record ('d, 'l) gateway =
  gw_exchange :: "('d, 'l) exchange"
  gw_securities :: "'d security_info list"

definition populate_exchange :: "'d security_info list \<Rightarrow> ('d, 'l) exchange \<Rightarrow> ('d, 'l) exchange" where
  "populate_exchange securities X = fold (\<lambda>sec. add_order_book (si_symbol sec)) securities X"

text \<open>The securities \<^verbatim>\<open>main\<close> trades in; \<open>zero\<close> is the price of each.\<close>

definition traded_securities :: "'d \<Rightarrow> 'd security_info list" where
  "traded_securities zero =
     map (\<lambda>s. \<lparr>si_symbol = s, si_ref_price = zero\<rparr>) [''ETH'', ''LTC'', ''DASH'', ''DOGE'']"

definition start_gateway ::
  "(order_ptr \<Rightarrow> 'd feed_order) \<Rightarrow> 'l \<Rightarrow> listener \<Rightarrow> 'd \<Rightarrow> ('d, 'l) gateway" where
  "start_gateway store l feed zero =
     \<lparr>gw_exchange = populate_exchange (traded_securities zero) (Exchange store l (Some feed) (Some feed)),
      gw_securities = traded_securities zero\<rparr>"

fun find_security :: "string \<Rightarrow> 'd security_info list \<Rightarrow> bool" where
  "find_security symbol [] = False"
| "find_security symbol (sec1 # secs) = (if symbol = si_symbol sec1 then True else find_security symbol secs)"

text \<open>
  A new order is a new object; its \<^verbatim>\<open>verbose_\<close> is whatever the memory holds. The symbol passes
  through \<^verbatim>\<open>c_str\<close>.
\<close>

definition new_order ::
  "(order_ptr \<Rightarrow> bool) \<Rightarrow> bool \<Rightarrow> 'd \<Rightarrow> quantity \<Rightarrow> string \<Rightarrow> string \<Rightarrow> ('d, 'l) exchange
     \<Rightarrow> order_ptr \<times> ('d, 'l) exchange" where
  "new_order verbose is_buy price qty ClOrdID status X =
     (let p = xc_next X
      in (p, X\<lparr>xc_store := (xc_store X)(p := FeedOrder (verbose p) is_buy price qty ClOrdID status),
               xc_next := p + 1\<rparr>))"

definition processOrder ::
  "'d double_ops \<Rightarrow> ('d, 'l) example_world handler \<Rightarrow> (order_ptr \<Rightarrow> bool) \<Rightarrow>
   bool \<Rightarrow> 'd \<Rightarrow> 'd \<Rightarrow> string \<Rightarrow> string \<Rightarrow> string \<Rightarrow> ('d, 'l) gateway
     \<Rightarrow> (string \<times> ('d, 'l) gateway) result option" where
  "processOrder D client verbose is_buy price qty symbol ClOrdID status G =
     (let sec = c_string symbol
      in if \<not> find_security sec (gw_securities G) then Some (Inr (''!found'', G))
         else (case dbl_to_quantity D qty of
                 None \<Rightarrow> Some (Inl Bad_conversion)
               | Some qty1 \<Rightarrow>
                   let (p, X) = new_order verbose is_buy price qty1 ClOrdID status (gw_exchange G)
                   in map_option (map_sum id (\<lambda>(added, X1).
                        (if added then ''true'' else ''false'', G\<lparr>gw_exchange := X1\<rparr>)))
                        (exchange_add_order D client sec p X)))"

definition cancelOrder ::
  "'d double_ops \<Rightarrow> ('d, 'l) example_world handler \<Rightarrow> string \<Rightarrow> string \<Rightarrow> ('d, 'l) gateway
     \<Rightarrow> (string \<times> ('d, 'l) gateway) result option" where
  "cancelOrder D client symbol ClOrdID G =
     map_option (map_sum id (\<lambda>(answer, X1). (answer, G\<lparr>gw_exchange := X1\<rparr>)))
       (cancel_order_by_ClOrdID D client symbol ClOrdID (gw_exchange G))"

definition gateway_status ::
  "'d double_ops \<Rightarrow> string \<Rightarrow> string \<Rightarrow> ('d, 'l) gateway \<Rightarrow> ('d order_struct \<times> ('d, 'l) gateway) result" where
  "gateway_status D symbol ClOrdID G =
     map_sum id (\<lambda>(order, X1). (order, G\<lparr>gw_exchange := X1\<rparr>)) (getStatusOrder D symbol ClOrdID (gw_exchange G))"

text \<open>The open orders \<^verbatim>\<open>main\<close> reads back from the database.\<close>

record 'd order_row =
  row_unique_order_id :: string
  row_coin_code :: string
  row_order_type :: string
  row_market_amount :: 'd
  row_price :: 'd
  row_status :: string

definition load_order ::
  "'d double_ops \<Rightarrow> ('d, 'l) example_world handler \<Rightarrow> (order_ptr \<Rightarrow> bool) \<Rightarrow> 'd order_row \<Rightarrow> ('d, 'l) gateway
     \<Rightarrow> (string \<times> ('d, 'l) gateway) result option" where
  "load_order D client verbose r G =
     processOrder D client verbose (row_order_type r = ''Buy'') (row_price r) (row_market_amount r)
       (row_coin_code r) (row_unique_order_id r) (row_status r) G"

fun load_orders ::
  "'d double_ops \<Rightarrow> ('d, 'l) example_world handler \<Rightarrow> (order_ptr \<Rightarrow> bool) \<Rightarrow> 'd order_row list \<Rightarrow> ('d, 'l) gateway
     \<Rightarrow> ('d, 'l) gateway result option" where
  "load_orders D client verbose [] G = Some (Inr G)"
| "load_orders D client verbose (r # rs) G =
     (case load_order D client verbose r G of
        None \<Rightarrow> None
      | Some (Inl e) \<Rightarrow> Some (Inl e)
      | Some (Inr (answer, G1)) \<Rightarrow> load_orders D client verbose rs G1)"

section \<open>FIX messages\<close>

text \<open>
  A message is the text of its fields by their tags. Numbers are converted by quickfix, which
  may fail; a field of one character is that character.
\<close>

type_synonym fix_message = "int \<Rightarrow> string option"

record 'd fix_ops =
  fx_double :: "string \<Rightarrow> 'd option"
  fx_of_int :: "int \<Rightarrow> 'd"

datatype fix_exn =
    Field_not_found int
  | Incorrect_data_format int
  | Incorrect_tag_value int
  | Session_not_found
  | Uninitialised
  | Program exn

definition getField :: "fix_message \<Rightarrow> int \<Rightarrow> fix_exn + string" where
  "getField message tag = (case message tag of None \<Rightarrow> Inl (Field_not_found tag) | Some s \<Rightarrow> Inr s)"

definition char_value :: "int \<Rightarrow> string \<Rightarrow> fix_exn + char" where
  "char_value tag s = (if length s = 1 then Inr (hd s) else Inl (Incorrect_data_format tag))"

definition double_value :: "'d fix_ops \<Rightarrow> int \<Rightarrow> string \<Rightarrow> fix_exn + 'd" where
  "double_value F tag s = (case fx_double F s of None \<Rightarrow> Inl (Incorrect_data_format tag) | Some x \<Rightarrow> Inr x)"

fun fbind :: "fix_exn + 'a \<Rightarrow> ('a \<Rightarrow> fix_exn + 'b) \<Rightarrow> fix_exn + 'b" where
  "fbind (Inl e) f = Inl e"
| "fbind (Inr x) f = f x"

text \<open>The report of an execution, as far as the handlers fill it in.\<close>

record 'd execution_report =
  er_OrderID :: string
  er_ExecID :: string
  er_ExecType :: string
  er_OrdStatus :: string
  er_Side :: string
  er_LeavesQty :: 'd
  er_CumQty :: 'd
  er_AvgPx :: 'd
  er_ClOrdID :: string
  er_Symbol :: string
  er_OrderQty :: 'd
  er_LastQty :: 'd
  er_LastPx :: 'd
  er_Text :: "string option"

definition report_of ::
  "'d fix_ops \<Rightarrow> string \<Rightarrow> string \<Rightarrow> string \<Rightarrow> 'd \<Rightarrow> 'd \<Rightarrow> string \<Rightarrow> string \<Rightarrow> string option \<Rightarrow> 'd execution_report" where
  "report_of F orderID ordStatus side orderQty price clOrdID symbol txt =
     \<lparr>er_OrderID = orderID, er_ExecID = ''2'', er_ExecType = ''F'', er_OrdStatus = ordStatus, er_Side = side,
      er_LeavesQty = fx_of_int F 0, er_CumQty = orderQty, er_AvgPx = price, er_ClOrdID = clOrdID,
      er_Symbol = symbol, er_OrderQty = orderQty, er_LastQty = orderQty, er_LastPx = price, er_Text = txt\<rparr>"

text \<open>
  What a handler leaves: the exception it ends with, if any, the report that was sent to the
  session of the message, if any, and the program.
\<close>

type_synonym ('d, 'l) handled = "fix_exn option \<times> 'd execution_report option \<times> ('d, 'l) gateway"

section \<open>The handlers\<close>

text \<open>
  A status that is none of the four leaves \<^verbatim>\<open>ordStatus\<close> the empty field it is constructed as.
\<close>

definition status_field :: "string \<Rightarrow> string" where
  "status_field status =
     (if status = ''Accepted'' then ''0'' else if status = ''PartialFilled'' then ''1''
      else if status = ''Filled'' then ''2'' else if status = ''Cancelled'' then ''4'' else '''')"

text \<open>
  For an order that is not there the members of the answer that were never set are read.
\<close>

definition onMessage_OrderStatusRequest ::
  "'d double_ops \<Rightarrow> 'd fix_ops \<Rightarrow> bool \<Rightarrow> fix_message \<Rightarrow> ('d, 'l) gateway \<Rightarrow> ('d, 'l) handled" where
  "onMessage_OrderStatusRequest D F logged_on message G =
     (case fbind (getField message 11) (\<lambda>string_ClOrdID.
             fbind (getField message 526) (\<lambda>symbol_str. Inr (string_ClOrdID, symbol_str))) of
        Inl e \<Rightarrow> (Some e, None, G)
      | Inr (string_ClOrdID, symbol_str) \<Rightarrow>
          if symbol_str = ''undefined'' then (None, None, G)
          else (case gateway_status D symbol_str string_ClOrdID G of
                  Inl e \<Rightarrow> (Some (Program e), None, G)
                | Inr (No_order i, G1) \<Rightarrow> (Some Uninitialised, None, G1)
                | Inr (Order_struct i qty price is_buy status, G1) \<Rightarrow>
                    if logged_on then
                      (None, Some (report_of F string_ClOrdID (status_field status) (if is_buy then ''1'' else ''2'')
                         (fx_of_int F qty) price string_ClOrdID symbol_str None), G1)
                    else (Some Session_not_found, None, G1)))"

text \<open>The answer of the exchange is printed; nothing is sent.\<close>

definition onMessage_OrderCancelRequest ::
  "'d double_ops \<Rightarrow> ('d, 'l) example_world handler \<Rightarrow> fix_message \<Rightarrow> ('d, 'l) gateway \<Rightarrow> ('d, 'l) handled option" where
  "onMessage_OrderCancelRequest D client message G =
     (case fbind (getField message 41) (\<lambda>string_ClOrdID.
             fbind (getField message 58) (\<lambda>symbol. Inr (string_ClOrdID, symbol))) of
        Inl e \<Rightarrow> Some (Some e, None, G)
      | Inr (string_ClOrdID, symbol) \<Rightarrow>
          (case cancelOrder D client symbol string_ClOrdID G of
             None \<Rightarrow> None
           | Some (Inl e) \<Rightarrow> Some (Some (Program e), None, G)
           | Some (Inr (answer, G1)) \<Rightarrow> Some (None, None, G1)))"

text \<open>
  The fields in the order they are read. The account, if there is one, is put into a report that
  is assigned to afterwards. The conversions come with the call of \<^verbatim>\<open>processOrder\<close>.
\<close>

definition new_order_fields ::
  "'d fix_ops \<Rightarrow> fix_message \<Rightarrow> fix_exn + string \<times> string \<times> bool \<times> 'd \<times> 'd \<times> string" where
  "new_order_fields F message =
     fbind (getField message 40) (\<lambda>ordType.
     fbind (char_value 40 ordType) (\<lambda>t.
     if t \<noteq> CHR ''2'' then Inl (Incorrect_tag_value 40)
     else fbind (getField message 55) (\<lambda>symbol.
       fbind (getField message 54) (\<lambda>side.
       fbind (getField message 38) (\<lambda>orderQty.
       fbind (getField message 44) (\<lambda>price.
       fbind (getField message 11) (\<lambda>clOrdID.
       fbind (char_value 54 side) (\<lambda>s.
       fbind (double_value F 44 price) (\<lambda>p.
       fbind (double_value F 38 orderQty) (\<lambda>q.
         Inr (symbol, side, s = CHR ''1'', q, p, clOrdID)))))))))))"

text \<open>A session that is not found is caught.\<close>

definition onMessage_NewOrderSingle ::
  "'d double_ops \<Rightarrow> 'd fix_ops \<Rightarrow> ('d, 'l) example_world handler \<Rightarrow> (order_ptr \<Rightarrow> bool) \<Rightarrow> bool \<Rightarrow>
   fix_message \<Rightarrow> ('d, 'l) gateway \<Rightarrow> ('d, 'l) handled option" where
  "onMessage_NewOrderSingle D F client verbose logged_on message G =
     (case new_order_fields F message of
        Inl e \<Rightarrow> Some (Some e, None, G)
      | Inr (symbol, side, buyBool, orderQty, price, clOrdID) \<Rightarrow>
          (case processOrder D client verbose buyBool price orderQty symbol clOrdID '''' G of
             None \<Rightarrow> None
           | Some (Inl e) \<Rightarrow> Some (Some (Program e), None, G)
           | Some (Inr (add_order_result, G1)) \<Rightarrow>
               let executionReport =
                     (if add_order_result = ''true''
                      then report_of F ''1'' ''0'' side orderQty price clOrdID symbol None
                      else report_of F ''1'' ''6'' side orderQty price clOrdID symbol
                        (Some (''Order with clOrdID='' @ clOrdID @ '' already added'')))
               in Some (None, if logged_on then Some executionReport else None, G1)))"

section \<open>What the database is told\<close>

text \<open>The statement for a change, from the quantity that is left and the status.\<close>

definition change_statement :: "string \<Rightarrow> int \<Rightarrow> int \<Rightarrow> string list" where
  "change_statement ClOrdID left status = sendJSONtoSocket ClOrdID (word_of_int left) () status"

lemma sendJSON_change: "sendJSONtoSocket i m p s = change_statement i (sint m) s"
  by (simp add: change_statement_def sendJSONtoSocket_def)

lemma statements_append [simp]: "statements (a @ b) = statements a @ statements b"
  by (induction a rule: statements.induct) simp_all

fun about :: "string \<Rightarrow> 'd order_output list \<Rightarrow> bool" where
  "about i [] = True"
| "about i (Cerr t # os) = about i os"
| "about i (Order_Changed j m p s # os) = (j = i \<and> about i os)"

lemma about_append [simp]: "about i (a @ b) = (about i a \<and> about i b)"
  by (induction i a rule: about.induct) simp_all

lemma statements_reports: "about i os \<Longrightarrow> statements os = concat (map (\<lambda>(m, s). change_statement i m s) (reports os))"
  by (induction i os rule: about.induct) (simp_all add: sendJSON_change)

lemma accepted_about: "fo_onAccepted x = Inr (y, os) \<Longrightarrow> about (fo_ClOrdID x) os \<and> fo_ClOrdID y = fo_ClOrdID x"
  by (auto simp: fo_onAccepted_def and_send_record Let_def split: if_splits) (simp_all add: fo_record_def)

lemma filled_about: "fo_onFilled q c x = Inr (y, os) \<Longrightarrow> about (fo_ClOrdID x) os \<and> fo_ClOrdID y = fo_ClOrdID x"
  by (auto simp: fo_onFilled_def and_send_record Let_def) (simp_all add: fo_record_def)

lemma fill_all_about: "fo_fill_all fs x = Inr (y, os) \<Longrightarrow> about (fo_ClOrdID x) os \<and> fo_ClOrdID y = fo_ClOrdID x"
proof (induction fs arbitrary: x os)
  case (Cons f fs)
  obtain q c where f: "f = (q, c)" by fastforce
  obtain x1 o1 o2 where x1: "fo_onFilled q c x = Inr (x1, o1)" "fo_fill_all fs x1 = Inr (y, o2)" "os = o1 @ o2"
    using Cons.prems f by auto
  then show ?case using Cons.IH [OF x1(2)] filled_about [OF x1(1)] by simp
qed simp

text \<open>An order that is filled and has something left is partially filled.\<close>

lemma fill_all_partial:
  assumes "sint (fo_quantityOnMarket x) = r" "(\<Sum>(q, c) \<leftarrow> fs. uint q) < r" "fs \<noteq> []" "fo_fill_all fs x = Inr (y, os)"
  shows "getStringState y = Inr ''PartialFilled''"
  using assms
proof (induction fs arbitrary: x r os)
  case (Cons f fs)
  obtain q c where f: "f = (q, c)" by fastforce
  have nonneg: "0 \<le> (\<Sum>(q, c) \<leftarrow> fs. uint q)" by (intro sum_list_nonneg) auto
  obtain x1 o1 o2 where x1: "fo_onFilled q c x = Inr (x1, o1)" "fo_fill_all fs x1 = Inr (y, o2)"
    using Cons.prems(4) f by auto
  have m: "sint (fo_quantityOnMarket x1) = r - uint q"
    using fill_all_reports [OF Cons.prems(1), of "[f]"] Cons.prems(2) nonneg f x1(1) by auto
  have "getStringState x1 = Inr ''PartialFilled''"
  proof -
    have "fo_quantityOnMarket x1 = fo_quantityOnMarket x - q"
      using x1(1) by (auto simp: fo_onFilled_def and_send_record Let_def) (simp_all add: fo_record_def)
    then have "0 < sint (fo_quantityOnMarket x - q)" using m Cons.prems(2) nonneg f by simp
    then show ?thesis
      using x1(1) by (auto simp: fo_onFilled_def and_send_record Let_def)
        (simp add: getStringState_def fo_currentState_def fo_record_def FeedChange_def state_name_def)
  qed
  then show ?case
    using Cons.IH [OF m _ _ x1(2)] Cons.prems(2) f x1(2) by (cases "fs = []") auto
qed simp

text \<open>What the fills of an order should leave in the database.\<close>

fun filled_statements :: "string \<Rightarrow> int \<Rightarrow> (quantity \<times> cost) list \<Rightarrow> string list" where
  "filled_statements i r [] = []"
| "filled_statements i r ((q, c) # fs) =
     (if r = uint q
      then ''UPDATE zozocoinex_orders SET status='' @ quoted ''Completed'' @ '' WHERE unique_order_id='' @ i
      else ''UPDATE zozocoinex_orders SET status='' @ quoted ''Processing'' @ '', market_amount='' @
        decimal (nat (r - uint q)) @ ''  WHERE unique_order_id='' @ i) # filled_statements i (r - uint q) fs"

lemma sint_word_small: "0 \<le> k \<Longrightarrow> k < 2 ^ 31 \<Longrightarrow> sint (word_of_int k :: int32) = k"
  by (simp add: sint_sbintrunc' signed_take_bit_int_eq_self)

lemma remaining_statements:
  "0 \<le> r \<Longrightarrow> r < 2 ^ 31 \<Longrightarrow> (\<Sum>(q, c) \<leftarrow> fs. uint q) \<le> r \<Longrightarrow>
     concat (map (\<lambda>(m, s). change_statement i m s) (remaining_reports r fs)) = filled_statements i r fs"
proof (induction r fs rule: remaining_reports.induct)
  case (2 r q c fs)
  have nonneg: "0 \<le> (\<Sum>(q, c) \<leftarrow> fs. uint q)" by (intro sum_list_nonneg) auto
  let ?r = "r - uint q"
  have "0 \<le> ?r" using 2(4) nonneg by simp
  moreover have "?r < 2 ^ 31" using 2(3) uint_ge_0 [of q] by linarith
  ultimately have r: "0 \<le> ?r" "?r < 2 ^ 31" .
  then have "sint (word_of_int ?r :: int32) = ?r" by (rule sint_word_small)
  then have "print_i32 (word_of_int ?r) = decimal (nat ?r)" using r(1) by (simp add: print_i32_def)
  then show ?case using 2 r by (simp add: change_statement_def sendJSONtoSocket_def)
qed simp

text \<open>
  C34. The database follows the fills of a new order below 2^31: nothing is written when it is
  accepted, each fill writes what is left, and the fill that leaves nothing completes the order.
  Round trip: the order read back with the amount and the status the last fill has written has on
  the market what the order had, and its state; reading it back writes nothing.
\<close>

theorem database_follows_the_fills:
  assumes "fo_status x = ''''" "uint (fo_qty x) < 2 ^ 31" "(\<Sum>(q, c) \<leftarrow> fs. uint q) \<le> uint (fo_qty x)"
  shows "\<exists>x1 o1 y os. fo_onAccepted x = Inr (x1, o1) \<and> fo_fill_all fs x1 = Inr (y, os) \<and>
    statements o1 = [] \<and> statements os = filled_statements (fo_ClOrdID x) (uint (fo_qty x)) fs \<and>
    ((\<Sum>(q, c) \<leftarrow> fs. uint q) < uint (fo_qty x) \<and> fs \<noteq> [] \<longrightarrow>
       (\<exists>z o2. fo_onAccepted (FeedOrder v (fo_is_buy x) (fo_price x) (fo_quantityOnMarket y) (fo_ClOrdID x) ''Processing'') = Inr (z, o2) \<and>
          fo_quantityOnMarket z = fo_quantityOnMarket y \<and> getStringState z = getStringState y \<and> statements o2 = []))"
proof -
  let ?x1 = "fo_record Accepted '''' (x\<lparr>fo_quantityOnMarket := fo_qty x\<rparr>)" and ?r = "uint (fo_qty x)"
  have s: "sint (fo_quantityOnMarket ?x1) = ?r" and i: "fo_ClOrdID ?x1 = fo_ClOrdID x"
    using sint_uint_small [OF assms(2)] by (simp_all add: fo_record_def)
  have x1: "fo_onAccepted x = Inr (?x1, [Cerr (fo_ClOrdID x @ '' onAccepted'' @ newline),
      Order_Changed (fo_ClOrdID x) (fo_qty x) (fo_price x) 0])"
    using assms(1) by (simp add: fo_onAccepted_def and_send_record status_code_def)
  obtain y os where y: "fo_fill_all fs ?x1 = Inr (y, os)" "reports os = remaining_reports ?r fs"
    using fill_all_reports [OF s assms(3)] by blast
  have "about (fo_ClOrdID x) os" using fill_all_about [OF y(1)] i by simp
  from statements_reports [OF this] have st: "statements os = filled_statements (fo_ClOrdID x) ?r fs"
    using remaining_statements [OF _ assms(2,3)] by (simp add: y(2))
  have "getStringState y = Inr ''PartialFilled''" if "(\<Sum>(q, c) \<leftarrow> fs. uint q) < ?r" "fs \<noteq> []"
    by (rule fill_all_partial [OF s that y(1)])
  moreover have "\<exists>z o2. fo_onAccepted (FeedOrder v b p q j ''Processing'') = Inr (z, o2) \<and> fo_quantityOnMarket z = q \<and>
      getStringState z = Inr ''PartialFilled'' \<and> statements o2 = []" for b q j and p :: 'a
    by (simp add: fo_onAccepted_def FeedOrder_def Let_def)
      (simp add: fo_record_def getStringState_def fo_currentState_def FeedChange_def state_name_def)
  ultimately show ?thesis
    using x1 y(1) st by (intro exI conjI) (assumption | simp add: sendJSONtoSocket_def)+
qed

theorem database_follows_the_fills_witness:
  "\<exists>x1 o1 y os z o2. fo_onAccepted (FeedOrder False True (10 :: int) 100 ''7'' '''') = Inr (x1, o1) \<and>
     fo_fill_all [(60, 600)] x1 = Inr (y, os) \<and> statements o1 = [] \<and>
     statements os = [''UPDATE zozocoinex_orders SET status='' @ quoted ''Processing'' @ '', market_amount='' @
       decimal 40 @ ''  WHERE unique_order_id=7''] \<and>
     fo_onAccepted (FeedOrder False True (10 :: int) (fo_quantityOnMarket y) ''7'' ''Processing'') = Inr (z, o2) \<and>
     fo_quantityOnMarket z = fo_quantityOnMarket y \<and> getStringState z = getStringState y \<and> statements o2 = []"
  using database_follows_the_fills [of "FeedOrder False True (10 :: int) 100 ''7'' ''''" "[(60, 600)]" False]
  by (simp add: FeedOrder_def)

end
