(* ===== verification/Feed_Calls.thy ===== *)
theory Feed_Calls
  imports Feed_Exchange
begin

text \<open>
  What the calls of the exchange do: the events the engine's notifications bring to the orders,
  and the books, orders and outputs they leave.
\<close>

section \<open>Events change an order, not what the book sees of it\<close>

lemma feed_event_ok:
  "\<exists>y os. fo_onAccepted x = Inr (y, os) \<and> feed_view D y = feed_view D x \<and>
     length (fo_history x) \<le> length (fo_history y) \<and> fo_ClOrdID y = fo_ClOrdID x"
  "\<exists>y os. fo_onFilled q c x = Inr (y, os) \<and> feed_view D y = feed_view D x \<and>
     length (fo_history x) \<le> length (fo_history y) \<and> fo_ClOrdID y = fo_ClOrdID x"
  "\<exists>y os. fo_onCancelled x = Inr (y, os) \<and> feed_view D y = feed_view D x \<and>
     length (fo_history x) \<le> length (fo_history y) \<and> fo_ClOrdID y = fo_ClOrdID x"
  by (auto simp: fo_onAccepted_def fo_onFilled_def fo_onCancelled_def and_send_record Let_def)
    (auto simp: fo_record_def feed_view_def fo_book_price_def)

text \<open>
  A step that leaves the book, the depth and the log alone, shows the book the same orders, and
  forgets nothing of their history.
\<close>

definition tame :: "'d double_ops \<Rightarrow> ('d, 'l) example_world system \<Rightarrow> ('d, 'l) example_world system \<Rightarrow> bool" where
  "tame D s s' \<longleftrightarrow>
     sys_book s' = sys_book s \<and> sys_log s' = sys_log s \<and>
     depth_book.truncate (sys_world s') = depth_book.truncate (sys_world s) \<and>
     xw_listener (sys_world s') = xw_listener (sys_world s) \<and>
     (\<forall>i. let x = xw_store (sys_world s) i; y = xw_store (sys_world s') i
          in feed_view D y = feed_view D x \<and> length (fo_history x) \<le> length (fo_history y) \<and>
             fo_ClOrdID y = fo_ClOrdID x)"

lemma tame_refl [simp]: "tame D s s"
  by (simp add: tame_def)

lemma tame_trans: "tame D a b \<Longrightarrow> tame D b c \<Longrightarrow> tame D a c"
  by (auto simp: tame_def Let_def intro: le_trans)

lemma tame_env: "tame D s s' \<Longrightarrow> example_env D (sys_world s') = example_env D (sys_world s)"
  by (simp add: tame_def example_env_def fun_eq_iff Let_def)

lemma example_event_tame:
  assumes "\<And>x. \<exists>y os. f x = Inr (y, os) \<and> feed_view D y = feed_view D x \<and>
      length (fo_history x) \<le> length (fo_history y) \<and> fo_ClOrdID y = fo_ClOrdID x"
  shows "\<exists>s'. example_event (Some i) f s = (None, s') \<and> tame D s s'"
proof -
  obtain y os where y: "f (xw_store (sys_world s) i) = Inr (y, os)"
    "feed_view D y = feed_view D (xw_store (sys_world s) i)"
    "length (fo_history (xw_store (sys_world s) i)) \<le> length (fo_history y)"
    "fo_ClOrdID y = fo_ClOrdID (xw_store (sys_world s) i)"
    using assms [of "xw_store (sys_world s) i"] by blast
  then show ?thesis
    by (auto simp: example_event_def tame_def Let_def depth_book.truncate_def)
qed

text \<open>The notifications the exchange meets: it never replaces an order.\<close>

definition well :: "callback \<Rightarrow> bool" where
  "well cb \<longleftrightarrow>
     (case cb_kind cb of
        cb_order_accept \<Rightarrow> cb_order cb \<noteq> None
      | cb_order_fill \<Rightarrow> cb_order cb \<noteq> None \<and> cb_matched_order cb \<noteq> None
      | cb_order_cancel \<Rightarrow> cb_order cb \<noteq> None
      | cb_order_replace \<Rightarrow> False
      | _ \<Rightarrow> True)"

lemma quiet_listener [simp]:
  "if_listener field (\<lambda>l. example_handler D no_client (L_on_accept l p)) = eff_skip"
  "if_listener field (\<lambda>l. example_handler D no_client (L_on_reject l p r)) = eff_skip"
  "if_listener field (\<lambda>l. example_handler D no_client (L_on_fill l p m q c)) = eff_skip"
  "if_listener field (\<lambda>l. example_handler D no_client (L_on_cancel l p)) = eff_skip"
  "if_listener field (\<lambda>l. example_handler D no_client (L_on_cancel_reject l p r)) = eff_skip"
  "if_listener field (\<lambda>l. example_handler D no_client (L_on_replace l p d x)) = eff_skip"
  "if_listener field (\<lambda>l. example_handler D no_client (L_on_replace_reject l p r)) = eff_skip"
  "if_listener field (\<lambda>l. example_handler D no_client (L_on_trade l q c)) = eff_skip"
  "if_listener field (\<lambda>l. example_handler D no_client (L_on_order_book_change l)) = eff_skip"
  by (simp_all add: fun_eq_iff if_listener_def example_handler_def base_handler_def no_client_def
      eff_skip_def split: option.split)

lemma example_perform_tame:
  assumes "well cb"
  shows "\<exists>s'. example_perform D no_client cb s = (None, s') \<and> tame D s s'"
proof (cases "cb_kind cb")
  case cb_order_accept
  then obtain i where i: "cb_order cb = Some i" using assms by (auto simp: well_def)
  show ?thesis
    using example_event_tame [of fo_onAccepted D i s, OF feed_event_ok(1)] cb_order_accept i
    by (simp add: example_perform_def perform_callback_def)
      (simp add: example_handler_def example_on_accept_def)
next
  case cb_order_fill
  then obtain i m where i: "cb_order cb = Some i" "cb_matched_order cb = Some m" using assms by (auto simp: well_def)
  let ?f = "fo_onFilled (cb_quantity cb) (cb_price cb * cb_quantity cb)"
  have t: "example_handler D no_client (V_on_trade q c) = eff_skip" for q c
    by (simp add: example_handler_def base_handler_def)
  obtain s1 where s1: "example_event (Some i) ?f s = (None, s1)" "tame D s s1"
    using example_event_tame [of ?f D i s, OF feed_event_ok(2)] by blast
  obtain s2 where s2: "example_event (Some m) ?f s1 = (None, s2)" "tame D s1 s2"
    using example_event_tame [of ?f D m s1, OF feed_event_ok(2)] by blast
  show ?thesis
    using s1 s2 tame_trans [OF s1(2) s2(2)] cb_order_fill i
    by (simp add: example_perform_def perform_callback_def t)
      (simp add: example_handler_def example_on_fill_def eff_then_def)
next
  case cb_order_cancel
  then obtain i where i: "cb_order cb = Some i" using assms by (auto simp: well_def)
  show ?thesis
    using example_event_tame [of fo_onCancelled D i s, OF feed_event_ok(3)] cb_order_cancel i
    by (simp add: example_perform_def perform_callback_def)
      (simp add: example_handler_def example_on_cancel_def)
qed (use assms in \<open>simp_all add: well_def example_perform_def perform_callback_def eff_skip_def if_listener_def\<close>,
  simp_all add: example_handler_def base_handler_def no_client_def eff_skip_def split: option.split)

lemma run_tame: "(\<forall>cb \<in> set cbs. well cb) \<Longrightarrow> tame D s (run_callbacks (example_perform D no_client) cbs s)"
proof (induction cbs arbitrary: s)
  case (Cons cb cbs)
  obtain s1 where s1: "example_perform D no_client cb s = (None, s1)" "tame D s s1"
    using example_perform_tame [of cb D s] Cons.prems by auto
  then show ?case using Cons.IH [of s1] Cons.prems tame_trans by (auto simp: perform_logged_def)
qed simp

interpretation example_book:
  quiet_callbacks "example_perform D no_client" for D :: "'d double_ops"
proof unfold_locales
  fix cb and s :: "('d, 'l) example_world system"
  have e: "sys_book (snd (example_event ord f s)) = sys_book s" for ord f and s :: "('d, 'l) example_world system"
    by (simp add: example_event_def split: option.split sum.split prod.split)
  show "sys_book (snd (example_perform D no_client cb s)) = sys_book s"
    unfolding example_perform_def
  proof (rule perform_callback_cases)
    fix c and s :: "('d, 'l) example_world system"
    have 2: "sys_book (snd (example_on_fill ord m q x s)) = sys_book s" for ord m q x
      using e [of ord "fo_onFilled q x" s] e [of m "fo_onFilled q x" "snd (example_event ord (fo_onFilled q x) s)"]
      by (auto simp: example_on_fill_def eff_then_def split: prod.split option.split)
    show "sys_book (snd (example_handler D no_client c s)) = sys_book s"
      using 2
      by (cases c) (simp_all add: example_handler_def base_handler_def no_client_def e
          example_on_accept_def example_on_cancel_def example_on_replace_def)
  qed
qed

text \<open>A call whose notifications are tame ends with the queue empty and the rest untouched.\<close>

lemma finish_tame:
  assumes s: "\<not> ob_handling_callbacks b" "ob_workingCallbacks b = []"
    and w: "\<forall>cb \<in> set (ob_callbacks b). well cb"
  obtains s' where "finish_call (example_perform D no_client) x True b s = Some (Inr (x, s'))"
    "sys_book s' = b\<lparr>ob_callbacks := []\<rparr>"
    "\<exists>b0. sys_world s' = sys_world (run_callbacks (example_perform D no_client) (ob_callbacks b) (s\<lparr>sys_book := b0\<rparr>))"
    "sys_log s' = sys_log s" "tame D s (s'\<lparr>sys_book := sys_book s\<rparr>)"
proof -
  let ?s = "s\<lparr>sys_book := b\<rparr>"
  let ?start = "?s\<lparr>sys_book := b\<lparr>ob_handling_callbacks := True, ob_workingCallbacks := ob_callbacks b,
      ob_callbacks := []\<rparr>\<rparr>"
  let ?run = "run_callbacks (example_perform D no_client) (ob_callbacks b) ?start"
  have e: "callback_now (example_perform D no_client) ?s =
      Some (if ob_callbacks b = [] then ?s else ?run\<lparr>sys_book := b\<lparr>ob_callbacks := []\<rparr>\<rparr>)"
    using example_book.now_runs [of ?s D] s by simp
  show thesis
  proof (cases "ob_callbacks b = []")
    case True
    moreover have "b\<lparr>ob_callbacks := []\<rparr> = b" using True by (cases b) simp
    ultimately show thesis
      using e by (intro that [of ?s]) (auto simp: finish_call_def intro: exI [of _ b])
  next
    case False
    have t: "tame D ?start ?run" by (rule run_tame [OF w])
    then have l: "sys_log ?run = sys_log s" by (simp add: tame_def)
    have "tame D s ((?run\<lparr>sys_book := b\<lparr>ob_callbacks := []\<rparr>\<rparr>)\<lparr>sys_book := sys_book s\<rparr>)"
      using t by (simp add: tame_def)
    moreover have "\<exists>b0. sys_world ?run =
        sys_world (run_callbacks (example_perform D no_client) (ob_callbacks b) (s\<lparr>sys_book := b0\<rparr>))"
      by (rule exI [of _ "b\<lparr>ob_handling_callbacks := True, ob_workingCallbacks := ob_callbacks b, ob_callbacks := []\<rparr>"]) simp
    ultimately show thesis
      using e False l by (intro that [of "?run\<lparr>sys_book := b\<lparr>ob_callbacks := []\<rparr>\<rparr>"]) (auto simp: finish_call_def)
  qed
qed

section \<open>The state between calls\<close>

definition book_idle :: "order_env \<Rightarrow> order_book \<Rightarrow> bool" where
  "book_idle env b \<longleftrightarrow> book_ok env b \<and> book_qty b < 2 ^ 32 \<and>
     ob_callbacks b = [] \<and> ob_workingCallbacks b = [] \<and> \<not> ob_handling_callbacks b"

text \<open>What an addition queues is performed, and the book is left as it was queued from.\<close>

definition add_performed ::
  "'d double_ops \<Rightarrow> order_ptr \<Rightarrow> order_conditions \<Rightarrow> ('d, 'l) example_world system
     \<Rightarrow> ('d, 'l) example_world system \<Rightarrow> bool" where
  "add_performed D ord c s s' \<longleftrightarrow>
     (\<exists>matched b' b0. add_enqueue (example_env D (sys_world s)) ord c (sys_book s) = Inr (matched, b') \<and>
        sys_book s' = b'\<lparr>ob_callbacks := []\<rparr> \<and> (\<forall>cb \<in> set (ob_callbacks b'). well cb) \<and>
        sys_world s' = sys_world (run_callbacks (example_perform D no_client) (ob_callbacks b') (s\<lparr>sys_book := b0\<rparr>)))"

lemma added_tame:
  fixes s :: "('d, 'l) example_world system"
  assumes I: "book_idle (example_env D (sys_world s)) (sys_book s)"
  defines "env \<equiv> example_env D (sys_world s)"
  assumes qty: "o_order_qty (env ord) \<noteq> 0"
    and pr: "ob_marketPrice (sys_book s) \<noteq> 0 \<or> o_price (env ord) \<noteq> 0"
    and q: "book_qty (sys_book s) + unat (o_order_qty (env ord)) < 2 ^ 32"
  obtains matched s' where "book_add (example_env D) (example_perform D no_client) ord c s = Some (Inr (matched, s'))"
    "book_idle env (sys_book s')" "tame D s (s'\<lparr>sys_book := sys_book s\<rparr>)"
    "fo_status (xw_store (sys_world s) ord) = '''' \<longrightarrow> fo_history (xw_store (sys_world s') ord) \<noteq> []"
    "add_performed D ord c s s'"
proof -
  let ?b = "sys_book s"
  have B: "book_ok env ?b" and cb: "ob_callbacks ?b = []" "ob_workingCallbacks ?b = []" "\<not> ob_handling_callbacks ?b"
    using I by (simp_all add: book_idle_def env_def)
  obtain matched cbs d b' where A: "add_enqueue env ord c ?b = Inr (matched, b')" "added env ord c ?b cbs d b'"
    using add_enqueue_ok [OF B qty pr q] by blast
  obtain acc where c: "ob_callbacks b' = (Callback_accept ord)\<lparr>cb_quantity := acc\<rparr> # cbs @ [Callback_book_update]"
    using A(2) cb(1) by (auto simp: added_def)
  have w: "\<not> ob_handling_callbacks b'" "ob_workingCallbacks b' = []"
    using A(2) cb by (auto simp: added_def same_rest_def)
  have "well ((Callback_accept ord)\<lparr>cb_quantity := acc\<rparr>)" "well Callback_book_update" "well (Callback_cancel ord 0)"
    by (simp_all add: well_def callback_defs)
  moreover have "well f" if "valid_fill env f" for f
    using that by (auto simp: valid_fill_def is_fill_def well_def)
  ultimately have wc: "\<forall>cb \<in> set (ob_callbacks b'). well cb" using A(2) unfolding c added_def by auto
  obtain s' where s': "finish_call (example_perform D no_client) matched True b' s = Some (Inr (matched, s'))"
    "sys_book s' = b'\<lparr>ob_callbacks := []\<rparr>"
    "\<exists>b0. sys_world s' = sys_world (run_callbacks (example_perform D no_client) (ob_callbacks b') (s\<lparr>sys_book := b0\<rparr>))"
    "sys_log s' = sys_log s" "tame D s (s'\<lparr>sys_book := sys_book s\<rparr>)"
    by (rule finish_tame [OF w wc])
  have "fo_history (xw_store (sys_world s') ord) \<noteq> []"
    if st: "fo_status (xw_store (sys_world s) ord) = ''''"
  proof -
    obtain b0 where b0: "sys_world s' = sys_world (run_callbacks (example_perform D no_client) (ob_callbacks b') (s\<lparr>sys_book := b0\<rparr>))"
      using s'(3) by blast
    obtain s1 where s1: "example_perform D no_client ((Callback_accept ord)\<lparr>cb_quantity := acc\<rparr>) (s\<lparr>sys_book := b0\<rparr>) = (None, s1)"
      "fo_history (xw_store (sys_world s1) ord) \<noteq> []"
      using st
      by (simp add: example_perform_def perform_callback_def callback_defs)
        (simp add: example_handler_def example_on_accept_def example_event_def fo_onAccepted_def and_send_record,
          simp add: fo_record_def)
    have "tame D s1 (run_callbacks (example_perform D no_client) (cbs @ [Callback_book_update]) s1)"
      by (rule run_tame) (use wc c in simp)
    then have "length (fo_history (xw_store (sys_world s1) ord)) \<le> length (fo_history (xw_store (sys_world s') ord))"
      unfolding b0 c using s1(1) by (simp add: tame_def Let_def perform_logged_def)
    then show ?thesis using s1(2) by auto
  qed
  moreover have "book_ok env b'" "book_qty b' < 2 ^ 32" using A(2) q by (auto simp: added_def)
  then have "book_idle env (sys_book s')"
    using s'(2) w by (simp add: book_idle_def)
  moreover have "add_performed D ord c s s'"
    using A(1) s'(2,3) wc unfolding add_performed_def env_def by blast
  ultimately show thesis
    using that s' A(1) by (simp add: book_add_def env_def)
qed


section \<open>The calls of the exchange\<close>

lemma om_put_lookup: "map_of (om_put k v m) = (if k \<in> dom (map_of m) then (map_of m)(k \<mapsto> v) else map_of m)"
  by (induction m) (auto simp: om_put_def fun_eq_iff split: if_splits)

lemma om_insert_lookup: "k \<notin> dom (map_of m) \<Longrightarrow> map_of (om_insert (<) k v m) = (map_of m)(k \<mapsto> v)"
  for k :: "'k :: linorder"
  by (induction "(<) :: 'k \<Rightarrow> 'k \<Rightarrow> bool" k v m rule: om_insert.induct)
    (auto simp: fun_eq_iff split: if_splits)

definition exchange_env :: "'d double_ops \<Rightarrow> ('d, 'l) exchange \<Rightarrow> order_env" where
  "exchange_env D X i = feed_view D (xc_store X i)"

text \<open>Every book is idle.\<close>

definition exchange_idle :: "'d double_ops \<Rightarrow> ('d, 'l) exchange \<Rightarrow> bool" where
  "exchange_idle D X \<longleftrightarrow> (\<forall>xb \<in> ran (map_of (xc_books X)). book_idle (exchange_env D X) (xb_book xb))"

definition example_start :: "example_book \<Rightarrow> ('d, 'l) exchange \<Rightarrow> ('d, 'l) example_world system" where
  "example_start xb X =
     \<lparr>sys_book = xb_book xb,
      sys_world = depth_book.extend (xb_depth xb)
        (example_world.fields (xc_store X) (xc_out X) (xc_listener X)), sys_log = []\<rparr>"

lemma example_start_sel [simp]:
  "sys_book (example_start xb X) = xb_book xb" "sys_log (example_start xb X) = []"
  "xw_store (sys_world (example_start xb X)) = xc_store X" "xw_out (sys_world (example_start xb X)) = xc_out X"
  "xw_listener (sys_world (example_start xb X)) = xc_listener X"
  "depth_book.truncate (sys_world (example_start xb X)) = xb_depth xb"
  "example_env D (sys_world (example_start xb X)) = exchange_env D X"
  by (simp_all add: example_start_def depth_book.defs example_world.defs example_env_def exchange_env_def fun_eq_iff)

lemma run_example_tame:
  assumes c: "call (example_start xb X) = Some (Inr (r, s'))"
    and t: "tame D (example_start xb X) (s'\<lparr>sys_book := xb_book xb\<rparr>)"
    and b: "map_of (xc_books X) symbol = Some xb" and i: "book_idle (exchange_env D X) (sys_book s')"
    and I: "exchange_idle D X"
  obtains X' where "run_example call symbol xb X = Some (Inr (r, X'))"
    "map_of (xc_books X') = (map_of (xc_books X))(symbol \<mapsto> xb\<lparr>xb_book := sys_book s'\<rparr>)"
    "exchange_idle D X'" "xc_cerr X' = xc_cerr X" "xc_store X' = xw_store (sys_world s')"
    "xc_out X' = xw_out (sys_world s')" "exchange_env D X' = exchange_env D X"
    "\<forall>p. fo_ClOrdID (xc_store X' p) = fo_ClOrdID (xc_store X p)" "xc_next X' = xc_next X"
proof -
  let ?xb = "xb\<lparr>xb_book := sys_book s', xb_depth := depth_book.truncate (sys_world s')\<rparr>"
  let ?X = "X\<lparr>xc_store := xw_store (sys_world s'), xc_out := xw_out (sys_world s'),
      xc_cerr := xc_cerr X @ map (\<lambda>(l, t, e). e) (sys_log s'), xc_listener := xw_listener (sys_world s'),
      xc_books := om_put symbol ?xb (xc_books X)\<rparr>"
  have run: "run_example call symbol xb X = Some (Inr (r, ?X))"
    using c by (simp add: run_example_def example_start_def)
  have d: "depth_book.truncate (sys_world s') = xb_depth xb" and l: "sys_log s' = []"
    and e: "exchange_env D ?X = exchange_env D X"
    and id: "\<forall>p. fo_ClOrdID (xc_store ?X p) = fo_ClOrdID (xc_store X p)"
    using t by (simp_all add: tame_def Let_def exchange_env_def fun_eq_iff)
  have m: "map_of (xc_books ?X) = (map_of (xc_books X))(symbol \<mapsto> xb\<lparr>xb_book := sys_book s'\<rparr>)"
    using b d by (auto simp: om_put_lookup)
  have "exchange_idle D ?X"
    using I i unfolding exchange_idle_def e m by (auto simp: ran_def)
  then show thesis using that [OF run m _ _ _ _ e id] l by simp
qed

lemma example_start_idle:
  "exchange_idle D X \<Longrightarrow> map_of (xc_books X) symbol = Some xb \<Longrightarrow>
     book_idle (example_env D (sys_world (example_start xb X))) (sys_book (example_start xb X))"
  by (auto simp: exchange_idle_def ran_def)

text \<open>The exchange adds an order of a new client id.\<close>

lemma exchange_add_new:
  assumes I: "exchange_idle D X" and b: "map_of (xc_books X) symbol = Some xb"
    and qty: "fo_qty (xc_store X ord) \<noteq> 0"
    and pr: "ob_marketPrice (xb_book xb) \<noteq> 0 \<or> fo_book_price D (xc_store X ord) \<noteq> 0"
    and q: "book_qty (xb_book xb) + unat (fo_qty (xc_store X ord)) < 2 ^ 32"
    and conv: "dbl_scaled D (fo_price (xc_store X ord)) \<noteq> None"
    and new: "fo_ClOrdID (xc_store X ord) \<notin> dom (map_of (xb_orders xb))"
  obtains X' s' where "exchange_add_order D no_client symbol ord X = Some (Inr (True, X'))"
    "exchange_idle D X'" "xc_cerr X' = xc_cerr X" "xc_next X' = xc_next X"
    "exchange_env D X' = exchange_env D X" "\<forall>p. fo_ClOrdID (xc_store X' p) = fo_ClOrdID (xc_store X p)"
    "map_of (xc_books X') = (map_of (xc_books X))(symbol \<mapsto> xb\<lparr>xb_book := sys_book s',
       xb_orders := om_insert (<) (fo_ClOrdID (xc_store X ord)) ord (xb_orders xb)\<rparr>)"
    "xc_store X' = xw_store (sys_world s')"
    "fo_status (xc_store X ord) = '''' \<longrightarrow> fo_history (xc_store X' ord) \<noteq> []"
    "add_performed D ord oc_no_conditions (example_start xb X) s'"
proof -
  let ?s = "example_start xb X" and ?id = "fo_ClOrdID (xc_store X ord)"
  have v: "o_order_qty (exchange_env D X ord) = fo_qty (xc_store X ord)"
    "o_price (exchange_env D X ord) = fo_book_price D (xc_store X ord)"
    by (simp_all add: exchange_env_def feed_view_def)
  obtain matched s' where s': "book_add (example_env D) (example_perform D no_client) ord oc_no_conditions ?s =
      Some (Inr (matched, s'))" "book_idle (exchange_env D X) (sys_book s')"
    "tame D ?s (s'\<lparr>sys_book := xb_book xb\<rparr>)"
    "fo_status (xc_store X ord) = '''' \<longrightarrow> fo_history (xw_store (sys_world s') ord) \<noteq> []"
    "add_performed D ord oc_no_conditions ?s s'"
  proof (rule added_tame [OF example_start_idle [OF I b], of ord oc_no_conditions])
    fix matched s'
    assume "book_add (example_env D) (example_perform D no_client) ord oc_no_conditions ?s = Some (Inr (matched, s'))"
      "book_idle (example_env D (sys_world ?s)) (sys_book s')" "tame D ?s (s'\<lparr>sys_book := sys_book ?s\<rparr>)"
      "fo_status (xw_store (sys_world ?s) ord) = '''' \<longrightarrow> fo_history (xw_store (sys_world s') ord) \<noteq> []"
      "add_performed D ord oc_no_conditions ?s s'"
    then show thesis by (intro that) simp_all
  qed (use qty pr q v in simp_all)
  obtain X1 where X1: "run_example (book_add (example_env D) (example_perform D no_client) ord oc_no_conditions) symbol xb X =
      Some (Inr (matched, X1))"
    "map_of (xc_books X1) = (map_of (xc_books X))(symbol \<mapsto> xb\<lparr>xb_book := sys_book s'\<rparr>)"
    "exchange_idle D X1" "xc_cerr X1 = xc_cerr X" "xc_store X1 = xw_store (sys_world s')"
    "xc_out X1 = xw_out (sys_world s')" "exchange_env D X1 = exchange_env D X"
    "\<forall>p. fo_ClOrdID (xc_store X1 p) = fo_ClOrdID (xc_store X p)" "xc_next X1 = xc_next X"
    by (rule run_example_tame [where call = "book_add (example_env D) (example_perform D no_client) ord oc_no_conditions"
          and X = X and xb = xb and D = D, OF s'(1,3) b s'(2) I])
  let ?xb = "xb\<lparr>xb_book := sys_book s', xb_orders := om_insert (<) ?id ord (xb_orders xb)\<rparr>"
  let ?X = "X1\<lparr>xc_books := om_put symbol ?xb (xc_books X1)\<rparr>"
  have m: "map_of (xc_books ?X) = (map_of (xc_books X))(symbol \<mapsto> ?xb)"
    using X1(2) by (simp add: om_put_lookup)
  have e: "exchange_env D ?X = exchange_env D X1" by (simp add: exchange_env_def fun_eq_iff)
  have a: "exchange_add_order D no_client symbol ord X = Some (Inr (True, ?X))"
    using b X1(1,2,8) new conv
    by (auto simp: exchange_add_order_def Let_def dom_def)
  have i: "exchange_idle D ?X"
    using I s'(2) X1(7) unfolding exchange_idle_def e m by (auto simp: ran_def)
  show thesis
    by (rule that [OF a i _ _ _ _ m _ _ s'(5)]) (use X1 e s'(4) in simp_all)
qed

text \<open>
  The exchange takes an order of a new client id, tells the book of its symbol, and
  registers it: afterwards its status can be asked for. An order of an id the symbol already has
  is refused, and nothing changes. No notification fails.
\<close>

theorem exchange_adds_once:
  assumes I: "exchange_idle D X" and b: "map_of (xc_books X) symbol = Some xb"
    and st: "fo_status (xc_store X ord) = ''''"
    and qty: "fo_qty (xc_store X ord) \<noteq> 0"
    and pr: "ob_marketPrice (xb_book xb) \<noteq> 0 \<or> fo_book_price D (xc_store X ord) \<noteq> 0"
    and q: "book_qty (xb_book xb) + unat (fo_qty (xc_store X ord)) < 2 ^ 32"
    and conv: "dbl_scaled D (fo_price (xc_store X ord)) \<noteq> None"
  defines "ClOrdID \<equiv> fo_ClOrdID (xc_store X ord)"
  shows "if ClOrdID \<in> dom (map_of (xb_orders xb))
    then exchange_add_order D no_client symbol ord X = Some (Inr (False, X))
    else \<exists>X' xb' a. exchange_add_order D no_client symbol ord X = Some (Inr (True, X')) \<and>
      exchange_idle D X' \<and> xc_cerr X' = xc_cerr X \<and> map_of (xc_books X') symbol = Some xb' \<and>
      map_of (xb_orders xb') = (map_of (xb_orders xb))(ClOrdID \<mapsto> ord) \<and>
      getStatusOrder D symbol ClOrdID X' = Inr (a, X')"
proof (cases "ClOrdID \<in> dom (map_of (xb_orders xb))")
  case True
  then show ?thesis using b by (auto simp: exchange_add_order_def ClOrdID_def Let_def)
next
  case False
  note new = False [unfolded ClOrdID_def]
  obtain X' and s' :: "('a, 'b) example_world system"
    where X': "exchange_add_order D no_client symbol ord X = Some (Inr (True, X'))"
    "exchange_idle D X'" "xc_cerr X' = xc_cerr X"
    "map_of (xc_books X') = (map_of (xc_books X))(symbol \<mapsto> xb\<lparr>xb_book := sys_book s',
       xb_orders := om_insert (<) ClOrdID ord (xb_orders xb)\<rparr>)"
    "fo_status (xc_store X ord) = '''' \<longrightarrow> fo_history (xc_store X' ord) \<noteq> []"
    unfolding ClOrdID_def by (rule exchange_add_new [OF I b qty pr q conv new]) (rule that [unfolded ClOrdID_def])
  moreover have o: "map_of (om_insert (<) ClOrdID ord (xb_orders xb)) = (map_of (xb_orders xb))(ClOrdID \<mapsto> ord)"
    using om_insert_lookup [OF False] .
  moreover have "\<exists>a. getStatusOrder D symbol ClOrdID X' = Inr (a, X')"
    using X'(4,5) o st
    by (simp add: getStatusOrder_def find_existing_order_def getStringState_def fo_currentState_def Let_def)
  ultimately show ?thesis using False by auto
qed


lemma perform_quiet_kinds:
  "example_perform D no_client Callback_book_update s = (None, s)"
  "example_perform D no_client (Callback_cancel_reject i r) s = (None, s)"
  by (simp_all add: example_perform_def perform_callback_def callback_defs)
    (simp_all add: example_handler_def base_handler_def no_client_def eff_skip_def if_listener_def split: option.split)

definition cancelled_order :: "'d feed_order \<Rightarrow> 'd feed_order" where
  "cancelled_order x = fo_record Cancelled '''' (x\<lparr>fo_quantityOnMarket := 0\<rparr>)"

lemma perform_cancel:
  "example_perform D no_client (Callback_cancel i q) s =
     (None, s\<lparr>sys_world := (sys_world s)
        \<lparr>xw_store := (xw_store (sys_world s))(i := cancelled_order (xw_store (sys_world s) i)),
         xw_out := xw_out (sys_world s) @
           [Order_Changed (fo_ClOrdID (xw_store (sys_world s) i)) 0 (fo_price (xw_store (sys_world s) i)) 4]\<rparr>\<rparr>)"
  by (simp add: example_perform_def perform_callback_def callback_defs)
    (simp add: example_handler_def example_on_cancel_def example_event_def fo_onCancelled_def and_send_record
      cancelled_order_def status_code_def)

lemma cancelled_tame:
  fixes s :: "('d, 'l) example_world system"
  assumes I: "book_idle (example_env D (sys_world s)) (sys_book s)"
  defines "env \<equiv> example_env D (sys_world s)"
  obtains s' where "book_cancel (example_env D) (example_perform D no_client) ord s = Some (Inr ((), s'))"
    "book_idle env (sys_book s')" "tame D s (s'\<lparr>sys_book := sys_book s\<rparr>)"
    "case find_on_market env ord (sys_book s) of
       None \<Rightarrow> sys_book s' = sys_book s \<and> xw_store (sys_world s') = xw_store (sys_world s) \<and>
         xw_out (sys_world s') = xw_out (sys_world s)
     | Some n \<Rightarrow> own_side env ord (sys_book s') = mm_erase (nd_id n) (own_side env ord (sys_book s)) \<and>
         xw_store (sys_world s') = (xw_store (sys_world s))(ord := cancelled_order (xw_store (sys_world s) ord)) \<and>
         xw_out (sys_world s') = xw_out (sys_world s) @
           [Order_Changed (fo_ClOrdID (xw_store (sys_world s) ord)) 0 (fo_price (xw_store (sys_world s) ord)) 4]"
    "sys_book s' = (cancel_enqueue env ord (sys_book s))\<lparr>ob_callbacks := []\<rparr>"
proof -
  let ?b = "sys_book s"
  let ?b' = "cancel_enqueue env ord ?b"
  have B: "book_ok env ?b" "book_qty ?b < 2 ^ 32"
    and cb: "ob_callbacks ?b = []" "ob_workingCallbacks ?b = []" "\<not> ob_handling_callbacks ?b"
    using I by (simp_all add: book_idle_def env_def)
  have "same_rest ?b ?b' \<and> book_ok env ?b' \<and> book_qty ?b' < 2 ^ 32 \<and> (\<forall>cb \<in> set (ob_callbacks ?b'). well cb)"
  proof (cases "find_on_market env ord ?b")
    case None
    then show ?thesis using B cb by (auto simp: cancel_enqueue_def well_def callback_defs)
  next
    case (Some n)
    note C = cancel_found_ok [OF B(1) Some]
    have "well (Callback_cancel ord q)" "well Callback_book_update" for q
      by (simp_all add: well_def callback_defs)
    then show ?thesis using C B(2) cb by auto
  qed
  then have sr: "same_rest ?b ?b'" and ok: "book_ok env ?b'" "book_qty ?b' < 2 ^ 32"
    and wc: "\<forall>cb \<in> set (ob_callbacks ?b'). well cb" by auto
  have w: "\<not> ob_handling_callbacks ?b'" "ob_workingCallbacks ?b' = []"
    using sr cb by (simp_all add: same_rest_def)
  obtain s' where s': "finish_call (example_perform D no_client) () True ?b' s = Some (Inr ((), s'))"
    "sys_book s' = ?b'\<lparr>ob_callbacks := []\<rparr>"
    "\<exists>b0. sys_world s' = sys_world (run_callbacks (example_perform D no_client) (ob_callbacks ?b') (s\<lparr>sys_book := b0\<rparr>))"
    "sys_log s' = sys_log s" "tame D s (s'\<lparr>sys_book := sys_book s\<rparr>)"
    by (rule finish_tame [OF w wc])
  have "case find_on_market env ord (sys_book s) of
       None \<Rightarrow> sys_book s' = sys_book s \<and> xw_store (sys_world s') = xw_store (sys_world s) \<and>
         xw_out (sys_world s') = xw_out (sys_world s)
     | Some n \<Rightarrow> own_side env ord (sys_book s') = mm_erase (nd_id n) (own_side env ord (sys_book s)) \<and>
         xw_store (sys_world s') = (xw_store (sys_world s))(ord := cancelled_order (xw_store (sys_world s) ord)) \<and>
         xw_out (sys_world s') = xw_out (sys_world s) @
           [Order_Changed (fo_ClOrdID (xw_store (sys_world s) ord)) 0 (fo_price (xw_store (sys_world s) ord)) 4]"
  proof (cases "find_on_market env ord ?b")
    case None
    then have b': "?b' = push_callback (Callback_cancel_reject ord ''not found'') ?b" by (simp add: cancel_enqueue_def)
    have "b\<lparr>ob_callbacks := []\<rparr> = b" if "ob_callbacks b = []" for b :: order_book
      using that by (cases b) simp
    then have "?b'\<lparr>ob_callbacks := []\<rparr> = ?b" using cb(1) by (simp add: b' push_callback_def)
    then show ?thesis
      using None s'(2,3) cb by (auto simp: b' perform_logged_def perform_quiet_kinds)
  next
    case (Some n)
    note C = cancel_found_ok [OF B(1) Some]
    have "own_side env ord (?b'\<lparr>ob_callbacks := []\<rparr>) = own_side env ord ?b'" by (simp add: own_side_def)
    then show ?thesis
      using Some s'(2,3) C(3,4) cb by (auto simp: perform_logged_def perform_quiet_kinds perform_cancel)
  qed
  moreover have "book_idle env (sys_book s')" using s'(2) w ok by (simp add: book_idle_def)
  moreover have "book_cancel (example_env D) (example_perform D no_client) ord s = Some (Inr ((), s'))"
    using s'(1) by (simp add: book_cancel_def env_def)
  ultimately show thesis using that s'(2,5) by blast
qed


text \<open>A cancel request for a registered order is served.\<close>

lemma exchange_cancel_known:
  assumes I: "exchange_idle D X" and b: "map_of (xc_books X) symbol = Some xb"
    and o: "map_of (xb_orders xb) ClOrdID = Some ord"
  obtains X' b' where "cancel_order_by_ClOrdID D no_client symbol ClOrdID X =
      Some (Inr (''Exchange: Requesting Cancel: OrderID #'' @ ClOrdID @ newline, X'))"
    "exchange_idle D X'" "xc_cerr X' = xc_cerr X" "xc_next X' = xc_next X"
    "exchange_env D X' = exchange_env D X" "\<forall>p. fo_ClOrdID (xc_store X' p) = fo_ClOrdID (xc_store X p)"
    "map_of (xc_books X') = (map_of (xc_books X))(symbol \<mapsto> xb\<lparr>xb_book := b'\<rparr>)"
    "case find_on_market (exchange_env D X) ord (xb_book xb) of
       None \<Rightarrow> b' = xb_book xb \<and> xc_store X' = xc_store X \<and> xc_out X' = xc_out X
     | Some n \<Rightarrow> own_side (exchange_env D X) ord (b') = mm_erase (nd_id n) (own_side (exchange_env D X) ord (xb_book xb)) \<and>
         xc_store X' = (xc_store X)(ord := cancelled_order (xc_store X ord)) \<and>
         xc_out X' = xc_out X @ [Order_Changed (fo_ClOrdID (xc_store X ord)) 0 (fo_price (xc_store X ord)) 4]"
    "b' = (cancel_enqueue (exchange_env D X) ord (xb_book xb))\<lparr>ob_callbacks := []\<rparr>"
proof -
  let ?s = "example_start xb X"
  obtain s' where s': "book_cancel (example_env D) (example_perform D no_client) ord ?s = Some (Inr ((), s'))"
    "book_idle (exchange_env D X) (sys_book s')" "tame D ?s (s'\<lparr>sys_book := xb_book xb\<rparr>)"
    "case find_on_market (exchange_env D X) ord (xb_book xb) of
       None \<Rightarrow> sys_book s' = xb_book xb \<and> xw_store (sys_world s') = xc_store X \<and> xw_out (sys_world s') = xc_out X
     | Some n \<Rightarrow> own_side (exchange_env D X) ord (sys_book s') = mm_erase (nd_id n) (own_side (exchange_env D X) ord (xb_book xb)) \<and>
         xw_store (sys_world s') = (xc_store X)(ord := cancelled_order (xc_store X ord)) \<and>
         xw_out (sys_world s') = xc_out X @ [Order_Changed (fo_ClOrdID (xc_store X ord)) 0 (fo_price (xc_store X ord)) 4]"
    "sys_book s' = (cancel_enqueue (exchange_env D X) ord (xb_book xb))\<lparr>ob_callbacks := []\<rparr>"
    using cancelled_tame [OF example_start_idle [OF I b], of ord] by (simp only: example_start_sel) blast
  obtain X1 where X1: "run_example (book_cancel (example_env D) (example_perform D no_client) ord) symbol xb X =
      Some (Inr ((), X1))"
    "map_of (xc_books X1) = (map_of (xc_books X))(symbol \<mapsto> xb\<lparr>xb_book := sys_book s'\<rparr>)"
    "exchange_idle D X1" "xc_cerr X1 = xc_cerr X" "xc_store X1 = xw_store (sys_world s')"
    "xc_out X1 = xw_out (sys_world s')" "exchange_env D X1 = exchange_env D X"
    "\<forall>p. fo_ClOrdID (xc_store X1 p) = fo_ClOrdID (xc_store X p)" "xc_next X1 = xc_next X"
    by (rule run_example_tame [where call = "book_cancel (example_env D) (example_perform D no_client) ord"
          and X = X and xb = xb and D = D, OF s'(1,3) b s'(2) I])
  have c: "cancel_order_by_ClOrdID D no_client symbol ClOrdID X =
      Some (Inr (''Exchange: Requesting Cancel: OrderID #'' @ ClOrdID @ newline, X1))"
    using b o X1(1) by (simp add: cancel_order_by_ClOrdID_def find_existing_order_def)
  note k = s'(4) [folded X1(5,6)]
  show thesis by (rule that [OF c X1(3,4,9,7,8,2) k s'(5)])
qed

text \<open>
  C31. A cancel request for a registered order that is on the market takes it off: its book no
  longer has it, it has nothing on the market, its state is cancelled and reported with code 4.
  For an order that is no longer on the market the answer to the client is the same, and nothing
  changes.
\<close>

theorem exchange_cancels:
  assumes I: "exchange_idle D X" and b: "map_of (xc_books X) symbol = Some xb"
    and o: "map_of (xb_orders xb) ClOrdID = Some ord"
  shows "\<exists>X' xb'. cancel_order_by_ClOrdID D no_client symbol ClOrdID X =
      Some (Inr (''Exchange: Requesting Cancel: OrderID #'' @ ClOrdID @ newline, X')) \<and>
    exchange_idle D X' \<and> map_of (xc_books X') symbol = Some xb' \<and> xc_cerr X' = xc_cerr X \<and>
    (case find_on_market (exchange_env D X) ord (xb_book xb) of
       None \<Rightarrow> xb' = xb \<and> xc_store X' = xc_store X \<and> xc_out X' = xc_out X
     | Some n \<Rightarrow>
         own_side (exchange_env D X) ord (xb_book xb') = mm_erase (nd_id n) (own_side (exchange_env D X) ord (xb_book xb)) \<and>
         fo_quantityOnMarket (xc_store X' ord) = 0 \<and> getStringState (xc_store X' ord) = Inr ''Cancelled'' \<and>
         xc_out X' = xc_out X @ [Order_Changed (fo_ClOrdID (xc_store X ord)) 0 (fo_price (xc_store X ord)) 4])"
proof -
  obtain X' b' where X': "cancel_order_by_ClOrdID D no_client symbol ClOrdID X =
      Some (Inr (''Exchange: Requesting Cancel: OrderID #'' @ ClOrdID @ newline, X'))"
    "exchange_idle D X'" "xc_cerr X' = xc_cerr X"
    "map_of (xc_books X') = (map_of (xc_books X))(symbol \<mapsto> xb\<lparr>xb_book := b'\<rparr>)"
    "case find_on_market (exchange_env D X) ord (xb_book xb) of
       None \<Rightarrow> b' = xb_book xb \<and> xc_store X' = xc_store X \<and> xc_out X' = xc_out X
     | Some n \<Rightarrow> own_side (exchange_env D X) ord (b') = mm_erase (nd_id n) (own_side (exchange_env D X) ord (xb_book xb)) \<and>
         xc_store X' = (xc_store X)(ord := cancelled_order (xc_store X ord)) \<and>
         xc_out X' = xc_out X @ [Order_Changed (fo_ClOrdID (xc_store X ord)) 0 (fo_price (xc_store X ord)) 4]"
    using exchange_cancel_known [OF I b o] by blast
  moreover have c: "fo_quantityOnMarket (cancelled_order x) = 0" "getStringState (cancelled_order x) = Inr ''Cancelled''"
    for x :: "'a feed_order"
    by (simp_all add: cancelled_order_def fo_record_def getStringState_def fo_currentState_def FeedChange_def state_name_def)
  moreover have "xb\<lparr>xb_book := xb_book xb\<rparr> = xb" by (cases xb) simp
  ultimately show ?thesis
    by (intro exI [of _ X'] exI [of _ "xb\<lparr>xb_book := b'\<rparr>"]) (auto split: option.splits)
qed

section \<open>The depth of these books\<close>

definition deaf :: "'w handler \<Rightarrow> 'w handler" where
  "deaf client c = (case c of L_on_depth_change l \<Rightarrow> eff_skip | L_on_bbo_change l \<Rightarrow> eff_skip | _ \<Rightarrow> client c)"

lemma example_event_depth: "db_depth (sys_world (snd (example_event ord f s))) = db_depth (sys_world s)"
  by (simp add: example_event_def split: option.split sum.split prod.split)

lemma example_handler_depth:
  "db_depth (sys_world (snd (example_handler D no_client c s))) = db_depth (sys_world s)"
proof (cases c)
  case (V_on_fill ord m q x i f)
  have "db_depth (sys_world (snd (eff_then (example_event a g) (example_event b g) s))) = db_depth (sys_world s)" for a b g
    using example_event_depth [of a g s] example_event_depth [of b g "snd (example_event a g s)"]
    by (auto simp: eff_then_def split: prod.split option.split)
  then show ?thesis using V_on_fill by (simp add: example_handler_def example_on_fill_def)
qed (simp_all add: example_handler_def base_handler_def no_client_def example_event_depth
  example_on_accept_def example_on_cancel_def example_on_replace_def)

lemma then_depth_kept:
  assumes "\<And>s. db_depth (sys_world (snd (f s))) = db_depth (sys_world s)"
    "\<And>s. db_depth (sys_world (snd (g s))) = db_depth (sys_world s)"
  shows "db_depth (sys_world (snd (eff_then f g s))) = db_depth (sys_world s)"
  using assms(1) [of s] assms(2) [of "snd (f s)"] by (auto simp: eff_then_def split: prod.split option.split)

text \<open>
  C35. The overrides never call those of the depth book: whatever notifications a book of the
  exchange performs, its depth stays the one it was constructed with, and its run is the one with
  listeners of the depth that are never heard. The publisher of the feed gets no depth.
\<close>

theorem example_depth_untouched:
  "db_depth (sys_world (run_callbacks (example_perform D no_client) cbs s)) = db_depth (sys_world s) \<and>
   run_callbacks (example_perform D client) cbs s = run_callbacks (example_perform D (deaf client)) cbs s"
proof -
  have l: "db_depth (sys_world (snd (if_listener field (\<lambda>l. example_handler D no_client (c l)) s))) = db_depth (sys_world s)"
    for field c and s :: "('a, 'b) example_world system"
    by (simp add: if_listener_def example_handler_depth split: option.split)
  have p: "db_depth (sys_world (snd (example_perform D no_client cb s))) = db_depth (sys_world s)"
    for cb and s :: "('a, 'b) example_world system"
    unfolding example_perform_def perform_callback_def Let_def
    by (cases "cb_kind cb")
      (auto intro!: then_depth_kept l example_handler_depth simp: eff_skip_def split: option.split)
  have "db_depth (sys_world (run_callbacks (example_perform D no_client) cbs s)) = db_depth (sys_world s)"
  proof (induction cbs arbitrary: s)
    case (Cons cb cbs)
    have "db_depth (sys_world (perform_logged (example_perform D no_client) cb s)) = db_depth (sys_world s)"
      using p [of cb s] by (auto simp: perform_logged_def split: prod.split option.split)
    then show ?case using Cons by simp
  qed simp
  moreover have "example_perform D client = example_perform D (deaf client)"
  proof -
    have e: "example_handler D (deaf client) c = example_handler D client c"
      if "\<And>l. c \<noteq> L_on_depth_change l" "\<And>l. c \<noteq> L_on_bbo_change l" for c
      using that by (cases c) (auto simp: example_handler_def base_handler_def deaf_def)
    show ?thesis
    proof (rule ext)
      show "example_perform D client cb = example_perform D (deaf client) cb" for cb
        by (cases "cb_kind cb") (simp_all add: example_perform_def perform_callback_def Let_def e,
            simp add: fun_eq_iff e split: option.split)
    qed
  qed
  ultimately show ?thesis by simp
qed


section \<open>An exchange to apply the properties to\<close>

definition cents :: "int double_ops" where
  "cents = \<lparr>dbl_scaled = (\<lambda>x. if 0 \<le> x \<and> 100 * x < 2 ^ 32 then Some (word_of_int (100 * x)) else None),
     dbl_of_price = uint,
     dbl_to_quantity = (\<lambda>x. if 0 \<le> x \<and> x < 2 ^ 32 then Some (word_of_int x) else None),
     dbl_is_zero = (\<lambda>x. x = 0), dbl_print = (\<lambda>x. decimal (nat x))\<rparr>"

definition sample_exchange :: "(int, unit) exchange" where
  "sample_exchange = add_order_book ''ETH''
     (Exchange (\<lambda>i. FeedOrder False True 10 5 ''7'' '''') () None None)"

lemma sample_exchange_books [simp]:
  "xc_books sample_exchange = [(''ETH'', ExampleOrderBook ''ETH'')]"
  "xc_store sample_exchange i = FeedOrder False True 10 5 ''7'' ''''"
  by (simp_all add: sample_exchange_def add_order_book_def Exchange_def ExampleOrderBook_def om_put_def
      OrderBook_def DepthOrderBook_def set_depth_listener_def set_trade_listener_def)

lemma sample_exchange_idle: "exchange_idle cents sample_exchange"
proof -
  have "book_qty (OrderBook sym') = 0" for sym' by (simp add: OrderBook_def book_qty_def stop_mset_def)
  then have "book_idle env (OrderBook sym')" for env sym'
    using book_ok_OrderBook by (simp add: book_idle_def) (simp add: OrderBook_def)
  then show ?thesis by (simp add: exchange_idle_def ExampleOrderBook_def ran_def)
qed

theorem exchange_adds_once_witness:
  "\<exists>X' xb'. exchange_add_order cents no_client ''ETH'' 0 sample_exchange = Some (Inr (True, X')) \<and>
     map_of (xc_books X') ''ETH'' = Some xb' \<and> map_of (xb_orders xb') ''7'' = Some 0"
proof -
  have b: "map_of (xc_books sample_exchange) ''ETH'' = Some (ExampleOrderBook ''ETH'')" by simp
  have q: "book_qty (xb_book (ExampleOrderBook ''ETH'')) = 0" "xb_orders (ExampleOrderBook ''ETH'') = []"
    by (simp_all add: ExampleOrderBook_def OrderBook_def book_qty_def stop_mset_def)
  show ?thesis
    using exchange_adds_once [OF sample_exchange_idle b, of 0] q
    by (auto simp: FeedOrder_def fo_book_price_def cents_def)
qed

text \<open>The same exchange once its order rests.\<close>

definition resting_exchange :: "(int, unit) exchange" where
  "resting_exchange = sample_exchange\<lparr>xc_books := [(''ETH'', (ExampleOrderBook ''ETH'')
     \<lparr>xb_book := (OrderBook ''unknown'')\<lparr>ob_bids := [\<lparr>nd_id = 0, nd_key = ComparablePrice True 1000,
          nd_val = OrderTracker (exchange_env cents sample_exchange) 0 oc_no_conditions\<rparr>], ob_next_node := 1\<rparr>,
      xb_orders := [(''7'', 0)]\<rparr>)]\<rparr>"

theorem exchange_cancels_witness:
  "\<exists>X'. cancel_order_by_ClOrdID cents no_client ''ETH'' ''7'' resting_exchange =
      Some (Inr (''Exchange: Requesting Cancel: OrderID #7'' @ newline, X')) \<and>
     fo_quantityOnMarket (xc_store X' 0) = 0 \<and> getStringState (xc_store X' 0) = Inr ''Cancelled''"
proof -
  let ?env = "exchange_env cents resting_exchange"
  obtain xb where b: "map_of (xc_books resting_exchange) ''ETH'' = Some xb" "xb_orders xb = [(''7'', 0)]"
    "ob_asks (xb_book xb) = []" "ob_stopBids (xb_book xb) = []" "ob_stopAsks (xb_book xb) = []"
    "ob_pendingOrders (xb_book xb) = []" "ob_next_node (xb_book xb) = 1"
    "ob_callbacks (xb_book xb) = []" "ob_workingCallbacks (xb_book xb) = []" "\<not> ob_handling_callbacks (xb_book xb)"
    "ob_bids (xb_book xb) = [\<lparr>nd_id = 0, nd_key = ComparablePrice True 1000,
       nd_val = OrderTracker (exchange_env cents sample_exchange) 0 oc_no_conditions\<rparr>]"
    by (simp add: resting_exchange_def) (simp add: OrderBook_def)
  have v: "?env 0 = \<lparr>o_is_buy = True, o_price = 1000, o_stop_price = 0, o_order_qty = 5, o_all_or_none = False,
      o_immediate_or_cancel = False\<rparr>" "exchange_env cents sample_exchange = ?env"
    by (simp_all add: exchange_env_def resting_exchange_def feed_view_def fo_book_price_def cents_def FeedOrder_def
        Order_default_stop_price_def Order_default_all_or_none_def Order_default_immediate_or_cancel_def fun_eq_iff)
  have "book_idle ?env (xb_book xb)"
    using b v by (simp add: book_idle_def book_ok_def side_ok_def stops_ok_def stop_side_ok_def live_side_def live_def
        mm_ids_def mm_sorted_def stop_mset_def book_qty_def all_or_none_def oc_defs)
  then have I: "exchange_idle cents resting_exchange"
    using b(1) by (simp add: exchange_idle_def ran_def resting_exchange_def split: if_splits)
  have f: "find_on_market ?env 0 (xb_book xb) \<noteq> None"
    using b v by (simp add: find_on_market_def mm_find_def cp_defs)
  have o: "map_of (xb_orders xb) ''7'' = Some 0" using b(2) by simp
  show ?thesis
    using exchange_cancels [OF I b(1) o] f by (auto simp: newline_def)
qed

end
