(* ===== verification/Feed_Market.thy ===== *)
theory Feed_Market
  imports Feed_Gateway Feed_Calls Order_Agreement
begin

text \<open>
  The orders of the exchange agree with its books: what an order has on the market, by its own
  account of the notifications, is what its book has open for it.
\<close>

section \<open>What a book has open for an order\<close>

definition open_of :: "tracker multiset \<Rightarrow> order_ptr \<Rightarrow> quantity" where
  "open_of T p = (\<Sum>t \<in># filter_mset (\<lambda>t. tk_order t = p) T. tk_open_qty t)"

definition open_in :: "sides \<Rightarrow> order_ptr \<Rightarrow> quantity" where
  "open_in M p = open_of (M True) p + open_of (M False) p"

lemma open_of_simps [simp]:
  "open_of {#} p = 0"
  "open_of (add_mset t T) p = (if tk_order t = p then tk_open_qty t else 0) + open_of T p"
  "open_of (S + T) p = open_of S p + open_of T p"
  by (simp_all add: open_of_def)

lemma open_in_both: "open_in (both s A B) p = open_of A p + open_of B p"
  by (cases s) (simp_all add: open_in_def both_def add.commute)

lemma open_in_sides: "open_in M p = open_of (M s) p + open_of (M (\<not> s)) p"
  by (cases s) (simp_all add: open_in_def add.commute)

lemma open_of_minus: "t \<in># T \<Longrightarrow> open_of (T - {#t#}) p = open_of T p - (if tk_order t = p then tk_open_qty t else 0)"
proof -
  assume "t \<in># T"
  then obtain T' where "T = add_mset t T'" by (meson multi_member_split)
  then show ?thesis by simp
qed

lemma open_of_settle: "t \<in># T \<Longrightarrow> open_of (settle_tk t q T) p = open_of T p - (if tk_order t = p then q else 0)"
  by (simp add: settle_tk_def residual_def open_of_minus take_qty_def)

lemma open_of_absent: "p \<notin> tk_order ` set_mset T \<Longrightarrow> open_of T p = 0"
  by (induction T) auto

lemma open_in_absent: "p \<notin> on_sides M \<Longrightarrow> open_in M p = 0"
  by (simp add: open_in_def on_sides_def image_Un open_of_absent)

text \<open>An order that is on the market once has the open quantity of its tracker.\<close>

lemma open_in_single:
  assumes t: "t \<in># M s" and e: "entries M (tk_order t) \<le> 1"
  shows "open_in M (tk_order t) = tk_open_qty t" "tk_order t \<notin> tk_order ` set_mset (M (\<not> s))"
    "tk_order t \<notin> tk_order ` set_mset (M s - {#t#})"
proof -
  let ?f = "\<lambda>T. filter_mset (\<lambda>x. tk_order x = tk_order t) T"
  obtain T where T: "M s = add_mset t T" using t by (meson multi_member_split)
  then have z: "size (?f T) + size (?f (M (\<not> s))) = 0" using e unfolding entries_sides [of _ _ s] by simp
  then have n: "?f T = {#}" "?f (M (\<not> s)) = {#}" by simp_all
  then show "tk_order t \<notin> tk_order ` set_mset (M (\<not> s))" "tk_order t \<notin> tk_order ` set_mset (M s - {#t#})"
    by (auto simp: T)
  then show "open_in M (tk_order t) = tk_open_qty t"
    using T by (simp add: open_in_sides [of _ _ s] open_of_absent)
qed

section \<open>The notifications, as changes of the quantities on the market\<close>

type_synonym market = "order_ptr \<Rightarrow> int32"

definition market_of :: "('d, 'l) example_world \<Rightarrow> market" where
  "market_of w p = fo_quantityOnMarket (xw_store w p)"

definition lower :: "quantity \<Rightarrow> order_ptr option \<Rightarrow> market \<Rightarrow> market" where
  "lower q ord m = (case ord of None \<Rightarrow> m | Some i \<Rightarrow> m(i := m i - q))"

definition market_cb :: "order_env \<Rightarrow> callback \<Rightarrow> market \<Rightarrow> market" where
  "market_cb env cb m =
     (case cb_kind cb of
        cb_order_accept \<Rightarrow> (case cb_order cb of None \<Rightarrow> m | Some i \<Rightarrow> m(i := o_order_qty (env i)))
      | cb_order_fill \<Rightarrow> lower (cb_quantity cb) (cb_matched_order cb) (lower (cb_quantity cb) (cb_order cb) m)
      | cb_order_cancel \<Rightarrow> (case cb_order cb of None \<Rightarrow> m | Some i \<Rightarrow> m(i := 0))
      | _ \<Rightarrow> m)"

definition market_run :: "order_env \<Rightarrow> callback list \<Rightarrow> market \<Rightarrow> market" where
  "market_run env cbs m = foldl (\<lambda>m cb. market_cb env cb m) m cbs"

lemma market_run_simps [simp]:
  "market_run env [] m = m" "market_run env (cb # cbs) m = market_run env cbs (market_cb env cb m)"
  "market_run env (a @ b) m = market_run env b (market_run env a m)"
  by (simp_all add: market_run_def)

lemma outcome_market:
  "\<exists>y os. fo_onAccepted x = Inr (y, os) \<and> fo_quantityOnMarket y = fo_qty x"
  "\<exists>y os. fo_onFilled q c x = Inr (y, os) \<and> fo_quantityOnMarket y = fo_quantityOnMarket x - q"
  "\<exists>y os. fo_onCancelled x = Inr (y, os) \<and> fo_quantityOnMarket y = 0"
  by (auto simp: fo_onAccepted_def fo_onFilled_def fo_onCancelled_def and_send_record Let_def)
    (auto simp: fo_record_def)

lemma example_event_market:
  assumes "\<exists>y os. f (xw_store (sys_world s) i) = Inr (y, os) \<and> fo_quantityOnMarket y = k"
  shows "market_of (sys_world (snd (example_event (Some i) f s))) = (market_of (sys_world s))(i := k)"
  using assms by (auto simp: example_event_def market_of_def fun_eq_iff)

lemma perform_market:
  fixes s :: "('d, 'l) example_world system"
  assumes "well cb"
  shows "market_of (sys_world (snd (example_perform D no_client cb s))) =
    market_cb (example_env D (sys_world s)) cb (market_of (sys_world s))"
proof (cases "cb_kind cb")
  case cb_order_accept
  then obtain i where i: "cb_order cb = Some i" using assms by (auto simp: well_def)
  show ?thesis
    using example_event_market [of fo_onAccepted s i, OF outcome_market(1)] cb_order_accept i
    by (simp add: example_perform_def perform_callback_def market_cb_def)
      (simp add: example_handler_def example_on_accept_def example_env_def feed_view_def)
next
  case cb_order_fill
  then obtain i m where i: "cb_order cb = Some i" "cb_matched_order cb = Some m" using assms by (auto simp: well_def)
  let ?q = "cb_quantity cb"
  let ?f = "fo_onFilled ?q (cb_price cb * ?q)"
  have t: "example_handler D no_client (V_on_trade q c) = eff_skip" for q c
    by (simp add: example_handler_def base_handler_def)
  obtain s1 where s1: "example_event (Some i) ?f s = (None, s1)"
    using example_event_tame [of ?f D i s, OF feed_event_ok(2)] by blast
  obtain s2 where s2: "example_event (Some m) ?f s1 = (None, s2)"
    using example_event_tame [of ?f D m s1, OF feed_event_ok(2)] by blast
  have "market_of (sys_world s1) = lower ?q (Some i) (market_of (sys_world s))"
    using example_event_market [of ?f s i, OF outcome_market(2)] s1 by (simp add: lower_def market_of_def)
  moreover have "market_of (sys_world s2) = lower ?q (Some m) (market_of (sys_world s1))"
    using example_event_market [of ?f s1 m, OF outcome_market(2)] s2 by (simp add: lower_def market_of_def)
  ultimately show ?thesis
    using s1 s2 cb_order_fill i
    by (simp add: example_perform_def perform_callback_def t market_cb_def)
      (simp add: example_handler_def example_on_fill_def eff_then_def)
next
  case cb_order_cancel
  then obtain i where i: "cb_order cb = Some i" using assms by (auto simp: well_def)
  show ?thesis
    using example_event_market [of fo_onCancelled s i, OF outcome_market(3)] cb_order_cancel i
    by (simp add: example_perform_def perform_callback_def market_cb_def)
      (simp add: example_handler_def example_on_cancel_def)
qed (use assms in \<open>simp_all add: well_def market_cb_def example_perform_def perform_callback_def eff_skip_def
    if_listener_def\<close>,
  simp_all add: example_handler_def base_handler_def no_client_def eff_skip_def split: option.split)

lemma run_market:
  "(\<forall>cb \<in> set cbs. well cb) \<Longrightarrow>
     market_of (sys_world (run_callbacks (example_perform D no_client) cbs s)) =
       market_run (example_env D (sys_world s)) cbs (market_of (sys_world s))"
proof (induction cbs arbitrary: s)
  case (Cons cb cbs)
  obtain s1 where s1: "example_perform D no_client cb s = (None, s1)" "tame D s s1"
    using example_perform_tame [of cb D s] Cons.prems by auto
  have "market_of (sys_world s1) = market_cb (example_env D (sys_world s)) cb (market_of (sys_world s))"
    using perform_market [of cb D s] s1(1) Cons.prems by simp
  then show ?case using Cons.IH [of s1] Cons.prems tame_env [OF s1(2)] s1(1) by (simp add: perform_logged_def)
qed simp

section \<open>Trading keeps the agreement\<close>

text \<open>Executions only lower what the orders on the two sides have open.\<close>

lemma trades_market:
  "trades M cbs M' \<Longrightarrow> on_sides M' \<subseteq> on_sides M \<and> (\<forall>p. entries M' p \<le> entries M p) \<and>
     (\<forall>p. p \<notin> on_sides M \<longrightarrow> market_run env cbs m p = m p) \<and>
     (\<forall>p. m p = open_in M p \<longrightarrow> market_run env cbs m p = open_in M' p)"
proof (induction rule: trades.induct)
  case (one M cbs M1 i s c q price)
  let ?M = "both s (settle_tk i q (M1 s)) (settle_tk c q (M1 (\<not> s)))"
  let ?cb = "Callback_fill (tk_order i) (tk_order c) q price (fill_flags_of i c q)"
  have mem: "tk_order i \<in> on_sides M1" "tk_order c \<in> on_sides M1"
    using on_sides_mem one(2,3) by blast+
  have cb: "market_cb env ?cb m' = lower q (Some (tk_order c)) (lower q (Some (tk_order i)) m')" for m'
    by (simp add: market_cb_def callback_defs)
  have "on_sides ?M \<subseteq> on_sides M1"
    using one(2,3) settle_tk_mem [of _ i q "M1 s"] settle_tk_mem [of _ c q "M1 (\<not> s)"]
    unfolding on_sides_both by (fastforce dest: on_sides_mem)
  moreover have "entries ?M p \<le> entries M p" for p
  proof -
    have "entries ?M p \<le> entries M1 p"
      using entries_settle [of i M1 s p q, OF one(2)] entries_settle [of c M1 "\<not> s" p q, OF one(3)]
      unfolding entries_sides [of _ p s] both_simps by linarith
    then show ?thesis using one.IH le_trans by blast
  qed
  moreover have "open_in ?M p = open_in M1 p - (if tk_order i = p then q else 0) - (if tk_order c = p then q else 0)" for p
    using one(2,3) by (simp add: open_in_both open_of_settle open_in_sides [of M1 p s])
  ultimately show ?case
    using one.IH mem unfolding market_run_simps cb by (auto simp: lower_def intro: order_trans)
qed auto

text \<open>
  A book agrees with the quantities \<open>m\<close> the orders have on the market, for the orders \<open>S\<close> it
  knows: its sides hold no others, and each at most once. The exchange has no stop orders.
\<close>

definition book_agrees :: "market \<Rightarrow> order_ptr set \<Rightarrow> order_book \<Rightarrow> bool" where
  "book_agrees m S b \<longleftrightarrow> stop_mset b = {#} \<and> on_sides (sides_of b) \<subseteq> S \<and>
     (\<forall>p. entries (sides_of b) p \<le> 1) \<and> (\<forall>p \<in> S. m p = open_in (sides_of b) p)"

lemma stop_mset_callbacks [simp]: "stop_mset (b\<lparr>ob_callbacks := c\<rparr>) = stop_mset b"
  by (simp add: stop_mset_def)

lemma entries_absent: "p \<notin> on_sides M \<Longrightarrow> entries M p = 0"
  by (auto simp: entries_def on_sides_def)

lemma add_agrees:
  fixes s :: "('d, 'l) example_world system" and D :: "'d double_ops"
  defines "env \<equiv> example_env D (sys_world s)" and "m \<equiv> market_of (sys_world s)"
  assumes I: "book_idle env (sys_book s)" and A: "book_agrees m S (sys_book s)" and new: "ord \<notin> S"
    and qty: "o_order_qty (env ord) \<noteq> 0"
    and pr: "ob_marketPrice (sys_book s) \<noteq> 0 \<or> o_price (env ord) \<noteq> 0"
    and q: "book_qty (sys_book s) + unat (o_order_qty (env ord)) < 2 ^ 32"
    and P: "add_performed D ord oc_no_conditions s s'"
  shows "book_agrees (market_of (sys_world s')) (insert ord S) (sys_book s') \<and>
    (\<forall>p. p \<notin> insert ord S \<longrightarrow> market_of (sys_world s') p = m p)"
proof -
  let ?M = "sides_of (sys_book s)" and ?t = "OrderTracker env ord oc_no_conditions" and ?s = "o_is_buy (env ord)"
  let ?M1 = "both ?s (add_mset ?t (?M ?s)) (?M (\<not> ?s))" and ?m1 = "m(ord := o_order_qty (env ord))"
  have B: "book_ok env (sys_book s)" and cb: "ob_callbacks (sys_book s) = []" using I by (simp_all add: book_idle_def)
  have ns: "stop_mset (sys_book s) = {#}" and sub: "on_sides ?M \<subseteq> S" and e1: "\<And>p. entries ?M p \<le> 1"
    and m: "\<And>p. p \<in> S \<Longrightarrow> m p = open_in ?M p" using A by (auto simp: book_agrees_def)
  have sp: "o_stop_price (env ord) = 0"
    by (simp add: env_def example_env_def feed_view_def Order_default_stop_price_def)
  have ni: "oc_no_conditions AND oc_immediate_or_cancel = 0" by (simp add: oc_defs)
  obtain matched b' c1 c2 inb' where R: "add_enqueue env ord oc_no_conditions (sys_book s) = Inr (matched, b')"
    "ob_callbacks b' = ob_callbacks (sys_book s) @
       (Callback_accept ord)\<lparr>cb_quantity := o_order_qty (env ord) - tk_open_qty inb'\<rparr> # c1 @ c2 @ [Callback_book_update]"
    "entering ?s ?t ?M c1 c2 inb' (sides_of b')" "\<not> immediate_or_cancel inb'" "stop_mset b' = {#}"
    by (rule add_enqueue_entering [OF B qty pr q ns sp ni])
  obtain b0 where P': "sys_book s' = b'\<lparr>ob_callbacks := []\<rparr>" "\<forall>cb \<in> set (ob_callbacks b'). well cb"
    "sys_world s' = sys_world (run_callbacks (example_perform D no_client) (ob_callbacks b') (s\<lparr>sys_book := b0\<rparr>))"
    using P R(1) by (auto simp: add_performed_def env_def)
  have "market_of (sys_world s') = market_run env (ob_callbacks b') m"
    using run_market [OF P'(2), of D "s\<lparr>sys_book := b0\<rparr>"] by (simp add: P'(3) env_def m_def)
  then have m': "market_of (sys_world s') = market_run env (c1 @ c2) ?m1"
    by (simp add: R(2) cb market_cb_def callback_defs)
  have T: "trades ?M1 (c1 @ c2) (sides_of b')"
    using entering_trades [OF R(3,4)] qty by simp
  note K = trades_market [OF T, of env ?m1]
  have no: "ord \<notin> on_sides ?M" using sub new by blast
  have o: "open_in ?M1 p = (if p = ord then o_order_qty (env ord) else 0) + open_in ?M p" for p
    by (simp add: open_in_both open_in_sides [of ?M p ?s])
  have "?m1 p = open_in ?M1 p" if "p \<in> insert ord S" for p
    using that m open_in_absent [OF no] by (auto simp: o)
  moreover have os: "on_sides ?M1 \<subseteq> insert ord S"
    using sub on_sides_mem [of _ ?M ?s] on_sides_mem [of _ ?M "\<not> ?s"] by (auto simp: on_sides_both)
  moreover have "entries ?M1 p \<le> 1" for p
  proof -
    have "entries ?M1 p = (if p = ord then 1 else 0) + entries ?M p"
      by (simp add: entries_sides [of _ p ?s])
    then show ?thesis using e1 [of p] entries_absent [OF no] by simp
  qed
  ultimately show ?thesis
    using K R(5) unfolding book_agrees_def m' P'(1)
    by (auto intro: le_trans)
qed

lemma cancel_agrees:
  assumes I: "book_idle env b" and A: "book_agrees m S b" and ord: "ord \<in> S"
  defines "b' \<equiv> (cancel_enqueue env ord b)\<lparr>ob_callbacks := []\<rparr>"
  shows "case find_on_market env ord b of None \<Rightarrow> book_agrees m S b'
    | Some n \<Rightarrow> book_agrees (m(ord := 0)) S b'"
proof (cases "find_on_market env ord b")
  case None
  then have "b' = b" using I by (simp add: b'_def cancel_enqueue_def book_idle_def push_callback_def)
  then show ?thesis using None A by simp
next
  case (Some n)
  let ?M = "sides_of b" and ?s = "o_is_buy (env ord)" and ?t = "nd_val n"
  have B: "book_ok env b" using I by (simp add: book_idle_def)
  note L = cancel_leaving [OF B Some]
  have "stop_mset b = {#}" and sub: "on_sides ?M \<subseteq> S" and e1: "\<And>p. entries ?M p \<le> 1"
    and m: "\<And>p. p \<in> S \<Longrightarrow> m p = open_in ?M p" using A by (auto simp: book_agrees_def)
  let ?M' = "both ?s (?M ?s - {#?t#}) (?M (\<not> ?s))"
  have s: "sides_of b' = ?M'" "stop_mset b' = {#}"
    using L(1,4) \<open>stop_mset b = {#}\<close> by (simp_all add: b'_def)
  have "entries ?M (tk_order ?t) \<le> 1" by (rule e1)
  note single = open_in_single [OF L(2) this, unfolded L(3)]
  have o: "open_in ?M' p = open_in ?M p - (if p = ord then tk_open_qty ?t else 0)" for p
    using open_of_minus [OF L(2)] L(3) by (simp add: open_in_both open_in_sides [of ?M p ?s])
  have "(m(ord := 0)) p = open_in ?M' p" if "p \<in> S" for p
    using m [OF that] single(1) by (simp add: o)
  moreover have "on_sides ?M' \<subseteq> S"
    using sub on_sides_mem [of _ ?M ?s] on_sides_mem [of _ ?M "\<not> ?s"] by (auto simp: on_sides_both dest: in_diffD)
  moreover have "entries ?M' p \<le> 1" for p
  proof -
    obtain T where "?M ?s = add_mset ?t T" using L(2) by (meson multi_member_split)
    then have "entries ?M' p \<le> entries ?M p" by (simp add: entries_sides [of _ p ?s])
    then show ?thesis using e1 [of p] by simp
  qed
  ultimately show ?thesis using Some s by (simp add: book_agrees_def)
qed

end
