(* ===== verification/Feed_Requests.thy ===== *)
theory Feed_Requests
  imports Feed_Market
begin

text \<open>
  The requests the program serves, and the invariant they keep: every book agrees with the
  orders registered for it, and an order belongs to one book.
\<close>

section \<open>The exchange\<close>

definition owned :: "example_book \<Rightarrow> order_ptr set" where
  "owned xb = ran (map_of (xb_orders xb))"

definition on_market :: "('d, 'l) exchange \<Rightarrow> market" where
  "on_market X p = fo_quantityOnMarket (xc_store X p)"

definition registered :: "('d, 'l) exchange \<Rightarrow> example_book \<Rightarrow> bool" where
  "registered X xb \<longleftrightarrow>
     (\<forall>i p. map_of (xb_orders xb) i = Some p \<longrightarrow> fo_ClOrdID (xc_store X p) = i \<and> p < xc_next X)"

definition exchange_agrees :: "'d double_ops \<Rightarrow> ('d, 'l) exchange \<Rightarrow> bool" where
  "exchange_agrees D X \<longleftrightarrow> exchange_idle D X \<and>
     (\<forall>s xb. map_of (xc_books X) s = Some xb \<longrightarrow>
        book_agrees (on_market X) (owned xb) (xb_book xb) \<and> registered X xb) \<and>
     (\<forall>s xb s' xb'. map_of (xc_books X) s = Some xb \<longrightarrow> map_of (xc_books X) s' = Some xb' \<longrightarrow> s \<noteq> s' \<longrightarrow>
        owned xb \<inter> owned xb' = {})"

lemma exchange_agreesD:
  assumes "exchange_agrees D X"
  shows "exchange_idle D X"
    "map_of (xc_books X) s = Some xb \<Longrightarrow> book_agrees (on_market X) (owned xb) (xb_book xb)"
    "map_of (xc_books X) s = Some xb \<Longrightarrow> registered X xb"
    "map_of (xc_books X) s = Some xb \<Longrightarrow> map_of (xc_books X) s' = Some xb' \<Longrightarrow> s \<noteq> s' \<Longrightarrow> owned xb \<inter> owned xb' = {}"
  using assms unfolding exchange_agrees_def by blast+

lemma owned_below: "registered X xb \<Longrightarrow> p \<in> owned xb \<Longrightarrow> p < xc_next X"
  by (auto simp: registered_def owned_def ran_def)

lemma book_agrees_cong: "(\<And>p. p \<in> S \<Longrightarrow> m p = m' p) \<Longrightarrow> book_agrees m S b = book_agrees m' S b"
  by (auto simp: book_agrees_def)

text \<open>A change of one book and of the orders it has.\<close>

lemma exchange_agrees_update:
  assumes A: "exchange_agrees D X"
    and books: "map_of (xc_books X') = (map_of (xc_books X))(symbol \<mapsto> xb')"
    and idle: "exchange_idle D X'" and next': "xc_next X \<le> xc_next X'"
    and ids: "\<And>p. p < xc_next X \<Longrightarrow> fo_ClOrdID (xc_store X' p) = fo_ClOrdID (xc_store X p)"
    and agree: "book_agrees (on_market X') (owned xb') (xb_book xb')" and reg: "registered X' xb'"
    and frame: "\<And>p. p \<notin> owned xb' \<Longrightarrow> on_market X' p = on_market X p"
    and own: "\<And>s xb2. map_of (xc_books X) s = Some xb2 \<Longrightarrow> s \<noteq> symbol \<Longrightarrow> owned xb' \<inter> owned xb2 = {}"
  shows "exchange_agrees D X'"
proof -
  have "book_agrees (on_market X') (owned xb) (xb_book xb) \<and> registered X' xb"
    if s: "map_of (xc_books X') s = Some xb" for s xb
  proof (cases "s = symbol")
    case True
    then show ?thesis using s books agree reg by simp
  next
    case False
    then have b: "map_of (xc_books X) s = Some xb" using s books by simp
    have r: "registered X xb" by (rule exchange_agreesD(3) [OF A b])
    have "on_market X' p = on_market X p" if "p \<in> owned xb" for p
      using frame own [OF b False] that by blast
    then have "book_agrees (on_market X') (owned xb) (xb_book xb)"
      using exchange_agreesD(2) [OF A b] book_agrees_cong [of "owned xb" "on_market X'" "on_market X"] by simp
    moreover have "registered X' xb"
      unfolding registered_def
    proof (intro allI impI)
      fix i p assume "map_of (xb_orders xb) i = Some p"
      then have "fo_ClOrdID (xc_store X p) = i" "p < xc_next X" using r by (auto simp: registered_def)
      then show "fo_ClOrdID (xc_store X' p) = i \<and> p < xc_next X'" using ids [of p] next' by simp
    qed
    ultimately show ?thesis by simp
  qed
  moreover have "owned xb \<inter> owned xb2 = {}"
    if "map_of (xc_books X') s = Some xb" "map_of (xc_books X') s' = Some xb2" "s \<noteq> s'" for s xb s' xb2
    using that own exchange_agreesD(4) [OF A] unfolding books by (auto split: if_splits)
  ultimately show ?thesis using idle unfolding exchange_agrees_def by blast
qed

text \<open>A book does not look at orders it does not have.\<close>

lemma side_ok_env:
  assumes "\<And>n. n \<in> set m \<Longrightarrow> env' (tk_order (nd_val n)) = env (tk_order (nd_val n))" "side_ok env b buy m"
  shows "side_ok env' b buy m"
  using assms unfolding side_ok_def tk_priced_def by auto

lemma book_idle_env:
  assumes "\<And>p. p \<in> on_sides (sides_of b) \<Longrightarrow> env' p = env p" "book_idle env b"
  shows "book_idle env' b"
proof -
  have n: "env' (tk_order (nd_val n)) = env (tk_order (nd_val n))" if "n \<in> set (ob_bids b) \<or> n \<in> set (ob_asks b)" for n
    using that by (intro assms(1)) (auto simp: on_sides_def sides_of_def)
  have "side_ok env' b True (ob_bids b)" "side_ok env' b False (ob_asks b)"
    using n assms(2) by (auto simp: book_idle_def book_ok_def intro: side_ok_env)
  then show ?thesis using assms(2) by (simp add: book_idle_def book_ok_def)
qed

text \<open>A new order belongs to no book yet.\<close>

lemma new_order_agrees:
  assumes A: "exchange_agrees D X" and n: "new_order verbose is_buy price qty ClOrdID status X = (p, X1)"
  shows "exchange_agrees D X1" "xc_books X1 = xc_books X" "p < xc_next X1"
    "xc_store X1 p = FeedOrder (verbose p) is_buy price qty ClOrdID status"
    "\<forall>s xb. map_of (xc_books X1) s = Some xb \<longrightarrow> p \<notin> owned xb" "xc_out X1 = xc_out X" "xc_cerr X1 = xc_cerr X"
proof -
  have p: "p = xc_next X" and X1: "X1 = X\<lparr>xc_store := (xc_store X)(p := FeedOrder (verbose p) is_buy price qty ClOrdID status),
      xc_next := p + 1\<rparr>"
    using n by (auto simp: new_order_def Let_def)
  show b: "xc_books X1 = xc_books X" and "p < xc_next X1" and "xc_out X1 = xc_out X" and "xc_cerr X1 = xc_cerr X"
    and "xc_store X1 p = FeedOrder (verbose p) is_buy price qty ClOrdID status"
    by (simp_all add: X1)
  have fresh: "p \<notin> owned xb" if "map_of (xc_books X) s = Some xb" for s xb
    using owned_below [OF exchange_agreesD(3) [OF A that]] p by blast
  then show "\<forall>s xb. map_of (xc_books X1) s = Some xb \<longrightarrow> p \<notin> owned xb" by (simp add: b)
  have st: "xc_store X1 q = xc_store X q" if "q \<noteq> p" for q using that by (simp add: X1)
  have "book_idle (exchange_env D X1) (xb_book xb)" if xb: "map_of (xc_books X) s = Some xb" for s xb
  proof (rule book_idle_env)
    show "book_idle (exchange_env D X) (xb_book xb)"
      using exchange_agreesD(1) [OF A] xb by (auto simp: exchange_idle_def ran_def)
    fix q assume "q \<in> on_sides (sides_of (xb_book xb))"
    then have "q \<noteq> p" using exchange_agreesD(2) [OF A xb] fresh [OF xb] by (auto simp: book_agrees_def)
    then show "exchange_env D X1 q = exchange_env D X q" by (simp add: exchange_env_def st)
  qed
  then have idle: "exchange_idle D X1" by (auto simp: exchange_idle_def ran_def b)
  have "book_agrees (on_market X1) (owned xb) (xb_book xb)" if xb: "map_of (xc_books X) s = Some xb" for s xb
    using exchange_agreesD(2) [OF A xb] book_agrees_cong [of "owned xb" "on_market X1" "on_market X"] fresh [OF xb] st
    by (metis on_market_def)
  moreover have "registered X1 xb" if xb: "map_of (xc_books X) s = Some xb" for s xb
    using exchange_agreesD(3) [OF A xb] fresh [OF xb] p by (auto simp: registered_def owned_def ran_def X1 intro: less_SucI)
  ultimately show "exchange_agrees D X1"
    using idle exchange_agreesD(4) [OF A] unfolding exchange_agrees_def b by blast
qed

text \<open>An addition, a cancellation, and a book for a symbol keep the invariant.\<close>

definition order_fits :: "'d double_ops \<Rightarrow> order_book \<Rightarrow> 'd feed_order \<Rightarrow> bool" where
  "order_fits D b x \<longleftrightarrow> dbl_scaled D (fo_price x) \<noteq> None \<and> fo_qty x \<noteq> 0 \<and>
     (ob_marketPrice b \<noteq> 0 \<or> fo_book_price D x \<noteq> 0) \<and> book_qty b + unat (fo_qty x) < 2 ^ 32"

lemma add_keeps:
  assumes A: "exchange_agrees D X" and b: "map_of (xc_books X) symbol = Some xb"
    and fits: "order_fits D (xb_book xb) (xc_store X ord)"
    and new: "fo_ClOrdID (xc_store X ord) \<notin> dom (map_of (xb_orders xb))"
    and fresh: "\<forall>s xb. map_of (xc_books X) s = Some xb \<longrightarrow> ord \<notin> owned xb" "ord < xc_next X"
  obtains X' xb' where "exchange_add_order D no_client symbol ord X = Some (Inr (True, X'))"
    "exchange_agrees D X'" "xc_cerr X' = xc_cerr X"
    "map_of (xc_books X') = (map_of (xc_books X))(symbol \<mapsto> xb')"
    "map_of (xb_orders xb') = (map_of (xb_orders xb))(fo_ClOrdID (xc_store X ord) \<mapsto> ord)"
    "fo_status (xc_store X ord) = '''' \<longrightarrow> fo_history (xc_store X' ord) \<noteq> []"
proof -
  let ?id = "fo_ClOrdID (xc_store X ord)"
  have qty: "fo_qty (xc_store X ord) \<noteq> 0"
    and pr: "ob_marketPrice (xb_book xb) \<noteq> 0 \<or> fo_book_price D (xc_store X ord) \<noteq> 0"
    and q: "book_qty (xb_book xb) + unat (fo_qty (xc_store X ord)) < 2 ^ 32"
    and conv: "dbl_scaled D (fo_price (xc_store X ord)) \<noteq> None"
    using fits by (simp_all add: order_fits_def)
  have f: "ord \<notin> owned xb" if "map_of (xc_books X) s = Some xb" for s xb using fresh(1) that by blast
  note I = exchange_agreesD(1) [OF A]
  obtain X' and s' :: "('a, 'b) example_world system"
    where X': "exchange_add_order D no_client symbol ord X = Some (Inr (True, X'))"
    "exchange_idle D X'" "xc_cerr X' = xc_cerr X" "xc_next X' = xc_next X"
    "\<forall>p. fo_ClOrdID (xc_store X' p) = fo_ClOrdID (xc_store X p)"
    "map_of (xc_books X') = (map_of (xc_books X))(symbol \<mapsto> xb\<lparr>xb_book := sys_book s',
       xb_orders := om_insert (<) ?id ord (xb_orders xb)\<rparr>)"
    "xc_store X' = xw_store (sys_world s')" "fo_status (xc_store X ord) = '''' \<longrightarrow> fo_history (xc_store X' ord) \<noteq> []"
    "add_performed D ord oc_no_conditions (example_start xb X) s'"
    by (rule exchange_add_new [OF I b qty pr q conv new]) (rule that)
  let ?xb = "xb\<lparr>xb_book := sys_book s', xb_orders := om_insert (<) ?id ord (xb_orders xb)\<rparr>"
  have o: "map_of (xb_orders ?xb) = (map_of (xb_orders xb))(?id \<mapsto> ord)"
    using om_insert_lookup [OF new] by simp
  have own: "owned ?xb = insert ord (owned xb)"
    using new unfolding owned_def o by (auto simp: ran_map_upd dom_def)
  have m: "market_of (sys_world (example_start xb X)) = on_market X" "market_of (sys_world s') = on_market X'"
    by (simp_all add: market_of_def on_market_def X'(7) fun_eq_iff)
  have v: "o_order_qty (exchange_env D X ord) = fo_qty (xc_store X ord)"
    "o_price (exchange_env D X ord) = fo_book_price D (xc_store X ord)"
    by (simp_all add: exchange_env_def feed_view_def)
  have G: "book_agrees (on_market X') (insert ord (owned xb)) (sys_book s') \<and>
      (\<forall>p. p \<notin> insert ord (owned xb) \<longrightarrow> on_market X' p = on_market X p)"
    using add_agrees [OF example_start_idle [OF I b], where S = "owned xb" and ord = ord and s' = s']
      exchange_agreesD(2) [OF A b] f [OF b] X'(9) qty pr q by (simp add: m v)
  have reg: "registered X' ?xb"
    using exchange_agreesD(3) [OF A b] X'(4,5) fresh(2) unfolding registered_def o by auto
  have "exchange_agrees D X'"
  proof (rule exchange_agrees_update [OF A X'(6,2) _ _ _ reg])
    show "owned ?xb \<inter> owned xb2 = {}" if "map_of (xc_books X) s = Some xb2" "s \<noteq> symbol" for s xb2
      using exchange_agreesD(4) [OF A b that(1)] f [OF that(1)] that(2) unfolding own by auto
  qed (use X'(4,5) G own in auto)
  then show thesis by (rule that [OF X'(1) _ X'(3,6) o X'(8)])
qed

lemma cancel_keeps:
  assumes A: "exchange_agrees D X" and b: "map_of (xc_books X) symbol = Some xb"
  obtains answer X' xb' where "cancel_order_by_ClOrdID D no_client symbol ClOrdID X = Some (Inr (answer, X'))"
    "exchange_agrees D X'" "map_of (xc_books X') = (map_of (xc_books X))(symbol \<mapsto> xb')"
    "xb_orders xb' = xb_orders xb"
proof (cases "map_of (xb_orders xb) ClOrdID")
  case None
  let ?X = "X\<lparr>xc_out := xc_out X @ snd (find_existing_order ClOrdID xb)\<rparr>"
  have c: "cancel_order_by_ClOrdID D no_client symbol ClOrdID X =
      Some (Inr (''--Can'' @ [char_of (39 :: nat)] @ ''t find OrderID #'' @ ClOrdID @ newline, ?X))"
    using b None by (simp add: cancel_order_by_ClOrdID_def find_existing_order_def)
  have s: "on_market ?X = on_market X" "exchange_env D ?X = exchange_env D X" "registered ?X = registered X"
    by (simp_all add: on_market_def exchange_env_def registered_def fun_eq_iff)
  have "exchange_agrees D ?X"
    using A by (simp add: exchange_agrees_def exchange_idle_def s)
  moreover have "map_of (xc_books ?X) = (map_of (xc_books X))(symbol \<mapsto> xb)" using b by auto
  ultimately show thesis using that [OF c] by simp
next
  case (Some ord')
  note I = exchange_agreesD(1) [OF A]
  obtain X' b' where X': "cancel_order_by_ClOrdID D no_client symbol ClOrdID X =
      Some (Inr (''Exchange: Requesting Cancel: OrderID #'' @ ClOrdID @ newline, X'))"
    "exchange_idle D X'" "xc_next X' = xc_next X" "\<forall>p. fo_ClOrdID (xc_store X' p) = fo_ClOrdID (xc_store X p)"
    "map_of (xc_books X') = (map_of (xc_books X))(symbol \<mapsto> xb\<lparr>xb_book := b'\<rparr>)"
    "case find_on_market (exchange_env D X) ord' (xb_book xb) of
       None \<Rightarrow> b' = xb_book xb \<and> xc_store X' = xc_store X \<and> xc_out X' = xc_out X
     | Some n \<Rightarrow> own_side (exchange_env D X) ord' b' = mm_erase (nd_id n) (own_side (exchange_env D X) ord' (xb_book xb)) \<and>
         xc_store X' = (xc_store X)(ord' := cancelled_order (xc_store X ord')) \<and>
         xc_out X' = xc_out X @ [Order_Changed (fo_ClOrdID (xc_store X ord')) 0 (fo_price (xc_store X ord')) 4]"
    "b' = (cancel_enqueue (exchange_env D X) ord' (xb_book xb))\<lparr>ob_callbacks := []\<rparr>"
    by (rule exchange_cancel_known [OF I b Some]) (rule that)
  let ?xb = "xb\<lparr>xb_book := b'\<rparr>"
  have own: "owned ?xb = owned xb" by (simp add: owned_def)
  have mem: "ord' \<in> owned xb" using Some by (auto simp: owned_def ran_def)
  have idle: "book_idle (exchange_env D X) (xb_book xb)" using I b by (auto simp: exchange_idle_def ran_def)
  note C = cancel_agrees [OF idle exchange_agreesD(2) [OF A b] mem, folded X'(7)]
  have m: "on_market X' = (case find_on_market (exchange_env D X) ord' (xb_book xb) of
      None \<Rightarrow> on_market X | Some n \<Rightarrow> (on_market X)(ord' := 0))"
    using X'(6) by (auto simp: on_market_def fun_eq_iff cancelled_order_def fo_record_def split: option.splits)
  have G: "book_agrees (on_market X') (owned xb) b'" using C m by (auto split: option.splits)
  have reg: "registered X' ?xb" using exchange_agreesD(3) [OF A b] X'(3,4) by (simp add: registered_def)
  have "exchange_agrees D X'"
  proof (rule exchange_agrees_update [OF A X'(5,2) _ _ _ reg])
    show "owned ?xb \<inter> owned xb2 = {}" if "map_of (xc_books X) s = Some xb2" "s \<noteq> symbol" for s xb2
      using exchange_agreesD(4) [OF A b that(1)] that(2) unfolding own by auto
    show "on_market X' p = on_market X p" if "p \<notin> owned ?xb" for p
      using m mem that unfolding own by (auto split: option.splits)
  qed (use X'(3,4) G own in auto)
  then show thesis using that [OF X'(1) _ X'(5)] by simp
qed

lemma add_order_book_agrees:
  assumes A: "exchange_agrees D X" and new: "symbol \<notin> dom (map_of (xc_books X))"
  shows "exchange_agrees D (add_order_book symbol X)"
    "dom (map_of (xc_books (add_order_book symbol X))) = insert symbol (dom (map_of (xc_books X)))"
proof -
  let ?X = "add_order_book symbol X" and ?xb0 = "ExampleOrderBook symbol"
  let ?xb = "?xb0\<lparr>xb_depth := set_depth_listener (xc_depth_listener X) (xb_depth ?xb0),
      xb_book := set_trade_listener (xc_trade_listener X) (xb_book ?xb0)\<rparr>"
  have m: "map_of (xc_books ?X) = (map_of (xc_books X))(symbol \<mapsto> ?xb)"
    by (simp add: add_order_book_def Let_def om_insert_lookup [OF new] om_put_lookup)
  then show "dom (map_of (xc_books ?X)) = insert symbol (dom (map_of (xc_books X)))" by simp
  have s: "on_market ?X = on_market X" "exchange_env D ?X = exchange_env D X" "xc_next ?X = xc_next X"
    "xc_store ?X = xc_store X"
    by (simp_all add: on_market_def exchange_env_def add_order_book_def Let_def fun_eq_iff)
  let ?b = "set_trade_listener (xc_trade_listener X) (OrderBook ''unknown'')"
  have e: "xb_book ?xb = ?b" "xb_orders ?xb = []" by (simp_all add: ExampleOrderBook_def)
  have z: "book_qty ?b = 0" "stop_mset ?b = {#}" "sides_of ?b = (\<lambda>s. {#})"
    by (simp_all add: set_trade_listener_def OrderBook_def book_qty_def stop_mset_def sides_of_def fun_eq_iff)
  have "book_idle env ?b" for env
    by (simp add: book_idle_def z)
      (simp add: set_trade_listener_def OrderBook_def book_ok_def side_ok_def stops_ok_def stop_side_ok_def
        live_side_def stop_mset_def mm_sorted_def)
  then have "exchange_idle D ?X"
    using exchange_agreesD(1) [OF A] unfolding exchange_idle_def s m e(1) [symmetric] by (auto simp: ran_def)
  then show "exchange_agrees D ?X"
    by (rule exchange_agrees_update [OF A m])
      (use e z s in \<open>simp_all add: book_agrees_def registered_def owned_def on_sides_def entries_def\<close>)
qed

lemma populated_agrees:
  "exchange_agrees D X \<Longrightarrow> distinct (map si_symbol secs) \<Longrightarrow>
     si_symbol ` set secs \<inter> dom (map_of (xc_books X)) = {} \<Longrightarrow>
     exchange_agrees D (populate_exchange secs X) \<and>
     dom (map_of (xc_books (populate_exchange secs X))) = si_symbol ` set secs \<union> dom (map_of (xc_books X))"
  unfolding populate_exchange_def
proof (induction secs arbitrary: X)
  case (Cons sec secs)
  then have n: "si_symbol sec \<notin> dom (map_of (xc_books X))" by simp
  note B = add_order_book_agrees [OF Cons.prems(1) n]
  show ?case using Cons.IH [OF B(1)] Cons.prems B(2) by auto
qed simp

section \<open>The program\<close>

definition gateway_ok :: "'d double_ops \<Rightarrow> ('d, 'l) gateway \<Rightarrow> bool" where
  "gateway_ok D G \<longleftrightarrow> exchange_agrees D (gw_exchange G) \<and>
     dom (map_of (xc_books (gw_exchange G))) = si_symbol ` set (gw_securities G) \<and>
     ''undefined'' \<notin> si_symbol ` set (gw_securities G)"

lemma find_security_iff: "find_security symbol secs \<longleftrightarrow> symbol \<in> si_symbol ` set secs"
  by (induction secs) auto

lemma start_ok: "gateway_ok D (start_gateway store l feed zero)"
proof -
  have "exchange_agrees D (Exchange store l (Some feed) (Some feed))"
    by (simp add: Exchange_def exchange_agrees_def exchange_idle_def)
  from populated_agrees [OF this, of "traded_securities zero"] show ?thesis
    by (simp add: gateway_ok_def start_gateway_def) (simp add: traded_securities_def Exchange_def)
qed

text \<open>At the start the books are empty.\<close>

definition blank_book :: "example_book \<Rightarrow> bool" where
  "blank_book xb \<longleftrightarrow> book_qty (xb_book xb) = 0 \<and> xb_orders xb = []"

lemma populated_blank:
  "\<forall>xb \<in> ran (map_of (xc_books X)). blank_book xb \<Longrightarrow> distinct (map si_symbol secs) \<Longrightarrow>
     si_symbol ` set secs \<inter> dom (map_of (xc_books X)) = {} \<Longrightarrow>
     \<forall>xb \<in> ran (map_of (xc_books (populate_exchange secs X))). blank_book xb"
  unfolding populate_exchange_def
proof (induction secs arbitrary: X)
  case (Cons sec secs)
  then have n: "si_symbol sec \<notin> dom (map_of (xc_books X))" by simp
  let ?X = "add_order_book (si_symbol sec) X"
  have "blank_book ((ExampleOrderBook s)\<lparr>xb_depth := d, xb_book := set_trade_listener l (xb_book (ExampleOrderBook s))\<rparr>)" for s d l
    by (simp add: blank_book_def ExampleOrderBook_def set_trade_listener_def OrderBook_def book_qty_def stop_mset_def)
  then obtain xb where xb: "map_of (xc_books ?X) = (map_of (xc_books X))(si_symbol sec \<mapsto> xb)" "blank_book xb"
    by (auto simp: add_order_book_def Let_def om_insert_lookup [OF n] om_put_lookup)
  then have "\<forall>xb \<in> ran (map_of (xc_books ?X)). blank_book xb" using Cons.prems(1) n by (auto simp: ran_map_upd dom_def)
  moreover have "si_symbol ` set secs \<inter> dom (map_of (xc_books ?X)) = {}"
    using Cons.prems(2,3) unfolding xb(1) by auto
  ultimately show ?case using Cons.IH [of ?X] Cons.prems(2) by simp
qed simp

lemma start_blank:
  "map_of (xc_books (gw_exchange (start_gateway store l feed zero))) s = Some xb \<Longrightarrow> blank_book xb"
  using populated_blank [of "Exchange store l (Some feed) (Some feed)" "traded_securities zero"]
  by (auto simp: start_gateway_def Exchange_def traded_securities_def ran_def)

text \<open>The price and the quantity of an order can be converted, and the book can take the order.\<close>

definition price_and_quantity_fit :: "'d double_ops \<Rightarrow> order_book \<Rightarrow> 'd \<Rightarrow> 'd \<Rightarrow> bool" where
  "price_and_quantity_fit D b price qty =
     (case (dbl_scaled D price, dbl_to_quantity D qty) of
        (Some p, Some q) \<Rightarrow> q \<noteq> 0 \<and> (ob_marketPrice b \<noteq> 0 \<or> p \<noteq> 0) \<and> book_qty b + unat q < 2 ^ 32
      | _ \<Rightarrow> False)"

definition process_admissible :: "'d double_ops \<Rightarrow> string \<Rightarrow> 'd \<Rightarrow> 'd \<Rightarrow> ('d, 'l) gateway \<Rightarrow> bool" where
  "process_admissible D symbol price qty G =
     (case map_of (xc_books (gw_exchange G)) (c_string symbol) of
        None \<Rightarrow> True
      | Some xb \<Rightarrow> price_and_quantity_fit D (xb_book xb) price qty)"

definition has_order :: "('d, 'l) gateway \<Rightarrow> string \<Rightarrow> string \<Rightarrow> bool" where
  "has_order G symbol ClOrdID =
     (case map_of (xc_books (gw_exchange G)) symbol of
        None \<Rightarrow> False | Some xb \<Rightarrow> ClOrdID \<in> dom (map_of (xb_orders xb)))"

lemma process_keeps:
  assumes ok: "gateway_ok D G" and fits: "process_admissible D symbol price qty G"
  defines "sec \<equiv> c_string symbol"
  defines "traded \<equiv> sec \<in> si_symbol ` set (gw_securities G)"
  obtains G' where "processOrder D no_client verbose is_buy price qty symbol ClOrdID status G =
      Some (Inr (if \<not> traded then ''!found'' else if has_order G sec ClOrdID then ''false'' else ''true'', G'))"
    "gateway_ok D G'" "gw_securities G' = gw_securities G"
    "\<forall>s i. has_order G' s i \<longleftrightarrow> has_order G s i \<or> traded \<and> s = sec \<and> i = ClOrdID"
    "traded \<and> \<not> has_order G sec ClOrdID \<and> status = '''' \<longrightarrow>
       (\<exists>a. gateway_status D sec ClOrdID G' = Inr (a, G') \<and> (\<forall>i. a \<noteq> No_order i))"
proof (cases "traded")
  case False
  then have "processOrder D no_client verbose is_buy price qty symbol ClOrdID status G = Some (Inr (''!found'', G))"
    by (simp add: processOrder_def find_security_iff traded_def sec_def)
  then show thesis using that [of G] ok False by simp
next
  case True
  let ?X = "gw_exchange G"
  have A: "exchange_agrees D ?X" and dom: "dom (map_of (xc_books ?X)) = si_symbol ` set (gw_securities G)"
    "''undefined'' \<notin> si_symbol ` set (gw_securities G)"
    using ok by (simp_all add: gateway_ok_def)
  obtain xb where b: "map_of (xc_books ?X) sec = Some xb" using True dom by (auto simp: traded_def)
  obtain qty1 where q1: "dbl_to_quantity D qty = Some qty1"
    using fits b by (auto simp: process_admissible_def sec_def price_and_quantity_fit_def split: option.splits)
  obtain p X1 where n: "new_order verbose is_buy price qty1 ClOrdID status ?X = (p, X1)" by fastforce
  note N = new_order_agrees [OF A n]
  have h: "has_order G sec ClOrdID \<longleftrightarrow> ClOrdID \<in> dom (map_of (xb_orders xb))" using b by (simp add: has_order_def)
  have b1: "map_of (xc_books X1) sec = Some xb" using b N(2) by simp
  have pr: "processOrder D no_client verbose is_buy price qty symbol ClOrdID status G =
      map_option (map_sum id (\<lambda>(added, X1). (if added then ''true'' else ''false'', G\<lparr>gw_exchange := X1\<rparr>)))
        (exchange_add_order D no_client sec p X1)"
    using True n q1 by (simp add: processOrder_def find_security_iff traded_def sec_def Let_def)
  have id: "fo_ClOrdID (xc_store X1 p) = ClOrdID" "fo_status (xc_store X1 p) = status"
    by (simp_all add: N(4) FeedOrder_def)
  show thesis
  proof (cases "has_order G sec ClOrdID")
    case old: True
    have "exchange_add_order D no_client sec p X1 = Some (Inr (False, X1))"
      using b1 old h id(1) by (auto simp: exchange_add_order_def Let_def)
    moreover have "gateway_ok D (G\<lparr>gw_exchange := X1\<rparr>)" using N(1,2) dom by (simp add: gateway_ok_def)
    moreover have "has_order (G\<lparr>gw_exchange := X1\<rparr>) s i \<longleftrightarrow> has_order G s i" for s i
      using N(2) by (simp add: has_order_def)
    ultimately show thesis using that [of "G\<lparr>gw_exchange := X1\<rparr>"] True old pr by auto
  next
    case new: False
    have f: "order_fits D (xb_book xb) (xc_store X1 p)"
      using fits b q1 by (simp add: process_admissible_def sec_def price_and_quantity_fit_def order_fits_def N(4)
          FeedOrder_def fo_book_price_def split: option.splits)
    have nid: "fo_ClOrdID (xc_store X1 p) \<notin> dom (map_of (xb_orders xb))" using new h id(1) by simp
    obtain X' xb' where X': "exchange_add_order D no_client sec p X1 = Some (Inr (True, X'))"
      "exchange_agrees D X'" "map_of (xc_books X') = (map_of (xc_books X1))(sec \<mapsto> xb')"
      "map_of (xb_orders xb') = (map_of (xb_orders xb))(ClOrdID \<mapsto> p)"
      "status = '''' \<longrightarrow> fo_history (xc_store X' p) \<noteq> []"
    proof (rule add_keeps [OF N(1) b1 f nid N(5,3)])
      fix X' xb'
      assume "exchange_add_order D no_client sec p X1 = Some (Inr (True, X'))" "exchange_agrees D X'"
        "map_of (xc_books X') = (map_of (xc_books X1))(sec \<mapsto> xb')"
        "map_of (xb_orders xb') = (map_of (xb_orders xb))(fo_ClOrdID (xc_store X1 p) \<mapsto> p)"
        "fo_status (xc_store X1 p) = '''' \<longrightarrow> fo_history (xc_store X' p) \<noteq> []"
      then show thesis by (intro that) (simp_all add: id)
    qed
    let ?G = "G\<lparr>gw_exchange := X'\<rparr>"
    have "gateway_ok D ?G" using X'(2,3) N(2) dom b by (auto simp: gateway_ok_def)
    moreover have "has_order ?G s i \<longleftrightarrow> has_order G s i \<or> s = sec \<and> i = ClOrdID" for s i
      using b by (auto simp: has_order_def X'(3,4) N(2))
    moreover have "\<exists>a. gateway_status D sec ClOrdID ?G = Inr (a, ?G) \<and> (\<forall>i. a \<noteq> No_order i)" if "status = ''''"
      using X'(3,4,5) that
      by (simp add: gateway_status_def getStatusOrder_def find_existing_order_def getStringState_def
          fo_currentState_def Let_def)
    ultimately show thesis using that [of ?G] True new pr X'(1) by simp
  qed
qed

lemma process_served:
  assumes "gateway_ok D G" "process_admissible D symbol price qty G"
  shows "\<exists>answer G'. processOrder D no_client verbose is_buy price qty symbol ClOrdID status G = Some (Inr (answer, G')) \<and>
    gateway_ok D G'"
  by (rule process_keeps [OF assms, of verbose is_buy ClOrdID status]) blast


end
