(* ===== verification/Gateway_Properties.thy ===== *)
theory Gateway_Properties
  imports Feed_Requests
begin

text \<open>
  Runs of the publisher program from its start, request after request, and what the outside
  world is told in them.
\<close>

section \<open>Runs\<close>

datatype 'd gateway_request =
    New_order_single fix_message
  | Order_cancel_request fix_message
  | Order_status_request fix_message
  | Stored_order "'d order_row"

definition handle_request ::
  "'d double_ops \<Rightarrow> 'd fix_ops \<Rightarrow> (order_ptr \<Rightarrow> bool) \<Rightarrow> bool \<Rightarrow> 'd gateway_request \<Rightarrow> ('d, 'l) gateway
     \<Rightarrow> ('d, 'l) handled option" where
  "handle_request D F verbose logged_on r G =
     (case r of
        New_order_single message \<Rightarrow> onMessage_NewOrderSingle D F no_client verbose logged_on message G
      | Order_cancel_request message \<Rightarrow> onMessage_OrderCancelRequest D no_client message G
      | Order_status_request message \<Rightarrow> Some (onMessage_OrderStatusRequest D F logged_on message G)
      | Stored_order stored \<Rightarrow>
          (case load_order D no_client verbose stored G of
             None \<Rightarrow> None
           | Some (Inl e) \<Rightarrow> Some (Some (Program e), None, G)
           | Some (Inr (answer, G1)) \<Rightarrow> Some (None, None, G1)))"

text \<open>
  A request is admissible when the order in it, if it can be read and has a book, is one the
  engine is meant for.
\<close>

definition admissible_request ::
  "'d double_ops \<Rightarrow> 'd fix_ops \<Rightarrow> 'd gateway_request \<Rightarrow> ('d, 'l) gateway \<Rightarrow> bool" where
  "admissible_request D F r G =
     (case r of
        New_order_single message \<Rightarrow>
          (case new_order_fields F message of
             Inl e \<Rightarrow> True
           | Inr (symbol, side, buy, orderQty, price, clOrdID) \<Rightarrow> process_admissible D symbol price orderQty G)
      | Stored_order stored \<Rightarrow> process_admissible D (row_coin_code stored) (row_price stored) (row_market_amount stored) G
      | _ \<Rightarrow> True)"

text \<open>Exceptions are a defined outcome of a request; undefined behaviour is not.\<close>

fun defined_outcome :: "fix_exn option \<Rightarrow> bool" where
  "defined_outcome (Some Uninitialised) = False"
| "defined_outcome (Some (Program e)) = False"
| "defined_outcome _ = True"

inductive gateway_run ::
  "'d double_ops \<Rightarrow> 'd fix_ops \<Rightarrow> (order_ptr \<Rightarrow> bool) \<Rightarrow> ('d, 'l) gateway \<Rightarrow> 'd gateway_request list \<Rightarrow>
   ('d, 'l) gateway \<Rightarrow> bool"
  for D F verbose G0 where
  run_start: "gateway_run D F verbose G0 [] G0"
| run_request: "gateway_run D F verbose G0 rs G \<Longrightarrow> admissible_request D F r G \<Longrightarrow>
    handle_request D F verbose logged_on r G = Some (e, report, G') \<Longrightarrow> defined_outcome e \<Longrightarrow>
    gateway_run D F verbose G0 (rs @ [r]) G'"

section \<open>Every request is served\<close>

lemma status_keeps:
  assumes ok: "gateway_ok D G" and s: "gateway_status D symbol ClOrdID G = Inr (a, G')"
  shows "gateway_ok D G'"
proof -
  let ?X = "gw_exchange G"
  have s': "on_market (?X\<lparr>xc_out := os\<rparr>) = on_market ?X" "exchange_env D (?X\<lparr>xc_out := os\<rparr>) = exchange_env D ?X"
    "registered (?X\<lparr>xc_out := os\<rparr>) = registered ?X" for os
    by (simp_all add: on_market_def exchange_env_def registered_def fun_eq_iff)
  have "gateway_ok D (G\<lparr>gw_exchange := ?X\<lparr>xc_out := os\<rparr>\<rparr>)" for os
    using ok by (simp add: gateway_ok_def exchange_agrees_def exchange_idle_def s')
  moreover have "\<exists>os. G' = G\<lparr>gw_exchange := ?X\<lparr>xc_out := os\<rparr>\<rparr>"
  proof -
    obtain X' where X': "getStatusOrder D symbol ClOrdID ?X = Inr (a, X')" "G' = G\<lparr>gw_exchange := X'\<rparr>"
      using s by (cases "getStatusOrder D symbol ClOrdID ?X") (auto simp: gateway_status_def)
    have "\<exists>os. X' = ?X\<lparr>xc_out := os\<rparr>"
    proof (cases "map_of (xc_books ?X) symbol")
      case (Some xb)
      then show ?thesis
        using X'(1) by (cases "map_of (xb_orders xb) ClOrdID")
          (auto simp: getStatusOrder_def find_existing_order_def Let_def intro: exI [of _ "xc_out ?X"])
    qed (use X'(1) in \<open>simp add: getStatusOrder_def\<close>)
    then show ?thesis using X'(2) by blast
  qed
  ultimately show ?thesis by blast
qed

lemma cancel_served:
  assumes ok: "gateway_ok D G"
  shows "cancelOrder D no_client symbol ClOrdID G = Some (Inl Invalid_iterator) \<or>
    (\<exists>answer G'. cancelOrder D no_client symbol ClOrdID G = Some (Inr (answer, G')) \<and> gateway_ok D G')"
proof (cases "map_of (xc_books (gw_exchange G)) symbol")
  case None
  then show ?thesis by (simp add: cancelOrder_def cancel_order_by_ClOrdID_def)
next
  case (Some xb)
  have A: "exchange_agrees D (gw_exchange G)"
    and dom: "dom (map_of (xc_books (gw_exchange G))) = si_symbol ` set (gw_securities G)"
    "''undefined'' \<notin> si_symbol ` set (gw_securities G)"
    using ok by (simp_all add: gateway_ok_def)
  obtain answer X' xb' where X': "cancel_order_by_ClOrdID D no_client symbol ClOrdID (gw_exchange G) = Some (Inr (answer, X'))"
    "exchange_agrees D X'" "map_of (xc_books X') = (map_of (xc_books (gw_exchange G)))(symbol \<mapsto> xb')"
    by (rule cancel_keeps [OF A Some]) (rule that)
  have "gateway_ok D (G\<lparr>gw_exchange := X'\<rparr>)"
    using X'(2,3) dom Some by (auto simp: gateway_ok_def)
  then show ?thesis using X'(1) by (simp add: cancelOrder_def)
qed

lemma request_served:
  assumes ok: "gateway_ok D G" and a: "admissible_request D F r G"
  shows "\<exists>e report G'. handle_request D F verbose logged_on r G = Some (e, report, G') \<and> gateway_ok D G'"
proof (cases r)
  case (New_order_single message)
  show ?thesis
  proof (cases "new_order_fields F message")
    case (Inl e)
    then show ?thesis using ok New_order_single by (simp add: handle_request_def onMessage_NewOrderSingle_def)
  next
    case (Inr f)
    obtain symbol side buy q price i where f: "f = (symbol, side, buy, q, price, i)" by (metis prod_cases6)
    have "process_admissible D symbol price q G" using a New_order_single Inr f by (simp add: admissible_request_def)
    from process_served [OF ok this, of verbose buy i "''''"]
    obtain answer G' where "processOrder D no_client verbose buy price q symbol i '''' G = Some (Inr (answer, G'))"
      "gateway_ok D G'" by blast
    then show ?thesis
      using New_order_single Inr f by (simp add: handle_request_def onMessage_NewOrderSingle_def Let_def)
  qed
next
  case (Order_cancel_request message)
  let ?fields = "fbind (getField message 41) (\<lambda>i. fbind (getField message 58) (\<lambda>symbol. Inr (i, symbol)))"
  show ?thesis
  proof (cases ?fields)
    case (Inl e)
    then show ?thesis using ok Order_cancel_request by (simp add: handle_request_def onMessage_OrderCancelRequest_def)
  next
    case (Inr f)
    obtain i symbol where f: "f = (i, symbol)" by fastforce
    show ?thesis
      using cancel_served [OF ok, of symbol i] ok Inr f Order_cancel_request
      by (auto simp: handle_request_def onMessage_OrderCancelRequest_def)
  qed
next
  case (Order_status_request message)
  then show ?thesis
    using ok status_keeps [OF ok]
    by (auto simp: handle_request_def onMessage_OrderStatusRequest_def split: sum.split prod.split order_struct.split)
next
  case (Stored_order stored)
  then have "process_admissible D (row_coin_code stored) (row_price stored) (row_market_amount stored) G"
    using a by (simp add: admissible_request_def)
  from process_served [OF ok this, of verbose "row_order_type stored = ''Buy''" "row_unique_order_id stored" "row_status stored"]
  obtain answer G' where "load_order D no_client verbose stored G = Some (Inr (answer, G'))" "gateway_ok D G'"
    unfolding load_order_def by blast
  then show ?thesis using Stored_order by (simp add: handle_request_def)
qed

lemma run_ok: "gateway_run D F verbose G0 rs G \<Longrightarrow> gateway_ok D G0 \<Longrightarrow> gateway_ok D G"
proof (induction rule: gateway_run.induct)
  case (run_request rs G r logged_on e report G')
  then show ?case using request_served [of D G F r verbose logged_on] by auto
qed simp

lemma fields_defined: "new_order_fields F message = Inl e \<Longrightarrow> defined_outcome (Some e)"
proof -
  have g: "getField m t = Inl e \<Longrightarrow> defined_outcome (Some e)" "char_value t s = Inl e \<Longrightarrow> defined_outcome (Some e)"
    "double_value F t s = Inl e \<Longrightarrow> defined_outcome (Some e)" for m t s and F :: "'a fix_ops" and e
    by (auto simp: getField_def char_value_def double_value_def split: option.splits if_splits)
  have b: "fbind m f = Inl e \<Longrightarrow> (m = Inl e \<Longrightarrow> P) \<Longrightarrow> (\<And>x. f x = Inl e \<Longrightarrow> P) \<Longrightarrow> P"
    for m :: "fix_exn + 'b" and f :: "'b \<Rightarrow> fix_exn + 'c" and e P
    by (cases m) auto
  show "new_order_fields F message = Inl e \<Longrightarrow> defined_outcome (Some e)"
    unfolding new_order_fields_def
    by (elim b; (simp only: g | (auto split: if_splits elim!: b dest: g)[1]))
qed

section \<open>What the outside world is told\<close>

lemma program_ok: "gateway_run D F verbose (start_gateway store l feed zero) rs G \<Longrightarrow> gateway_ok D G"
  by (erule run_ok) (rule start_ok)







text \<open>
  C30. A new order is answered with one report, and the report tells whether it was taken: in
  every state the program can be in, an order the engine is meant for is taken exactly when its
  symbol is traded and its client id is new to the symbol. It is then registered, and nothing else
  is, and its status can be asked for. Every refusal is reported as an order already added, also
  that of an unknown symbol.
\<close>

theorem new_order_answered:
  assumes run: "gateway_run D F verbose (start_gateway store l feed zero) rs G"
    and fields: "new_order_fields F message = Inr (symbol, side, buy, orderQty, price, ClOrdID)"
    and fits: "process_admissible D symbol price orderQty G"
  defines "sec \<equiv> c_string symbol"
  defines "taken \<equiv> sec \<in> si_symbol ` set (gw_securities G) \<and> \<not> has_order G sec ClOrdID"
  shows "\<exists>G'. onMessage_NewOrderSingle D F no_client verbose True message G =
      Some (None, Some (if taken then report_of F ''1'' ''0'' side orderQty price ClOrdID symbol None
        else report_of F ''1'' ''6'' side orderQty price ClOrdID symbol
          (Some (''Order with clOrdID='' @ ClOrdID @ '' already added''))), G') \<and>
    (\<forall>s i. has_order G' s i \<longleftrightarrow> has_order G s i \<or> taken \<and> s = sec \<and> i = ClOrdID) \<and>
    (taken \<longrightarrow> (\<forall>m. m 11 = Some ClOrdID \<longrightarrow> m 526 = Some sec \<longrightarrow>
       (\<exists>r. onMessage_OrderStatusRequest D F True m G' = (None, Some r, G'))))"
proof -
  have ok: "gateway_ok D G" by (rule program_ok [OF run])
  let ?answer = "if sec \<notin> si_symbol ` set (gw_securities G) then ''!found''
    else if has_order G sec ClOrdID then ''false'' else ''true''"
  obtain G' where G': "processOrder D no_client verbose buy price orderQty symbol ClOrdID '''' G = Some (Inr (?answer, G'))"
    "\<forall>s i. has_order G' s i \<longleftrightarrow> has_order G s i \<or> taken \<and> s = sec \<and> i = ClOrdID"
    "taken \<longrightarrow> (\<exists>a. gateway_status D sec ClOrdID G' = Inr (a, G') \<and> (\<forall>i. a \<noteq> No_order i))"
  proof (rule process_keeps [OF ok fits, of verbose buy ClOrdID "''''"], fold sec_def)
    fix G'
    assume p: "processOrder D no_client verbose buy price orderQty symbol ClOrdID '''' G = Some (Inr (?answer, G'))"
      and h: "\<forall>s i. has_order G' s i \<longleftrightarrow>
        has_order G s i \<or> sec \<in> si_symbol ` set (gw_securities G) \<and> s = sec \<and> i = ClOrdID"
      and st: "sec \<in> si_symbol ` set (gw_securities G) \<and> \<not> has_order G sec ClOrdID \<and> '''' = '''' \<longrightarrow>
        (\<exists>a. gateway_status D sec ClOrdID G' = Inr (a, G') \<and> (\<forall>i. a \<noteq> No_order i))"
    have "\<forall>s i. has_order G' s i \<longleftrightarrow> has_order G s i \<or> taken \<and> s = sec \<and> i = ClOrdID"
      using h unfolding taken_def by blast
    moreover have "taken \<longrightarrow> (\<exists>a. gateway_status D sec ClOrdID G' = Inr (a, G') \<and> (\<forall>i. a \<noteq> No_order i))"
      using st unfolding taken_def by blast
    ultimately show thesis by (rule that [OF p])
  qed
  have t: "?answer = ''true'' \<longleftrightarrow> taken" by (simp add: taken_def)
  have "\<exists>r. onMessage_OrderStatusRequest D F True m G' = (None, Some r, G')"
    if h: "taken" "m 11 = Some ClOrdID" "m 526 = Some sec" for m
  proof -
    have "sec \<noteq> ''undefined''" using ok h(1) unfolding gateway_ok_def taken_def by metis
    moreover obtain a where "gateway_status D sec ClOrdID G' = Inr (a, G')" "\<forall>i. a \<noteq> No_order i"
      using G'(3) h(1) by blast
    ultimately show ?thesis
      using h(2,3) by (cases a) (simp_all add: onMessage_OrderStatusRequest_def getField_def)
  qed
  then show ?thesis
    using G'(1,2) fields
    by (intro exI [of _ G'] conjI) (simp_all add: onMessage_NewOrderSingle_def Let_def t)
qed

text \<open>
  The requests with undefined behaviour: a cancel request for a symbol that is not traded, and a
  status request for an order that is not known, or that is known and has no state.
\<close>

definition has_state :: "('d, 'l) gateway \<Rightarrow> string \<Rightarrow> string \<Rightarrow> bool" where
  "has_state G symbol ClOrdID =
     (case map_of (xc_books (gw_exchange G)) symbol of
        None \<Rightarrow> False
      | Some xb \<Rightarrow>
          (case map_of (xb_orders xb) ClOrdID of
             None \<Rightarrow> False | Some p \<Rightarrow> fo_history (xc_store (gw_exchange G) p) \<noteq> []))"

definition undefined_request :: "'d gateway_request \<Rightarrow> ('d, 'l) gateway \<Rightarrow> bool" where
  "undefined_request r G =
     (case r of
        Order_cancel_request message \<Rightarrow>
          (case (message 41, message 58) of
             (Some ClOrdID, Some symbol) \<Rightarrow> \<not> find_security symbol (gw_securities G) | _ \<Rightarrow> False)
      | Order_status_request message \<Rightarrow>
          (case (message 11, message 526) of
             (Some ClOrdID, Some symbol) \<Rightarrow> symbol \<noteq> ''undefined'' \<and> \<not> has_state G symbol ClOrdID | _ \<Rightarrow> False)
      | _ \<Rightarrow> False)"

lemma cancel_defined:
  assumes ok: "gateway_ok D G"
    and h: "handle_request D F verbose logged_on (Order_cancel_request message) G = Some (e, report, G')"
  shows "defined_outcome e \<longleftrightarrow> \<not> undefined_request (Order_cancel_request message) G"
proof (cases "message 41 = None \<or> message 58 = None")
  case True
  then show ?thesis
    using h by (auto simp: handle_request_def onMessage_OrderCancelRequest_def getField_def undefined_request_def
        split: option.splits)
next
  case False
  then obtain i symbol where m: "message 41 = Some i" "message 58 = Some symbol" by auto
  have dom: "symbol \<in> dom (map_of (xc_books (gw_exchange G))) \<longleftrightarrow> find_security symbol (gw_securities G)"
    using ok by (simp add: gateway_ok_def find_security_iff)
  have u: "cancelOrder D no_client symbol i G = Some (Inl Invalid_iterator)" if "\<not> find_security symbol (gw_securities G)"
    using that dom by (auto simp: cancelOrder_def cancel_order_by_ClOrdID_def dom_def)
  have d: "\<exists>answer G'. cancelOrder D no_client symbol i G = Some (Inr (answer, G'))" if "find_security symbol (gw_securities G)"
  proof -
    obtain xb where b: "map_of (xc_books (gw_exchange G)) symbol = Some xb"
      using domD [OF iffD2 [OF dom]] \<open>find_security symbol (gw_securities G)\<close> by blast
    have "exchange_agrees D (gw_exchange G)" using ok by (simp add: gateway_ok_def)
    then show ?thesis by (rule cancel_keeps [OF _ b, of D i]) (simp add: cancelOrder_def)
  qed
  have "e = (if find_security symbol (gw_securities G) then None else Some (Program Invalid_iterator))"
    using h m u d by (auto simp: handle_request_def onMessage_OrderCancelRequest_def getField_def split: if_splits)
  then show ?thesis using m by (simp add: undefined_request_def)
qed

lemma status_defined:
  assumes h: "handle_request D F verbose logged_on (Order_status_request message) G = Some (e, report, G')"
  shows "defined_outcome e \<longleftrightarrow> \<not> undefined_request (Order_status_request message) G"
proof (cases "message 11 = None \<or> message 526 = None")
  case True
  then show ?thesis
    using h by (auto simp: handle_request_def onMessage_OrderStatusRequest_def getField_def undefined_request_def
        split: option.splits)
next
  case False
  then obtain i symbol where m: "message 11 = Some i" "message 526 = Some symbol" by auto
  show ?thesis
    using h m
    by (auto simp: handle_request_def onMessage_OrderStatusRequest_def getField_def undefined_request_def has_state_def
        gateway_status_def getStatusOrder_def find_existing_order_def getStringState_def fo_currentState_def Let_def
        split: option.splits if_splits)
qed

lemma stored_order_defined:
  assumes ok: "gateway_ok D G" and a: "admissible_request D F (Stored_order stored) G"
    and h: "handle_request D F verbose logged_on (Stored_order stored) G = Some (e, report, G')"
  shows "defined_outcome e"
proof -
  have "process_admissible D (row_coin_code stored) (row_price stored) (row_market_amount stored) G"
    using a by (simp add: admissible_request_def)
  from process_served [OF ok this, of verbose "row_order_type stored = ''Buy''" "row_unique_order_id stored" "row_status stored"]
  show ?thesis using h by (auto simp: handle_request_def load_order_def)
qed

lemma new_order_defined:
  assumes ok: "gateway_ok D G" and a: "admissible_request D F (New_order_single message) G"
    and h: "handle_request D F verbose logged_on (New_order_single message) G = Some (e, report, G')"
  shows "defined_outcome e"
proof (cases "new_order_fields F message")
  case (Inl x)
  then show ?thesis using h fields_defined [OF Inl] by (simp add: handle_request_def onMessage_NewOrderSingle_def)
next
  case (Inr f)
  obtain symbol side buy q price i where f: "f = (symbol, side, buy, q, price, i)" by (metis prod_cases6)
  have "process_admissible D symbol price q G" using a Inr f by (simp add: admissible_request_def)
  from process_served [OF ok this, of verbose buy i "''''"]
  show ?thesis using h Inr f by (auto simp: handle_request_def onMessage_NewOrderSingle_def Let_def)
qed

lemma outcome_defined:
  assumes ok: "gateway_ok D G" and a: "admissible_request D F r G"
    and h: "handle_request D F verbose logged_on r G = Some (e, report, G')"
  shows "defined_outcome e \<longleftrightarrow> \<not> undefined_request r G"
proof (cases r)
  case (New_order_single m)
  then show ?thesis using new_order_defined [OF ok] a h by (auto simp add: undefined_request_def)
next
  case (Order_cancel_request m)
  then show ?thesis using cancel_defined [OF ok] h by blast
next
  case (Order_status_request m)
  then show ?thesis using status_defined h by blast
next
  case (Stored_order m)
  then show ?thesis using stored_order_defined [OF ok] a h by (auto simp add: undefined_request_def)
qed

text \<open>
  C28. An admissible request always returns. Its behaviour is undefined exactly if it cancels for a
  symbol that is not traded, or asks for the status of an order that is unknown or has no state;
  after any other one the program goes on. A new or stored order is admissible if its numbers fit
  32 bits and its book. An exception of quickfix is a defined outcome. An order has no state when
  it was stored with a status the class does not know and has not been filled since.
\<close>

theorem requests_are_served:
  assumes run: "gateway_run D F verbose (start_gateway store l feed zero) rs G"
    and a: "admissible_request D F r G"
  shows "\<exists>e report G'. handle_request D F verbose logged_on r G = Some (e, report, G') \<and>
    (defined_outcome e \<longleftrightarrow> \<not> undefined_request r G) \<and>
    (\<not> undefined_request r G \<longrightarrow> gateway_run D F verbose (start_gateway store l feed zero) (rs @ [r]) G')"
proof -
  obtain e report G' where h: "handle_request D F verbose logged_on r G = Some (e, report, G')"
    using request_served [OF program_ok [OF run] a] by blast
  note d = outcome_defined [OF program_ok [OF run] a h]
  then show ?thesis using h run_request [OF run a h] by blast
qed


section \<open>A run to apply the properties to\<close>

definition decimal_fix :: "int fix_ops" where
  "decimal_fix = \<lparr>fx_double = (\<lambda>s. if s = [] \<or> \<not> list_all is_digit s then None else Some (int (number s))),
     fx_of_int = (\<lambda>n. n)\<rparr>"

text \<open>The message of a buy order of some quantity at 10.\<close>

definition buy_message :: "string \<Rightarrow> fix_message" where
  "buy_message qty = map_of [(11, ''7''), (55, ''ETH''), (54, ''1''), (38, qty), (44, ''10''), (40, ''2'')]"

definition status_message :: fix_message where
  "status_message = map_of [(11, ''7''), (526, ''ETH'')]"

definition first_gateway :: "(int, unit) gateway" where
  "first_gateway = start_gateway (\<lambda>i. FeedOrder False True 0 0 [] []) () 0 0"

lemma buy_fields:
  "double_value decimal_fix 38 qty = Inr q \<Longrightarrow>
     new_order_fields decimal_fix (buy_message qty) = Inr (''ETH'', ''1'', True, q, 10, ''7'')"
  by (simp add: new_order_fields_def buy_message_def getField_def char_value_def)
    (simp add: double_value_def decimal_fix_def is_digit_def code_def number_def digit_value_def)

lemma first_symbol: "c_string ''ETH'' = ''ETH''"
  by (simp add: c_string_def code_def)

lemma sample_word:
  fixes q :: int
  assumes "0 < q" "q < 2 ^ 32"
  shows "word_of_int q \<noteq> (0 :: 32 word)" "unat (word_of_int q :: 32 word) < 2 ^ 32"
  using assms unsigned_less [of "word_of_int q :: 32 word"] by (simp_all add: word_of_int_eq_0_iff zdvd_not_zless)

lemma first_admissible:
  assumes "0 < q" "q < 2 ^ 32"
  shows "process_admissible cents ''ETH'' 10 q first_gateway"
proof -
  have "book_qty (xb_book xb) = 0" if "map_of (xc_books (gw_exchange first_gateway)) s = Some xb" for s xb
    using start_blank [OF that [unfolded first_gateway_def]] by (simp add: blank_book_def)
  then show ?thesis
    unfolding process_admissible_def first_symbol using sample_word [OF assms] assms
    by (auto simp: price_and_quantity_fit_def cents_def split: option.split)
qed

text \<open>A negative quantity has no conversion; a request with it is not admissible.\<close>

lemma negative_inadmissible: "\<not> process_admissible cents ''ETH'' 10 (- 1) first_gateway"
proof -
  have "''ETH'' \<in> dom (map_of (xc_books (gw_exchange first_gateway)))"
    using start_ok [of cents "\<lambda>i. FeedOrder False True 0 0 [] []" "()" 0 0]
    unfolding gateway_ok_def first_gateway_def by (elim conjE) (simp only:, simp add: start_gateway_def traded_securities_def)
  then show ?thesis
    by (auto simp: process_admissible_def price_and_quantity_fit_def cents_def c_string_def code_def)
qed

lemma first_traded: "''ETH'' \<in> si_symbol ` set (gw_securities first_gateway)" "\<not> has_order first_gateway ''ETH'' ''7''"
proof -
  show "''ETH'' \<in> si_symbol ` set (gw_securities first_gateway)"
    by (simp add: first_gateway_def start_gateway_def traded_securities_def)
  have "xb_orders xb = []" if "map_of (xc_books (gw_exchange first_gateway)) s = Some xb" for s xb
    using start_blank [OF that [unfolded first_gateway_def]] by (simp add: blank_book_def)
  then show "\<not> has_order first_gateway ''ETH'' ''7''" by (simp add: has_order_def split: option.split)
qed

lemma sample_quantities:
  "double_value decimal_fix 38 ''5'' = Inr 5" "double_value decimal_fix 38 ''3000000000'' = Inr 3000000000"
  by (simp_all add: double_value_def decimal_fix_def is_digit_def code_def number_def digit_value_def)

theorem new_order_answered_witness:
  "\<exists>G' r. onMessage_NewOrderSingle cents decimal_fix no_client (\<lambda>p. False) True (buy_message ''5'') first_gateway =
      Some (None, Some (report_of decimal_fix ''1'' ''0'' ''1'' 5 10 ''7'' ''ETH'' None), G') \<and>
    has_order G' ''ETH'' ''7'' \<and>
    onMessage_OrderStatusRequest cents decimal_fix True status_message G' = (None, Some r, G')"
proof -
  have m: "status_message 11 = Some ''7''" "status_message 526 = Some ''ETH''" by (simp_all add: status_message_def)
  show ?thesis
    using new_order_answered [OF run_start [of cents decimal_fix "\<lambda>p. False", of first_gateway, unfolded first_gateway_def]
        buy_fields [OF sample_quantities(1)] first_admissible [of 5, unfolded first_gateway_def], folded first_gateway_def] first_traded first_symbol m
    by auto
qed


text \<open>A buy order at 10 rests in the empty book.\<close>

lemma first_enqueue:
  assumes v: "env p = \<lparr>o_is_buy = True, o_price = pr, o_stop_price = 0, o_order_qty = q, o_all_or_none = False,
      o_immediate_or_cancel = False\<rparr>"
    and z: "q \<noteq> 0" "pr \<noteq> 0"
    and e: "add_enqueue env p oc_no_conditions (set_trade_listener l (OrderBook s)) = Inr (m, b')"
  shows "ob_bids b' = [\<lparr>nd_id = 0, nd_key = ComparablePrice True pr, nd_val = OrderTracker env p oc_no_conditions\<rparr>]"
  using z e
  by (auto simp: add_enqueue_def v set_trade_listener_def OrderBook_def Let_def submit_order_def add_order_def
      match_order_def match_regular_order_def match_start_def match_finish_def insert_bid_def new_node_def
      submit_until_empty.simps push_callback_def)

lemma first_book:
  "map_of (xc_books (gw_exchange first_gateway)) ''ETH'' =
     Some ((ExampleOrderBook ''ETH'')\<lparr>xb_depth := set_depth_listener (Some 0) (DepthOrderBook 5),
       xb_book := set_trade_listener (Some 0) (OrderBook ''unknown'')\<rparr>)"
  by (simp add: first_gateway_def start_gateway_def populate_exchange_def traded_securities_def Exchange_def
      add_order_book_def om_put_def ExampleOrderBook_def Let_def)

lemma first_ok: "gateway_ok cents first_gateway"
  unfolding first_gateway_def by (rule start_ok)

lemma first_order_rests:
  assumes q: "0 < q" "q < 2 ^ 32"
  obtains G xb p t where
    "processOrder cents no_client (\<lambda>p. False) True 10 q ''ETH'' ''7'' '''' first_gateway = Some (Inr (''true'', G))"
    "gw_securities G = gw_securities first_gateway"
    "map_of (xc_books (gw_exchange G)) ''ETH'' = Some xb" "map_of (xb_orders xb) ''7'' = Some p"
    "fo_history (xc_store (gw_exchange G) p) \<noteq> []"
    "t \<in># sides_of (xb_book xb) True" "tk_order t = p" "tk_open_qty t = word_of_int q"
proof -
  let ?X = "gw_exchange first_gateway" and ?b = "set_trade_listener (Some 0) (OrderBook ''unknown'')"
  have A: "exchange_agrees cents ?X"
    using first_ok by (simp add: gateway_ok_def)
  obtain p X1 where n: "new_order (\<lambda>p. False) True 10 (word_of_int q) ''7'' '''' ?X = (p, X1)" by fastforce
  note N = new_order_agrees [OF A n]
  obtain xb where b: "map_of (xc_books X1) ''ETH'' = Some xb" "xb_book xb = ?b" "xb_orders xb = []"
    using first_book N(2) by (simp add: ExampleOrderBook_def)
  have dq: "dbl_to_quantity cents q = Some (word_of_int q)" using q by (simp add: cents_def)
  note w = sample_word [OF q]
  have z: "book_qty ?b = 0" by (simp add: set_trade_listener_def OrderBook_def book_qty_def stop_mset_def)
  have x: "fo_qty (xc_store X1 p) = word_of_int q" "fo_price (xc_store X1 p) = 10" "fo_status (xc_store X1 p) = ''''"
    "fo_ClOrdID (xc_store X1 p) = ''7''" "fo_book_price cents (xc_store X1 p) = 1000"
    by (simp_all add: N(4) FeedOrder_def fo_book_price_def cents_def)
  have v: "exchange_env cents X1 p = \<lparr>o_is_buy = True, o_price = 1000, o_stop_price = 0, o_order_qty = word_of_int q,
      o_all_or_none = False, o_immediate_or_cancel = False\<rparr>"
    by (simp add: exchange_env_def feed_view_def x) (simp add: N(4) FeedOrder_def Order_default_stop_price_def
        Order_default_all_or_none_def Order_default_immediate_or_cancel_def)
  have pre: "fo_qty (xc_store X1 p) \<noteq> 0"
    "ob_marketPrice (xb_book xb) \<noteq> 0 \<or> fo_book_price cents (xc_store X1 p) \<noteq> 0"
    "book_qty (xb_book xb) + unat (fo_qty (xc_store X1 p)) < 2 ^ 32"
    "dbl_scaled cents (fo_price (xc_store X1 p)) \<noteq> None" "fo_ClOrdID (xc_store X1 p) \<notin> dom (map_of (xb_orders xb))"
    using w z b(2,3) by (simp_all add: x) (simp add: cents_def)
  obtain X' and s' :: "(int, unit) example_world system" where
    X': "exchange_add_order cents no_client ''ETH'' p X1 = Some (Inr (True, X'))"
    "map_of (xc_books X') = (map_of (xc_books X1))(''ETH'' \<mapsto> xb\<lparr>xb_book := sys_book s',
       xb_orders := om_insert (<) (fo_ClOrdID (xc_store X1 p)) p (xb_orders xb)\<rparr>)"
    "fo_status (xc_store X1 p) = '''' \<longrightarrow> fo_history (xc_store X' p) \<noteq> []"
    "add_performed cents p oc_no_conditions (example_start xb X1) s'"
    by (rule exchange_add_new [OF exchange_agreesD(1) [OF N(1)] b(1) pre]) (rule that)
  obtain m b' where "add_enqueue (exchange_env cents X1) p oc_no_conditions ?b = Inr (m, b')"
    "sys_book s' = b'\<lparr>ob_callbacks := []\<rparr>"
    using X'(4) b(2) unfolding add_performed_def by auto
  then have bids: "ob_bids (sys_book s') = [\<lparr>nd_id = 0, nd_key = ComparablePrice True 1000,
      nd_val = OrderTracker (exchange_env cents X1) p oc_no_conditions\<rparr>]"
    using first_enqueue [where env = "exchange_env cents X1" and p = p, OF v w(1)] by simp
  have "processOrder cents no_client (\<lambda>p. False) True 10 q ''ETH'' ''7'' '''' first_gateway =
      Some (Inr (''true'', first_gateway\<lparr>gw_exchange := X'\<rparr>))"
    unfolding processOrder_def Let_def first_symbol
    by (simp only: dq option.case find_security_iff first_traded n case_prod_conv not_True_eq_False if_False X'(1)) simp
  then show thesis
    by (rule that [where t = "OrderTracker (exchange_env cents X1) p oc_no_conditions" and p = p
          and xb = "xb\<lparr>xb_book := sys_book s', xb_orders := [(''7'', p)]\<rparr>"])
      (use X'(2,3) b(3) bids v in \<open>simp_all add: x sides_of_def\<close>)
qed

text \<open>The run of the first order.\<close>

lemma first_run:
  assumes f: "double_value decimal_fix 38 qty = Inr q" "0 < q" "q < 2 ^ 32"
  obtains G xb p t where
    "gateway_run cents decimal_fix (\<lambda>p. False) first_gateway [New_order_single (buy_message qty)] G"
    "gw_securities G = gw_securities first_gateway"
    "map_of (xc_books (gw_exchange G)) ''ETH'' = Some xb" "map_of (xb_orders xb) ''7'' = Some p"
    "fo_history (xc_store (gw_exchange G) p) \<noteq> []"
    "t \<in># sides_of (xb_book xb) True" "tk_order t = p" "tk_open_qty t = word_of_int q"
proof -
  obtain G xb p t where
    G: "processOrder cents no_client (\<lambda>p. False) True 10 q ''ETH'' ''7'' '''' first_gateway = Some (Inr (''true'', G))"
    "gw_securities G = gw_securities first_gateway"
    "map_of (xc_books (gw_exchange G)) ''ETH'' = Some xb" "map_of (xb_orders xb) ''7'' = Some p"
    "fo_history (xc_store (gw_exchange G) p) \<noteq> []"
    "t \<in># sides_of (xb_book xb) True" "tk_order t = p" "tk_open_qty t = word_of_int q"
    by (rule first_order_rests [OF f(2,3)])
  have h: "handle_request cents decimal_fix (\<lambda>p. False) True (New_order_single (buy_message qty)) first_gateway =
      Some (None, Some (report_of decimal_fix ''1'' ''0'' ''1'' q 10 ''7'' ''ETH'' None), G)"
    by (simp add: handle_request_def onMessage_NewOrderSingle_def buy_fields [OF f(1)] G(1))
  have "admissible_request cents decimal_fix (New_order_single (buy_message qty)) first_gateway"
    by (simp add: admissible_request_def buy_fields [OF f(1)] first_admissible [OF f(2,3)])
  from run_request [OF run_start this h]
  have "gateway_run cents decimal_fix (\<lambda>p. False) first_gateway [New_order_single (buy_message qty)] G" by simp
  then show thesis by (rule that [OF _ G(2-8)])
qed

text \<open>
  The first new order is served, and so is a cancel request after it; one for a symbol that is
  not traded is undefined.
\<close>

definition cancel_message :: "string \<Rightarrow> fix_message" where
  "cancel_message symbol = map_of [(41, ''7''), (58, symbol)]"

theorem requests_are_served_witness:
  "\<exists>G e1 report1 G1 e2 report2 G2.
     gateway_run cents decimal_fix (\<lambda>p. False) first_gateway [New_order_single (buy_message ''5'')] G \<and>
     handle_request cents decimal_fix (\<lambda>p. False) True (Order_cancel_request (cancel_message ''ETH'')) G =
       Some (e1, report1, G1) \<and>
     gateway_run cents decimal_fix (\<lambda>p. False) first_gateway
       [New_order_single (buy_message ''5''), Order_cancel_request (cancel_message ''ETH'')] G1 \<and>
     handle_request cents decimal_fix (\<lambda>p. False) True (Order_cancel_request (cancel_message ''BTC'')) G =
       Some (e2, report2, G2) \<and> \<not> defined_outcome e2"
proof -
  obtain G where run: "gateway_run cents decimal_fix (\<lambda>p. False) first_gateway [New_order_single (buy_message ''5'')] G"
    and s: "gw_securities G = gw_securities first_gateway"
    by (rule first_run [OF sample_quantities(1)]) auto
  have a: "admissible_request cents decimal_fix (Order_cancel_request m) G" for m
    by (simp add: admissible_request_def)
  note R = requests_are_served [OF run [unfolded first_gateway_def] a, of True, folded first_gateway_def]
  have u: "\<not> undefined_request (Order_cancel_request (cancel_message ''ETH'')) G"
    "undefined_request (Order_cancel_request (cancel_message ''BTC'')) G"
    by (simp_all add: undefined_request_def cancel_message_def s first_gateway_def start_gateway_def traded_securities_def)
  show ?thesis
    using run R [of "cancel_message ''ETH''"] R [of "cancel_message ''BTC''"] u by (elim exE) auto
qed



end
